(* ===== verification/C_Prelude.thy ===== *)
theory C_Prelude
  imports Main "HOL-Library.Word"
begin

text \<open>
  The prelude of the development: the machine types of the C sources, a monad for C code
  with explicit state, run-time faults and divergence, one loop combinator with its rules,
  and two predicate transformers in which the component proofs are carried out.

  A program of type \<open>('s, 'a) prog\<close> maps a state to \<open>None\<close> (it does not return), to
  \<open>Some (Inl f)\<close> (it stops with the fault \<open>f\<close>: an assertion, a division by zero or an
  access outside an object, for which C gives no meaning) or to \<open>Some (Inr (x, s'))\<close>
  (it returns \<open>x\<close> in the state \<open>s'\<close>).
\<close>

unbundle bit_operations_syntax

section \<open>Machine types\<close>

type_synonym byte = "8 word"
type_synonym u16 = "16 word"
type_synonym u32 = "32 word"

text \<open>Signed C integers are kept as the same 32-bit patterns, read with \<open>sint\<close>.\<close>

type_synonym s32 = "32 word"

section \<open>Programs\<close>

datatype fault =
    DivByZero \<comment> \<open>integer division or remainder by zero\<close>
  | OutOfBounds \<comment> \<open>access outside an array or past the end of a string\<close>
  | AssertFailed \<comment> \<open>\<open>assert\<close> stopped the process\<close>
  | NullPointer \<comment> \<open>access through the null pointer\<close>
  | Uninitialised \<comment> \<open>read of a byte that was never written\<close>
  | Panic \<comment> \<open>\<open>panic\<close> stopped the service\<close>

type_synonym ('s, 'a) prog = "'s \<Rightarrow> (fault + 'a \<times> 's) option"

definition ret :: "'a \<Rightarrow> ('s, 'a) prog" where
  "ret x = (\<lambda>s. Some (Inr (x, s)))"

definition raise :: "fault \<Rightarrow> ('s, 'a) prog" where
  "raise f = (\<lambda>s. Some (Inl f))"

definition bnd :: "('s, 'a) prog \<Rightarrow> ('a \<Rightarrow> ('s, 'b) prog) \<Rightarrow> ('s, 'b) prog" where
  "bnd m k = (\<lambda>s. case m s of
      None \<Rightarrow> None
    | Some r \<Rightarrow> (case r of Inl f \<Rightarrow> Some (Inl f) | Inr p \<Rightarrow> k (fst p) (snd p)))"

definition andthen :: "('s, 'a) prog \<Rightarrow> ('s, 'b) prog \<Rightarrow> ('s, 'b) prog" where
  "andthen m n = bnd m (\<lambda>_. n)"

definition gets :: "('s \<Rightarrow> 'a) \<Rightarrow> ('s, 'a) prog" where
  "gets f = (\<lambda>s. Some (Inr (f s, s)))"

definition modify :: "('s \<Rightarrow> 's) \<Rightarrow> ('s, unit) prog" where
  "modify f = (\<lambda>s. Some (Inr ((), f s)))"

text \<open>\<open>check\<close> is a condition the code relies on; where it fails the process stops.\<close>

definition check :: "fault \<Rightarrow> bool \<Rightarrow> ('s, unit) prog" where
  "check f b = (if b then ret () else raise f)"

text \<open>
  \<open>loop_m body x\<close> runs the body on the loop variables \<open>x\<close>: \<open>Inl x'\<close> continues with the
  variables \<open>x'\<close>, \<open>Inr r\<close> leaves the loop with the result \<open>r\<close>. A loop that never leaves
  has the value \<open>None\<close>.
\<close>

partial_function (option) loop_m ::
  "('x \<Rightarrow> ('s, 'x + 'r) prog) \<Rightarrow> 'x \<Rightarrow> 's \<Rightarrow> (fault + 'r \<times> 's) option" where
  [code]: "loop_m body x s = (case body x s of
      None \<Rightarrow> None
    | Some r \<Rightarrow> (case r of
        Inl f \<Rightarrow> Some (Inl f)
      | Inr p \<Rightarrow> (case fst p of
          Inl x' \<Rightarrow> loop_m body x' (snd p)
        | Inr y \<Rightarrow> Some (Inr (y, snd p)))))"

lemmas prog_defs = ret_def raise_def bnd_def andthen_def gets_def modify_def check_def

section \<open>Predicate transformers\<close>

text \<open>
  \<open>wp m Q s\<close>: from \<open>s\<close> the program returns without a fault, with a result and a state
  that satisfy \<open>Q\<close>. \<open>wlp m Q s\<close>: if it returns, then with a result and state in \<open>Q\<close>.
\<close>

definition wp :: "('s, 'a) prog \<Rightarrow> ('a \<Rightarrow> 's \<Rightarrow> bool) \<Rightarrow> 's \<Rightarrow> bool" where
  "wp m Q s \<longleftrightarrow> (\<exists>x t. m s = Some (Inr (x, t)) \<and> Q x t)"

definition wlp :: "('s, 'a) prog \<Rightarrow> ('a \<Rightarrow> 's \<Rightarrow> bool) \<Rightarrow> 's \<Rightarrow> bool" where
  "wlp m Q s \<longleftrightarrow> (\<forall>x t. m s = Some (Inr (x, t)) \<longrightarrow> Q x t)"

named_theorems wp_simps \<open>the transformers on the primitives of the monad\<close>

lemma wp_ret [wp_simps]:
  "wp (ret x) Q = (\<lambda>s. Q x s)"
  by (rule ext) (simp add: wp_def ret_def)

lemma wlp_ret [wp_simps]:
  "wlp (ret x) Q = (\<lambda>s. Q x s)"
  by (rule ext) (simp add: wlp_def ret_def)

lemma wp_raise [wp_simps]:
  "wp (raise f) Q = (\<lambda>s. False)"
  by (rule ext) (simp add: wp_def raise_def)

lemma wlp_raise [wp_simps]:
  "wlp (raise f) Q = (\<lambda>s. True)"
  by (rule ext) (simp add: wlp_def raise_def)

lemma wp_bnd [wp_simps]:
  "wp (bnd m k) Q = (\<lambda>s. wp m (\<lambda>x. wp (k x) Q) s)"
  by (rule ext) (auto simp: wp_def bnd_def split: option.splits sum.splits)

lemma wlp_bnd [wp_simps]:
  "wlp (bnd m k) Q = (\<lambda>s. wlp m (\<lambda>x. wlp (k x) Q) s)"
  by (rule ext) (auto simp: wlp_def bnd_def split: option.splits sum.splits)

lemma wp_andthen [wp_simps]:
  "wp (andthen m n) Q = (\<lambda>s. wp m (\<lambda>_. wp n Q) s)"
  by (rule ext) (simp add: andthen_def wp_bnd)

lemma wlp_andthen [wp_simps]:
  "wlp (andthen m n) Q = (\<lambda>s. wlp m (\<lambda>_. wlp n Q) s)"
  by (rule ext) (simp add: andthen_def wlp_bnd)

lemma wp_gets [wp_simps]:
  "wp (gets f) Q = (\<lambda>s. Q (f s) s)"
  by (rule ext) (simp add: wp_def gets_def)

lemma wlp_gets [wp_simps]:
  "wlp (gets f) Q = (\<lambda>s. Q (f s) s)"
  by (rule ext) (simp add: wlp_def gets_def)

lemma wp_modify [wp_simps]:
  "wp (modify f) Q = (\<lambda>s. Q () (f s))"
  by (rule ext) (simp add: wp_def modify_def)

lemma wlp_modify [wp_simps]:
  "wlp (modify f) Q = (\<lambda>s. Q () (f s))"
  by (rule ext) (simp add: wlp_def modify_def)

lemma wp_check [wp_simps]:
  "wp (check f b) Q = (\<lambda>s. (b \<and> Q () s))"
  by (rule ext) (simp add: check_def wp_ret wp_raise)

lemma wlp_check [wp_simps]:
  "wlp (check f b) Q = (\<lambda>s. (b \<longrightarrow> Q () s))"
  by (rule ext) (simp add: check_def wlp_ret wlp_raise)

lemma wp_if [wp_simps]:
  "wp (if b then m else n) Q = (\<lambda>s. (if b then wp m Q s else wp n Q s))"
  by (rule ext) simp

lemma wlp_if [wp_simps]:
  "wlp (if b then m else n) Q = (\<lambda>s. (if b then wlp m Q s else wlp n Q s))"
  by (rule ext) simp

lemma wp_mono: "wp m P s \<Longrightarrow> (\<And>x t. P x t \<Longrightarrow> Q x t) \<Longrightarrow> wp m Q s"
  by (auto simp: wp_def)

lemma wlp_mono: "wlp m P s \<Longrightarrow> (\<And>x t. P x t \<Longrightarrow> Q x t) \<Longrightarrow> wlp m Q s"
  by (auto simp: wlp_def)

lemma wp_wlp: "wp m P s \<Longrightarrow> wlp m P s"
  by (auto simp: wp_def wlp_def)

lemma wp_conj_wlp: "wp m P s \<Longrightarrow> wlp m Q s \<Longrightarrow> wp m (\<lambda>x t. P x t \<and> Q x t) s"
  by (auto simp: wp_def wlp_def)

lemma wlp_conj: "wlp m (\<lambda>x t. P x t \<and> Q x t) s = (wlp m P s \<and> wlp m Q s)"
  by (auto simp: wlp_def)

lemma wlp_True [simp]: "wlp m (\<lambda>x t. True) = (\<lambda>s. True)"
  by (rule ext) (simp add: wlp_def)

lemma wpD: "wp m Q s \<Longrightarrow> \<exists>x t. m s = Some (Inr (x, t)) \<and> Q x t"
  by (simp add: wp_def)

lemma wp_returned: "m s = Some (Inr (x, t)) \<Longrightarrow> wp m Q s = Q x t"
  by (simp add: wp_def)

lemma wlpD: "wlp m Q s \<Longrightarrow> m s = Some (Inr (x, t)) \<Longrightarrow> Q x t"
  by (simp add: wlp_def)

lemma wlpI: "(\<And>x t. m s = Some (Inr (x, t)) \<Longrightarrow> Q x t) \<Longrightarrow> wlp m Q s"
  by (simp add: wlp_def)

subsection \<open>Loops\<close>

lemma wp_loop_unfold:
  "wp (loop_m body x) Q s = wp (body x) (\<lambda>y t. case y of Inl x' \<Rightarrow> wp (loop_m body x') Q t | Inr r \<Rightarrow> Q r t) s"
  by (subst wp_def, subst loop_m.simps)
     (auto simp: wp_def split: option.splits sum.splits)

text \<open>Total correctness: an invariant and a measure that every further turn decreases.\<close>

lemma wp_loop:
  assumes step: "\<And>x s. I x s \<Longrightarrow>
      wp (body x) (\<lambda>y t. case y of Inl x' \<Rightarrow> I x' t \<and> (\<mu> x' t :: nat) < \<mu> x s | Inr r \<Rightarrow> Q r t) s"
    and init: "I x s"
  shows "wp (loop_m body x) Q s"
  using init
proof (induction "\<mu> x s" arbitrary: x s rule: less_induct)
  case less
  from step [OF less.prems] show ?case
    by (subst wp_loop_unfold, rule wp_mono) (auto split: sum.splits intro: less.hyps)
qed

text \<open>Partial correctness: an invariant that every turn keeps.\<close>

lemma wlp_loop:
  assumes step: "\<And>x s. I x s \<Longrightarrow>
      wlp (body x) (\<lambda>y t. case y of Inl x' \<Rightarrow> I x' t | Inr r \<Rightarrow> Q r t) s"
    and init: "I x s"
  shows "wlp (loop_m body x) Q s"
proof (rule wlpI)
  fix r t
  assume returned: "loop_m body x s = Some (Inr (r, t))"
  let ?P = "\<lambda>body' x s (res :: fault + 'c \<times> 'b). body' = body \<longrightarrow> I x s \<longrightarrow> (\<forall>r t. res = Inr (r, t) \<longrightarrow> Q r t)"
  have "?P body x s (Inr (r, t))"
  proof (rule loop_m.raw_induct [of ?P "((body, x), s)" "Inr (r, t)", unfolded case_prod_conv, OF _ returned])
    fix lp :: "('a \<Rightarrow> ('b, 'a + 'c) prog) \<Rightarrow> 'a \<Rightarrow> 'b \<Rightarrow> (fault + 'c \<times> 'b) option"
      and body' x s res
    assume IH: "\<And>body' x s res. lp body' x s = Some res \<Longrightarrow> ?P body' x s res"
      and eq: "(case body' x s of None \<Rightarrow> None
        | Some r \<Rightarrow> (case r of Inl f \<Rightarrow> Some (Inl f)
          | Inr p \<Rightarrow> (case fst p of Inl x' \<Rightarrow> lp body' x' (snd p)
            | Inr y \<Rightarrow> Some (Inr (y, snd p))))) = Some res"
    show "?P body' x s res"
    proof (intro impI allI)
      fix r t
      assume b: "body' = body" and i: "I x s" and res: "res = Inr (r, t)"
      from step [OF i] eq b res show "Q r t"
        by (auto simp: wlp_def split: option.splits sum.splits dest!: IH)
    qed
  qed
  with init show "Q r t" by simp
qed

text \<open>The loop with a counter that a C \<open>for\<close> statement gives: \<open>n\<close> turns of \<open>f\<close>.\<close>

primrec repeat_m :: "nat \<Rightarrow> ('s, unit) prog \<Rightarrow> ('s, unit) prog" where
  "repeat_m 0 m = ret ()"
| "repeat_m (Suc n) m = andthen m (repeat_m n m)"

text \<open>The loop over the indices of a table: the body on each index in turn.\<close>

primrec for_m :: "'i list \<Rightarrow> ('i \<Rightarrow> ('s, unit) prog) \<Rightarrow> ('s, unit) prog" where
  "for_m [] f = ret ()"
| "for_m (i # is) f = andthen (f i) (for_m is f)"

lemma for_m_append: "wp (for_m (is @ js) f) Q = wp (for_m is f) (\<lambda>_. wp (for_m js f) Q)"
  by (induction "is") (simp_all add: wp_simps)

lemma wlp_for_append: "wlp (for_m (is @ js) f) Q = wlp (for_m is f) (\<lambda>_. wlp (for_m js f) Q)"
  by (induction "is") (simp_all add: wp_simps)

lemma wp_for:
  assumes "\<And>k s. k < n \<Longrightarrow> I k s \<Longrightarrow> wp (f k) (\<lambda>_. I (Suc k)) s" and "I 0 s"
  shows "wp (for_m [0..<n] f) (\<lambda>_. I n) s"
  using assms
proof (induction n)
  case (Suc n)
  have "wp (for_m [0..<n] f) (\<lambda>_. I n) s" by (rule Suc.IH) (use Suc.prems in auto)
  then show ?case
    unfolding upt_Suc_append [OF le0] for_m_append
    by (rule wp_mono) (use Suc.prems(1) [of n] in \<open>simp add: wp_simps\<close>)
qed (simp add: wp_simps)

lemma wlp_for:
  assumes "\<And>k s. k < n \<Longrightarrow> I k s \<Longrightarrow> wlp (f k) (\<lambda>_. I (Suc k)) s" and "I 0 s"
  shows "wlp (for_m [0..<n] f) (\<lambda>_. I n) s"
  using assms
proof (induction n)
  case (Suc n)
  have "wlp (for_m [0..<n] f) (\<lambda>_. I n) s" by (rule Suc.IH) (use Suc.prems in auto)
  then show ?case
    unfolding upt_Suc_append [OF le0] wlp_for_append
    by (rule wlp_mono) (use Suc.prems(1) [of n] in \<open>simp add: wp_simps\<close>)
qed (simp add: wp_simps)

section \<open>Frames\<close>

text \<open>
  \<open>keeps f m\<close>: whenever \<open>m\<close> returns, the part \<open>f\<close> of the state is what it was. The rules go
  over the structure of a program; \<open>keeps_ops\<close> collects the operations of the components.
\<close>

definition keeps :: "('s \<Rightarrow> 'f) \<Rightarrow> ('s, 'a) prog \<Rightarrow> bool" where
  "keeps f m \<longleftrightarrow> (\<forall>s. wlp m (\<lambda>_ t. f t = f s) s)"

named_theorems keeps_intros \<open>frame rules for the combinators\<close>
named_theorems keeps_ops \<open>frame rules for the operations of the components\<close>

lemma keepsD: "keeps f m \<Longrightarrow> wlp m (\<lambda>_ t. f t = f s) s"
  by (simp add: keeps_def)

lemma keeps_ret [keeps_intros]: "keeps f (ret x)"
  by (simp add: keeps_def wp_simps)

lemma keeps_raise [keeps_intros]: "keeps f (raise x)"
  by (simp add: keeps_def wp_simps)

lemma keeps_gets [keeps_intros]: "keeps f (gets g)"
  by (simp add: keeps_def wp_simps)

lemma keeps_check [keeps_intros]: "keeps f (check e b)"
  by (simp add: keeps_def wp_simps)

lemma keeps_modify: "(\<And>s. f (g s) = f s) \<Longrightarrow> keeps f (modify g)"
  by (simp add: keeps_def wp_simps)

lemma keeps_bnd [keeps_intros]: "keeps f m \<Longrightarrow> (\<And>x. keeps f (k x)) \<Longrightarrow> keeps f (bnd m k)"
  unfolding keeps_def wlp_bnd
proof
  fix s
  assume m: "\<forall>s. wlp m (\<lambda>_ t. f t = f s) s" and k: "\<And>x. \<forall>s. wlp (k x) (\<lambda>_ t. f t = f s) s"
  show "wlp m (\<lambda>x. wlp (k x) (\<lambda>_ t. f t = f s)) s"
    by (rule wlp_mono [OF m [rule_format]]) (metis k)
qed

lemma keeps_andthen [keeps_intros]: "keeps f m \<Longrightarrow> keeps f n \<Longrightarrow> keeps f (andthen m n)"
  by (simp add: andthen_def keeps_bnd)

lemma keeps_if [keeps_intros]: "keeps f m \<Longrightarrow> keeps f n \<Longrightarrow> keeps f (if b then m else n)"
  by simp

lemma keeps_option [keeps_intros]:
  "keeps f m \<Longrightarrow> (\<And>x. keeps f (k x)) \<Longrightarrow> keeps f (case y of None \<Rightarrow> m | Some x \<Rightarrow> k x)"
  by (cases y) auto

lemma keeps_loop [keeps_intros]:
  assumes "\<And>x. keeps f (body x)"
  shows "keeps f (loop_m body x)"
  unfolding keeps_def
proof
  fix s
  show "wlp (loop_m body x) (\<lambda>_ t. f t = f s) s"
  proof (rule wlp_loop [where I = "\<lambda>_ t. f t = f s"])
    fix y t
    assume "f t = f s"
    then show "wlp (body y) (\<lambda>z u. case z of Inl x' \<Rightarrow> f u = f s | Inr r \<Rightarrow> f u = f s) t"
      using assms [of y] by (auto simp: keeps_def wlp_def split: sum.splits)
  qed simp
qed

lemma keeps_repeat [keeps_intros]: "keeps f m \<Longrightarrow> keeps f (repeat_m n m)"
  by (induction n) (simp_all add: keeps_ret keeps_andthen)

lemma keeps_for [keeps_intros]: "(\<And>i. keeps f (g i)) \<Longrightarrow> keeps f (for_m is g)"
  by (induction "is") (simp_all add: keeps_ret keeps_andthen)

lemma wlp_keeps:
  "keeps f m \<Longrightarrow> wlp m Q s \<Longrightarrow> wlp m (\<lambda>x t. Q x t \<and> f t = f s) s"
  by (simp add: wlp_conj keepsD)

lemma wp_keeps:
  "keeps f m \<Longrightarrow> wp m Q s \<Longrightarrow> wp m (\<lambda>x t. Q x t \<and> f t = f s) s"
  by (rule wp_conj_wlp) (auto dest: keepsD)

text \<open>A weakest precondition with the frame: what remains is to use both facts.\<close>

lemma wlp_frame:
  "keeps f m \<Longrightarrow> wlp m P s \<Longrightarrow> (\<And>x t. P x t \<Longrightarrow> f t = f s \<Longrightarrow> Q x t) \<Longrightarrow> wlp m Q s"
  by (rule wlp_mono [OF wlp_keeps]) auto

lemma wp_frame:
  "keeps f m \<Longrightarrow> wp m P s \<Longrightarrow> (\<And>x t. P x t \<Longrightarrow> f t = f s \<Longrightarrow> Q x t) \<Longrightarrow> wp m Q s"
  by (rule wp_mono [OF wp_keeps]) auto

lemma wlp_keeps_only: "keeps f m \<Longrightarrow> (\<And>x t. f t = f s \<Longrightarrow> Q x t) \<Longrightarrow> wlp m Q s"
  by (rule wlp_mono [OF keepsD]) auto

lemma keeps_weaken:
  assumes "keeps f m" and "\<And>s t. f t = f s \<Longrightarrow> g t = g s"
  shows "keeps g m"
  unfolding keeps_def
proof
  fix s
  show "wlp m (\<lambda>_ t. g t = g s) s"
    by (rule wlp_mono [OF keepsD [OF assms(1)]]) (rule assms(2))
qed

section \<open>Invariants\<close>

text \<open>\<open>preserves I m\<close>: from a state in \<open>I\<close> the program returns, if at all, in a state in \<open>I\<close>.\<close>

definition preserves :: "('s \<Rightarrow> bool) \<Rightarrow> ('s, 'a) prog \<Rightarrow> bool" where
  "preserves I m \<longleftrightarrow> (\<forall>s. I s \<longrightarrow> wlp m (\<lambda>_. I) s)"

named_theorems preserves_intros \<open>invariant rules for the combinators\<close>

lemma preservesD: "preserves I m \<Longrightarrow> I s \<Longrightarrow> wlp m (\<lambda>_. I) s"
  by (simp add: preserves_def)

lemma preserves_keeps:
  assumes "keeps f m" and "\<And>s t. f t = f s \<Longrightarrow> I s \<Longrightarrow> I t"
  shows "preserves I m"
  unfolding preserves_def
proof (intro allI impI)
  fix s
  assume "I s"
  then show "wlp m (\<lambda>_. I) s"
    by (intro wlp_mono [OF keepsD [OF assms(1)]]) (rule assms(2))
qed

lemma preserves_ret [preserves_intros]: "preserves I (ret x)"
  by (simp add: preserves_def wp_simps)

lemma preserves_raise [preserves_intros]: "preserves I (raise x)"
  by (simp add: preserves_def wp_simps)

lemma preserves_gets [preserves_intros]: "preserves I (gets g)"
  by (simp add: preserves_def wp_simps)

lemma preserves_check [preserves_intros]: "preserves I (check e b)"
  by (simp add: preserves_def wp_simps)

lemma preserves_modify: "(\<And>s. I s \<Longrightarrow> I (g s)) \<Longrightarrow> preserves I (modify g)"
  by (simp add: preserves_def wp_simps)

lemma preserves_bnd [preserves_intros]:
  "preserves I m \<Longrightarrow> (\<And>x. preserves I (k x)) \<Longrightarrow> preserves I (bnd m k)"
  unfolding preserves_def wlp_bnd by (blast intro: wlp_mono)

text \<open>What is known of every result of the first program may be used for the second.\<close>

lemma preserves_bnd_result:
  assumes "preserves I m" and "\<And>s. wlp m (\<lambda>x _. P x) s" and "\<And>x. P x \<Longrightarrow> preserves I (k x)"
  shows "preserves I (bnd m k)"
  unfolding preserves_def wlp_bnd
proof (intro allI impI)
  fix s
  assume "I s"
  then have "wlp m (\<lambda>x t. P x \<and> I t) s" using assms(1,2) by (simp add: wlp_conj preserves_def)
  then show "wlp m (\<lambda>x. wlp (k x) (\<lambda>_. I)) s"
    by (rule wlp_mono) (use assms(3) in \<open>auto simp: preserves_def\<close>)
qed

lemma preserves_andthen [preserves_intros]:
  "preserves I m \<Longrightarrow> preserves I n \<Longrightarrow> preserves I (andthen m n)"
  by (simp add: andthen_def preserves_bnd)

lemma preserves_check_then: "(b \<Longrightarrow> preserves I m) \<Longrightarrow> preserves I (andthen (check f b) m)"
  by (simp add: preserves_def wp_simps)

lemma preserves_if [preserves_intros]:
  "preserves I m \<Longrightarrow> preserves I n \<Longrightarrow> preserves I (if b then m else n)"
  by simp

lemma preserves_cond:
  "(b \<Longrightarrow> preserves I m) \<Longrightarrow> (\<not> b \<Longrightarrow> preserves I n) \<Longrightarrow> preserves I (if b then m else n)"
  by simp

lemma preserves_sum [preserves_intros]:
  "(\<And>e. preserves I (m e)) \<Longrightarrow> (\<And>x. preserves I (k x)) \<Longrightarrow>
   preserves I (case y of Inl e \<Rightarrow> m e | Inr x \<Rightarrow> k x)"
  by (cases y) auto

lemma preserves_option [preserves_intros]:
  "preserves I m \<Longrightarrow> (\<And>x. preserves I (k x)) \<Longrightarrow>
   preserves I (case y of None \<Rightarrow> m | Some x \<Rightarrow> k x)"
  by (cases y) auto

lemma preserves_loop [preserves_intros]:
  assumes "\<And>x. preserves I (body x)"
  shows "preserves I (loop_m body x)"
  unfolding preserves_def
proof (intro allI impI)
  fix s
  assume "I s"
  then show "wlp (loop_m body x) (\<lambda>_. I) s"
  proof (rule wlp_loop [where I = "\<lambda>_. I", rotated])
    fix y t
    assume "I t"
    then show "wlp (body y) (\<lambda>z u. case z of Inl x' \<Rightarrow> I u | Inr r \<Rightarrow> I u) t"
      using assms [of y] by (auto simp: preserves_def wlp_def split: sum.splits)
  qed
qed

lemma preserves_repeat [preserves_intros]: "preserves I m \<Longrightarrow> preserves I (repeat_m n m)"
  by (induction n) (simp_all add: preserves_ret preserves_andthen)

lemma preserves_for [preserves_intros]: "(\<And>i. preserves I (g i)) \<Longrightarrow> preserves I (for_m is g)"
  by (induction "is") (simp_all add: preserves_ret preserves_andthen)

end
