(* ===== verification/C_Lib.thy ===== *)
theory C_Lib
  imports C_Prelude
begin

text \<open>
  What the server uses of the C library and of the memory layout of C data: little-endian
  loads and stores, character arrays with the string functions on them, and the conversions
  of \<open>printf\<close>.

  A character array is the list of its initialised bytes. The string functions stop with
  \<open>OutOfBounds\<close> where C would read past the end of the source or write past the capacity of
  the destination.
\<close>

section \<open>Little-endian memory\<close>

definition le16 :: "byte list \<Rightarrow> nat \<Rightarrow> u16" where
  "le16 bs i = (ucast (bs ! i) OR push_bit 8 (ucast (bs ! (i + 1))))"

definition le32 :: "byte list \<Rightarrow> nat \<Rightarrow> u32" where
  "le32 bs i = (ucast (bs ! i) OR push_bit 8 (ucast (bs ! (i + 1)))
     OR push_bit 16 (ucast (bs ! (i + 2))) OR push_bit 24 (ucast (bs ! (i + 3))))"

definition bytes16 :: "u16 \<Rightarrow> byte list" where
  "bytes16 w = [ucast w, ucast (drop_bit 8 w)]"

definition bytes32 :: "u32 \<Rightarrow> byte list" where
  "bytes32 w = [ucast w, ucast (drop_bit 8 w), ucast (drop_bit 16 w), ucast (drop_bit 24 w)]"

text \<open>\<open>n\<close> bytes from \<open>off\<close>, and the overwriting of a run of bytes.\<close>

definition slice :: "nat \<Rightarrow> nat \<Rightarrow> 'a list \<Rightarrow> 'a list" where
  "slice off n bs = take n (drop off bs)"

definition overwrite :: "nat \<Rightarrow> 'a list \<Rightarrow> 'a list \<Rightarrow> 'a list" where
  "overwrite off xs bs = take off bs @ xs @ drop (off + length xs) bs"

lemma length_slice: "off + n \<le> length bs \<Longrightarrow> length (slice off n bs) = n"
  by (simp add: slice_def)

lemma nth_slice: "i < n \<Longrightarrow> off + i < length bs \<Longrightarrow> slice off n bs ! i = bs ! (off + i)"
  by (simp add: slice_def)

lemma length_overwrite [simp]:
  "off + length xs \<le> length bs \<Longrightarrow> length (overwrite off xs bs) = length bs"
  by (simp add: overwrite_def)

lemma nth_overwrite:
  "off + length xs \<le> length bs \<Longrightarrow> i < length bs \<Longrightarrow>
   overwrite off xs bs ! i = (if off \<le> i \<and> i < off + length xs then xs ! (i - off) else bs ! i)"
  by (auto simp: overwrite_def nth_append)

lemma length_bytes [simp]: "length (bytes16 v) = 2" "length (bytes32 w) = 4"
  by (simp_all add: bytes16_def bytes32_def)

lemma le16_bytes16 [simp]: "le16 (bytes16 w @ rest) 0 = w"
  unfolding le16_def bytes16_def
  by (rule bit_word_eqI) (auto simp: bit_simps)

lemma le32_bytes32 [simp]: "le32 (bytes32 w @ rest) 0 = w"
proof (rule bit_word_eqI)
  fix n :: nat
  assume "n < LENGTH(32)"
  then consider "n < 8" | "8 \<le> n \<and> n < 16" | "16 \<le> n \<and> n < 24" | "24 \<le> n \<and> n < 32"
    by fastforce
  then show "bit (le32 (bytes32 w @ rest) 0) n = bit w n"
    by cases (auto simp: le32_def bytes32_def bit_simps)
qed

lemma le16_drop: "i + 1 < length bs \<Longrightarrow> le16 bs i = le16 (drop i bs) 0"
  by (simp add: le16_def)

lemma le32_drop: "i + 3 < length bs \<Longrightarrow> le32 bs i = le32 (drop i bs) 0"
  by (simp add: le32_def)

lemma le16_append: "length xs = i \<Longrightarrow> le16 (xs @ bytes16 w @ rest) i = w"
  using le16_drop [of i "xs @ bytes16 w @ rest"] by simp

lemma le32_append: "length xs = i \<Longrightarrow> le32 (xs @ bytes32 w @ rest) i = w"
  using le32_drop [of i "xs @ bytes32 w @ rest"] by simp

lemma le32_overwrite:
  "i + 4 \<le> length bs \<Longrightarrow> le32 (overwrite i (bytes32 w) bs) i = w"
  using le32_append [of "take i bs" i w] by (simp add: overwrite_def)

lemma le32_slice:
  "off + n \<le> length bs \<Longrightarrow> i + 3 < n \<Longrightarrow> le32 (slice off n bs) i = le32 bs (off + i)"
  by (simp add: le32_def nth_slice add.assoc)

lemma le16_slice:
  "off + n \<le> length bs \<Longrightarrow> i + 1 < n \<Longrightarrow> le16 (slice off n bs) i = le16 bs (off + i)"
  by (simp add: le16_def nth_slice)

text \<open>Fields of a packed structure, found by walking over the fields before them.\<close>

named_theorems layout_simps \<open>loads from a concatenation of encoded fields\<close>

lemma le16_skip [layout_simps]: "length xs \<le> i \<Longrightarrow> le16 (xs @ ys) i = le16 ys (i - length xs)"
  by (simp add: le16_def nth_append Suc_diff_le)

lemma le32_skip [layout_simps]: "length xs \<le> i \<Longrightarrow> le32 (xs @ ys) i = le32 ys (i - length xs)"
  by (simp add: le32_def nth_append Suc_diff_le)

lemma le_skip_Cons [layout_simps]:
  "0 < i \<Longrightarrow> le16 (x # xs) i = le16 xs (i - 1)" "0 < i \<Longrightarrow> le32 (x # xs) i = le32 xs (i - 1)"
  using le16_skip [of "[x]" i xs] le32_skip [of "[x]" i xs] by simp_all

lemma le_last [layout_simps]: "le16 (bytes16 v) 0 = v" "le32 (bytes32 w) 0 = w"
  using le16_bytes16 [of v "[]"] le32_bytes32 [of w "[]"] by simp_all

lemma slice_skip [layout_simps]: "length xs \<le> i \<Longrightarrow> slice i n (xs @ ys) = slice (i - length xs) n ys"
  by (simp add: slice_def)

lemma slice_skip_Cons [layout_simps]: "0 < i \<Longrightarrow> slice i n (x # xs) = slice (i - 1) n xs"
  by (cases i) (simp_all add: slice_def)

lemma slice_here [layout_simps]: "length xs = n \<Longrightarrow> slice 0 n (xs @ ys) = xs"
  by (simp add: slice_def)

lemma slice_last [layout_simps]: "length xs = n \<Longrightarrow> slice 0 n xs = xs"
  by (simp add: slice_def)

lemmas nth_layout [layout_simps] = nth_append nth_Cons'

section \<open>Character arrays\<close>

definition string_of :: "byte list \<Rightarrow> string" where
  "string_of bs = map (\<lambda>b. char_of (unat b)) bs"

definition bytes_of :: "string \<Rightarrow> byte list" where
  "bytes_of s = map (\<lambda>c. of_nat (of_char c)) s"

text \<open>The string held by an array: the bytes before the first zero.\<close>

definition cstr :: "byte list \<Rightarrow> byte list" where
  "cstr bs = takeWhile (\<lambda>b. b \<noteq> 0) bs"

abbreviation terminated :: "byte list \<Rightarrow> bool" where
  "terminated bs \<equiv> 0 \<in> set bs"

definition strlen :: "byte list \<Rightarrow> ('s, nat) prog" where
  "strlen bs = andthen (check OutOfBounds (terminated bs)) (ret (length (cstr bs)))"

text \<open>\<open>strcmp(a, b) == 0\<close>.\<close>

definition streq :: "byte list \<Rightarrow> byte list \<Rightarrow> ('s, bool) prog" where
  "streq a b = andthen (check OutOfBounds (terminated a \<and> terminated b)) (ret (cstr a = cstr b))"

definition strcpy :: "nat \<Rightarrow> byte list \<Rightarrow> byte list \<Rightarrow> ('s, byte list) prog" where
  "strcpy cap dst src =
     andthen (check OutOfBounds (terminated src \<and> length (cstr src) < cap))
       (ret (overwrite 0 (cstr src @ [0]) dst))"

definition strcat :: "nat \<Rightarrow> byte list \<Rightarrow> byte list \<Rightarrow> ('s, byte list) prog" where
  "strcat cap dst src =
     andthen (check OutOfBounds (terminated dst \<and> terminated src
         \<and> length (cstr dst) + length (cstr src) < cap))
       (ret (overwrite (length (cstr dst)) (cstr src @ [0]) dst))"

text \<open>\<open>strncpy\<close> stops at a zero and pads with zeros up to \<open>n\<close>.\<close>

definition strncpy :: "byte list \<Rightarrow> byte list \<Rightarrow> nat \<Rightarrow> byte list" where
  "strncpy dst src n =
     (let t = take n (cstr src) in overwrite 0 (t @ replicate (n - length t) 0) dst)"

lemma cstr_append_zero [simp]: "0 \<notin> set xs \<Longrightarrow> cstr (xs @ 0 # rest) = xs"
  by (auto simp: cstr_def takeWhile_append)

lemma cstr_no_zero [simp]: "0 \<notin> set (cstr bs)"
  by (auto simp: cstr_def dest: set_takeWhileD)

lemma cstr_zero_Cons [simp]: "cstr (0 # bs) = []"
  by (simp add: cstr_def)

lemma length_cstr_le: "length (cstr bs) \<le> length bs"
  by (simp add: cstr_def length_takeWhile_le)

lemma length_cstr_less: "terminated bs \<Longrightarrow> length (cstr bs) < length bs"
  by (induction bs) (auto simp: cstr_def)

lemma take_length_cstr [simp]: "take (length (cstr bs)) bs = cstr bs"
  unfolding cstr_def by (rule takeWhile_eq_take [symmetric])

lemma cstr_strcpy [simp]: "cstr (overwrite 0 (cstr src @ [0]) dst) = cstr src"
  by (simp add: overwrite_def)

lemma cstr_strcat [simp]:
  "cstr (overwrite (length (cstr dst)) (cstr src @ [0]) dst) = cstr dst @ cstr src"
  using cstr_append_zero [of "cstr dst @ cstr src"] by (simp add: overwrite_def)

lemma terminated_overwrite [simp]: "terminated (overwrite n (xs @ [0]) dst)"
  by (simp add: overwrite_def)

lemma wp_strlen [wp_simps]:
  "wp (strlen bs) Q = (\<lambda>s. (terminated bs \<and> Q (length (cstr bs)) s))"
  by (rule ext) (simp add: strlen_def wp_simps)

lemma wlp_strlen [wp_simps]:
  "wlp (strlen bs) Q = (\<lambda>s. (terminated bs \<longrightarrow> Q (length (cstr bs)) s))"
  by (rule ext) (simp add: strlen_def wp_simps)

lemma wp_streq [wp_simps]:
  "wp (streq a b) Q = (\<lambda>s. (terminated a \<and> terminated b \<and> Q (cstr a = cstr b) s))"
  by (rule ext) (simp add: streq_def wp_simps)

lemma wlp_streq [wp_simps]:
  "wlp (streq a b) Q = (\<lambda>s. (terminated a \<and> terminated b \<longrightarrow> Q (cstr a = cstr b) s))"
  by (rule ext) (simp add: streq_def wp_simps)

lemma wp_strcpy [wp_simps]:
  "wp (strcpy cap dst src) Q = (\<lambda>s. terminated src \<and> length (cstr src) < cap
     \<and> Q (overwrite 0 (cstr src @ [0]) dst) s)"
  by (rule ext) (simp add: strcpy_def wp_simps)

lemma wlp_strcpy [wp_simps]:
  "wlp (strcpy cap dst src) Q = (\<lambda>s. terminated src \<and> length (cstr src) < cap
     \<longrightarrow> Q (overwrite 0 (cstr src @ [0]) dst) s)"
  by (rule ext) (simp add: strcpy_def wp_simps)

lemma wp_strcat [wp_simps]:
  "wp (strcat cap dst src) Q = (\<lambda>s. terminated dst \<and> terminated src
     \<and> length (cstr dst) + length (cstr src) < cap
     \<and> Q (overwrite (length (cstr dst)) (cstr src @ [0]) dst) s)"
  by (rule ext) (simp add: strcat_def wp_simps)

lemma wlp_strcat [wp_simps]:
  "wlp (strcat cap dst src) Q = (\<lambda>s. terminated dst \<and> terminated src
     \<and> length (cstr dst) + length (cstr src) < cap
     \<longrightarrow> Q (overwrite (length (cstr dst)) (cstr src @ [0]) dst) s)"
  by (rule ext) (simp add: strcat_def wp_simps)

section \<open>Conversions of printf\<close>

definition digit :: "nat \<Rightarrow> char" where
  "digit n = (if n < 10 then char_of (48 + n) else char_of (55 + n))"

fun digits :: "nat \<Rightarrow> nat \<Rightarrow> string" where
  "digits b n = (if b \<le> 1 \<or> n < b then [digit n] else digits b (n div b) @ [digit (n mod b)])"

declare digits.simps [simp del]

text \<open>\<open>%d\<close>, \<open>%02d\<close> and \<open>%X\<close>.\<close>

definition fmt_d :: "int \<Rightarrow> string" where
  "fmt_d i = (if i < 0 then CHR ''-'' # digits 10 (nat (- i)) else digits 10 (nat i))"

definition fmt_02d :: "nat \<Rightarrow> string" where
  "fmt_02d n = (let d = digits 10 n in replicate (2 - length d) (CHR ''0'') @ d)"

definition fmt_X :: "nat \<Rightarrow> string" where
  "fmt_X n = digits 16 n"

text \<open>
  Reading the decimal digits back: the conversion loses nothing.
\<close>

definition read_digits :: "string \<Rightarrow> nat" where
  "read_digits cs = foldl (\<lambda>a c. a * 10 + (of_char c - 48)) 0 cs"

lemma of_char_digit: "n < 10 \<Longrightarrow> (of_char (digit n) :: nat) = 48 + n"
  by (simp add: digit_def)

lemma read_digits_append: "read_digits (cs @ [c]) = read_digits cs * 10 + (of_char c - 48)"
  by (simp add: read_digits_def)

lemma read_digits_digits: "read_digits (digits 10 n) = n"
proof (induction n rule: less_induct)
  case (less n)
  show ?case
  proof (cases "n < 10")
    case True
    then show ?thesis
      by (subst digits.simps) (simp add: read_digits_def of_char_digit)
  next
    case False
    then have "read_digits (digits 10 (n div 10)) = n div 10"
      by (intro less.IH) simp
    with False show ?thesis
      by (subst digits.simps) (simp add: read_digits_append of_char_digit)
  qed
qed

lemma fmt_d_inj: "0 \<le> i \<Longrightarrow> 0 \<le> j \<Longrightarrow> fmt_d i = fmt_d j \<Longrightarrow> i = j"
proof -
  assume "0 \<le> i" "0 \<le> j" "fmt_d i = fmt_d j"
  moreover from this have "read_digits (digits 10 (nat i)) = read_digits (digits 10 (nat j))"
    by (simp add: fmt_d_def)
  ultimately show "i = j"
    by (simp add: read_digits_digits)
qed

end
