(* ===== verification/Minix_Base.thy ===== *)
theory Minix_Base
  imports C_Lib
begin

text \<open>
  What the MINIX servers share: the error numbers and the message numbers of
  \<open>include/minix/com.h\<close>, the search for a slot in a table, the state every server process
  has (the world behind its system calls and its console output), the allocator of the C
  library, and the chunked bit maps of \<open>include/minix/bitmap.h\<close>.
\<close>

section \<open>Numbers\<close>

text \<open>Result codes; \<open>_SYSTEM\<close> makes the error numbers negative.\<close>

definition OK :: int where [simp]: "OK = 0"
definition EPERM :: int where [simp]: "EPERM = - 1"
definition ENOENT :: int where [simp]: "ENOENT = - 2"
definition ESRCH :: int where [simp]: "ESRCH = - 3"
definition ENOMEM :: int where [simp]: "ENOMEM = - 12"
definition EFAULT :: int where [simp]: "EFAULT = - 14"
definition EBUSY :: int where [simp]: "EBUSY = - 16"
definition EEXIST :: int where [simp]: "EEXIST = - 17"
definition EINVAL :: int where [simp]: "EINVAL = - 22"
definition EAGAIN :: int where [simp]: "EAGAIN = - 35"
definition EDONTREPLY :: int where [simp]: "EDONTREPLY = - 201"

definition NOTIFY_MESSAGE :: int where [simp]: "NOTIFY_MESSAGE = 0x1000"

definition is_notify :: "int \<Rightarrow> bool" where
  "is_notify a \<longleftrightarrow> (of_int (a - NOTIFY_MESSAGE) :: u32) < 0x100"

type_synonym endpoint = s32

definition RS_PROC_NR :: endpoint where [simp]: "RS_PROC_NR = 2"
definition DS_PROC_NR :: endpoint where [simp]: "DS_PROC_NR = 6"

definition NR_SYS_PROCS :: nat where [simp]: "NR_SYS_PROCS = 64"
definition NR_BOOT_PROCS :: nat where [simp]: "NR_BOOT_PROCS = 17"

section \<open>Tables\<close>

text \<open>
  The loop \<open>for (i = 0; i < N; i++) if (cond) return &table[i]; return NULL\<close>: a pointer into a
  table is the index of the slot.
\<close>

primrec first_slot :: "('a \<Rightarrow> bool) \<Rightarrow> 'a list \<Rightarrow> nat option" where
  "first_slot P [] = None"
| "first_slot P (x # xs) = (if P x then Some 0 else map_option Suc (first_slot P xs))"

lemma first_slot_Some:
  "first_slot P xs = Some i \<longleftrightarrow> i < length xs \<and> P (xs ! i) \<and> (\<forall>j < i. \<not> P (xs ! j))"
proof (induction xs arbitrary: i)
  case (Cons x xs)
  then show ?case by (cases i) (auto simp: less_Suc_eq_0_disj)
qed simp

lemma first_slot_None: "first_slot P xs = None \<longleftrightarrow> (\<forall>i < length xs. \<not> P (xs ! i))"
  by (induction xs) (auto simp: less_Suc_eq_0_disj)

lemma first_slot_unique:
  assumes "i < length xs" and "P (xs ! i)" and "\<And>j. j < length xs \<Longrightarrow> P (xs ! j) \<Longrightarrow> j = i"
  shows "first_slot P xs = Some i"
  unfolding first_slot_Some using assms by (metis less_irrefl less_trans)

lemma first_slot_cong:
  "length xs = length ys \<Longrightarrow> (\<And>i. i < length ys \<Longrightarrow> P (xs ! i) = Q (ys ! i))
   \<Longrightarrow> first_slot P xs = first_slot Q ys"
proof (induction xs arbitrary: ys)
  case (Cons x xs)
  obtain y zs where ys: "ys = y # zs" using Cons.prems(1) by (cases ys) auto
  have "first_slot P xs = first_slot Q zs"
    by (rule Cons.IH) (use Cons.prems(1) Cons.prems(2) [of "Suc _"] ys in auto)
  with Cons.prems(2) [of 0] ys show ?case by simp
qed simp

section \<open>Processes\<close>

text \<open>
  The state of a server process begins with the world behind its system calls and with what
  it wrote to the console. \<open>os_call\<close> runs one system call, a function on the world.
\<close>

record 'w process =
  p_world :: 'w
  p_out :: string

definition os_call :: "('w \<Rightarrow> 'a \<times> 'w) \<Rightarrow> (('w, 'z) process_scheme, 'a) prog" where
  "os_call f = (\<lambda>s. Some (Inr (fst (f (p_world s)), s\<lparr>p_world := snd (f (p_world s))\<rparr>)))"

definition print :: "string \<Rightarrow> (('w, 'z) process_scheme, unit) prog" where
  "print t = modify (\<lambda>s. s\<lparr>p_out := p_out s @ t\<rparr>)"

lemma wp_os_call [wp_simps]:
  "wp (os_call f) Q = (\<lambda>s. Q (fst (f (p_world s))) (s\<lparr>p_world := snd (f (p_world s))\<rparr>))"
  by (rule ext) (simp add: wp_def os_call_def)

lemma wlp_os_call [wp_simps]:
  "wlp (os_call f) Q = (\<lambda>s. Q (fst (f (p_world s))) (s\<lparr>p_world := snd (f (p_world s))\<rparr>))"
  by (rule ext) (simp add: wlp_def os_call_def)

lemma wp_print [wp_simps]: "wp (print t) Q = (\<lambda>s. Q () (s\<lparr>p_out := p_out s @ t\<rparr>))"
  by (rule ext) (simp add: print_def wp_simps)

lemma wlp_print [wp_simps]: "wlp (print t) Q = (\<lambda>s. Q () (s\<lparr>p_out := p_out s @ t\<rparr>))"
  by (rule ext) (simp add: print_def wp_simps)

section \<open>The allocator\<close>

text \<open>
  A heap maps the address of every live block to its bytes. \<open>malloc\<close> gives the null pointer
  or the address of a block that is not live; which one, and what the fresh block holds, is
  the allocator's choice. \<open>free\<close> of an address that is neither null nor that of a live block
  has no meaning in C.
\<close>

type_synonym heap = "u32 \<Rightarrow> byte list option"

definition malloc :: "u32 \<times> (nat \<Rightarrow> byte) \<Rightarrow> nat \<Rightarrow> heap \<Rightarrow> u32 \<times> heap" where
  "malloc choice n h =
     (let p = fst choice in
      if p = 0 \<or> h p \<noteq> None then (0, h) else (p, h(p \<mapsto> map (snd choice) [0..<n])))"

definition free :: "u32 \<Rightarrow> heap \<Rightarrow> heap option" where
  "free p h = (if p = 0 then Some h else if h p = None then None else Some (h(p := None)))"

definition write_block :: "u32 \<Rightarrow> nat \<Rightarrow> byte list \<Rightarrow> heap \<Rightarrow> heap option" where
  "write_block p off bs h = (case h p of
      None \<Rightarrow> None
    | Some b \<Rightarrow> if off + length bs \<le> length b then Some (h(p \<mapsto> overwrite off bs b)) else None)"

definition read_block :: "u32 \<Rightarrow> nat \<Rightarrow> heap \<Rightarrow> byte list option" where
  "read_block p n h = (case h p of
      None \<Rightarrow> None
    | Some b \<Rightarrow> if n \<le> length b then Some (take n b) else None)"

lemma malloc_fresh: "malloc c n h = (p, h') \<Longrightarrow> p \<noteq> 0 \<Longrightarrow> h p = None \<and> (\<exists>b. length b = n \<and> h' = h(p \<mapsto> b))"
  by (auto simp: malloc_def Let_def split: if_splits intro!: exI [of _ "map (snd c) [0..<n]"])

lemma malloc_null: "malloc c n h = (0, h') \<Longrightarrow> h' = h"
  by (auto simp: malloc_def Let_def split: if_splits)

section \<open>Bit maps\<close>

text \<open>An array of 32-bit chunks. An index beyond the array has no meaning in C.\<close>

definition BITCHUNK_BITS :: nat where [simp]: "BITCHUNK_BITS = 32"

definition BITMAP_CHUNKS :: "nat \<Rightarrow> nat" where
  "BITMAP_CHUNKS nr_bits = (nr_bits + BITCHUNK_BITS - 1) div BITCHUNK_BITS"

definition GET_BIT :: "u32 list \<Rightarrow> nat \<Rightarrow> bool" where
  "GET_BIT map' b \<longleftrightarrow> map' ! (b div BITCHUNK_BITS) AND push_bit (b mod BITCHUNK_BITS) 1 \<noteq> 0"

definition SET_BIT :: "u32 list \<Rightarrow> nat \<Rightarrow> u32 list" where
  "SET_BIT map' b = map'[b div BITCHUNK_BITS := map' ! (b div BITCHUNK_BITS) OR push_bit (b mod BITCHUNK_BITS) 1]"

definition UNSET_BIT :: "u32 list \<Rightarrow> nat \<Rightarrow> u32 list" where
  "UNSET_BIT map' b = map'[b div BITCHUNK_BITS :=
     map' ! (b div BITCHUNK_BITS) AND NOT (push_bit (b mod BITCHUNK_BITS) 1)]"

text \<open>The contract of a set of bits, and what its clients use of it.\<close>

locale bit_array =
  fixes get :: "'m \<Rightarrow> nat \<Rightarrow> bool"
    and set_bit' :: "'m \<Rightarrow> nat \<Rightarrow> 'm"
    and unset_bit' :: "'m \<Rightarrow> nat \<Rightarrow> 'm"
    and clear :: "'m"
    and wf :: "'m \<Rightarrow> bool"
    and bits :: nat
  assumes get_set: "wf m \<Longrightarrow> a < bits \<Longrightarrow> b < bits \<Longrightarrow> get (set_bit' m a) b = (a = b \<or> get m b)"
    and get_unset: "wf m \<Longrightarrow> a < bits \<Longrightarrow> b < bits \<Longrightarrow> get (unset_bit' m a) b = (a \<noteq> b \<and> get m b)"
    and get_clear: "b < bits \<Longrightarrow> \<not> get clear b"
    and wf_set: "wf m \<Longrightarrow> wf (set_bit' m a)"
    and wf_unset: "wf m \<Longrightarrow> wf (unset_bit' m a)"
    and wf_clear: "wf clear"
begin

definition members :: "'m \<Rightarrow> nat set" where
  "members m = {b. b < bits \<and> get m b}"

lemma members_set: "wf m \<Longrightarrow> a < bits \<Longrightarrow> members (set_bit' m a) = insert a (members m)"
  by (auto simp: members_def get_set)

lemma members_unset: "wf m \<Longrightarrow> a < bits \<Longrightarrow> members (unset_bit' m a) = members m - {a}"
  by (auto simp: members_def get_unset)

lemma members_clear: "members clear = {}"
  by (simp add: members_def get_clear)

lemma members_first:
  assumes "first_slot (get m) [0..<bits] = Some i"
  shows "i \<in> members m \<and> (\<forall>j \<in> members m. i \<le> j)"
  using assms by (auto simp: first_slot_Some members_def not_le [symmetric])

lemma members_none: "first_slot (get m) [0..<bits] = None \<longleftrightarrow> members m = {}"
  by (auto simp: first_slot_None members_def)

end

lemma GET_BIT_bit: "GET_BIT m b = bit (m ! (b div 32)) (b mod 32)"
  by (simp add: GET_BIT_def and_exp_eq_0_iff_not_bit)

lemma div_mod_differ: "(a :: nat) div 32 = b div 32 \<Longrightarrow> a mod 32 = b mod 32 \<Longrightarrow> a = b"
  by (metis mult_div_mod_eq)

lemma bit_or_exp: "k < 32 \<Longrightarrow> bit (x OR 2 ^ k :: u32) j = (j = k \<or> bit x j)"
  by (auto simp: bit_or_iff bit_exp_iff)

lemma bit_and_not_exp: "j < 32 \<Longrightarrow> bit (x AND NOT (2 ^ k) :: u32) j = (j \<noteq> k \<and> bit x j)"
  by (auto simp: bit_and_iff bit_not_iff bit_exp_iff)

lemma nth_update: "i < length xs \<Longrightarrow> xs[i := x] ! j = (if i = j then x else xs ! j)"
  by (simp add: nth_list_update)

lemma GET_SET_BIT:
  "a div 32 < length m \<Longrightarrow> GET_BIT (SET_BIT m a) b = (a = b \<or> GET_BIT m b)"
  using div_mod_differ [of a b] unfolding GET_BIT_bit SET_BIT_def BITCHUNK_BITS_def push_bit_of_1
  by (simp add: nth_update bit_or_exp) metis

lemma GET_UNSET_BIT:
  "a div 32 < length m \<Longrightarrow> GET_BIT (UNSET_BIT m a) b = (a \<noteq> b \<and> GET_BIT m b)"
  using div_mod_differ [of a b] unfolding GET_BIT_bit UNSET_BIT_def BITCHUNK_BITS_def push_bit_of_1
  by (simp add: nth_update bit_and_not_exp) metis

lemma chunk_bound: "a < n \<Longrightarrow> a div 32 < BITMAP_CHUNKS n"
  using div_le_mono [of "a + 32" "n + 31" 32] by (simp add: BITMAP_CHUNKS_def)

interpretation chunks: bit_array GET_BIT SET_BIT UNSET_BIT
  "replicate (BITMAP_CHUNKS n) 0" "\<lambda>m. length m = BITMAP_CHUNKS n" n for n
  by unfold_locales
    (simp add: GET_SET_BIT chunk_bound, simp add: GET_UNSET_BIT chunk_bound,
      simp_all add: chunk_bound GET_BIT_bit SET_BIT_def UNSET_BIT_def)

end
