(* ===== verification/Fat32_Glo.thy ===== *)
theory Fat32_Glo
  imports Minix_Base
begin

text \<open>
  The constants, the packed structures and the global variables of the FAT32 server
  (\<open>servers/fat32s/glo.h\<close> and the heads of \<open>fat32.c\<close>, \<open>print.c\<close> and \<open>main.c\<close>), and the operating
  system interface the server calls.

  The calls \<open>open\<close>, \<open>close\<close>, \<open>lseek\<close>, \<open>read\<close>, \<open>write\<close>, \<open>malloc\<close>, \<open>sys_datacopy\<close>,
  \<open>sef_receive\<close> and \<open>ipc_send\<close> leave the server. They are the fields of a record \<open>'w posix\<close> that every operation takes as
  an argument; \<open>'w\<close> is the state of the world behind them, and the server keeps the current
  world in its state. Nothing is assumed about these functions here.
\<close>

section \<open>Constants\<close>

definition MAX_BYTES_PER_SECTOR :: nat where [simp]: "MAX_BYTES_PER_SECTOR = 4096"
definition BPB_SIZE :: nat where [simp]: "BPB_SIZE = 512"
definition DIRENTRY_SIZE :: s32 where [simp]: "DIRENTRY_SIZE = 32"
definition STACK_SIZE :: nat where [simp]: "STACK_SIZE = 128"
definition MAX_NAME_LEN :: nat where [simp]: "MAX_NAME_LEN = 512"
definition MAX_DEVICE_LABEL :: nat where [simp]: "MAX_DEVICE_LABEL = 16"

definition FAT_LO_MASK :: u32 where [simp]: "FAT_LO_MASK = 0x0FFFFFFF"
definition FAT_HI_MASK :: u32 where [simp]: "FAT_HI_MASK = 0xF0000000"
definition MAGIC :: u16 where [simp]: "MAGIC = 0xAA55"

definition DIR_TYPE_UNDEFINED :: int where [simp]: "DIR_TYPE_UNDEFINED = 0"
definition DIR_TYPE_SHORT :: int where [simp]: "DIR_TYPE_SHORT = 1"
definition DIR_TYPE_LONG :: int where [simp]: "DIR_TYPE_LONG = 2"

definition WALK_BAN_FILES :: u32 where [simp]: "WALK_BAN_FILES = 1"
definition WALK_BAN_DIRS :: u32 where [simp]: "WALK_BAN_DIRS = 2"

section \<open>Structures on the disk\<close>

text \<open>The BIOS parameter block.\<close>

record Bpb =
  jump_boot :: "byte list"
  oem_name :: "byte list"
  bytes_per_sector :: u16
  sectors_per_cluster :: byte
  num_reserved_sectors :: u16
  num_fats :: byte
  num_root_entries :: u16
  total_sectors_16 :: u16
  media :: byte
  fat_size_16 :: u16
  sectors_per_track :: u16
  num_heads :: u16
  hidden_sectors :: u32
  total_sectors_32 :: u32
  fat_size_32 :: u32
  ext_flags :: u16
  fs_version :: u16
  root_cluster :: u32
  fs_info_sector :: u16
  backup_boot_sector :: u16
  bpb_reserved :: "byte list"
  drive_number :: byte
  bs_reserved :: byte
  boot_signature :: byte
  volume_id :: u32
  volume_label :: "byte list"
  fs_type :: "byte list"

text \<open>The widths of the fields of the packed structures, in order.\<close>

definition Bpb_layout :: "nat list" where
  "Bpb_layout = [3, 8, 2, 1, 2, 1, 2, 2, 1, 2, 2, 2, 4, 4, 4, 2, 2, 4, 2, 2, 12, 1, 1, 1, 4, 11, 8]"

definition FsInfo_layout :: "nat list" where
  "FsInfo_layout = [4, 480, 4, 4, 4, 12, 4]"

definition RegDirEntry_layout :: "nat list" where
  "RegDirEntry_layout = [11, 1, 1, 1, 2, 2, 2, 2, 2, 2, 2, 4]"

definition LongDirEntry_layout :: "nat list" where
  "LongDirEntry_layout = [1, 10, 1, 1, 1, 12, 2, 4]"

text \<open>The structure that 90 bytes copied from the disk hold.\<close>

definition Bpb_of_bytes :: "byte list \<Rightarrow> Bpb" where
  "Bpb_of_bytes bs = \<lparr>
     jump_boot = slice 0 3 bs, oem_name = slice 3 8 bs, bytes_per_sector = le16 bs 11,
     sectors_per_cluster = bs ! 13, num_reserved_sectors = le16 bs 14, num_fats = bs ! 16,
     num_root_entries = le16 bs 17, total_sectors_16 = le16 bs 19, media = bs ! 21,
     fat_size_16 = le16 bs 22, sectors_per_track = le16 bs 24, num_heads = le16 bs 26,
     hidden_sectors = le32 bs 28, total_sectors_32 = le32 bs 32, fat_size_32 = le32 bs 36,
     ext_flags = le16 bs 40, fs_version = le16 bs 42, root_cluster = le32 bs 44,
     fs_info_sector = le16 bs 48, backup_boot_sector = le16 bs 50, bpb_reserved = slice 52 12 bs,
     drive_number = bs ! 64, bs_reserved = bs ! 65, boot_signature = bs ! 66,
     volume_id = le32 bs 67, volume_label = slice 71 11 bs, fs_type = slice 82 8 bs\<rparr>"

text \<open>A short-name directory entry and the 32 bytes that hold it.\<close>

record RegDirEntry =
  short_name :: "byte list"
  attributes :: byte
  nt_res :: byte
  time_created_10ms :: byte
  time_created :: u16
  date_created :: u16
  date_last_access :: u16
  first_cluster_hi :: u16
  time_last_write :: u16
  date_last_write :: u16
  first_cluster_lo :: u16
  file_size :: u32

definition RegDirEntry_of_bytes :: "byte list \<Rightarrow> RegDirEntry" where
  "RegDirEntry_of_bytes bs = \<lparr>
     short_name = slice 0 11 bs, attributes = bs ! 11, nt_res = bs ! 12,
     time_created_10ms = bs ! 13, time_created = le16 bs 14, date_created = le16 bs 16,
     date_last_access = le16 bs 18, first_cluster_hi = le16 bs 20, time_last_write = le16 bs 22,
     date_last_write = le16 bs 24, first_cluster_lo = le16 bs 26, file_size = le32 bs 28\<rparr>"

text \<open>A long-name directory entry and the 32 bytes that hold it.\<close>

record LongDirEntry =
  lng_order :: byte
  lng_name1 :: "byte list"
  lng_attributes :: byte
  lng_type :: byte
  lng_checksum :: byte
  lng_name2 :: "byte list"
  lng_first_cluster_lo :: u16
  lng_name3 :: "byte list"

definition LongDirEntry_of_bytes :: "byte list \<Rightarrow> LongDirEntry" where
  "LongDirEntry_of_bytes bs = \<lparr>
     lng_order = bs ! 0, lng_name1 = slice 1 10 bs, lng_attributes = bs ! 11,
     lng_type = bs ! 12, lng_checksum = bs ! 13, lng_name2 = slice 14 12 bs,
     lng_first_cluster_lo = le16 bs 26, lng_name3 = slice 28 4 bs\<rparr>"

section \<open>Structures in memory\<close>

text \<open>
  A directory entry in memory: its type and the union \<open>u\<close>, kept as its 32 bytes and read as
  either structure.
\<close>

record DirEntry =
  de_type :: int
  de_u :: "byte list"

abbreviation reg :: "DirEntry \<Rightarrow> RegDirEntry" where
  "reg d \<equiv> RegDirEntry_of_bytes (de_u d)"

abbreviation lng :: "DirEntry \<Rightarrow> LongDirEntry" where
  "lng d \<equiv> LongDirEntry_of_bytes (de_u d)"

record FsData =
  magic :: "byte list"
  first_data_sector :: u32
  num_data_sectors :: u32
  num_data_clusters :: u32
  buff :: "byte list"
  curr_sector :: u32

record DirBuff =
  db_de :: DirEntry
  db_sector :: s32
  db_offset :: s32

text \<open>
  The global variables. \<open>txt_buf\<close> is the array the pointer \<open>txt\<close> points to, \<open>live_txt\<close> the
  number of such arrays that were allocated and not freed, \<open>out\<close> what was printed, and
  \<open>world\<close> the state of the system outside the server.
\<close>

record 'w server =
  bpb :: Bpb
  fs_data :: FsData
  device_fd :: int
  device_label :: "byte list"
  dir_buff :: DirBuff
  stack :: "s32 list"
  sp :: int
  last_hop_sector :: s32
  last_hop_offset :: s32
  txt_buf :: "byte list"
  live_txt :: nat
  tmp :: "byte list"
  out :: string
  who_e :: int
  callnr :: int
  world :: 'w

text \<open>A request or a reply, with the fields of \<open>mess_fat32s\<close>.\<close>

record message =
  m_source :: int
  m_type :: int
  txt_loc :: u32
  txt_len :: int

text \<open>
  The calls that leave the server. \<open>px_read\<close> gives \<open>None\<close> for the error return \<open>-1\<close> and
  otherwise the bytes that were read; \<open>px_malloc\<close> tells whether the allocation succeeded;
  \<open>px_datacopy\<close> gives the status and, when it is \<open>OK\<close>, the bytes copied from the caller;
  \<open>px_receive\<close> gives the status and the message received.
\<close>

record 'w posix =
  px_open :: "byte list \<Rightarrow> 'w \<Rightarrow> int \<times> 'w"
  px_close :: "int \<Rightarrow> 'w \<Rightarrow> int \<times> 'w"
  px_lseek :: "int \<Rightarrow> int \<Rightarrow> 'w \<Rightarrow> int \<times> 'w"
  px_read :: "int \<Rightarrow> nat \<Rightarrow> 'w \<Rightarrow> byte list option \<times> 'w"
  px_write :: "int \<Rightarrow> byte list \<Rightarrow> 'w \<Rightarrow> int \<times> 'w"
  px_malloc :: "int \<Rightarrow> 'w \<Rightarrow> bool \<times> 'w"
  px_datacopy :: "int \<Rightarrow> u32 \<Rightarrow> int \<Rightarrow> 'w \<Rightarrow> (int \<times> byte list) \<times> 'w"
  px_receive :: "'w \<Rightarrow> (int \<times> message) \<times> 'w"
  px_send :: "int \<Rightarrow> message \<Rightarrow> 'w \<Rightarrow> int \<times> 'w"

type_synonym ('w, 'a) fprog = "('w server, 'a) prog"

definition sys :: "('w \<Rightarrow> 'a \<times> 'w) \<Rightarrow> ('w, 'a) fprog" where
  "sys f = (\<lambda>s. Some (Inr (fst (f (world s)), s\<lparr>world := snd (f (world s))\<rparr>)))"

definition printf :: "string \<Rightarrow> ('w, unit) fprog" where
  "printf t = modify (\<lambda>s. s\<lparr>out := out s @ t\<rparr>)"

lemma wp_sys [wp_simps]:
  "wp (sys f) Q = (\<lambda>s. Q (fst (f (world s))) (s\<lparr>world := snd (f (world s))\<rparr>))"
  by (rule ext) (simp add: wp_def sys_def)

lemma wlp_sys [wp_simps]:
  "wlp (sys f) Q = (\<lambda>s. Q (fst (f (world s))) (s\<lparr>world := snd (f (world s))\<rparr>))"
  by (rule ext) (simp add: wlp_def sys_def)

lemma wp_printf [wp_simps]:
  "wp (printf t) Q = (\<lambda>s. Q () (s\<lparr>out := out s @ t\<rparr>))"
  by (rule ext) (simp add: printf_def wp_simps)

lemma wlp_printf [wp_simps]:
  "wlp (printf t) Q = (\<lambda>s. Q () (s\<lparr>out := out s @ t\<rparr>))"
  by (rule ext) (simp add: printf_def wp_simps)

section \<open>The structures fit their bytes\<close>

text \<open>The encoder that belongs to each decoder, from the same layout.\<close>

definition bytes_of_Bpb :: "Bpb \<Rightarrow> byte list" where
  "bytes_of_Bpb b = jump_boot b @ oem_name b @ bytes16 (bytes_per_sector b)
     @ [sectors_per_cluster b] @ bytes16 (num_reserved_sectors b) @ [num_fats b]
     @ bytes16 (num_root_entries b) @ bytes16 (total_sectors_16 b) @ [media b]
     @ bytes16 (fat_size_16 b) @ bytes16 (sectors_per_track b) @ bytes16 (num_heads b)
     @ bytes32 (hidden_sectors b) @ bytes32 (total_sectors_32 b) @ bytes32 (fat_size_32 b)
     @ bytes16 (ext_flags b) @ bytes16 (fs_version b) @ bytes32 (root_cluster b)
     @ bytes16 (fs_info_sector b) @ bytes16 (backup_boot_sector b) @ bpb_reserved b
     @ [drive_number b] @ [bs_reserved b] @ [boot_signature b]
     @ bytes32 (volume_id b) @ volume_label b @ fs_type b"

definition Bpb_wf :: "Bpb \<Rightarrow> bool" where
  "Bpb_wf b \<longleftrightarrow> length (jump_boot b) = 3 \<and> length (oem_name b) = 8 \<and> length (bpb_reserved b) = 12
     \<and> length (volume_label b) = 11 \<and> length (fs_type b) = 8"

definition bytes_of_RegDirEntry :: "RegDirEntry \<Rightarrow> byte list" where
  "bytes_of_RegDirEntry r = short_name r @ [attributes r] @ [nt_res r] @ [time_created_10ms r]
     @ bytes16 (time_created r) @ bytes16 (date_created r) @ bytes16 (date_last_access r)
     @ bytes16 (first_cluster_hi r) @ bytes16 (time_last_write r) @ bytes16 (date_last_write r)
     @ bytes16 (first_cluster_lo r) @ bytes32 (file_size r)"

lemma length_bytes_of_RegDirEntry:
  "length (short_name r) = 11 \<Longrightarrow> length (bytes_of_RegDirEntry r) = sum_list RegDirEntry_layout"
  by (simp add: bytes_of_RegDirEntry_def RegDirEntry_layout_def)

lemma length_bytes_of_Bpb: "Bpb_wf b \<Longrightarrow> length (bytes_of_Bpb b) = sum_list Bpb_layout"
  by (simp add: bytes_of_Bpb_def Bpb_wf_def Bpb_layout_def)

lemma Bpb_of_bytes_of_Bpb:
  assumes "Bpb_wf b"
  shows "Bpb_of_bytes (bytes_of_Bpb b @ rest) = b"
  using assms unfolding Bpb_wf_def
  by (simp add: Bpb_of_bytes_def bytes_of_Bpb_def layout_simps)

lemma RegDirEntry_of_bytes_of_RegDirEntry:
  assumes "length (short_name r) = 11"
  shows "RegDirEntry_of_bytes (bytes_of_RegDirEntry r @ rest) = r"
  using assms by (simp add: RegDirEntry_of_bytes_def bytes_of_RegDirEntry_def layout_simps)

end
