(* ===== verification/Fat32_Util.thy ===== *)
theory Fat32_Util
  imports Fat32_Glo
begin

text \<open>
  The utilities of \<open>servers/fat32s/util.c\<close>: the arithmetic between clusters, sectors and
  entries of the file allocation table, the one-sector cache in \<open>fs_data\<close>, and the parsing
  of directory entries with their names.

  The C arithmetic is unsigned and 32 bits wide throughout, also where an \<open>int\<close> takes part,
  so it is written on words; a division by a field of the boot sector is guarded.
\<close>

section \<open>Sectors, clusters and the file allocation table\<close>

definition get_fat_sector :: "u32 \<Rightarrow> ('w, u32) fprog" where
  "get_fat_sector cluster = bnd (gets bpb) (\<lambda>b.
     andthen (check DivByZero (bytes_per_sector b \<noteq> 0))
       (ret (ucast (num_reserved_sectors b) + (cluster * 4) div ucast (bytes_per_sector b))))"

definition get_fat_offset :: "u32 \<Rightarrow> ('w, u32) fprog" where
  "get_fat_offset cluster = bnd (gets bpb) (\<lambda>b.
     andthen (check DivByZero (bytes_per_sector b \<noteq> 0))
       (ret ((cluster * 4) mod ucast (bytes_per_sector b))))"

text \<open>
  The cached sector is replaced before it is read. The seek offset is the 32-bit product.
  A short or failed read leaves the rest of the buffer as it was.
\<close>

definition load_sector :: "'w posix \<Rightarrow> u32 \<Rightarrow> ('w, u32) fprog" where
  "load_sector px sector = bnd (gets (\<lambda>s. bytes_per_sector (bpb s))) (\<lambda>bps.
     bnd (gets (\<lambda>s. curr_sector (fs_data s))) (\<lambda>c.
     if c \<noteq> sector then
       andthen (modify (\<lambda>s. s\<lparr>fs_data := (fs_data s)\<lparr>curr_sector := sector\<rparr>\<rparr>)) (
       bnd (gets device_fd) (\<lambda>fd.
       andthen (sys (px_lseek px fd (uint (sector * ucast bps)))) (
       bnd (sys (px_read px fd (unat bps))) (\<lambda>r.
       case r of None \<Rightarrow> ret (- 1)
       | Some bs \<Rightarrow>
           andthen (check OutOfBounds (length bs \<le> MAX_BYTES_PER_SECTOR)) (
           andthen (modify (\<lambda>s. s\<lparr>fs_data := (fs_data s)\<lparr>buff := overwrite 0 bs (buff (fs_data s))\<rparr>\<rparr>))
             (ret (of_nat (length bs))))))))
     else ret (ucast bps)))"

definition store_sector :: "'w posix \<Rightarrow> u32 \<Rightarrow> ('w, u32) fprog" where
  "store_sector px sector = bnd (gets (\<lambda>s. bytes_per_sector (bpb s))) (\<lambda>bps.
     bnd (gets device_fd) (\<lambda>fd.
     andthen (sys (px_lseek px fd (uint (sector * ucast bps)))) (
     andthen (check OutOfBounds (unat bps \<le> MAX_BYTES_PER_SECTOR)) (
     bnd (gets (\<lambda>s. take (unat bps) (buff (fs_data s)))) (\<lambda>bs.
     bnd (sys (px_write px fd bs)) (\<lambda>r. ret (of_int r)))))))"

definition first_sector_of_cluster :: "u32 \<Rightarrow> 'w server \<Rightarrow> u32" where
  "first_sector_of_cluster cluster s =
     first_data_sector (fs_data s) + (cluster - 2) * ucast (sectors_per_cluster (bpb s))"

definition sector_to_cluster :: "u32 \<Rightarrow> ('w, u32) fprog" where
  "sector_to_cluster sector =
     bnd (gets (\<lambda>s. sectors_per_cluster (bpb s))) (\<lambda>spc.
     bnd (gets (\<lambda>s. first_data_sector (fs_data s))) (\<lambda>fds.
     andthen (check DivByZero (spc \<noteq> 0)) (ret ((sector - fds) div ucast spc + 2))))"

definition fat_get :: "'w posix \<Rightarrow> u32 \<Rightarrow> ('w, u32) fprog" where
  "fat_get px cluster = bnd (get_fat_sector cluster) (\<lambda>sec.
     andthen (load_sector px sec) (
     bnd (get_fat_offset cluster) (\<lambda>off.
     andthen (check OutOfBounds (unat off + 4 \<le> MAX_BYTES_PER_SECTOR)) (
     gets (\<lambda>s. le32 (buff (fs_data s)) (unat off) AND FAT_LO_MASK)))))"

text \<open>
  The entry is changed in the buffer as it is, without loading the sector of the entry, and
  the value stored is \<open>cluster\<close>; the parameter \<open>target_cluster\<close> is not used.
\<close>

definition fat_set :: "'w posix \<Rightarrow> u32 \<Rightarrow> u32 \<Rightarrow> ('w, unit) fprog" where
  "fat_set px cluster target_cluster = bnd (get_fat_offset cluster) (\<lambda>off.
     andthen (check OutOfBounds (unat off + 4 \<le> MAX_BYTES_PER_SECTOR)) (
     andthen (modify (\<lambda>s. let e = le32 (buff (fs_data s)) (unat off) AND FAT_HI_MASK;
                              e' = e OR (cluster AND FAT_LO_MASK)
        in s\<lparr>fs_data := (fs_data s)\<lparr>buff := overwrite (unat off) (bytes32 e') (buff (fs_data s))\<rparr>\<rparr>)) (
     bnd (get_fat_sector cluster) (\<lambda>sec. andthen (store_sector px sec) (ret ())))))"

section \<open>Directory entries\<close>

definition get_dir_type :: "byte list \<Rightarrow> nat \<Rightarrow> int" where
  "get_dir_type bs off =
     (if bs ! (off + 11) = 0x0F \<and> bs ! (off + 12) = 0 then DIR_TYPE_LONG else DIR_TYPE_SHORT)"

text \<open>
  An entry that starts with a zero byte only sets the type; the union keeps its old bytes.
  Every call parses into the active entry of \<open>dir_buff\<close>.
\<close>

definition parse_dir :: "u32 \<Rightarrow> ('w, int) fprog" where
  "parse_dir off =
     andthen (check AssertFailed (off mod 32 = 0)) (
     andthen (check OutOfBounds (unat off + 32 \<le> MAX_BYTES_PER_SECTOR)) (
     bnd (gets (\<lambda>s. buff (fs_data s))) (\<lambda>bs.
     if bs ! unat off = 0 then
       andthen (modify (\<lambda>s. s\<lparr>dir_buff := (dir_buff s)\<lparr>db_de :=
           (db_de (dir_buff s))\<lparr>de_type := DIR_TYPE_UNDEFINED\<rparr>\<rparr>\<rparr>))
         (ret DIR_TYPE_UNDEFINED)
     else
       andthen (modify (\<lambda>s. s\<lparr>dir_buff := (dir_buff s)\<lparr>db_de :=
           \<lparr>de_type = get_dir_type bs (unat off), de_u = slice (unat off) 32 bs\<rparr>\<rparr>\<rparr>))
         (ret (get_dir_type bs (unat off))))))"

definition is_directory :: "DirEntry \<Rightarrow> bool" where
  "is_directory d \<longleftrightarrow> attributes (reg d) AND 0x10 > 0"

text \<open>Every second byte, from the first: the low bytes of 16-bit characters.\<close>

fun evens :: "'a list \<Rightarrow> 'a list" where
  "evens [] = []"
| "evens [x] = [x]"
| "evens (x # y # xs) = x # evens xs"

text \<open>
  The name of an entry, written over the array \<open>name\<close>. The test \<open>name[0] == '.'\<close> reads the
  array, so for a blank first part of a short name it reads what the array held before.
\<close>

definition get_name :: "DirEntry \<Rightarrow> byte list \<Rightarrow> ('w, int \<times> byte list) fprog" where
  "get_name d name =
     (if de_type d = DIR_TYPE_UNDEFINED then ret (0, name)
      else if de_type d = DIR_TYPE_SHORT then
        (let base = takeWhile (\<lambda>c. c \<noteq> 0x20) (take 8 (short_name (reg d)));
             name1 = overwrite 0 base name;
             ext = takeWhile (\<lambda>c. c \<noteq> 0x20) (take 3 (drop 8 (short_name (reg d))))
         in andthen (check Uninitialised (name1 \<noteq> [])) (
            if hd name1 = 0x2E then ret (0, overwrite 0 (base @ [0]) name)
            else if ext = [] then ret (1, overwrite 0 (base @ [0]) name)
            else ret (1, overwrite 0 (base @ [0x2E] @ ext @ [0]) name)))
      else if de_type d = DIR_TYPE_LONG then
        ret (1, overwrite 0 (evens (lng_name1 (lng d)) @ evens (lng_name2 (lng d))
                  @ evens (lng_name3 (lng d)) @ [0]) name)
      else ret (0, name))"

text \<open>The debugging print of the 32 bytes at an offset.\<close>

definition fmt_02x :: "byte \<Rightarrow> string" where
  "fmt_02x b = (let h = (\<lambda>n. if n < 10 then char_of (48 + n) else char_of (87 + n))
     in [h (unat b div 16), h (unat b mod 16)])"

definition print_bytes :: "u32 \<Rightarrow> ('w, unit) fprog" where
  "print_bytes off =
     andthen (check OutOfBounds (unat off + 32 \<le> MAX_BYTES_PER_SECTOR)) (
     bnd (gets (\<lambda>s. slice (unat off) 32 (buff (fs_data s)))) (\<lambda>bs.
     printf (''Parsing dir_entry at offset: '' @ fmt_d (sint off) @ [CHR 0x0A]
       @ [CHR 0x09] @ ''Bytes at offset:''
       @ concat (map (\<lambda>i. (if i mod 8 = 0 then [CHR 0x0A, CHR 0x09, CHR 0x09] else [])
                    @ fmt_02x (bs ! i) @ '' '') [0..<32])
       @ [CHR 0x0A])))"

section \<open>Basic rules\<close>

lemma wp_get_fat_sector [wp_simps]:
  "wp (get_fat_sector c) Q = (\<lambda>s. (bytes_per_sector (bpb s) \<noteq> 0 \<and>
     Q (ucast (num_reserved_sectors (bpb s)) + (c * 4) div ucast (bytes_per_sector (bpb s))) s))"
  by (rule ext) (simp add: get_fat_sector_def wp_simps)

lemma wlp_get_fat_sector [wp_simps]:
  "wlp (get_fat_sector c) Q = (\<lambda>s. (bytes_per_sector (bpb s) \<noteq> 0 \<longrightarrow>
     Q (ucast (num_reserved_sectors (bpb s)) + (c * 4) div ucast (bytes_per_sector (bpb s))) s))"
  by (rule ext) (simp add: get_fat_sector_def wp_simps)

lemma wp_get_fat_offset [wp_simps]:
  "wp (get_fat_offset c) Q = (\<lambda>s. (bytes_per_sector (bpb s) \<noteq> 0 \<and>
     Q ((c * 4) mod ucast (bytes_per_sector (bpb s))) s))"
  by (rule ext) (simp add: get_fat_offset_def wp_simps)

lemma wlp_get_fat_offset [wp_simps]:
  "wlp (get_fat_offset c) Q = (\<lambda>s. (bytes_per_sector (bpb s) \<noteq> 0 \<longrightarrow>
     Q ((c * 4) mod ucast (bytes_per_sector (bpb s))) s))"
  by (rule ext) (simp add: get_fat_offset_def wp_simps)

lemma wp_sector_to_cluster [wp_simps]:
  "wp (sector_to_cluster n) Q = (\<lambda>s. (sectors_per_cluster (bpb s) \<noteq> 0 \<and>
     Q ((n - first_data_sector (fs_data s)) div ucast (sectors_per_cluster (bpb s)) + 2) s))"
  by (rule ext) (simp add: sector_to_cluster_def wp_simps)

lemma wlp_sector_to_cluster [wp_simps]:
  "wlp (sector_to_cluster n) Q = (\<lambda>s. (sectors_per_cluster (bpb s) \<noteq> 0 \<longrightarrow>
     Q ((n - first_data_sector (fs_data s)) div ucast (sectors_per_cluster (bpb s)) + 2) s))"
  by (rule ext) (simp add: sector_to_cluster_def wp_simps)

end
