(* ===== verification/Fat32_Tree.thy ===== *)
theory Fat32_Tree
  imports Fat32_Util
begin

text \<open>
  Navigation in the file tree, \<open>servers/fat32s/tree.c\<close>: the stack of saved sectors, the jump
  to a sector, the hop into the file of the active entry, the step to the next directory
  entry along the cluster chain, the search for a child by name or by cluster, and the walk
  along a path.

  The pointer arguments are passed as the arrays they point to and the changed arrays are
  returned with the result.
\<close>

section \<open>The stack of sectors\<close>

definition stack_push :: "s32 \<Rightarrow> ('w, unit) fprog" where
  "stack_push sec = bnd (gets sp) (\<lambda>i.
     andthen (check OutOfBounds (0 \<le> i \<and> i < int STACK_SIZE))
       (modify (\<lambda>s. s\<lparr>stack := (stack s)[nat i := sec], sp := i + 1\<rparr>)))"

definition stack_pop :: "('w, s32) fprog" where
  "stack_pop = bnd (gets sp) (\<lambda>i.
     andthen (check OutOfBounds (0 \<le> i - 1 \<and> i - 1 < int STACK_SIZE)) (
     andthen (modify (\<lambda>s. s\<lparr>sp := i - 1\<rparr>)) (gets (\<lambda>s. stack s ! nat (i - 1)))))"

section \<open>Moving the active entry\<close>

definition set_pos :: "s32 \<Rightarrow> s32 \<Rightarrow> ('w, unit) fprog" where
  "set_pos sec off =
     modify (\<lambda>s. s\<lparr>dir_buff := (dir_buff s)\<lparr>db_sector := sec, db_offset := off\<rparr>\<rparr>)"

definition jump_to_sector :: "'w posix \<Rightarrow> s32 \<Rightarrow> ('w, unit) fprog" where
  "jump_to_sector px sec =
     andthen (set_pos sec 0) (andthen (load_sector px sec) (andthen (parse_dir 0) (ret ())))"

text \<open>The cluster number an entry holds, in two halves.\<close>

definition entry_cluster :: "RegDirEntry \<Rightarrow> s32" where
  "entry_cluster r = ucast (first_cluster_lo r) + push_bit 16 (ucast (first_cluster_hi r))"

text \<open>The last four statements of \<open>hop\<close> are those of \<open>jump_to_sector\<close>.\<close>

definition hop :: "'w posix \<Rightarrow> ('w, int) fprog" where
  "hop px = bnd (gets dir_buff) (\<lambda>db.
     if de_type (db_de db) \<noteq> DIR_TYPE_SHORT then ret EINVAL
     else
       andthen (modify (\<lambda>s. s\<lparr>last_hop_sector := db_sector db, last_hop_offset := db_offset db\<rparr>)) (
       bnd (gets (\<lambda>s. let c = entry_cluster (reg (db_de db))
                      in first_sector_of_cluster (if c = 0 then root_cluster (bpb s) else c) s)) (\<lambda>sec.
       andthen (jump_to_sector px sec) (ret OK))))"

text \<open>
  The sector after the current one: the next of the cluster, or the first of the cluster the
  file allocation table gives. There is no test for the end-of-chain mark.
\<close>

definition advance_sector :: "'w posix \<Rightarrow> ('w, unit) fprog" where
  "advance_sector px = bnd (gets (\<lambda>s. db_sector (dir_buff s))) (\<lambda>sec.
     bnd (gets (\<lambda>s. sectors_per_cluster (bpb s))) (\<lambda>spc.
     andthen (check DivByZero (spc \<noteq> 0)) (
     bnd (gets (\<lambda>s. (sec + 1 - first_data_sector (fs_data s)) mod ucast spc = 0)) (\<lambda>leaving.
     bnd (if leaving then
            bnd (sector_to_cluster sec) (\<lambda>cluster.
            bnd (fat_get px cluster) (\<lambda>next_cluster.
            gets (first_sector_of_cluster next_cluster)))
          else ret (sec + 1)) (\<lambda>sec'.
     andthen (set_pos sec' 0) (andthen (load_sector px sec') (ret ())))))))"

definition next_dir_entry :: "'w posix \<Rightarrow> ('w, int) fprog" where
  "next_dir_entry px = bnd (gets dir_buff) (\<lambda>db.
     bnd (gets (\<lambda>s. bytes_per_sector (bpb s))) (\<lambda>bps.
     andthen (if db_offset db + DIRENTRY_SIZE = ucast bps then advance_sector px
              else set_pos (db_sector db) (db_offset db + DIRENTRY_SIZE)) (
     bnd (gets (\<lambda>s. db_offset (dir_buff s))) parse_dir)))"

section \<open>Names of children\<close>

text \<open>A long entry puts its piece of the name before the pieces collected so far.\<close>

definition collect_long :: "DirEntry \<Rightarrow> byte list \<times> byte list \<Rightarrow> ('w, byte list \<times> byte list) fprog" where
  "collect_long d pf = bnd (get_name d (fst pf)) (\<lambda>r.
     bnd (strcat MAX_NAME_LEN (snd r) (snd pf)) (\<lambda>part.
     bnd (strcpy MAX_NAME_LEN (snd pf) part) (\<lambda>full_name.
     ret (part, full_name))))"

text \<open>A short entry gives its own name when no long name was collected.\<close>

definition collect_short :: "DirEntry \<Rightarrow> byte list \<times> byte list \<Rightarrow> ('w, byte list \<times> byte list) fprog" where
  "collect_short d pf = bnd (strlen (snd pf)) (\<lambda>n.
     if n = 0 then
       bnd (get_name d (fst pf)) (\<lambda>r.
       bnd (strcat MAX_NAME_LEN (snd pf) (snd r)) (\<lambda>full_name.
       ret (snd r, full_name)))
     else ret pf)"

text \<open>\<open>full_name[0] = '\0'\<close>.\<close>

definition clear_name :: "byte list \<Rightarrow> byte list" where
  "clear_name full_name = overwrite 0 [0] full_name"

text \<open>
  One turn of the three loops over the entries of a directory (\<open>find_child\<close>,
  \<open>find_child_by_cluster_id\<close> and \<open>_ls\<close>): the end mark leaves the loop with \<open>at_end\<close>; a long
  entry collects its piece; a short entry completes the name and is given to \<open>visit\<close>, whose
  \<open>Some\<close> leaves the loop; an entry of no other type can be active, and \<open>other\<close> is what the
  loop does there before it moves on.
\<close>

definition dir_turn ::
  "'w posix \<Rightarrow> (byte list \<Rightarrow> 'r) \<Rightarrow> (DirEntry \<Rightarrow> byte list \<Rightarrow> ('w, 'r option) fprog)
   \<Rightarrow> ('w, unit) fprog \<Rightarrow> byte list \<times> byte list \<Rightarrow> ('w, (byte list \<times> byte list) + 'r) fprog" where
  "dir_turn px at_end visit other pf = bnd (gets (\<lambda>s. db_de (dir_buff s))) (\<lambda>d.
     if de_type d = DIR_TYPE_UNDEFINED then ret (Inr (at_end (snd pf)))
     else if de_type d = DIR_TYPE_LONG then
       bnd (collect_long d pf) (\<lambda>pf'. andthen (next_dir_entry px) (ret (Inl pf')))
     else if de_type d = DIR_TYPE_SHORT then
       bnd (collect_short d pf) (\<lambda>pf'.
       bnd (visit d (snd pf')) (\<lambda>v.
       case v of Some r \<Rightarrow> ret (Inr r)
       | None \<Rightarrow> andthen (next_dir_entry px) (ret (Inl (fst pf', clear_name (snd pf'))))))
     else andthen other (andthen (next_dir_entry px) (ret (Inl pf))))"

definition find_child :: "'w posix \<Rightarrow> byte list \<Rightarrow> ('w, int) fprog" where
  "find_child px query_name =
     loop_m (dir_turn px (\<lambda>_. 1)
       (\<lambda>d full_name. bnd (streq full_name query_name) (\<lambda>eq. ret (if eq then Some 0 else None)))
       (ret ()))
       ([], clear_name [])"

definition find_child_by_cluster_id ::
  "'w posix \<Rightarrow> byte list \<Rightarrow> s32 \<Rightarrow> ('w, int \<times> byte list) fprog" where
  "find_child_by_cluster_id px full_name cluster_id =
     loop_m (dir_turn px (\<lambda>full_name. (1, full_name))
       (\<lambda>d full_name. let c = entry_cluster (reg d); curr_cluster_id = (if c = 0 then 2 else c)
          in ret (if cluster_id = curr_cluster_id then Some (0, full_name) else None))
       (ret ()))
       ([], clear_name full_name)"

section \<open>Walking along a path\<close>

text \<open>The inner loop over \<open>right\<close>: the end of the path segment that starts there.\<close>

definition segment_end :: "byte list \<Rightarrow> nat \<Rightarrow> nat \<Rightarrow> nat" where
  "segment_end path len right =
     right + length (takeWhile (\<lambda>c. c \<noteq> 0x2F) (slice right (len - right) path))"

definition walk_turn ::
  "'w posix \<Rightarrow> nat \<Rightarrow> bool \<Rightarrow> bool \<Rightarrow> byte list \<times> nat \<times> nat
   \<Rightarrow> ('w, (byte list \<times> nat \<times> nat) + (int \<times> byte list)) fprog" where
  "walk_turn px len ban_files ban_dirs v =
     (let (path, left, right) = v in
      if right < len then
        let right' = segment_end path len right;
            path' = path[right' := 0]
        in bnd (find_child px (drop left path')) (\<lambda>r.
           if r \<noteq> 0 then
             bnd stack_pop (\<lambda>sec. andthen (jump_to_sector px sec) (ret (Inr (1, path'))))
           else bnd (gets (\<lambda>s. is_directory (db_de (dir_buff s)))) (\<lambda>is_dir.
             if right' < len \<and> \<not> is_dir
                \<or> right' = len \<and> (ban_dirs \<and> is_dir \<or> ban_files \<and> \<not> is_dir) then
               bnd stack_pop (\<lambda>sec. andthen (jump_to_sector px sec) (ret (Inr (2, path'))))
             else andthen (hop px) (ret (Inl (path', right' + 1, right' + 1)))))
      else andthen stack_pop (ret (Inr (0, path))))"

definition walk :: "'w posix \<Rightarrow> byte list \<Rightarrow> u32 \<Rightarrow> ('w, int \<times> byte list) fprog" where
  "walk px path flags =
     bnd (gets (\<lambda>s. db_sector (dir_buff s))) (\<lambda>sec.
     andthen (stack_push sec) (
     bnd (strlen path) (\<lambda>len.
     loop_m (walk_turn px len (flags AND WALK_BAN_FILES > 0) (flags AND WALK_BAN_DIRS > 0))
       (path, 0, 0))))"

end
