(* ===== verification/Fat32_Print.thy ===== *)
theory Fat32_Print
  imports Fat32_Util
begin

text \<open>
  Formatted printing of the structures, \<open>servers/fat32s/print.c\<close>. Every function appends
  one line to the output. A \<open>%s\<close> conversion of an array that need not be terminated reads on
  into the fields behind it, up to the end of the structure.
\<close>

section \<open>Lines\<close>

definition line_d :: "string \<Rightarrow> int \<Rightarrow> ('w, unit) fprog" where
  "line_d label i = printf (label @ fmt_d i @ [CHR 0x0A])"

definition line_c :: "string \<Rightarrow> byte \<Rightarrow> ('w, unit) fprog" where
  "line_c label b = printf (label @ [char_of (unat b)] @ [CHR 0x0A])"

definition line_s :: "string \<Rightarrow> byte list \<Rightarrow> ('w, unit) fprog" where
  "line_s label bs = andthen (check OutOfBounds (terminated bs))
     (printf (label @ string_of (cstr bs) @ [CHR 0x0A]))"

text \<open>The lines about a short-name entry have a blank before the line feed.\<close>

definition line_db :: "string \<Rightarrow> int \<Rightarrow> ('w, unit) fprog" where
  "line_db label i = printf (label @ fmt_d i @ '' '' @ [CHR 0x0A])"

definition line_sb :: "string \<Rightarrow> byte list \<Rightarrow> ('w, unit) fprog" where
  "line_sb label bs = andthen (check OutOfBounds (terminated bs))
     (printf (label @ string_of (cstr bs) @ '' '' @ [CHR 0x0A]))"

text \<open>An array of \<open>n\<close> characters, copied to \<open>tmp\<close> and terminated there.\<close>

definition line_tmp :: "string \<Rightarrow> (Bpb \<Rightarrow> byte list) \<Rightarrow> nat \<Rightarrow> ('w, unit) fprog" where
  "line_tmp label field n =
     andthen (modify (\<lambda>s. s\<lparr>tmp := (strncpy (tmp s) (field (bpb s)) n)[n := 0]\<rparr>))
       (bnd (gets tmp) (line_s label))"

section \<open>The boot sector\<close>

definition print_jump_boot :: "('w, unit) fprog" where
  "print_jump_boot = line_tmp ''           jump_boot: '' jump_boot 3"

definition print_oem_name :: "('w, unit) fprog" where
  "print_oem_name = line_tmp ''            oem_name: '' oem_name 8"

definition print_bytes_per_sector :: "('w, unit) fprog" where
  "print_bytes_per_sector = bnd (gets bpb) (\<lambda>b. line_d ''    bytes_per_sector: '' (uint (bytes_per_sector b)))"

definition print_sectors_per_cluster :: "('w, unit) fprog" where
  "print_sectors_per_cluster = bnd (gets bpb) (\<lambda>b. line_d '' sectors_per_cluster: '' (uint (sectors_per_cluster b)))"

definition print_num_reserved_sectors :: "('w, unit) fprog" where
  "print_num_reserved_sectors = bnd (gets bpb) (\<lambda>b. line_d ''num_reserved_sectors: '' (uint (num_reserved_sectors b)))"

definition print_num_fats :: "('w, unit) fprog" where
  "print_num_fats = bnd (gets bpb) (\<lambda>b. line_d ''            num_fats: '' (uint (num_fats b)))"

definition print_num_root_entries :: "('w, unit) fprog" where
  "print_num_root_entries = bnd (gets bpb) (\<lambda>b. line_d ''    num_root_entries: '' (uint (num_root_entries b)))"

definition print_total_sectors_16 :: "('w, unit) fprog" where
  "print_total_sectors_16 = bnd (gets bpb) (\<lambda>b. line_d ''    total_sectors_16: '' (uint (total_sectors_16 b)))"

definition print_media :: "('w, unit) fprog" where
  "print_media = bnd (gets bpb) (\<lambda>b. line_c ''               media: '' (media b))"

definition print_fat_size_16 :: "('w, unit) fprog" where
  "print_fat_size_16 = bnd (gets bpb) (\<lambda>b. line_d ''         fat_size_16: '' (uint (fat_size_16 b)))"

definition print_sectors_per_track :: "('w, unit) fprog" where
  "print_sectors_per_track = bnd (gets bpb) (\<lambda>b. line_d ''   sectors_per_track: '' (uint (sectors_per_track b)))"

definition print_num_heads :: "('w, unit) fprog" where
  "print_num_heads = bnd (gets bpb) (\<lambda>b. line_d ''           num_heads: '' (uint (num_heads b)))"

definition print_hidden_sectors :: "('w, unit) fprog" where
  "print_hidden_sectors = bnd (gets bpb) (\<lambda>b. line_d ''      hidden_sectors: '' (sint (hidden_sectors b)))"

definition print_total_sectors_32 :: "('w, unit) fprog" where
  "print_total_sectors_32 = bnd (gets bpb) (\<lambda>b. line_d ''    total_sectors_32: '' (sint (total_sectors_32 b)))"

definition print_fat_size_32 :: "('w, unit) fprog" where
  "print_fat_size_32 = bnd (gets bpb) (\<lambda>b. line_d ''         fat_size_32: '' (sint (fat_size_32 b)))"

definition print_ext_flags :: "('w, unit) fprog" where
  "print_ext_flags = bnd (gets bpb) (\<lambda>b. line_d ''           ext_flags: '' (uint (ext_flags b)))"

definition print_fs_version :: "('w, unit) fprog" where
  "print_fs_version = bnd (gets bpb) (\<lambda>b. line_d ''          fs_version: '' (uint (fs_version b)))"

definition print_root_cluster :: "('w, unit) fprog" where
  "print_root_cluster = bnd (gets bpb) (\<lambda>b. line_d ''        root_cluster: '' (sint (root_cluster b)))"

definition print_fs_info_sector :: "('w, unit) fprog" where
  "print_fs_info_sector = bnd (gets bpb) (\<lambda>b. line_d ''      fs_info_sector: '' (uint (fs_info_sector b)))"

definition print_backup_boot_sector :: "('w, unit) fprog" where
  "print_backup_boot_sector = bnd (gets bpb) (\<lambda>b. line_d ''  backup_boot_sector: '' (uint (backup_boot_sector b)))"

definition print_reserved :: "('w, unit) fprog" where
  "print_reserved = bnd (gets bpb) (\<lambda>b. line_s ''            reserved: '' (drop 52 (bytes_of_Bpb b)))"

definition print_drive_number :: "('w, unit) fprog" where
  "print_drive_number = bnd (gets bpb) (\<lambda>b. line_d ''        drive_number: '' (uint (drive_number b)))"

definition print_bs_reserved :: "('w, unit) fprog" where
  "print_bs_reserved = bnd (gets bpb) (\<lambda>b. line_c ''         bs_reserved: '' (bs_reserved b))"

definition print_boot_signature :: "('w, unit) fprog" where
  "print_boot_signature = bnd (gets bpb) (\<lambda>b. line_c ''      boot_signature: '' (boot_signature b))"

definition print_volume_id :: "('w, unit) fprog" where
  "print_volume_id = bnd (gets bpb) (\<lambda>b. line_d ''           volume_id: '' (sint (volume_id b)))"

definition print_volume_label :: "('w, unit) fprog" where
  "print_volume_label = bnd (gets bpb) (\<lambda>b. line_s ''        volume_label: '' (drop 71 (bytes_of_Bpb b)))"

definition print_fs_type :: "('w, unit) fprog" where
  "print_fs_type = line_tmp ''             fs_type: '' fs_type 8"

definition print_bpb :: "('w, unit) fprog" where
  "print_bpb = andthen (printf (''Printing bpb:'' @ [CHR 0x0A])) (
    andthen print_jump_boot (
    andthen print_oem_name (
    andthen print_bytes_per_sector (
    andthen print_sectors_per_cluster (
    andthen print_num_reserved_sectors (
    andthen print_num_fats (
    andthen print_num_root_entries (
    andthen print_total_sectors_16 (
    andthen print_media (
    andthen print_fat_size_16 (
    andthen print_sectors_per_track (
    andthen print_num_heads (
    andthen print_hidden_sectors (
    andthen print_total_sectors_32 (
    andthen print_fat_size_32 (
    andthen print_ext_flags (
    andthen print_fs_version (
    andthen print_root_cluster (
    andthen print_fs_info_sector (
    andthen print_backup_boot_sector (
    andthen print_reserved (
    andthen print_drive_number (
    andthen print_bs_reserved (
    andthen print_boot_signature (
    andthen print_volume_id (
    andthen print_volume_label (
    print_fs_type)))))))))))))))))))))))))))"

section \<open>Short-name entries\<close>

definition print_short_name_rde :: "RegDirEntry \<Rightarrow> ('w, unit) fprog" where
  "print_short_name_rde rde =
    bnd (get_name \<lparr>de_type = DIR_TYPE_SHORT, de_u = bytes_of_RegDirEntry rde\<rparr> []) (\<lambda>r.
    line_sb ''       short_name: '' (snd r))"

definition print_attributes_rde :: "RegDirEntry \<Rightarrow> ('w, unit) fprog" where
  "print_attributes_rde rde = line_db ''       attributes: '' (uint (attributes rde))"

definition print_nt_res_rde :: "RegDirEntry \<Rightarrow> ('w, unit) fprog" where
  "print_nt_res_rde rde = line_db ''           nt_res: '' (uint (nt_res rde))"

definition print_time_created_10ms_rde :: "RegDirEntry \<Rightarrow> ('w, unit) fprog" where
  "print_time_created_10ms_rde rde = line_db ''time_created_10ms: '' (uint (time_created_10ms rde))"

definition print_first_cluster_hi_rde :: "RegDirEntry \<Rightarrow> ('w, unit) fprog" where
  "print_first_cluster_hi_rde rde = line_db '' first_cluster_hi: '' (uint (first_cluster_hi rde))"

definition print_first_cluster_lo_rde :: "RegDirEntry \<Rightarrow> ('w, unit) fprog" where
  "print_first_cluster_lo_rde rde = line_db '' first_cluster_lo: '' (uint (first_cluster_lo rde))"

definition print_file_size_rde :: "RegDirEntry \<Rightarrow> ('w, unit) fprog" where
  "print_file_size_rde rde = line_db ''        file_size: '' (sint (file_size rde))"

definition print_long_name_rde :: "byte list \<Rightarrow> ('w, unit) fprog" where
  "print_long_name_rde name = line_sb ''        long_name: '' name"

text \<open>Hours, minutes and seconds; year, month and day.\<close>

definition fmt_time :: "u16 \<Rightarrow> string" where
  "fmt_time t = fmt_02d (unat (drop_bit 11 (t AND 0xF800))) @ '':''
     @ fmt_02d (unat (drop_bit 5 (t AND 0x07E0))) @ '':'' @ fmt_02d (unat (t AND 0x001F) * 2)"

definition fmt_date :: "u16 \<Rightarrow> string" where
  "fmt_date d = fmt_d (uint (drop_bit 9 (d AND 0xFE00)) + 1980) @ ''/''
     @ fmt_d (uint (drop_bit 5 (d AND 0x1E0))) @ ''/'' @ fmt_d (uint (d AND 0x1F))"

definition print_time_last_write_rde :: "RegDirEntry \<Rightarrow> ('w, unit) fprog" where
  "print_time_last_write_rde rde = printf (''  time_last_write: '' @ fmt_time (time_last_write rde) @ [CHR 0x0A])"

definition print_time_created_rde :: "RegDirEntry \<Rightarrow> ('w, unit) fprog" where
  "print_time_created_rde rde = printf (''     time_created: '' @ fmt_time (time_created rde) @ [CHR 0x0A])"

definition print_date_created_rde :: "RegDirEntry \<Rightarrow> ('w, unit) fprog" where
  "print_date_created_rde rde = printf (''     date_created: '' @ fmt_date (date_created rde) @ [CHR 0x0A])"

definition print_date_last_access_rde :: "RegDirEntry \<Rightarrow> ('w, unit) fprog" where
  "print_date_last_access_rde rde = printf ('' date_last_access: '' @ fmt_date (date_last_access rde) @ [CHR 0x0A])"

definition print_date_last_write_rde :: "RegDirEntry \<Rightarrow> ('w, unit) fprog" where
  "print_date_last_write_rde rde = printf (''  date_last_write: '' @ fmt_date (date_last_write rde) @ [CHR 0x0A])"

definition print_regular_dir_entry :: "RegDirEntry \<Rightarrow> ('w, unit) fprog" where
  "print_regular_dir_entry rde = andthen (printf (''Printing regular_dir_entry:'' @ [CHR 0x0A])) (
    andthen (print_short_name_rde rde) (
    andthen (print_attributes_rde rde) (
    andthen (print_nt_res_rde rde) (
    andthen (print_time_created_10ms_rde rde) (
    andthen (print_time_created_rde rde) (
    andthen (print_date_created_rde rde) (
    andthen (print_date_last_access_rde rde) (
    andthen (print_first_cluster_hi_rde rde) (
    andthen (print_time_last_write_rde rde) (
    andthen (print_date_last_write_rde rde) (
    andthen (print_first_cluster_lo_rde rde) (
    print_file_size_rde rde))))))))))))"

section \<open>Long-name entries\<close>

definition bytes_of_LongDirEntry :: "LongDirEntry \<Rightarrow> byte list" where
  "bytes_of_LongDirEntry l = [lng_order l] @ lng_name1 l @ [lng_attributes l] @ [lng_type l]
     @ [lng_checksum l] @ lng_name2 l @ bytes16 (lng_first_cluster_lo l) @ lng_name3 l"

definition print_order_lde :: "LongDirEntry \<Rightarrow> ('w, unit) fprog" where
  "print_order_lde lde = line_d ''           order_lde: '' (uint (lng_order lde))"

definition print_name1_lde :: "LongDirEntry \<Rightarrow> ('w, unit) fprog" where
  "print_name1_lde lde = line_s ''           name1_lde: '' (drop 1 (bytes_of_LongDirEntry lde))"

definition print_attributes_lde :: "LongDirEntry \<Rightarrow> ('w, unit) fprog" where
  "print_attributes_lde lde = line_d ''      attributes_lde: '' (uint (lng_attributes lde))"

definition print_type_lde :: "LongDirEntry \<Rightarrow> ('w, unit) fprog" where
  "print_type_lde lde = line_d ''            type_lde: '' (uint (lng_type lde))"

definition print_checksum_lde :: "LongDirEntry \<Rightarrow> ('w, unit) fprog" where
  "print_checksum_lde lde = line_d ''        checksum_lde: '' (uint (lng_checksum lde))"

definition print_name2_lde :: "LongDirEntry \<Rightarrow> ('w, unit) fprog" where
  "print_name2_lde lde = line_s ''           name2_lde: '' (drop 14 (bytes_of_LongDirEntry lde))"

definition print_first_cluster_lo_lde :: "LongDirEntry \<Rightarrow> ('w, unit) fprog" where
  "print_first_cluster_lo_lde lde = line_d ''first_cluster_lo_lde: '' (uint (lng_first_cluster_lo lde))"

definition print_name3_lde :: "LongDirEntry \<Rightarrow> ('w, unit) fprog" where
  "print_name3_lde lde = line_s ''           name3_lde: '' (drop 28 (bytes_of_LongDirEntry lde))"

definition print_long_dir_entry :: "LongDirEntry \<Rightarrow> ('w, unit) fprog" where
  "print_long_dir_entry lde = andthen (printf (''Printing long_dir_entry:'' @ [CHR 0x0A])) (
    andthen (print_order_lde lde) (
    andthen (print_name1_lde lde) (
    andthen (print_attributes_lde lde) (
    andthen (print_type_lde lde) (
    andthen (print_checksum_lde lde) (
    andthen (print_name2_lde lde) (
    andthen (print_first_cluster_lo_lde lde) (
    print_name3_lde lde))))))))"

section \<open>File system data\<close>

definition print_magic :: "('w, unit) fprog" where
  "print_magic = bnd (gets (\<lambda>s. magic (fs_data s))) (\<lambda>m.
    printf (''               magic: '' @ fmt_X (unat (m ! 0)) @ fmt_X (unat (m ! 1)) @ [CHR 0x0A]))"

definition print_first_data_sector :: "('w, unit) fprog" where
  "print_first_data_sector = bnd (gets (\<lambda>s. first_data_sector (fs_data s))) (\<lambda>n. line_d ''   first_data_sector: '' (sint n))"

definition print_num_data_sectors :: "('w, unit) fprog" where
  "print_num_data_sectors = bnd (gets (\<lambda>s. num_data_sectors (fs_data s))) (\<lambda>n. line_d ''    num_data_sectors: '' (sint n))"

definition print_num_data_clusters :: "('w, unit) fprog" where
  "print_num_data_clusters = bnd (gets (\<lambda>s. num_data_clusters (fs_data s))) (\<lambda>n. line_d ''   num_data_clusters: '' (sint n))"

definition print_curr_sector :: "('w, unit) fprog" where
  "print_curr_sector = bnd (gets (\<lambda>s. curr_sector (fs_data s))) (\<lambda>n. line_d ''      curr_sector: '' (sint n))"

definition print_fs_data :: "('w, unit) fprog" where
  "print_fs_data = andthen (printf (''Printing fs_data:'' @ [CHR 0x0A])) (
    andthen print_magic (
    andthen print_first_data_sector (
    andthen print_num_data_sectors (
    andthen print_num_data_clusters (
    print_curr_sector)))))"

definition print_welcome_stats :: "('w, unit) fprog" where
  "print_welcome_stats = andthen (printf (''***** FAT32 BPB loaded ******'' @ [CHR 0x0A])) (
    andthen (printf (''Drive info:'' @ [CHR 0x0A])) (
    andthen print_magic (
    andthen print_jump_boot (
    andthen print_oem_name (
    andthen print_bytes_per_sector (
    andthen print_sectors_per_cluster (
    andthen print_num_reserved_sectors (
    andthen print_num_fats (
    andthen print_total_sectors_32 (
    andthen print_fat_size_32 (
    andthen print_root_cluster (
    andthen print_fs_type (
    andthen print_first_data_sector (
    andthen print_num_data_sectors (
    andthen print_num_data_clusters (
    printf (''*****************************'' @ [CHR 0x0A])))))))))))))))))"

end
