(* ===== verification/Fat32_Read.thy ===== *)
theory Fat32_Read
  imports Fat32_Tree Fat32_Print
begin

text \<open>
  The commands on a mounted file system, \<open>servers/fat32s/read.c\<close>: \<open>pwd\<close>, \<open>cd\<close>, \<open>ls\<close>,
  \<open>cat\<close> and \<open>stat\<close>.
\<close>

section \<open>Print working directory\<close>

text \<open>
  The body of the loop over the parents. The variables are the arrays \<open>name\<close> and
  \<open>full_path\<close> and the cluster of the directory below. \<open>Inr None\<close> is the return of \<open>-1\<close> from
  inside the loop.
\<close>

definition pwd_up ::
  "'w posix \<Rightarrow> byte list \<times> byte list \<times> u32
   \<Rightarrow> ('w, (byte list \<times> byte list \<times> u32) + byte list option) fprog" where
  "pwd_up px v = (let (name, full_path, cluster_id) = v in
     bnd (gets (\<lambda>s. db_sector (dir_buff s))) (\<lambda>sec.
     andthen (stack_push sec) (
     bnd (find_child_by_cluster_id px name cluster_id) (\<lambda>found.
     if fst found \<noteq> 0 then
       andthen (printf ''This should never happen..'') (ret (Inr None))
     else
       bnd (strcat MAX_NAME_LEN (snd found) full_path) (\<lambda>name'.
       bnd (strcpy 1024 full_path (bytes_of ''/'' @ [0])) (\<lambda>fp.
       bnd (strcat 1024 fp name') (\<lambda>full_path'.
       bnd stack_pop (\<lambda>sec'.
       andthen (jump_to_sector px sec') (
       bnd (bnd (gets (\<lambda>s. db_sector (dir_buff s))) sector_to_cluster) (\<lambda>cluster_id'.
       ret (Inl (name', full_path', cluster_id'))))))))))))"

text \<open>The loop itself: as long as there is a parent, hop there and find the name.\<close>

definition pwd_turn ::
  "'w posix \<Rightarrow> byte list \<times> byte list \<times> u32
   \<Rightarrow> ('w, (byte list \<times> byte list \<times> u32) + byte list option) fprog" where
  "pwd_turn px v =
     bnd (find_child px (bytes_of ''..'' @ [0])) (\<lambda>r.
     if r \<noteq> 0 then ret (Inr (Some (fst (snd v))))
     else andthen (hop px) (pwd_up px v))"

definition pwd :: "'w posix \<Rightarrow> ('w, int) fprog" where
  "pwd px = bnd (gets (\<lambda>s. db_sector (dir_buff s))) (\<lambda>sec.
     andthen (stack_push sec) (
     bnd (sector_to_cluster sec) (\<lambda>cluster_id.
     bnd (loop_m (pwd_turn px) ([], [0], cluster_id)) (\<lambda>r.
     case r of None \<Rightarrow> ret (- 1)
     | Some full_path \<Rightarrow>
         bnd (strlen full_path) (\<lambda>n.
         andthen (printf (if n = 0 then ''/'' @ [CHR 0x0A] else string_of (cstr full_path) @ [CHR 0x0A])) (
         bnd stack_pop (\<lambda>sec'.
         andthen (jump_to_sector px sec') (ret OK))))))))"

section \<open>Change directory\<close>

definition cd :: "'w posix \<Rightarrow> byte list \<Rightarrow> ('w, int) fprog" where
  "cd px path = bnd (gets (\<lambda>s. db_sector (dir_buff s))) (\<lambda>sec.
     andthen (stack_push sec) (
     bnd (walk px path WALK_BAN_FILES) (\<lambda>r.
     if fst r \<noteq> 0 then
       bnd stack_pop (\<lambda>sec'. andthen (jump_to_sector px sec') (ret (fst r)))
     else andthen stack_pop (ret 0))))"

section \<open>List a directory\<close>

text \<open>The line for a short entry, printed from inside the loop.\<close>

definition ls_visit :: "DirEntry \<Rightarrow> byte list \<Rightarrow> ('w, unit option) fprog" where
  "ls_visit d full_name =
     andthen (if is_directory d then printf ''[*]'' else ret ()) (
     andthen (printf (string_of (cstr full_name) @ [CHR 0x0A])) (ret None))"

text \<open>The rest of \<open>_ls\<close> once the directory was entered, with the status of that.\<close>

definition ls_entered :: "'w posix \<Rightarrow> int \<Rightarrow> ('w, int) fprog" where
  "ls_entered px status =
     (if status \<noteq> 0 then
        bnd stack_pop (\<lambda>sec'. andthen (jump_to_sector px sec') (ret status))
      else
        andthen (loop_m (dir_turn px (\<lambda>_. ()) ls_visit (printf ''OOPS'')) ([], clear_name [])) (
        bnd stack_pop (\<lambda>sec'. andthen (jump_to_sector px sec') (ret OK))))"

definition ls :: "'w posix \<Rightarrow> byte list \<Rightarrow> ('w, int) fprog" where
  "ls px path = bnd (gets (\<lambda>s. db_sector (dir_buff s))) (\<lambda>sec.
     andthen (stack_push sec) (
     bnd (streq path (bytes_of ''.'' @ [0])) (\<lambda>here.
     bnd (if here then ret 0 else cd px path) (ls_entered px))))"

section \<open>Print a file\<close>

definition cat_turn :: "'w posix \<Rightarrow> ('w, unit) fprog" where
  "cat_turn px = bnd (gets (\<lambda>s. db_offset (dir_buff s))) (\<lambda>off.
     andthen (check OutOfBounds (unat off < MAX_BYTES_PER_SECTOR)) (
     andthen (bnd (gets (\<lambda>s. buff (fs_data s) ! unat off)) (\<lambda>b. printf [char_of (unat b)])) (
     bnd (gets (\<lambda>s. db_sector (dir_buff s))) (\<lambda>sec.
     andthen (set_pos sec (off + 1)) (
     bnd (gets (\<lambda>s. bytes_per_sector (bpb s))) (\<lambda>bps.
     if off + 1 = ucast bps then advance_sector px else ret ()))))))"

text \<open>The size of the file that was hopped into last, read from its entry in the parent.\<close>

definition hop_file_size :: "'w posix \<Rightarrow> ('w, u32) fprog" where
  "hop_file_size px = bnd (gets (\<lambda>s. db_sector (dir_buff s))) (\<lambda>sec.
     andthen (stack_push sec) (
     bnd (gets last_hop_sector) (\<lambda>hs.
     bnd (gets last_hop_offset) (\<lambda>ho.
     andthen (set_pos hs ho) (
     andthen (load_sector px hs) (
     andthen (parse_dir ho) (
     bnd (gets (\<lambda>s. file_size (reg (db_de (dir_buff s))))) (\<lambda>sz.
     bnd stack_pop (\<lambda>sec'.
     andthen (jump_to_sector px sec') (ret sz))))))))))"

definition cat :: "'w posix \<Rightarrow> byte list \<Rightarrow> ('w, int) fprog" where
  "cat px path = bnd (gets (\<lambda>s. db_sector (dir_buff s))) (\<lambda>sec.
     andthen (stack_push sec) (
     bnd (walk px path WALK_BAN_DIRS) (\<lambda>r.
     if fst r \<noteq> 0 then
       bnd stack_pop (\<lambda>sec'. andthen (jump_to_sector px sec') (ret (fst r)))
     else
       bnd (hop_file_size px) (\<lambda>sz.
       andthen (andthen (repeat_m (unat sz) (cat_turn px)) (printf (''^EOF'' @ [CHR 0x0A]))) (
       bnd stack_pop (\<lambda>sec'. andthen (jump_to_sector px sec') (ret OK)))))))"

section \<open>Print information about a file\<close>

text \<open>The greatest index below the bound that holds a \<open>'/'\<close>.\<close>

primrec last_slash :: "byte list \<Rightarrow> nat \<Rightarrow> nat option" where
  "last_slash path 0 = None"
| "last_slash path (Suc i) = (if path ! i = 0x2F then Some i else last_slash path i)"

definition stat_found :: "'w posix \<Rightarrow> byte list \<Rightarrow> ('w, int) fprog" where
  "stat_found px last_name = bnd (find_child px last_name) (\<lambda>status.
     if status \<noteq> 0 then
       bnd stack_pop (\<lambda>sec. andthen (jump_to_sector px sec) (ret status))
     else
       bnd (gets (\<lambda>s. reg (db_de (dir_buff s)))) (\<lambda>r.
       andthen (print_regular_dir_entry r) (
       andthen (print_long_name_rde last_name) (
       bnd stack_pop (\<lambda>sec. andthen (jump_to_sector px sec) (ret OK))))))"

definition stat :: "'w posix \<Rightarrow> byte list \<Rightarrow> ('w, int) fprog" where
  "stat px path = bnd (strlen path) (\<lambda>len.
     bnd (gets (\<lambda>s. db_sector (dir_buff s))) (\<lambda>sec.
     case last_slash path (len - 1) of
       None \<Rightarrow> andthen (stack_push sec) (stat_found px path)
     | Some i \<Rightarrow>
         andthen (stack_push sec) (
         bnd (walk px (path[i := 0]) WALK_BAN_FILES) (\<lambda>r.
         if fst r \<noteq> 0 then
           bnd stack_pop (\<lambda>sec'. andthen (jump_to_sector px sec') (ret (fst r)))
         else stat_found px (drop (i + 1) (snd r))))))"

end
