(* ===== verification/Fat32_Mount.thy ===== *)
theory Fat32_Mount
  imports Fat32_Glo
begin

text \<open>
  Reading the boot sector, \<open>servers/fat32s/mount.c\<close>. The function is only called with the
  global parameter block and the descriptor of the device.
\<close>

definition read_bpb :: "'w posix \<Rightarrow> ('w, int) fprog" where
  "read_bpb px = bnd (gets device_fd) (\<lambda>fd.
     bnd (sys (px_read px fd BPB_SIZE)) (\<lambda>r.
     case r of None \<Rightarrow> ret EINVAL
     | Some bs \<Rightarrow>
         if length bs \<noteq> BPB_SIZE then ret EINVAL
         else
           andthen (modify (\<lambda>s. s\<lparr>bpb := Bpb_of_bytes bs,
               fs_data := (fs_data s)\<lparr>magic := [bs ! 510, bs ! 511]\<rparr>\<rparr>)) (
           if le16 [bs ! 510, bs ! 511] 0 \<noteq> MAGIC then ret EINVAL
           else
             bnd (gets bpb) (\<lambda>b.
             andthen (modify (\<lambda>s. s\<lparr>fs_data := (fs_data s)\<lparr>
                 first_data_sector := ucast (num_reserved_sectors b) + ucast (num_fats b) * fat_size_32 b,
                 num_data_sectors := total_sectors_32 b - ucast (num_reserved_sectors b)
                   - ucast (num_fats b) * fat_size_32 b\<rparr>\<rparr>)) (
             andthen (check DivByZero (sectors_per_cluster b \<noteq> 0)) (
             andthen (modify (\<lambda>s. s\<lparr>fs_data := (fs_data s)\<lparr>num_data_clusters :=
                 num_data_sectors (fs_data s) div ucast (sectors_per_cluster b)\<rparr>\<rparr>))
               (ret OK)))))))"

end
