(* ===== verification/Fat32_Server.thy ===== *)
theory Fat32_Server
  imports Fat32_Read Fat32_Mount
begin

text \<open>
  The request handlers, \<open>servers/fat32s/fat32.c\<close>, the main loop that receives a request,
  dispatches it and sends the reply, \<open>servers/fat32s/main.c\<close>, and the request stubs of the
  client library, \<open>lib/libsys/fat32s.c\<close>.
\<close>

section \<open>State\<close>

definition reset :: "('w, unit) fprog" where
  "reset = modify (\<lambda>s. s\<lparr>
     bpb := Bpb_of_bytes (replicate 90 0),
     fs_data := \<lparr>magic = [0, 0], first_data_sector = 0, num_data_sectors = 0,
       num_data_clusters = 0, buff = replicate MAX_BYTES_PER_SECTOR 0, curr_sector = 0\<rparr>,
     device_fd := - 1,
     device_label := replicate MAX_DEVICE_LABEL 0,
     dir_buff := \<lparr>db_de = \<lparr>de_type = 0, de_u = replicate 32 0\<rparr>, db_sector = 0, db_offset = 0\<rparr>,
     stack := replicate STACK_SIZE 0,
     sp := 0,
     last_hop_sector := 0, last_hop_offset := 0\<rparr>)"

definition sef_cb_init :: "('w, int) fprog" where
  "sef_cb_init =
     andthen (printf (''sef_cb_init'' @ [CHR 0x0A])) (
     andthen (check AssertFailed (sum_list Bpb_layout = 90)) (
     andthen (check AssertFailed (sum_list FsInfo_layout = 512)) (
     andthen (check AssertFailed (sum_list RegDirEntry_layout = 32)) (
     andthen (check AssertFailed (sum_list LongDirEntry_layout = 32)) (
     andthen (check AssertFailed
       (4 + max (sum_list RegDirEntry_layout) (sum_list LongDirEntry_layout) = 36)) (
     andthen reset (ret OK)))))))"

text \<open>
  The text of a request is copied into a fresh array; the result of \<open>malloc\<close> is not tested
  and neither is the sign of the length.
\<close>

definition get_txt :: "'w posix \<Rightarrow> message \<Rightarrow> ('w, int) fprog" where
  "get_txt px m = bnd (sys (px_malloc px (txt_len m + 1))) (\<lambda>okay.
     bnd (sys (px_datacopy px (m_source m) (txt_loc m) (txt_len m))) (\<lambda>r.
     andthen (check NullPointer okay) (
     andthen (check OutOfBounds (0 \<le> txt_len m)) (
     andthen (modify (\<lambda>s. s\<lparr>txt_buf := take (nat (txt_len m)) (snd r) @ [0],
         live_txt := live_txt s + 1\<rparr>))
       (ret (fst r))))))"

definition free_txt :: "('w, unit) fprog" where
  "free_txt = modify (\<lambda>s. s\<lparr>live_txt := live_txt s - 1\<rparr>)"

definition say :: "string \<Rightarrow> ('w, unit) fprog" where
  "say t = printf (''FAT32S: '' @ t @ [CHR 0x0A])"

section \<open>Handlers\<close>

text \<open>The part of \<open>do_mount\<close> after the device file was opened.\<close>

definition mount_opened :: "'w posix \<Rightarrow> ('w, int) fprog" where
  "mount_opened px = bnd (read_bpb px) (\<lambda>st.
     if st \<noteq> OK then andthen (say ''Invalid BPB.'') (ret EINVAL)
     else
       andthen print_welcome_stats (
       andthen free_txt (
       bnd (gets (\<lambda>s. first_sector_of_cluster (root_cluster (bpb s)) s)) (\<lambda>sec.
       andthen (jump_to_sector px sec) (
       andthen (modify (\<lambda>s. s\<lparr>sp := 0\<rparr>)) (ret OK))))))"

definition do_mount :: "'w posix \<Rightarrow> message \<Rightarrow> ('w, int) fprog" where
  "do_mount px m = bnd (gets device_fd) (\<lambda>fd0.
     if fd0 \<noteq> - 1 then andthen (say ''A filesystem is already mounted.'') (ret EINVAL)
     else bnd (get_txt px m) (\<lambda>st.
     if st \<noteq> OK then andthen free_txt (andthen (say ''Memcpy failed.'') (ret EINVAL))
     else
       bnd (gets txt_buf) (\<lambda>t.
       bnd (gets device_label) (\<lambda>l.
       bnd (strcpy MAX_DEVICE_LABEL l t) (\<lambda>l'.
       andthen (modify (\<lambda>s. s\<lparr>device_label := l'\<rparr>)) (
       bnd (sys (px_open px (cstr l'))) (\<lambda>fd.
       andthen (modify (\<lambda>s. s\<lparr>device_fd := fd\<rparr>)) (
       if fd = - 1 then andthen (say ''Can't open the device file.'') (ret EINVAL)
       else mount_opened px))))))))"

text \<open>The handlers below first test that something is mounted.\<close>

definition mounted_only :: "('w, int) fprog \<Rightarrow> ('w, int) fprog" where
  "mounted_only m = bnd (gets device_fd) (\<lambda>fd.
     if fd = - 1 then andthen (say ''Nothing is mounted.'') (ret EINVAL) else m)"

definition do_unmount :: "'w posix \<Rightarrow> message \<Rightarrow> ('w, int) fprog" where
  "do_unmount px m = mounted_only (bnd (get_txt px m) (\<lambda>st.
     if st \<noteq> OK then andthen free_txt (andthen (say ''Memcpy failed.'') (ret EINVAL))
     else
       bnd (gets txt_buf) (\<lambda>t.
       bnd (gets device_label) (\<lambda>l.
       bnd (streq l t) (\<lambda>same.
       if \<not> same then
         andthen free_txt (andthen (say ''The device with this label not mounted.'') (ret EINVAL))
       else
         bnd (gets device_fd) (\<lambda>fd.
         bnd (sys (px_close px fd)) (\<lambda>c.
         if c \<noteq> OK then andthen free_txt (andthen (say ''Closing failed.'') (ret EINVAL))
         else andthen reset (andthen free_txt (ret OK)))))))))"

definition do_pwd :: "'w posix \<Rightarrow> message \<Rightarrow> ('w, int) fprog" where
  "do_pwd px m = mounted_only (andthen (pwd px) (ret OK))"

definition do_cd :: "'w posix \<Rightarrow> message \<Rightarrow> ('w, int) fprog" where
  "do_cd px m = mounted_only (bnd (get_txt px m) (\<lambda>st.
     if st \<noteq> OK then andthen free_txt (andthen (say ''Memcpy failed.'') (ret EFAULT))
     else
       bnd (gets txt_buf) (\<lambda>t.
       bnd (cd px t) (\<lambda>status.
       if status = 1 then andthen (say ''Can't find the requested file.'') (ret ENOENT)
       else if status = 2 then andthen (say ''Can't cd into a file.'') (ret EINVAL)
       else andthen free_txt (ret OK)))))"

definition do_ls :: "'w posix \<Rightarrow> message \<Rightarrow> ('w, int) fprog" where
  "do_ls px m = mounted_only (bnd (get_txt px m) (\<lambda>st.
     if st \<noteq> OK then andthen free_txt (andthen (say ''Memcpy failed.'') (ret EINVAL))
     else
       bnd (gets txt_buf) (\<lambda>t.
       bnd (ls px t) (\<lambda>status.
       andthen (if status \<noteq> 0 then printf ''FAT32S: You can't ls like that.'' else ret ())
         (ret status)))))"

definition do_cat :: "'w posix \<Rightarrow> message \<Rightarrow> ('w, int) fprog" where
  "do_cat px m = mounted_only (bnd (get_txt px m) (\<lambda>st.
     if st \<noteq> OK then andthen free_txt (andthen (say ''Memcpy failed.'') (ret EINVAL))
     else
       bnd (gets txt_buf) (\<lambda>t.
       bnd (cat px t) (\<lambda>status.
       andthen (if status \<noteq> 0 then printf ''FAT32S: You can't cat the requested file.'' else ret ())
         (ret status)))))"

definition do_stat :: "'w posix \<Rightarrow> message \<Rightarrow> ('w, int) fprog" where
  "do_stat px m = mounted_only (bnd (get_txt px m) (\<lambda>st.
     if st \<noteq> OK then andthen free_txt (andthen (say ''Memcpy failed.'') (ret EINVAL))
     else
       bnd (gets txt_buf) (\<lambda>t.
       bnd (stat px t) (\<lambda>status.
       andthen (if status \<noteq> OK then say ''Stat error.'' else ret ())
         (ret status)))))"

section \<open>The main loop\<close>

definition FAT32S_BASE :: int where [simp]: "FAT32S_BASE = 0x1700"
definition FAT32S_MOUNT :: int where [simp]: "FAT32S_MOUNT = 0x1700"
definition FAT32S_UNMOUNT :: int where [simp]: "FAT32S_UNMOUNT = 0x1701"
definition FAT32S_CD :: int where [simp]: "FAT32S_CD = 0x1702"
definition FAT32S_PWD :: int where [simp]: "FAT32S_PWD = 0x1703"
definition FAT32S_LS :: int where [simp]: "FAT32S_LS = 0x1704"
definition FAT32S_CAT :: int where [simp]: "FAT32S_CAT = 0x1705"
definition FAT32S_STAT :: int where [simp]: "FAT32S_STAT = 0x1706"

definition get_work :: "'w posix \<Rightarrow> ('w, message) fprog" where
  "get_work px = bnd (sys (px_receive px)) (\<lambda>r.
     andthen (check Panic (fst r = OK)) (
     andthen (modify (\<lambda>s. s\<lparr>who_e := m_source (snd r), callnr := m_type (snd r)\<rparr>))
       (ret (snd r))))"

definition reply :: "'w posix \<Rightarrow> int \<Rightarrow> message \<Rightarrow> ('w, unit) fprog" where
  "reply px whom m = bnd (sys (px_send px whom m)) (\<lambda>r.
     if r \<noteq> OK then
       say (''unable to send reply to '' @ fmt_d whom @ '': '' @ fmt_d r)
     else ret ())"

definition dispatch :: "'w posix \<Rightarrow> message \<Rightarrow> ('w, int) fprog" where
  "dispatch px m = bnd (gets callnr) (\<lambda>c.
     if is_notify c then
       andthen (say (''warning, got illegal notify from: '' @ fmt_d (m_source m))) (ret EINVAL)
     else if c = FAT32S_MOUNT then do_mount px m
     else if c = FAT32S_UNMOUNT then do_unmount px m
     else if c = FAT32S_PWD then do_pwd px m
     else if c = FAT32S_CD then do_cd px m
     else if c = FAT32S_LS then do_ls px m
     else if c = FAT32S_CAT then do_cat px m
     else if c = FAT32S_STAT then do_stat px m
     else
       andthen (say (''warning, got illegal request from '' @ fmt_d (m_source m))) (ret EINVAL))"

text \<open>One turn of the loop in \<open>main\<close>.\<close>

definition main_turn :: "'w posix \<Rightarrow> ('w, unit) fprog" where
  "main_turn px = bnd (get_work px) (\<lambda>m.
     bnd (dispatch px m) (\<lambda>result.
     if result \<noteq> EDONTREPLY then
       bnd (gets who_e) (\<lambda>w. reply px w (m\<lparr>m_type := result\<rparr>))
     else ret ()))"

section \<open>The client library\<close>

definition FAT32S_PROC_NR :: int where [simp]: "FAT32S_PROC_NR = 10"

text \<open>
  \<open>_syscall\<close> of the C library is the parameter \<open>sc\<close>. A string argument is its address and
  the array found there.
\<close>

definition zero_msg :: message where
  "zero_msg = \<lparr>m_source = 0, m_type = 0, txt_loc = 0, txt_len = 0\<rparr>"

definition text_request :: "(int \<Rightarrow> int \<Rightarrow> message \<Rightarrow> int) \<Rightarrow> int \<Rightarrow> u32 \<Rightarrow> byte list \<Rightarrow> ('s, int) prog" where
  "text_request sc call loc str = bnd (strlen str) (\<lambda>n.
     ret (sc FAT32S_PROC_NR call (zero_msg\<lparr>txt_loc := loc, txt_len := int n\<rparr>)))"

definition fat32_pwd :: "(int \<Rightarrow> int \<Rightarrow> message \<Rightarrow> int) \<Rightarrow> int" where
  "fat32_pwd sc = sc FAT32S_PROC_NR FAT32S_PWD zero_msg"

definition fat32_mount :: "(int \<Rightarrow> int \<Rightarrow> message \<Rightarrow> int) \<Rightarrow> u32 \<Rightarrow> byte list \<Rightarrow> ('s, int) prog" where
  "fat32_mount sc = text_request sc FAT32S_MOUNT"

definition fat32_unmount :: "(int \<Rightarrow> int \<Rightarrow> message \<Rightarrow> int) \<Rightarrow> u32 \<Rightarrow> byte list \<Rightarrow> ('s, int) prog" where
  "fat32_unmount sc = text_request sc FAT32S_UNMOUNT"

definition fat32_cd :: "(int \<Rightarrow> int \<Rightarrow> message \<Rightarrow> int) \<Rightarrow> u32 \<Rightarrow> byte list \<Rightarrow> ('s, int) prog" where
  "fat32_cd sc = text_request sc FAT32S_CD"

definition fat32_ls :: "(int \<Rightarrow> int \<Rightarrow> message \<Rightarrow> int) \<Rightarrow> u32 \<Rightarrow> byte list \<Rightarrow> ('s, int) prog" where
  "fat32_ls sc = text_request sc FAT32S_LS"

definition fat32_cat :: "(int \<Rightarrow> int \<Rightarrow> message \<Rightarrow> int) \<Rightarrow> u32 \<Rightarrow> byte list \<Rightarrow> ('s, int) prog" where
  "fat32_cat sc = text_request sc FAT32S_CAT"

definition fat32_stat :: "(int \<Rightarrow> int \<Rightarrow> message \<Rightarrow> int) \<Rightarrow> u32 \<Rightarrow> byte list \<Rightarrow> ('s, int) prog" where
  "fat32_stat sc = text_request sc FAT32S_STAT"

end
