(* ===== verification/Fat32_Frame.thy ===== *)
theory Fat32_Frame
  imports Fat32_Server
begin

text \<open>
  What the operations leave alone, and the shape of the state: the frame lemmas that the
  properties of the commands rest on. \<open>nav_frame\<close> is what moving the active entry keeps,
  \<open>mid_frame\<close> what also printing and hopping keep, \<open>core_frame\<close> what every command of
  \<open>read.c\<close> keeps.
\<close>

section \<open>Frames\<close>

definition core_frame :: "'w server \<Rightarrow>
    (Bpb \<times> u32) \<times> (int \<times> byte list) \<times> (byte list \<times> nat) \<times> int \<times> int" where
  "core_frame s = ((bpb s, first_data_sector (fs_data s)), (device_fd s, device_label s),
     (txt_buf s, live_txt s), who_e s, callnr s)"

definition mid_frame where
  "mid_frame s = (core_frame s, stack s, sp s)"

definition nav_frame where
  "nav_frame s = (mid_frame s, (last_hop_sector s, last_hop_offset s), tmp s, out s)"

lemmas frame_defs = core_frame_def mid_frame_def nav_frame_def

lemma mid_frame_of_nav: "keeps nav_frame m \<Longrightarrow> keeps mid_frame m"
  by (erule keeps_weaken) (simp add: nav_frame_def)

lemma core_frame_of_mid: "keeps mid_frame m \<Longrightarrow> keeps core_frame m"
  by (erule keeps_weaken) (simp add: mid_frame_def)

lemma core_frame_of_nav: "keeps nav_frame m \<Longrightarrow> keeps core_frame m"
  by (intro core_frame_of_mid mid_frame_of_nav)

text \<open>The cluster arithmetic only reads the frame.\<close>

lemma first_sector_core: "core_frame t = core_frame s \<Longrightarrow> first_sector_of_cluster c t = first_sector_of_cluster c s"
  by (simp add: core_frame_def first_sector_of_cluster_def)

lemma keeps_sys [keeps_ops]:
  "keeps nav_frame (sys f)" "keeps mid_frame (sys f)" "keeps core_frame (sys f)"
  by (simp_all add: keeps_def wp_simps frame_defs)

lemma keeps_set_pos [keeps_ops]: "keeps nav_frame (set_pos sec off)"
  by (simp add: set_pos_def keeps_def wp_simps frame_defs)

lemma keeps_parse_dir [keeps_ops]: "keeps nav_frame (parse_dir off)"
  unfolding parse_dir_def by (intro keeps_intros keeps_modify) (simp_all add: frame_defs)

lemma keeps_load_sector [keeps_ops]: "keeps nav_frame (load_sector px sec)"
  unfolding load_sector_def
  by (intro keeps_intros keeps_modify keeps_ops) (simp_all add: frame_defs)

lemma keeps_jump_to_sector [keeps_ops]: "keeps nav_frame (jump_to_sector px sec)"
  unfolding jump_to_sector_def by (intro keeps_intros keeps_ops)

lemma keeps_fat_arith [keeps_ops]:
  "keeps f (get_fat_sector c)" "keeps f (get_fat_offset c)" "keeps f (sector_to_cluster n)"
  unfolding get_fat_sector_def get_fat_offset_def sector_to_cluster_def by (intro keeps_intros)+

lemma keeps_fat_get [keeps_ops]: "keeps nav_frame (fat_get px c)"
  unfolding fat_get_def by (intro keeps_intros keeps_ops)

lemma keeps_advance_sector [keeps_ops]: "keeps nav_frame (advance_sector px)"
  unfolding advance_sector_def by (intro keeps_intros keeps_ops)

lemma keeps_next_dir_entry [keeps_ops]: "keeps nav_frame (next_dir_entry px)"
  unfolding next_dir_entry_def by (intro keeps_intros keeps_ops)

lemma keeps_strings [keeps_ops]:
  "keeps f (strlen bs)" "keeps f (streq a b)" "keeps f (strcpy cap dst src)" "keeps f (strcat cap dst src)"
  unfolding strlen_def streq_def strcpy_def strcat_def by (intro keeps_intros)+

lemma keeps_get_name [keeps_ops]: "keeps f (get_name d name)"
  unfolding get_name_def Let_def by (intro keeps_intros)

lemma keeps_collect [keeps_ops]: "keeps f (collect_long d pf)" "keeps f (collect_short d pf)"
  unfolding collect_long_def collect_short_def by (intro keeps_intros keeps_ops)+

lemma keeps_dir_turn:
  assumes "keeps f (next_dir_entry px)" and "keeps f other" and "\<And>d n. keeps f (visit d n)"
  shows "keeps f (dir_turn px at_end visit other pf)"
  unfolding dir_turn_def by (intro keeps_intros keeps_collect assms)

lemma keeps_find_child [keeps_ops]: "keeps nav_frame (find_child px q)"
  unfolding find_child_def by (intro keeps_intros keeps_dir_turn keeps_ops)

lemma keeps_find_child_by_cluster_id [keeps_ops]:
  "keeps nav_frame (find_child_by_cluster_id px name c)"
  unfolding find_child_by_cluster_id_def Let_def by (intro keeps_intros keeps_dir_turn keeps_ops)

lemma keeps_printf [keeps_ops]: "keeps mid_frame (printf t)" "keeps core_frame (printf t)"
  by (simp_all add: keeps_def wp_simps frame_defs)

lemma keeps_hop [keeps_ops]: "keeps mid_frame (hop px)"
  unfolding hop_def Let_def
  by (intro keeps_intros keeps_modify mid_frame_of_nav [OF keeps_jump_to_sector])
     (simp_all add: frame_defs)

lemma keeps_stack [keeps_ops]: "keeps core_frame (stack_push sec)" "keeps core_frame stack_pop"
  unfolding stack_push_def stack_pop_def
  by (intro keeps_intros keeps_modify; simp add: frame_defs)+

section \<open>Printing and the commands\<close>

lemma keeps_lines [keeps_ops]:
  "keeps mid_frame (line_d l i)" "keeps mid_frame (line_c l b)" "keeps mid_frame (line_s l bs)"
  "keeps mid_frame (line_db l i)" "keeps mid_frame (line_sb l bs)"
  unfolding line_d_def line_c_def line_s_def line_db_def line_sb_def
  by (intro keeps_intros keeps_ops)+

lemma keeps_line_tmp [keeps_ops]: "keeps mid_frame (line_tmp l f n)"
  unfolding line_tmp_def
  by (intro keeps_intros keeps_ops keeps_modify) (simp_all add: frame_defs)

lemmas print_rde_defs = print_short_name_rde_def print_attributes_rde_def print_nt_res_rde_def
  print_time_created_10ms_rde_def print_first_cluster_hi_rde_def print_first_cluster_lo_rde_def
  print_file_size_rde_def print_time_last_write_rde_def print_time_created_rde_def
  print_date_created_rde_def print_date_last_access_rde_def print_date_last_write_rde_def

lemma keeps_print_regular_dir_entry [keeps_ops]: "keeps mid_frame (print_regular_dir_entry r)"
  unfolding print_regular_dir_entry_def print_rde_defs
  by (intro keeps_intros keeps_ops)

lemma keeps_print_long_name_rde [keeps_ops]: "keeps mid_frame (print_long_name_rde name)"
  unfolding print_long_name_rde_def by (intro keeps_intros keeps_ops)

lemma keeps_ls_visit [keeps_ops]: "keeps mid_frame (ls_visit d n)"
  unfolding ls_visit_def by (intro keeps_intros keeps_ops)

lemma keeps_cat_turn [keeps_ops]: "keeps mid_frame (cat_turn px)"
  unfolding cat_turn_def
  by (intro keeps_intros keeps_ops mid_frame_of_nav [OF keeps_set_pos]
      mid_frame_of_nav [OF keeps_advance_sector])

lemma keeps_pwd [keeps_ops]: "keeps core_frame (pwd px)"
  unfolding pwd_def pwd_turn_def pwd_up_def Let_def case_prod_beta
  by (intro keeps_intros keeps_ops core_frame_of_nav [OF keeps_find_child]
      core_frame_of_mid [OF keeps_hop] core_frame_of_nav [OF keeps_find_child_by_cluster_id]
      core_frame_of_nav [OF keeps_jump_to_sector])

end
