(* ===== verification/Fat32_Position.thy ===== *)
theory Fat32_Position
  imports Fat32_Frame
begin

text \<open>
  Where the commands leave the active entry. \<open>fat32.c\<close> states the invariant that after each
  command the server is at the beginning of some cluster; the lemmas here show it for the
  operations of \<open>tree.c\<close> and \<open>read.c\<close> on every disk, together with the discipline of the
  stack of saved sectors: what is pushed is popped, and a command that does not change the
  directory comes back to the sector it saved.
\<close>

section \<open>The saved sectors as a stack\<close>

text \<open>
  The interface of the stack: the saved values, last on top, and the rest of the state that
  pushing and popping do not touch.
\<close>

locale saved_stack =
  fixes push :: "'a \<Rightarrow> ('s, unit) prog"
    and pop :: "('s, 'a) prog"
    and saved :: "'s \<Rightarrow> 'a list"
    and others :: "'s \<Rightarrow> 'r"
    and wf :: "'s \<Rightarrow> bool"
  assumes push_law: "wf s \<Longrightarrow> wlp (push x) (\<lambda>_ t. wf t \<and> saved t = saved s @ [x] \<and> others t = others s) s"
    and pop_law: "wf s \<Longrightarrow> saved s = xs @ [x] \<Longrightarrow>
      wp pop (\<lambda>y t. y = x \<and> wf t \<and> saved t = xs \<and> others t = others s) s"
begin

lemma pop_partial:
  "wf s \<Longrightarrow> saved s = xs @ [x] \<Longrightarrow>
   wlp pop (\<lambda>y t. y = x \<and> wf t \<and> saved t = xs \<and> others t = others s) s"
  by (rule wp_wlp [OF pop_law])

lemma pop_saved:
  assumes "wf s" and "saved s = xs @ [x]"
    and "\<And>t. wf t \<Longrightarrow> saved t = xs \<Longrightarrow> others t = others s \<Longrightarrow> Q x t"
  shows "wlp pop Q s"
  by (rule wlp_mono [OF pop_partial [OF assms(1,2)]]) (auto intro: assms(3))

lemma push_saved:
  assumes "wf s"
    and "\<And>t. wf t \<Longrightarrow> saved t = saved s @ [x] \<Longrightarrow> others t = others s \<Longrightarrow> Q () t"
  shows "wlp (push x) Q s"
  by (rule wlp_mono [OF push_law [OF assms(1)]]) (auto intro: assms(2))

text \<open>A program between a push and a pop gets its value back.\<close>

lemma saved_restored:
  assumes "wf s" and body: "\<And>t. wf t \<Longrightarrow> wlp m (\<lambda>_ u. wf u \<and> saved u = saved t) t"
  shows "wlp (andthen (push x) (andthen m pop)) (\<lambda>y t. y = x \<and> wf t \<and> saved t = saved s) s"
  unfolding wlp_andthen
proof (rule push_saved [OF assms(1)])
  fix t
  assume t: "wf t" "saved t = saved s @ [x]"
  show "wlp m (\<lambda>_. wlp pop (\<lambda>y t. y = x \<and> wf t \<and> saved t = saved s)) t"
    by (rule wlp_mono [OF body [OF t(1)]]) (auto simp: t(2) intro: pop_saved)
qed

end

definition stack_wf :: "'w server \<Rightarrow> bool" where
  "stack_wf s \<longleftrightarrow> length (stack s) = STACK_SIZE \<and> 0 \<le> sp s \<and> sp s \<le> int STACK_SIZE"

definition saved_sectors :: "'w server \<Rightarrow> s32 list" where
  "saved_sectors s = take (nat (sp s)) (stack s)"

definition beside_stack where
  "beside_stack s = (core_frame s, (dir_buff s, fs_data s), (last_hop_sector s, last_hop_offset s), out s, world s)"

interpretation sectors: saved_stack stack_push stack_pop saved_sectors beside_stack stack_wf
proof
  fix s :: "'a server" and x
  assume "stack_wf s"
  then show "wlp (stack_push x) (\<lambda>_ t. stack_wf t \<and> saved_sectors t = saved_sectors s @ [x]
      \<and> beside_stack t = beside_stack s) s"
    by (auto simp: stack_push_def wp_simps stack_wf_def saved_sectors_def beside_stack_def
        core_frame_def nat_add_distrib take_Suc_conv_app_nth take_update_cancel)
next
  fix s :: "'a server" and xs x
  assume wf: "stack_wf s" and saved: "saved_sectors s = xs @ [x]"
  then obtain n where n: "sp s = int (Suc n)"
    by (cases "nat (sp s)") (auto simp: saved_sectors_def stack_wf_def nat_eq_iff)
  with wf saved have "n < length (stack s)" and "xs = take n (stack s)" and "x = stack s ! n"
    by (auto simp: stack_wf_def saved_sectors_def nat_add_distrib take_Suc_conv_app_nth)
  with wf n show "wp stack_pop (\<lambda>y t. y = x \<and> stack_wf t \<and> saved_sectors t = xs
      \<and> beside_stack t = beside_stack s) s"
    by (simp add: stack_pop_def wp_simps stack_wf_def saved_sectors_def beside_stack_def core_frame_def)
qed

lemma stack_of_mid:
  "mid_frame t = mid_frame s \<Longrightarrow> stack_wf t = stack_wf s \<and> saved_sectors t = saved_sectors s"
  by (simp add: mid_frame_def stack_wf_def saved_sectors_def)

section \<open>The beginning of a cluster\<close>

definition starts_at :: "s32 \<Rightarrow> 'w server \<Rightarrow> bool" where
  "starts_at sec s \<longleftrightarrow> db_sector (dir_buff s) = sec \<and> db_offset (dir_buff s) = 0
     \<and> curr_sector (fs_data s) = sec
     \<and> (let bs = buff (fs_data s); d = db_de (dir_buff s)
        in if bs ! 0 = 0 then de_type d = DIR_TYPE_UNDEFINED
           else d = \<lparr>de_type = get_dir_type bs 0, de_u = slice 0 32 bs\<rparr>)"

definition cluster_start :: "'w server \<Rightarrow> bool" where
  "cluster_start s \<longleftrightarrow> (\<exists>c. starts_at (first_sector_of_cluster c s) s)"

lemma starts_at_cong:
  "dir_buff t = dir_buff s \<Longrightarrow> fs_data t = fs_data s \<Longrightarrow> starts_at sec t = starts_at sec s"
  by (simp add: starts_at_def)

lemma beside_stackD:
  assumes "beside_stack t = beside_stack s"
  shows "core_frame t = core_frame s" "dir_buff t = dir_buff s" "fs_data t = fs_data s"
    "starts_at sec t = starts_at sec s" "cluster_start t = cluster_start s"
proof -
  show 1: "core_frame t = core_frame s" "dir_buff t = dir_buff s" "fs_data t = fs_data s"
    using assms by (auto simp: beside_stack_def)
  show 2: "starts_at sec t = starts_at sec s" for sec
    by (rule starts_at_cong [OF 1(2,3)])
  show "cluster_start t = cluster_start s"
    unfolding cluster_start_def 2 first_sector_core [OF 1(1)] ..
qed

lemma load_sector_curr:
  "wlp (load_sector px sec) (\<lambda>_ t. curr_sector (fs_data t) = sec \<and> dir_buff t = dir_buff s) s"
  by (simp add: load_sector_def wp_simps) (auto simp: wp_simps split: option.split)

lemma jump_starts: "wlp (jump_to_sector px sec) (\<lambda>_ t. starts_at sec t) s"
  unfolding jump_to_sector_def wlp_andthen set_pos_def wlp_modify
  by (rule wlp_mono [OF load_sector_curr])
     (simp add: parse_dir_def wp_simps starts_at_def)

lemma jump_spec:
  "wlp (jump_to_sector px sec) (\<lambda>_ t. starts_at sec t \<and> nav_frame t = nav_frame s) s"
  by (simp add: wlp_conj jump_starts keepsD [OF keeps_jump_to_sector])

lemma hop_spec:
  "wlp (hop px) (\<lambda>r t. mid_frame t = mid_frame s \<and>
     (if de_type (db_de (dir_buff s)) = DIR_TYPE_SHORT then r = OK \<and> cluster_start t
      else r = EINVAL \<and> t = s)) s"
proof (rule wlp_mono [OF wlp_keeps [OF keeps_hop]])
  show "wlp (hop px) (\<lambda>r t. if de_type (db_de (dir_buff s)) = DIR_TYPE_SHORT
      then r = OK \<and> cluster_start t else r = EINVAL \<and> t = s) s"
    by (simp add: hop_def wp_simps Let_def)
       (auto simp: wp_simps cluster_start_def first_sector_of_cluster_def frame_defs
          intro!: wlp_mono [OF jump_spec])
qed auto

section \<open>Searching a directory\<close>

lemma wlp_pure: "(\<And>x. Q x s) \<Longrightarrow> keeps (\<lambda>s. s) m \<Longrightarrow> wlp m Q s"
  by (rule wlp_keeps_only) auto

lemma dir_turn_leaves:
  assumes visit: "\<And>d n s. wlp (visit d n) (\<lambda>v t. dir_buff t = dir_buff s \<and> (\<forall>r. v = Some r \<longrightarrow> R r)) s"
    and at_end: "\<And>f. E (at_end f)"
  shows "wlp (dir_turn px at_end visit other pf) (\<lambda>y t. case y of Inl _ \<Rightarrow> True
    | Inr r \<Rightarrow> de_type (db_de (dir_buff t)) = DIR_TYPE_UNDEFINED \<and> E r
             \<or> de_type (db_de (dir_buff t)) = DIR_TYPE_SHORT \<and> R r) s"
proof -
  have v: "wlp (visit d n) (\<lambda>v. wlp (case v of
        None \<Rightarrow> andthen (next_dir_entry px) (ret (Inl (p, clear_name q)))
      | Some r \<Rightarrow> ret (Inr r)) (\<lambda>y t. case y of Inl _ \<Rightarrow> True
    | Inr r \<Rightarrow> de_type (db_de (dir_buff t)) = DIR_TYPE_UNDEFINED \<and> E r
             \<or> de_type (db_de (dir_buff t)) = DIR_TYPE_SHORT \<and> R r)) s"
    if "de_type (db_de (dir_buff s)) = DIR_TYPE_SHORT" for d n p q
    by (rule wlp_mono [OF visit]) (use that in \<open>auto simp: wp_simps split: option.splits\<close>)
  show ?thesis
    unfolding dir_turn_def wp_simps
    by (auto simp: wp_simps at_end intro!: wlp_pure [where m = "collect_short _ _"] keeps_ops v)
qed

lemma find_child_leaves:
  "wlp (find_child px q) (\<lambda>r t. r = 1 \<and> de_type (db_de (dir_buff t)) = DIR_TYPE_UNDEFINED
      \<or> r = 0 \<and> de_type (db_de (dir_buff t)) = DIR_TYPE_SHORT) s"
  unfolding find_child_def
proof (rule wlp_loop [where I = "\<lambda>_ _. True"])
  fix x s
  show "wlp (dir_turn px (\<lambda>_. 1) (\<lambda>d n. bnd (streq n q) (\<lambda>eq. ret (if eq then Some 0 else None))) (ret ()) x)
    (\<lambda>y t. case y of Inl x' \<Rightarrow> True | Inr r \<Rightarrow>
        r = 1 \<and> de_type (db_de (dir_buff t)) = DIR_TYPE_UNDEFINED
        \<or> r = 0 \<and> de_type (db_de (dir_buff t)) = DIR_TYPE_SHORT) s"
    by (rule wlp_mono [OF dir_turn_leaves [where R = "\<lambda>r. r = 0" and E = "\<lambda>r. r = 1"]])
       (auto simp: wp_simps split: sum.splits)
qed simp

lemma find_child_spec:
  "wlp (find_child px q) (\<lambda>r t. nav_frame t = nav_frame s
      \<and> (r = 1 \<and> de_type (db_de (dir_buff t)) = DIR_TYPE_UNDEFINED
         \<or> r = 0 \<and> de_type (db_de (dir_buff t)) = DIR_TYPE_SHORT)) s"
  by (rule wlp_mono [OF wlp_keeps [OF keeps_find_child find_child_leaves]]) auto

section \<open>Walking\<close>

text \<open>
  What a command guarantees: the frame, the stack as it was, and a position at the beginning
  of a cluster; with \<open>Some sec\<close> this is the sector \<open>sec\<close>.
\<close>

definition settled :: "'w server \<Rightarrow> s32 option \<Rightarrow> 'w server \<Rightarrow> bool" where
  "settled s pos t \<longleftrightarrow> core_frame t = core_frame s \<and> stack_wf t
     \<and> saved_sectors t = saved_sectors s \<and> cluster_start t
     \<and> (case pos of None \<Rightarrow> True | Some sec \<Rightarrow> starts_at sec t)"

lemma starts_cluster:
  assumes "starts_at sec t" and "core_frame t = core_frame s" and "sec = first_sector_of_cluster c s"
  shows "cluster_start t"
  unfolding cluster_start_def
  by (rule exI [of _ c]) (use assms(1,3) first_sector_core [OF assms(2), of c] in simp)

text \<open>The common end of the commands: pop a sector and jump to it.\<close>

lemma pop_jump:
  fixes s t :: "'w server"
  assumes t: "core_frame t = core_frame s" "stack_wf t" "saved_sectors t = saved_sectors s @ [sec]"
    and sec: "sec = first_sector_of_cluster c s"
    and Q: "\<And>u. settled s (Some sec) u \<Longrightarrow> Q x u"
  shows "wlp stack_pop (\<lambda>sec'. wlp (jump_to_sector px sec') (\<lambda>_. Q x)) t"
proof (rule sectors.pop_saved [OF t(2,3)])
  fix u :: "'w server"
  assume u: "stack_wf u" "saved_sectors u = saved_sectors s" "beside_stack u = beside_stack t"
  show "wlp (jump_to_sector px sec) (\<lambda>_. Q x) u"
  proof (rule wlp_mono [OF jump_spec])
    fix v :: "'w server"
    assume v: "starts_at sec v \<and> nav_frame v = nav_frame u"
    then have w: "core_frame v = core_frame s" "stack_wf v" "saved_sectors v = saved_sectors s"
      using u t(1) beside_stackD(1) [OF u(3)] stack_of_mid [of v u] by (auto simp: nav_frame_def mid_frame_def)
    with v show "Q x v"
      using starts_cluster [OF conjunct1 [OF v] w(1) sec] by (intro Q) (simp add: settled_def)
  qed
qed

text \<open>The state inside a walk that started in \<open>s\<close>: its sector is saved on top.\<close>

definition walking :: "'w server \<Rightarrow> 'w server \<Rightarrow> bool" where
  "walking s t \<longleftrightarrow> core_frame t = core_frame s \<and> stack_wf t
     \<and> saved_sectors t = saved_sectors s @ [db_sector (dir_buff s)]"

lemma walking_nav: "walking s t \<Longrightarrow> nav_frame u = nav_frame t \<Longrightarrow> walking s u"
  using stack_of_mid [of u t] by (auto simp: walking_def nav_frame_def mid_frame_def)

lemma walking_mid: "walking s t \<Longrightarrow> mid_frame u = mid_frame t \<Longrightarrow> walking s u"
  using stack_of_mid [of u t] by (auto simp: walking_def mid_frame_def)

lemma walking_out [simp]: "walking s (t\<lparr>out := p\<rparr>) = walking s t"
  by (simp add: walking_def stack_wf_def saved_sectors_def core_frame_def)

lemma cluster_start_sector:
  "cluster_start s \<Longrightarrow> \<exists>c. db_sector (dir_buff s) = first_sector_of_cluster c s"
  by (auto simp: cluster_start_def starts_at_def)

lemma walking_jump_back:
  assumes "cluster_start s" and "walking s t"
    and "\<And>u. settled s (Some (db_sector (dir_buff s))) u \<Longrightarrow> Q x u"
  shows "wlp stack_pop (\<lambda>sec'. wlp (jump_to_sector px sec') (\<lambda>_. Q x)) t"
proof -
  from cluster_start_sector [OF assms(1)] obtain c where c: "db_sector (dir_buff s) = first_sector_of_cluster c s" ..
  from assms(2) show ?thesis
    by (intro pop_jump [OF _ _ _ c]) (auto simp: walking_def intro: assms(3))
qed

lemma walking_pop:
  assumes "walking s t" and "cluster_start t" and "\<And>y u. settled s None u \<Longrightarrow> Q y u"
  shows "wlp stack_pop Q t"
proof (rule sectors.pop_saved [of t "saved_sectors s" "db_sector (dir_buff s)"])
  fix u
  assume u: "stack_wf u" "saved_sectors u = saved_sectors s" "beside_stack u = beside_stack t"
  with assms(1,2) show "Q (db_sector (dir_buff s)) u"
    using beside_stackD(1,5) [OF u(3)] by (intro assms(3)) (simp add: settled_def walking_def)
qed (use assms(1) in \<open>simp_all add: walking_def\<close>)

lemma walk_turn_settled:
  fixes s t :: "'w server"
  assumes start: "cluster_start s" and t: "walking s t" "cluster_start t"
  shows "wlp (walk_turn px len ban_files ban_dirs v) (\<lambda>y u. case y of
      Inl v' \<Rightarrow> walking s u \<and> cluster_start u
    | Inr r \<Rightarrow> fst r \<in> {0, 1, 2}
        \<and> settled s (if fst r = 0 then None else Some (db_sector (dir_buff s))) u) t"
    (is "wlp _ ?Q t")
proof -
  define Q where "Q = ?Q"
  have Q_Inl: "walking s u \<Longrightarrow> cluster_start u \<Longrightarrow> Q (Inl v') u" for v' u
    by (simp add: Q_def)
  have Q_Inr: "settled s (Some (db_sector (dir_buff s))) u \<Longrightarrow> i \<in> {1, 2} \<Longrightarrow> Q (Inr (i, p)) u" for i p u
    by (auto simp: Q_def)
  have Q_0: "settled s None u \<Longrightarrow> Q (Inr (0, p)) u" for p u
    by (auto simp: Q_def)
  obtain path left right where v: "v = (path, left, right)" by (cases v)
  let ?re = "segment_end path len right"
  let ?pa = "path[?re := 0]"
  have child: "wlp (hop px) (\<lambda>_. wlp (ret (Inl (?pa, ?re + 1, ?re + 1))) Q) u"
    if "walking s u" "de_type (db_de (dir_buff u)) = DIR_TYPE_SHORT" for u
    by (rule wlp_mono [OF hop_spec]) (use that in \<open>auto simp: wp_simps intro: walking_mid Q_Inl\<close>)
  have home: "wlp stack_pop (\<lambda>sec'. wlp (jump_to_sector px sec') (\<lambda>_. wlp (ret (Inr (i, ?pa))) Q)) u"
    if "walking s u" "i \<in> {1, 2}" for i u
    using that(1) by (intro walking_jump_back [OF start]) (use that(2) in \<open>auto simp: wp_simps intro: Q_Inr\<close>)
  have "wlp (walk_turn px len ban_files ban_dirs v) Q t"
  proof (cases "right < len")
    case True
    have "wlp (find_child px (drop left ?pa)) (\<lambda>r u. if r \<noteq> 0
        then wlp stack_pop (\<lambda>sec'. wlp (jump_to_sector px sec') (\<lambda>_. wlp (ret (Inr (1, ?pa))) Q)) u
        else if ?re < len \<and> \<not> is_directory (db_de (dir_buff u))
          \<or> ?re = len \<and> (ban_dirs \<and> is_directory (db_de (dir_buff u))
                        \<or> ban_files \<and> \<not> is_directory (db_de (dir_buff u)))
        then wlp stack_pop (\<lambda>sec'. wlp (jump_to_sector px sec') (\<lambda>_. wlp (ret (Inr (2, ?pa))) Q)) u
        else wlp (hop px) (\<lambda>_. wlp (ret (Inl (?pa, ?re + 1, ?re + 1))) Q) u) t"
    proof (rule wlp_mono [OF find_child_spec], goal_cases)
      case (1 r u)
      then have w: "walking s u" using walking_nav [OF t(1)] by blast
      with 1 show ?case
        using child [OF w] home [OF w, of 1] home [OF w, of 2] by auto
    qed
    with True show ?thesis
      unfolding v walk_turn_def
      by (simp add: wlp_bnd wlp_andthen wlp_if wlp_gets Let_def split del: if_split cong: if_cong)
  next
    case False
    then show ?thesis
      unfolding v walk_turn_def
      by (auto simp: wp_simps intro!: walking_pop [OF t] Q_0)
  qed
  then show ?thesis unfolding Q_def .
qed

text \<open>A saved position: the push at the head of every command.\<close>

lemma push_walking:
  assumes "stack_wf s" and "\<And>t. walking s t \<Longrightarrow> beside_stack t = beside_stack s \<Longrightarrow> Q () t"
  shows "wlp (stack_push (db_sector (dir_buff s))) Q s"
  by (rule sectors.push_saved [OF assms(1)])
     (auto simp: walking_def dest: beside_stackD(1) intro!: assms(2))

lemma walk_settled:
  assumes wf: "stack_wf s" and start: "cluster_start s"
  shows "wlp (walk px path flags) (\<lambda>r t. fst r \<in> {0, 1, 2}
     \<and> settled s (if fst r = 0 then None else Some (db_sector (dir_buff s))) t) s"
  unfolding walk_def wp_simps
proof (rule push_walking [OF wf], rule impI, rule wlp_loop [where I = "\<lambda>_ t. walking s t \<and> cluster_start t"])
  fix v t
  assume "walking s t \<and> cluster_start t"
  then show "wlp (walk_turn px (length (cstr path)) (0 < flags AND WALK_BAN_FILES) (0 < flags AND WALK_BAN_DIRS) v)
    (\<lambda>y t. case y of Inl x' \<Rightarrow> walking s t \<and> cluster_start t
     | Inr r \<Rightarrow> fst r \<in> {0, 1, 2}
        \<and> settled s (if fst r = 0 then None else Some (db_sector (dir_buff s))) t) t"
    by (intro walk_turn_settled start) auto
next
  fix t
  assume "walking s t" "beside_stack t = beside_stack s"
  with start show "walking s t \<and> cluster_start t"
    using beside_stackD(5) by blast
qed

section \<open>The commands\<close>

lemma settled_walking: "walking s t \<Longrightarrow> settled t p u \<Longrightarrow> walking s u \<and> cluster_start u"
  by (simp add: walking_def settled_def)

lemma settled_None: "settled s (Some sec) t \<Longrightarrow> settled s None t"
  by (simp add: settled_def)

lemma cd_settled:
  assumes wf: "stack_wf s" and start: "cluster_start s"
  shows "wlp (cd px path) (\<lambda>r t. r \<in> {0, 1, 2}
     \<and> settled s (if r = 0 then None else Some (db_sector (dir_buff s))) t) s"
  unfolding cd_def wp_simps
proof (rule push_walking [OF wf])
  fix t
  assume t: "walking s t" "beside_stack t = beside_stack s"
  with start have start': "cluster_start t" and wf': "stack_wf t"
    using beside_stackD(5) [OF t(2)] by (simp_all add: walking_def)
  show "wlp (walk px path WALK_BAN_FILES) (\<lambda>x sa. if fst x \<noteq> 0
      then wlp stack_pop (\<lambda>sec'. wlp (jump_to_sector px sec') (\<lambda>_ u. fst x \<in> {0, 1, 2} \<and>
          settled s (if fst x = 0 then None else Some (db_sector (dir_buff s))) u)) sa
      else wlp stack_pop (\<lambda>_ u. 0 \<in> {0, 1, 2} \<and>
          settled s (if (0 :: int) = 0 then None else Some (db_sector (dir_buff s))) u) sa) t"
  proof (rule wlp_mono [OF walk_settled [OF wf' start']], goal_cases)
    case (1 r u)
    then have u: "walking s u" "cluster_start u"
      using settled_walking [OF t(1)] by auto
    show ?case
    proof (cases "fst r = 0")
      case True
      then show ?thesis by (auto intro!: walking_pop [OF u])
    next
      case False
      with 1 show ?thesis by (auto intro!: walking_jump_back [OF start u(1)])
    qed
  qed
qed

text \<open>
  The result of a command that reads only: a status, and the server back where it was.
\<close>

definition came_back :: "'w server \<Rightarrow> int \<Rightarrow> 'w server \<Rightarrow> bool" where
  "came_back s r t \<longleftrightarrow> r \<in> {0, 1, 2} \<and> settled s (Some (db_sector (dir_buff s))) t"

lemma walking_back:
  assumes "cluster_start s" and "walking s t" and "i \<in> {0, 1, 2}"
  shows "wlp stack_pop (\<lambda>sec'. wlp (jump_to_sector px sec') (\<lambda>_. wlp (ret i) (came_back s))) t"
  using assms(1,2)
  by (rule walking_jump_back) (use assms(3) in \<open>simp add: wlp_ret came_back_def\<close>)

lemma walking_back_after:
  assumes "cluster_start s" and "walking s t" and "i \<in> {0, 1, 2}" and "keeps mid_frame m"
  shows "wlp m (\<lambda>_. wlp stack_pop (\<lambda>sec'. wlp (jump_to_sector px sec') (\<lambda>_. wlp (ret i) (came_back s)))) t"
proof (rule wlp_keeps_only [OF assms(4)])
  fix x and u :: "'a server"
  assume "mid_frame u = mid_frame t"
  then show "wlp stack_pop (\<lambda>sec'. wlp (jump_to_sector px sec') (\<lambda>_. wlp (ret i) (came_back s))) u"
    using walking_back assms(1,3) walking_mid [OF assms(2)] by blast
qed

lemma push_start:
  assumes "stack_wf s" and "cluster_start s"
    and "\<And>t. walking s t \<Longrightarrow> cluster_start t \<Longrightarrow> stack_wf t \<Longrightarrow> Q () t"
  shows "wlp (stack_push (db_sector (dir_buff s))) Q s"
  by (rule push_walking [OF assms(1)])
     (use assms(2) beside_stackD(5) in \<open>auto simp: walking_def intro!: assms(3)\<close>)

lemma ls_settled:
  assumes wf: "stack_wf s" and start: "cluster_start s"
  shows "wlp (ls px path) (came_back s) s"
  unfolding ls_def ls_entered_def wlp_bnd wlp_gets wlp_andthen wlp_streq
proof (rule push_start [OF wf start], rule impI)
  fix t
  assume t: "walking s t" "cluster_start t" "stack_wf t"
  let ?loop = "loop_m (dir_turn px (\<lambda>_. ()) ls_visit (printf ''OOPS'')) ([], clear_name [])"
  have "keeps mid_frame ?loop"
    by (intro keeps_intros keeps_dir_turn keeps_ops mid_frame_of_nav [OF keeps_next_dir_entry])
  note list = walking_back_after [OF start _ _ this, where i = 0]
  show "wlp (if cstr path = cstr (bytes_of ''.'' @ [0]) then ret 0 else cd px path)
      (\<lambda>x. wlp (if x \<noteq> 0 then bnd stack_pop (\<lambda>sec'. andthen (jump_to_sector px sec') (ret x))
        else andthen ?loop (bnd stack_pop (\<lambda>sec'. andthen (jump_to_sector px sec') (ret OK)))) (came_back s)) t"
  proof (cases "cstr path = cstr (bytes_of ''.'' @ [0])")
    case True
    then show ?thesis using list [OF t(1)] by (simp add: wlp_ret wlp_bnd wlp_andthen)
  next
    case False
    have "wlp (cd px path) (\<lambda>r u. r \<in> {0, 1, 2} \<and> walking s u) t"
      by (rule wlp_mono [OF cd_settled [OF t(3,2)]]) (use settled_walking [OF t(1)] in auto)
    with False show ?thesis
      by (auto simp: wlp_bnd wlp_andthen elim!: wlp_mono intro!: walking_back [OF start] list)
  qed
qed

lemma hop_file_size_settled:
  assumes wf: "stack_wf s" and start: "cluster_start s"
  shows "wlp (hop_file_size px) (\<lambda>_ t. settled s (Some (db_sector (dir_buff s))) t) s"
  unfolding hop_file_size_def wlp_bnd wlp_gets wlp_andthen wlp_ret
proof (rule push_start [OF wf start])
  fix t
  assume t: "walking s t"
  let ?look = "andthen (set_pos (last_hop_sector t) (last_hop_offset t))
     (andthen (load_sector px (last_hop_sector t)) (parse_dir (last_hop_offset t)))"
  have "keeps nav_frame ?look" by (intro keeps_intros keeps_ops)
  note look = wlp_keeps_only [OF mid_frame_of_nav [OF this], unfolded wlp_andthen]
  show "wlp (set_pos (last_hop_sector t) (last_hop_offset t)) (\<lambda>_. wlp (load_sector px (last_hop_sector t))
      (\<lambda>_. wlp (parse_dir (last_hop_offset t)) (\<lambda>_ u. wlp stack_pop (\<lambda>sec'. wlp (jump_to_sector px sec')
        (\<lambda>_. settled s (Some (db_sector (dir_buff s))))) u))) t"
    by (rule look, rule walking_jump_back [OF start walking_mid [OF t]])
qed

lemma cat_settled:
  assumes wf: "stack_wf s" and start: "cluster_start s"
  shows "wlp (cat px path) (came_back s) s"
  unfolding cat_def wlp_bnd wlp_gets wlp_andthen
proof (rule push_start [OF wf start])
  fix t
  assume t: "walking s t" "cluster_start t" "stack_wf t"
  let ?print = "\<lambda>sz. andthen (repeat_m (unat sz) (cat_turn px)) (printf (''^EOF'' @ [CHR 0x0A]))"
  have "keeps mid_frame (?print sz)" for sz by (intro keeps_intros keeps_ops)
  note print = walking_back_after [OF start _ _ this, of _ 0]
  have found: "wlp (hop_file_size px) (\<lambda>sz. wlp (?print sz) (\<lambda>_. wlp stack_pop (\<lambda>sec'.
      wlp (jump_to_sector px sec') (\<lambda>_. wlp (ret 0) (came_back s))))) u"
    if u: "walking s u" "cluster_start u" "stack_wf u" for u
    by (rule wlp_mono [OF hop_file_size_settled [OF u(3,2)]])
       (rule print, use settled_walking [OF u(1)] in auto)
  have "wlp (walk px path WALK_BAN_DIRS) (\<lambda>r u. fst r \<in> {0, 1, 2} \<and> walking s u \<and> cluster_start u) t"
    by (rule wlp_mono [OF walk_settled [OF t(3,2)]]) (use settled_walking [OF t(1)] in auto)
  then show "wlp (walk px path WALK_BAN_DIRS) (\<lambda>x. wlp (if fst x \<noteq> 0
      then bnd stack_pop (\<lambda>sec'. andthen (jump_to_sector px sec') (ret (fst x)))
      else bnd (hop_file_size px) (\<lambda>sz. andthen (?print sz)
        (bnd stack_pop (\<lambda>sec'. andthen (jump_to_sector px sec') (ret OK))))) (came_back s)) t"
  proof (rule wlp_mono, goal_cases)
    case (1 r u)
    then show ?case
      using walking_back [OF start, of u "fst r" px] found [of u]
      by (cases "fst r = 0") (simp_all add: wlp_bnd wlp_andthen walking_def)
  qed
qed

lemma stat_found_settled:
  assumes start: "cluster_start s" and t: "walking s t"
  shows "wlp (stat_found px name) (came_back s) t"
  unfolding stat_found_def wlp_bnd
proof (rule wlp_mono [OF find_child_spec], goal_cases)
  case (1 r u)
  then have u: "walking s u" using walking_nav [OF t] by blast
  let ?print = "andthen (print_regular_dir_entry (reg (db_de (dir_buff u)))) (print_long_name_rde name)"
  have "keeps mid_frame ?print" by (intro keeps_intros keeps_ops)
  from 1 walking_back [OF start u, of r px] walking_back_after [OF start u _ this, of 0 px] show ?case
    by (auto simp: wlp_bnd wlp_andthen wlp_gets)
qed

lemma stat_settled:
  assumes wf: "stack_wf s" and start: "cluster_start s"
  shows "wlp (stat px path) (came_back s) s"
proof -
  have direct: "wlp (andthen (stack_push (db_sector (dir_buff s))) (stat_found px name)) (came_back s) s" for name
    unfolding wlp_andthen
    by (rule push_start [OF wf start]) (rule stat_found_settled [OF start])
  have below: "wlp (andthen (stack_push (db_sector (dir_buff s))) (bnd (walk px p WALK_BAN_FILES) (\<lambda>r.
      if fst r \<noteq> 0 then bnd stack_pop (\<lambda>sec'. andthen (jump_to_sector px sec') (ret (fst r)))
      else stat_found px (drop (i + 1) (snd r))))) (came_back s) s" for p i
    unfolding wlp_andthen wlp_bnd
  proof (rule push_start [OF wf start])
    fix t
    assume t: "walking s t" "cluster_start t" "stack_wf t"
    have "wlp (walk px p WALK_BAN_FILES) (\<lambda>r u. fst r \<in> {0, 1, 2} \<and> walking s u) t"
      by (rule wlp_mono [OF walk_settled [OF t(3,2)]]) (use settled_walking [OF t(1)] in auto)
    then show "wlp (walk px p WALK_BAN_FILES) (\<lambda>x. wlp (if fst x \<noteq> 0
        then bnd stack_pop (\<lambda>sec'. andthen (jump_to_sector px sec') (ret (fst x)))
        else stat_found px (drop (i + 1) (snd x))) (came_back s)) t"
    proof (rule wlp_mono, goal_cases)
      case (1 r u)
      then show ?case
        using walking_back [OF start, of u "fst r" px] stat_found_settled [OF start, of u]
        by (cases "fst r = 0") (simp_all add: wlp_bnd wlp_andthen)
    qed
  qed
  show ?thesis
    using direct below by (auto simp: stat_def wlp_bnd wlp_strlen wlp_gets split: option.split)
qed

text \<open>Inside \<open>pwd\<close>: back from the parent, at the head of the parent's cluster.\<close>

lemma pwd_back:
  assumes u: "walking s u" "cluster_start u" and w: "walking u w"
    and Q: "\<And>x v. walking s v \<Longrightarrow> cluster_start v \<Longrightarrow> Q (Inl x) v"
  shows "wlp (bnd stack_pop (\<lambda>sec'. andthen (jump_to_sector px sec') (
     bnd (bnd (gets (\<lambda>s. db_sector (dir_buff s))) sector_to_cluster) (\<lambda>c. ret (Inl (a, b, c)))))) Q w"
  unfolding wlp_bnd wlp_andthen wlp_gets wlp_sector_to_cluster wlp_ret
  by (rule walking_jump_back [OF u(2) w]) (use settled_walking [OF u(1)] Q in blast)

definition pwd_post :: "'w server \<Rightarrow> (byte list \<times> byte list \<times> u32) + byte list option \<Rightarrow> 'w server \<Rightarrow> bool" where
  "pwd_post s y t \<longleftrightarrow> (case y of Inl _ \<Rightarrow> walking s t \<and> cluster_start t
     | Inr r \<Rightarrow> r \<noteq> None \<longrightarrow> walking s t)"

lemma pwd_up_settled:
  fixes s u :: "'w server"
  assumes u: "walking s u" "cluster_start u"
  shows "wlp (pwd_up px v) (pwd_post s) u"
proof -
  obtain name full cid where v: "v = (name, full, cid)" by (cases v)
  show ?thesis
    unfolding pwd_up_def v Let_def prod.case wlp_bnd [of "gets _"] wlp_gets wlp_andthen
  proof (rule push_walking, goal_cases)
    case (2 w)
    then have w: "walking u w" by simp
    show ?case
      unfolding wlp_bnd [of "find_child_by_cluster_id _ _ _"]
    proof (rule wlp_keeps_only [OF keeps_find_child_by_cluster_id], goal_cases)
      case (1 found x)
      then have x: "walking u x" using walking_nav [OF w] by blast
      have "pwd_post s (Inl z) y" if "walking s y" "cluster_start y" for y z
        using that by (simp add: pwd_post_def)
      note home = pwd_back [OF u x, where Q = "pwd_post s", OF this]
      show ?case
      proof (cases "fst found = 0")
        case True
        with home show ?thesis by (simp add: wp_simps)
      next
        case False
        then show ?thesis by (simp add: wp_simps pwd_post_def)
      qed
    qed
  qed (use u in \<open>simp add: walking_def\<close>)
qed

lemma pwd_turn_settled:
  assumes t: "walking s t" "cluster_start t"
  shows "wlp (pwd_turn px v) (pwd_post s) t"
  unfolding pwd_turn_def wlp_bnd
proof (rule wlp_mono [OF find_child_spec], goal_cases)
  case (1 r u)
  then have u: "walking s u" using walking_nav [OF t(1)] by blast
  have "wlp (hop px) (\<lambda>_. wlp (pwd_up px v) (pwd_post s)) u" if "r = 0"
    by (rule wlp_mono [OF hop_spec])
       (use 1 that walking_mid [OF u] in \<open>auto intro!: pwd_up_settled\<close>)
  with 1 u show ?case
    by (auto simp: wlp_ret wlp_andthen pwd_post_def)
qed

lemma pwd_settled:
  assumes wf: "stack_wf s" and start: "cluster_start s"
  shows "wlp (pwd px) (\<lambda>r t. core_frame t = core_frame s \<and> (r = OK \<and> came_back s r t \<or> r = - 1)) s"
    (is "wlp _ ?Q _")
proof (rule wlp_mono [OF wlp_keeps [OF keeps_pwd]])
  let ?P = "\<lambda>r t. r = OK \<and> came_back s r t \<or> r = - 1"
  show "wlp (pwd px) ?P s"
    unfolding pwd_def wlp_bnd wlp_gets wlp_andthen wlp_sector_to_cluster
  proof (rule push_start [OF wf start], rule impI, goal_cases)
    case (1 t)
    show ?case
    proof (rule wlp_loop [where I = "\<lambda>_ u. walking s u \<and> cluster_start u"], goal_cases)
      case (1 v u)
      have "wlp (pwd_turn px v) (pwd_post s) u" using 1 by (intro pwd_turn_settled) auto
      then show ?case
      proof (rule wlp_mono, goal_cases)
        case (1 y w)
        then show ?case
          by (auto simp: pwd_post_def wp_simps split: sum.splits option.splits
              intro!: walking_back [OF start, of _ 0, unfolded wlp_ret])
      qed
    qed (use 1 in simp)
  qed
qed auto

end
