(* ===== verification/Fat32_Disk.thy ===== *)
theory Fat32_Disk
  imports Fat32_Position
begin

text \<open>
  A volume as a list of bytes: what a device that serves these bytes gives the server. The
  clusters of a chain, laid end to end, are the data of a file or a directory; the lemmas
  show that the sector cache, the table lookup and the step from sector to sector read
  exactly these data, and that the steps terminate without a fault.
\<close>

section \<open>The device\<close>

text \<open>
  The documented behaviour of \<open>lseek\<close> followed by \<open>read\<close> on a device with the contents
  \<open>img\<close>: the bytes from the offset, fewer at the end of the device. \<open>W\<close> holds of the worlds
  in which the descriptor is open on the device.
\<close>

definition disk_device :: "'w posix \<Rightarrow> int \<Rightarrow> byte list \<Rightarrow> ('w \<Rightarrow> bool) \<Rightarrow> bool" where
  "disk_device px fd img W \<longleftrightarrow> (\<forall>w off n. W w \<longrightarrow> 0 \<le> off \<longrightarrow>
     (let rd = px_read px fd n (snd (px_lseek px fd off w))
      in fst rd = Some (slice (nat off) n img) \<and> W (snd rd)))"

section \<open>Geometry\<close>

abbreviation bps :: "Bpb \<Rightarrow> nat" where
  "bps b \<equiv> unat (bytes_per_sector b)"

abbreviation spc :: "Bpb \<Rightarrow> nat" where
  "spc b \<equiv> unat (sectors_per_cluster b)"

abbreviation rsv :: "Bpb \<Rightarrow> nat" where
  "rsv b \<equiv> unat (num_reserved_sectors b)"

definition data_start :: "Bpb \<Rightarrow> nat" where
  "data_start b = rsv b + unat (num_fats b) * unat (fat_size_32 b)"

text \<open>
  The geometries the specification of the file system allows, on a volume of up to 4 GiB:
  sectors of a multiple of 32 bytes that fit the buffer, and at least one reserved sector.
\<close>

definition geometry_ok :: "Bpb \<Rightarrow> byte list \<Rightarrow> bool" where
  "geometry_ok b img \<longleftrightarrow> 0 < bps b \<and> 32 dvd bps b \<and> bps b \<le> MAX_BYTES_PER_SECTOR
     \<and> 0 < spc b \<and> 0 < rsv b \<and> data_start b * bps b \<le> length img \<and> length img \<le> 2 ^ 32"

definition cluster_ok :: "Bpb \<Rightarrow> byte list \<Rightarrow> u32 \<Rightarrow> bool" where
  "cluster_ok b img c \<longleftrightarrow> 2 \<le> unat c
     \<and> (data_start b + (unat c - 2) * spc b + spc b) * bps b \<le> length img
     \<and> rsv b * bps b + 4 * unat c + 4 \<le> data_start b * bps b"

text \<open>The entry of a cluster in the first table and the bytes of the cluster, by offset.\<close>

definition fat_entry :: "Bpb \<Rightarrow> byte list \<Rightarrow> u32 \<Rightarrow> u32" where
  "fat_entry b img c = le32 img (rsv b * bps b + 4 * unat c) AND FAT_LO_MASK"

definition cluster_bytes :: "Bpb \<Rightarrow> byte list \<Rightarrow> u32 \<Rightarrow> byte list" where
  "cluster_bytes b img c = slice ((data_start b + (unat c - 2) * spc b) * bps b) (spc b * bps b) img"

text \<open>A chain of clusters: each entry names the next one.\<close>

definition chain_ok :: "Bpb \<Rightarrow> byte list \<Rightarrow> u32 list \<Rightarrow> bool" where
  "chain_ok b img cs \<longleftrightarrow> (\<forall>c \<in> set cs. cluster_ok b img c)
     \<and> (\<forall>k. Suc k < length cs \<longrightarrow> fat_entry b img (cs ! k) = cs ! Suc k)"

definition chain_data :: "Bpb \<Rightarrow> byte list \<Rightarrow> u32 list \<Rightarrow> byte list" where
  "chain_data b img cs = concat (map (cluster_bytes b img) cs)"

text \<open>The number of the sector that is \<open>i\<close>-th along the chain.\<close>

definition chain_sector :: "Bpb \<Rightarrow> u32 list \<Rightarrow> nat \<Rightarrow> nat" where
  "chain_sector b cs i = data_start b + (unat (cs ! (i div spc b)) - 2) * spc b + i mod spc b"

section \<open>The volume in the state\<close>

definition sector_ok :: "Bpb \<Rightarrow> byte list \<Rightarrow> nat \<Rightarrow> bool" where
  "sector_ok b img n \<longleftrightarrow> 0 < n \<and> (n + 1) * bps b \<le> length img"

definition volume :: "'w posix \<Rightarrow> byte list \<Rightarrow> ('w \<Rightarrow> bool) \<Rightarrow> 'w server \<Rightarrow> bool" where
  "volume px img W s \<longleftrightarrow> geometry_ok (bpb s) img \<and> disk_device px (device_fd s) img W
     \<and> W (world s) \<and> first_data_sector (fs_data s) = of_nat (data_start (bpb s))
     \<and> length (buff (fs_data s)) = MAX_BYTES_PER_SECTOR
     \<and> (let n = unat (curr_sector (fs_data s)) in sector_ok (bpb s) img n \<longrightarrow>
         take (bps (bpb s)) (buff (fs_data s)) = slice (n * bps (bpb s)) (bps (bpb s)) img)"

lemma unat_ucast_16 [simp]: "unat (ucast (x :: u16) :: u32) = unat x"
proof -
  have "unat x < 2 ^ 16" using unsigned_less [of x] by simp
  then show ?thesis by (simp add: unsigned_ucast_eq take_bit_nat_eq_self)
qed

lemma unat_ucast_8 [simp]: "unat (ucast (x :: byte) :: u32) = unat x"
proof -
  have "unat x < 2 ^ 8" using unsigned_less [of x] by simp
  then show ?thesis by (simp add: unsigned_ucast_eq take_bit_nat_eq_self)
qed

lemma sector_offset:
  assumes "geometry_ok b img" and "sector_ok b img (unat sec)"
  shows "unat (sec * ucast (bytes_per_sector b) :: u32) = unat sec * bps b"
proof -
  have "unat sec * bps b < 2 ^ 32"
    using assms by (auto simp: geometry_ok_def sector_ok_def algebra_simps)
  then show ?thesis
    by (simp add: unat_word_ariths)
qed

lemma load_sector_volume:
  assumes s: "volume px img W s"
  shows "wp (load_sector px sec) (\<lambda>_ t. volume px img W t \<and> nav_frame t = nav_frame s
     \<and> dir_buff t = dir_buff s \<and> curr_sector (fs_data t) = sec
     \<and> (sector_ok (bpb s) img (unat sec) \<longrightarrow>
        take (bps (bpb s)) (buff (fs_data t)) = slice (unat sec * bps (bpb s)) (bps (bpb s)) img)) s"
proof (cases "curr_sector (fs_data s) = sec")
  case True
  with s show ?thesis by (simp add: load_sector_def wp_simps volume_def Let_def)
next
  case False
  let ?n = "bps (bpb s)"
  let ?off = "uint (sec * ucast (bytes_per_sector (bpb s)) :: u32)"
  let ?rd = "px_read px (device_fd s) ?n (snd (px_lseek px (device_fd s) ?off (world s)))"
  let ?bs = "slice (nat ?off) ?n img"
  from s have rd: "fst ?rd = Some ?bs" "W (snd ?rd)"
    by (auto simp: volume_def disk_device_def Let_def)
  from s have len: "length ?bs \<le> ?n" "?n \<le> 4096"
    by (simp_all add: slice_def volume_def geometry_ok_def)
  have full: "length ?bs = ?n \<and> nat ?off = unat sec * ?n" if "sector_ok (bpb s) img (unat sec)"
    using that sector_offset [OF _ that] s
    by (auto simp: volume_def sector_ok_def slice_def nat_uint_eq algebra_simps)
  from False s rd len full show ?thesis
    by (auto simp: load_sector_def wp_simps volume_def Let_def frame_defs overwrite_def)
qed

section \<open>The table\<close>

text \<open>Where the entry of a cluster is: in one sector, after the reserved ones.\<close>

lemma dvd_mod_room:
  fixes n k B :: nat
  assumes "k dvd B" and "k dvd n" and "0 < B"
  shows "n mod B + k \<le> B"
proof -
  obtain m i where B: "B = k * m" and n: "n = k * i" using assms(1,2) unfolding dvd_def by blast
  from assms(3) B have "i mod m + 1 \<le> m" by (simp add: Suc_leI)
  then have "k * (i mod m + 1) \<le> k * m" by (rule mult_le_mono2)
  then show ?thesis by (simp add: B n)
qed

lemma fat_position:
  assumes b: "geometry_ok b img" and c: "cluster_ok b img c"
  defines "sec \<equiv> ucast (num_reserved_sectors b) + (c * 4) div ucast (bytes_per_sector b) :: u32"
    and "off \<equiv> (c * 4) mod ucast (bytes_per_sector b) :: u32"
  shows "sector_ok b img (unat sec)" and "unat off + 4 \<le> bps b"
    and "unat sec * bps b + unat off = rsv b * bps b + 4 * unat c"
proof -
  let ?n = "4 * unat c"
  have pos: "0 < bps b" "4 dvd bps b" and img: "length img \<le> 2 ^ 32" and "0 < rsv b"
    using b dvd_trans [of 4 "32 :: nat"] by (auto simp: geometry_ok_def)
  have room: "rsv b * bps b + ?n + 4 \<le> data_start b * bps b" "data_start b * bps b \<le> length img"
    using b c by (simp_all add: cluster_ok_def geometry_ok_def)
  have n: "unat (c * 4) = ?n"
    using room img by (simp add: unat_word_ariths)
  have off: "unat off = ?n mod bps b"
    by (simp add: off_def unat_mod n)
  have split: "?n = ?n div bps b * bps b + ?n mod bps b" by simp
  have less: "?n mod bps b + 4 \<le> bps b" using pos by (intro dvd_mod_room) auto
  have "rsv b + ?n div bps b \<le> rsv b * bps b + ?n div bps b * bps b"
    using pos by (intro add_mono) auto
  also have "\<dots> < 2 ^ 32" using room img split by linarith
  finally have "rsv b + ?n div bps b < 2 ^ 32" .
  then have sec: "unat sec = rsv b + ?n div bps b"
    unfolding sec_def by (subst unat_add_lem [THEN iffD1]) (simp_all add: unat_div n)
  show "unat off + 4 \<le> bps b" using less off by simp
  show eq: "unat sec * bps b + unat off = rsv b * bps b + ?n"
    using split by (simp add: sec off algebra_simps)
  have "unat sec * bps b < data_start b * bps b" using eq room by linarith
  then have "unat sec + 1 \<le> data_start b" by simp
  then have "(unat sec + 1) * bps b \<le> data_start b * bps b" by (rule mult_le_mono1)
  with room sec \<open>0 < rsv b\<close> show "sector_ok b img (unat sec)" by (simp add: sector_ok_def)
qed

lemma take_le32:
  assumes "take n xs = slice k n ys" and "k + n \<le> length ys" and "i + 4 \<le> n"
  shows "le32 xs i = le32 ys (k + i)"
proof -
  have eq: "xs ! j = ys ! (k + j)" if "j < n" for j
    using that assms(2) arg_cong [OF assms(1), of "\<lambda>zs. zs ! j"] by (simp add: nth_slice)
  show ?thesis using assms(3) by (simp add: le32_def eq add.assoc)
qed

lemma fat_get_volume:
  assumes s: "volume px img W s" and c: "cluster_ok (bpb s) img c"
  shows "wp (fat_get px c) (\<lambda>r t. r = fat_entry (bpb s) img c \<and> volume px img W t
     \<and> nav_frame t = nav_frame s \<and> dir_buff t = dir_buff s) s"
proof -
  let ?b = "bpb s"
  let ?sec = "ucast (num_reserved_sectors ?b) + (c * 4) div ucast (bytes_per_sector ?b) :: u32"
  let ?off = "(c * 4) mod ucast (bytes_per_sector ?b) :: u32"
  from s have g: "geometry_ok ?b img" by (simp add: volume_def)
  note pos = fat_position [OF g c]
  have bps: "bytes_per_sector ?b \<noteq> 0" "bps ?b \<le> 4096" using g by (auto simp: geometry_ok_def)
  have entry: "le32 bs (unat ?off) AND FAT_LO_MASK = fat_entry ?b img c"
    if "take (bps ?b) bs = slice (unat ?sec * bps ?b) (bps ?b) img" for bs
    using take_le32 [OF that _ pos(2)] pos(1,3) by (simp add: fat_entry_def sector_ok_def algebra_simps)
  show ?thesis
    unfolding fat_get_def
  proof (simp add: wp_simps bps del: FAT_LO_MASK_def MAX_BYTES_PER_SECTOR_def, rule wp_mono [OF load_sector_volume [OF s]])
    fix r and t :: "'a server"
    assume t: "volume px img W t \<and> nav_frame t = nav_frame s \<and> dir_buff t = dir_buff s
       \<and> curr_sector (fs_data t) = ?sec
       \<and> (sector_ok ?b img (unat ?sec) \<longrightarrow>
            take (bps ?b) (buff (fs_data t)) = slice (unat ?sec * bps ?b) (bps ?b) img)"
    then have "bpb t = ?b" by (simp add: frame_defs)
    then show "bytes_per_sector (bpb t) \<noteq> 0 \<and>
       unat (c * 4 mod ucast (bytes_per_sector (bpb t)) :: u32) + 4 \<le> MAX_BYTES_PER_SECTOR \<and>
       le32 (buff (fs_data t)) (unat (c * 4 mod ucast (bytes_per_sector (bpb t)) :: u32)) AND FAT_LO_MASK
         = fat_entry ?b img c \<and>
       volume px img W t \<and> nav_frame t = nav_frame s \<and> dir_buff t = dir_buff s"
      using t pos bps entry [of "buff (fs_data t)"] by simp
  qed
qed

section \<open>Along a chain\<close>

lemma slice_slice: "o' + n \<le> m \<Longrightarrow> slice o' n (slice k m xs) = slice (k + o') n xs"
  by (simp add: slice_def drop_take add.commute min_def)

lemma slice_concat:
  assumes "\<forall>x \<in> set xs. length x = m" and "q < length xs" and "j + n \<le> m"
  shows "slice (q * m + j) n (concat xs) = slice j n (xs ! q)"
  using assms
proof (induction xs arbitrary: q)
  case (Cons x xs)
  show ?case
  proof (cases q)
    case 0
    with Cons.prems show ?thesis by (simp add: slice_def)
  next
    case (Suc p)
    with Cons.prems have "slice (q * m + j) n (concat (x # xs)) = slice (p * m + j) n (concat xs)"
      by (simp add: slice_def)
    with Cons Suc show ?thesis by simp
  qed
qed simp

lemma length_concat_same: "\<forall>x \<in> set xs. length x = m \<Longrightarrow> length (concat xs) = length xs * m"
  by (induction xs) simp_all

lemma chain_cluster:
  assumes "chain_ok b img cs" and "i < length cs * spc b"
  shows "i div spc b < length cs" and "cluster_ok b img (cs ! (i div spc b))"
proof -
  show *: "i div spc b < length cs" using assms(2) by (simp add: less_mult_imp_div_less)
  show "cluster_ok b img (cs ! (i div spc b))" using assms(1) nth_mem [OF *] by (simp add: chain_ok_def)
qed

lemma length_cluster_bytes: "cluster_ok b img c \<Longrightarrow> length (cluster_bytes b img c) = spc b * bps b"
  unfolding cluster_bytes_def by (rule length_slice) (simp add: cluster_ok_def add_mult_distrib)

lemma length_chain_data:
  assumes "chain_ok b img cs"
  shows "length (chain_data b img cs) = length cs * spc b * bps b"
  using assms length_concat_same [of "map (cluster_bytes b img) cs" "spc b * bps b"]
  by (simp add: chain_data_def chain_ok_def length_cluster_bytes algebra_simps)

lemma chain_sector_slice:
  assumes cs: "chain_ok b img cs" and i: "i < length cs * spc b" and "0 < spc b"
  shows "slice (i * bps b) (bps b) (chain_data b img cs)
    = slice (chain_sector b cs i * bps b) (bps b) img"
proof -
  let ?q = "i div spc b" and ?r = "i mod spc b"
  have "?r + 1 \<le> spc b" using assms(3) by (simp add: Suc_leI)
  then have "(?r + 1) * bps b \<le> spc b * bps b" by (rule mult_le_mono1)
  then have room: "?r * bps b + bps b \<le> spc b * bps b" by simp
  have at: "i * bps b = ?q * (spc b * bps b) + ?r * bps b"
    using div_mult_mod_eq [of i "spc b"] by (metis add_mult_distrib mult.assoc)
  have "slice (i * bps b) (bps b) (chain_data b img cs)
      = slice (?r * bps b) (bps b) (map (cluster_bytes b img) cs ! ?q)"
    unfolding chain_data_def at using chain_cluster [OF cs i] cs room
    by (intro slice_concat) (auto simp: chain_ok_def length_cluster_bytes)
  also have "\<dots> = slice (chain_sector b cs i * bps b) (bps b) img"
    using chain_cluster [OF cs i] room
    by (simp add: cluster_bytes_def slice_slice chain_sector_def algebra_simps)
  finally show ?thesis .
qed

lemma chain_sector_ok:
  assumes b: "geometry_ok b img" and cs: "chain_ok b img cs" and i: "i < length cs * spc b"
  shows "sector_ok b img (chain_sector b cs i)" and "chain_sector b cs i + 1 < 2 ^ 32"
proof -
  let ?c = "cs ! (i div spc b)"
  have spc: "0 < spc b" and bps: "32 \<le> bps b" and img: "length img \<le> 2 ^ 32" and "0 < data_start b"
    using b by (auto simp: geometry_ok_def data_start_def dest: dvd_imp_le)
  have "i mod spc b + 1 \<le> spc b" using spc by (simp add: Suc_leI)
  then have "chain_sector b cs i + 1 \<le> data_start b + (unat ?c - 2) * spc b + spc b"
    by (simp add: chain_sector_def)
  then have "(chain_sector b cs i + 1) * bps b \<le> (data_start b + (unat ?c - 2) * spc b + spc b) * bps b"
    by (rule mult_le_mono1)
  also have "\<dots> \<le> length img" using chain_cluster [OF cs i] by (simp add: cluster_ok_def)
  finally have room: "(chain_sector b cs i + 1) * bps b \<le> length img" .
  then show "sector_ok b img (chain_sector b cs i)"
    using \<open>0 < data_start b\<close> by (simp add: sector_ok_def chain_sector_def)
  have "(chain_sector b cs i + 1) * 32 \<le> (chain_sector b cs i + 1) * bps b"
    using bps by (rule mult_le_mono2)
  also note room
  also note img
  finally show "chain_sector b cs i + 1 < 2 ^ 32" by simp
qed

lemma chain_sector_Suc:
  assumes "0 < spc b"
  shows "Suc i mod spc b \<noteq> 0 \<Longrightarrow> chain_sector b cs (Suc i) = chain_sector b cs i + 1"
    and "Suc i mod spc b = 0 \<Longrightarrow> chain_sector b cs (Suc i) = data_start b + (unat (cs ! Suc (i div spc b)) - 2) * spc b"
  using assms by (auto simp: chain_sector_def mod_Suc div_Suc split: if_splits)

text \<open>The words the code computes for the sectors of a chain.\<close>

lemma unat_small: "n < 2 ^ 32 \<Longrightarrow> unat (of_nat n :: u32) = n"
  by (simp add: unat_of_nat)

lemma sector_in_data:
  assumes n: "n < 2 ^ 32" and d: "d \<le> n"
  shows "unat (of_nat n - of_nat d :: u32) = n - d"
  using assms unat_small [of "n - d"] by simp

lemma first_sector_chain:
  assumes "2 \<le> unat c"
  shows "of_nat d + (c - 2) * ucast (sectors_per_cluster b) = (of_nat (d + (unat c - 2) * spc b) :: u32)"
proof -
  have "c - 2 = of_nat (unat c - 2)" using assms by (simp add: of_nat_diff)
  moreover have "ucast (sectors_per_cluster b) = (of_nat (spc b) :: u32)" by simp
  ultimately show ?thesis by simp
qed

lemma chain_leaving:
  assumes b: "geometry_ok b img" and cs: "chain_ok b img cs" and i: "i < length cs * spc b"
  shows "(of_nat (chain_sector b cs i) + 1 - of_nat (data_start b)) mod ucast (sectors_per_cluster b) = (0 :: u32)
     \<longleftrightarrow> Suc i mod spc b = 0"
    and "(of_nat (chain_sector b cs i) - of_nat (data_start b)) div ucast (sectors_per_cluster b) + 2
     = (cs ! (i div spc b) :: u32)"
proof -
  let ?n = "chain_sector b cs i" and ?d = "data_start b" and ?c = "cs ! (i div spc b)"
  have n: "?n + 1 < 2 ^ 32" "?d \<le> ?n" using chain_sector_ok [OF b cs i] by (simp_all add: chain_sector_def)
  have spc: "0 < spc b" using b by (simp add: geometry_ok_def)
  have c: "2 \<le> unat ?c" using chain_cluster [OF cs i] by (simp add: cluster_ok_def)
  have "unat (of_nat ?n + 1 - of_nat ?d :: u32) = ?n + 1 - ?d"
    using sector_in_data [of "?n + 1" ?d] n by (simp add: add.commute)
  then have "unat ((of_nat ?n + 1 - of_nat ?d) mod ucast (sectors_per_cluster b) :: u32) = (?n + 1 - ?d) mod spc b"
    by (simp add: unat_mod)
  also have "(?n + 1 - ?d) mod spc b = Suc i mod spc b"
    by (simp add: chain_sector_def mod_Suc)
  finally show "(of_nat ?n + 1 - of_nat ?d) mod ucast (sectors_per_cluster b) = (0 :: u32) \<longleftrightarrow> Suc i mod spc b = 0"
    by (simp add: unat_eq_0 [symmetric] del: unat_eq_0)
  have "unat ((of_nat ?n - of_nat ?d) div ucast (sectors_per_cluster b) :: u32) = (?n - ?d) div spc b"
    using sector_in_data [of ?n ?d] n by (simp add: unat_div)
  also have "\<dots> = unat (?c - 2)"
    using spc c by (simp add: chain_sector_def unat_sub word_le_nat_alt)
  finally have "(of_nat ?n - of_nat ?d) div ucast (sectors_per_cluster b) = ?c - 2"
    by (rule unsigned_word_eqI)
  then show "(of_nat ?n - of_nat ?d) div ucast (sectors_per_cluster b) + 2 = ?c" by simp
qed

text \<open>The active position is in sector \<open>i\<close> of the chain, and the sector is the cached one.\<close>

definition on_sector :: "u32 list \<Rightarrow> nat \<Rightarrow> 'w server \<Rightarrow> bool" where
  "on_sector cs i s \<longleftrightarrow> i < length cs * spc (bpb s)
     \<and> db_sector (dir_buff s) = of_nat (chain_sector (bpb s) cs i)
     \<and> curr_sector (fs_data s) = db_sector (dir_buff s)"

lemma on_sector_bytes:
  assumes "volume px img W s" and "chain_ok (bpb s) img cs" and "on_sector cs i s"
  shows "take (bps (bpb s)) (buff (fs_data s))
    = slice (i * bps (bpb s)) (bps (bpb s)) (chain_data (bpb s) img cs)"
proof -
  from assms have b: "geometry_ok (bpb s) img" and i: "i < length cs * spc (bpb s)"
    and cur: "curr_sector (fs_data s) = of_nat (chain_sector (bpb s) cs i)"
    by (simp_all add: volume_def on_sector_def)
  note ok = chain_sector_ok [OF b assms(2) i]
  have "unat (curr_sector (fs_data s)) = chain_sector (bpb s) cs i"
    using ok(2) by (simp add: cur unat_small)
  with assms(1) ok(1) chain_sector_slice [OF assms(2) i] b show ?thesis
    by (simp add: volume_def Let_def geometry_ok_def)
qed

lemma advance_sector_target:
  assumes s: "volume px img W s" and cs: "chain_ok (bpb s) img cs" and i: "on_sector cs i s"
    and c: "cluster = cs ! (i div spc (bpb s))"
    and more: "Suc i < length cs * spc (bpb s)" and leave: "Suc i mod spc (bpb s) = 0"
  shows "first_sector_of_cluster (fat_entry (bpb s) img cluster) s = of_nat (chain_sector (bpb s) cs (Suc i))"
proof -
  let ?b = "bpb s" and ?q = "i div spc (bpb s)"
  have spc: "0 < spc ?b" using s by (simp add: volume_def geometry_ok_def)
  have q: "Suc i div spc ?b = Suc ?q" using leave spc by (simp add: div_Suc)
  then have "Suc ?q < length cs" using chain_cluster [OF cs more] by simp
  then have "fat_entry ?b img cluster = cs ! Suc ?q" using cs c by (simp add: chain_ok_def)
  moreover have "2 \<le> unat (cs ! Suc ?q)" using chain_cluster [OF cs more] q by (simp add: cluster_ok_def)
  ultimately show ?thesis
    using first_sector_chain [of "cs ! Suc ?q" "data_start ?b" ?b] chain_sector_Suc(2) [OF spc leave, of cs] s
    by (simp add: first_sector_of_cluster_def volume_def)
qed

definition advanced :: "'w posix \<Rightarrow> byte list \<Rightarrow> ('w \<Rightarrow> bool) \<Rightarrow> u32 list \<Rightarrow> nat \<Rightarrow> 'w server \<Rightarrow> 'w server \<Rightarrow> bool" where
  "advanced px img W cs i s t \<longleftrightarrow> volume px img W t \<and> nav_frame t = nav_frame s
     \<and> db_de (dir_buff t) = db_de (dir_buff s) \<and> db_offset (dir_buff t) = 0
     \<and> (Suc i < length cs * spc (bpb s) \<longrightarrow> on_sector cs (Suc i) t)"

lemma move_and_load:
  assumes u: "volume px img W u" "nav_frame u = nav_frame s" "db_de (dir_buff u) = db_de (dir_buff s)"
    and sec: "Suc i < length cs * spc (bpb s) \<Longrightarrow> sec = of_nat (chain_sector (bpb s) cs (Suc i))"
  shows "wp (andthen (set_pos sec 0) (andthen (load_sector px sec) (ret ()))) (\<lambda>_. advanced px img W cs i s) u"
proof -
  let ?u = "u\<lparr>dir_buff := (dir_buff u)\<lparr>db_sector := sec, db_offset := 0\<rparr>\<rparr>"
  have v: "volume px img W ?u" using u(1) by (simp add: volume_def)
  have "wp (load_sector px sec) (\<lambda>_. advanced px img W cs i s) ?u"
  proof (rule wp_mono [OF load_sector_volume [OF v]], elim conjE)
    fix r and t :: "'a server"
    assume t: "volume px img W t" "nav_frame t = nav_frame ?u" "dir_buff t = dir_buff ?u"
      "curr_sector (fs_data t) = sec"
    have frame: "nav_frame t = nav_frame s" using t(2) u(2) by (simp add: frame_defs)
    then have "bpb t = bpb s" by (simp add: frame_defs)
    with t frame u(3) sec show "advanced px img W cs i s t"
      by (simp add: advanced_def on_sector_def)
  qed
  then show ?thesis by (simp add: set_pos_def wp_simps)
qed

lemma advance_sector_chain:
  assumes s: "volume px img W s" and cs: "chain_ok (bpb s) img cs" and i: "on_sector cs i s"
  shows "wp (advance_sector px) (\<lambda>_. advanced px img W cs i s) s"
proof -
  let ?b = "bpb s" and ?sec = "db_sector (dir_buff s)" and ?c = "cs ! (i div spc (bpb s))"
  have b: "geometry_ok ?b img" and sec: "?sec = of_nat (chain_sector ?b cs i)" and i': "i < length cs * spc ?b"
    and fds: "first_data_sector (fs_data s) = of_nat (data_start ?b)"
    using s i by (simp_all add: volume_def on_sector_def)
  have spc: "sectors_per_cluster ?b \<noteq> 0" "0 < spc ?b" using b by (auto simp: geometry_ok_def)
  note words = chain_leaving [OF b cs i']
  show ?thesis
  proof (cases "Suc i mod spc ?b = 0")
    case leave: True
    have "wp (fat_get px ?c) (\<lambda>r t. wp (andthen (set_pos (first_sector_of_cluster r t) 0)
        (andthen (load_sector px (first_sector_of_cluster r t)) (ret ()))) (\<lambda>_. advanced px img W cs i s) t) s"
    proof (rule wp_mono [OF fat_get_volume [OF s chain_cluster(2) [OF cs i']]], elim conjE)
      fix r and t :: "'a server"
      assume t: "r = fat_entry ?b img ?c" "volume px img W t" "nav_frame t = nav_frame s" "dir_buff t = dir_buff s"
      then have "core_frame t = core_frame s" by (simp add: frame_defs)
      from first_sector_core [OF this] t advance_sector_target [OF s cs i refl _ leave]
      show "wp (andthen (set_pos (first_sector_of_cluster r t) 0)
        (andthen (load_sector px (first_sector_of_cluster r t)) (ret ()))) (\<lambda>_. advanced px img W cs i s) t"
        by (intro move_and_load) auto
    qed
    with leave show ?thesis
      by (simp add: advance_sector_def wp_simps spc words sec fds)
  next
    case False
    then show ?thesis
      using move_and_load [OF s refl refl, where sec = "?sec + 1"] chain_sector_Suc(1) [OF spc(2) False, of cs]
      by (simp add: advance_sector_def wp_simps spc words sec fds)
  qed
qed

section \<open>Byte by byte\<close>

definition at_byte :: "u32 list \<Rightarrow> nat \<Rightarrow> 'w server \<Rightarrow> bool" where
  "at_byte cs p s \<longleftrightarrow> on_sector cs (p div bps (bpb s)) s \<and> db_offset (dir_buff s) = of_nat (p mod bps (bpb s))"

lemma at_byte_offset:
  assumes "volume px img W s" and "at_byte cs p s"
  shows "unat (db_offset (dir_buff s)) = p mod bps (bpb s)" and "p mod bps (bpb s) < bps (bpb s)"
    and "bps (bpb s) \<le> 4096"
proof -
  show b: "bps (bpb s) \<le> 4096" using assms(1) by (simp add: volume_def geometry_ok_def)
  show m: "p mod bps (bpb s) < bps (bpb s)" using assms(1) by (simp add: volume_def geometry_ok_def)
  from b m have "p mod bps (bpb s) < 2 ^ 32" by simp
  then show "unat (db_offset (dir_buff s)) = p mod bps (bpb s)"
    using assms(2) unat_small by (simp only: at_byte_def)
qed

lemma at_byte_value:
  assumes s: "volume px img W s" and cs: "chain_ok (bpb s) img cs" and p: "at_byte cs p s"
  shows "buff (fs_data s) ! unat (db_offset (dir_buff s)) = chain_data (bpb s) img cs ! p"
proof -
  let ?B = "bps (bpb s)"
  have i: "p div ?B < length cs * spc (bpb s)" and on: "on_sector cs (p div ?B) s"
    using p by (simp_all add: at_byte_def on_sector_def)
  note o = at_byte_offset [OF s p]
  have "(p div ?B + 1) * ?B \<le> (length cs * spc (bpb s)) * ?B" using i by (intro mult_le_mono1) simp
  then have room: "p div ?B * ?B + ?B \<le> length (chain_data (bpb s) img cs)"
    by (simp add: length_chain_data [OF cs])
  have "buff (fs_data s) ! (p mod ?B) = take ?B (buff (fs_data s)) ! (p mod ?B)"
    using o(2) by simp
  also have "\<dots> = chain_data (bpb s) img cs ! (p div ?B * ?B + p mod ?B)"
    unfolding on_sector_bytes [OF s cs on] using o(2) room by (intro nth_slice) linarith+
  finally show ?thesis using o(1) by simp
qed

text \<open>What one more byte leaves: the byte printed, and the position one further.\<close>

definition printed :: "'w posix \<Rightarrow> byte list \<Rightarrow> ('w \<Rightarrow> bool) \<Rightarrow> u32 list \<Rightarrow> nat \<Rightarrow> string \<Rightarrow> 'w server \<Rightarrow> 'w server \<Rightarrow> bool" where
  "printed px img W cs p ys s t \<longleftrightarrow> volume px img W t \<and> mid_frame t = mid_frame s
     \<and> out t = out s @ ys
     \<and> (p < length cs * spc (bpb s) * bps (bpb s) \<longrightarrow> at_byte cs p t)"

lemma cat_turn_step:
  assumes s: "volume px img W s" and cs: "chain_ok (bpb s) img cs" and p: "at_byte cs p s"
  shows "wp (cat_turn px)
    (\<lambda>_. printed px img W cs (Suc p) (string_of [chain_data (bpb s) img cs ! p]) s) s"
proof -
  let ?B = "bps (bpb s)" and ?off = "db_offset (dir_buff s)" and ?sec = "db_sector (dir_buff s)"
  let ?x = "string_of [chain_data (bpb s) img cs ! p]"
  let ?u = "s\<lparr>out := out s @ ?x, dir_buff := (dir_buff s)\<lparr>db_sector := ?sec, db_offset := ?off + 1\<rparr>\<rparr>"
  note o = at_byte_offset [OF s p]
  have off: "?off = of_nat (p mod ?B)" and on: "on_sector cs (p div ?B) s"
    using p by (simp_all add: at_byte_def)
  have u: "volume px img W ?u" "on_sector cs (p div ?B) ?u" "mid_frame ?u = mid_frame s"
    using s on by (simp_all add: volume_def on_sector_def frame_defs)
  have "?off + 1 = ucast (bytes_per_sector (bpb s)) \<longleftrightarrow> Suc (p mod ?B) = ?B"
  proof -
    have "unat (?off + 1) = Suc (p mod ?B)"
      using unat_small [of "Suc (p mod ?B)"] o(2,3) off by (simp add: add.commute)
    then show ?thesis by (metis unat_ucast_16 unsigned_word_eqI)
  qed
  moreover have "wp (advance_sector px) (\<lambda>_. printed px img W cs (Suc p) ?x s) ?u" if last: "Suc (p mod ?B) = ?B"
  proof (rule wp_mono [OF advance_sector_chain [OF u(1) _ u(2)]])
    fix r and t :: "'a server"
    assume t: "advanced px img W cs (p div ?B) ?u t"
    then have f: "mid_frame t = mid_frame s" "out t = out s @ ?x" "bpb t = bpb s"
      by (simp_all add: advanced_def frame_defs)
    have "Suc p div ?B = Suc (p div ?B)" "Suc p mod ?B = 0" using last o(2) by (simp_all add: div_Suc mod_Suc)
    moreover have "Suc (p div ?B) < length cs * spc (bpb s)" if "Suc p < length cs * spc (bpb s) * ?B"
      using that \<open>Suc p div ?B = Suc (p div ?B)\<close> by (metis less_mult_imp_div_less)
    ultimately show "printed px img W cs (Suc p) ?x s t"
      using t f by (simp add: printed_def advanced_def at_byte_def)
  qed (use cs in simp)
  moreover have "printed px img W cs (Suc p) ?x s ?u" if "Suc (p mod ?B) \<noteq> ?B"
  proof -
    have "Suc p div ?B = p div ?B" "Suc p mod ?B = Suc (p mod ?B)"
      using that o(2) by (simp_all add: div_Suc mod_Suc)
    with u off show ?thesis by (simp add: printed_def at_byte_def add.commute)
  qed
  ultimately show ?thesis
    using o at_byte_value [OF s cs p]
    by (simp add: cat_turn_def printf_def set_pos_def wp_simps string_of_def)
qed

lemma string_of_simps [simp]: "string_of [] = []" "string_of (x # xs) = char_of (unat x) # string_of xs"
  "string_of (xs @ ys) = string_of xs @ string_of ys"
  by (simp_all add: string_of_def)

lemma slice_Suc: "p < length xs \<Longrightarrow> slice p (Suc n) xs = xs ! p # slice (Suc p) n xs"
  by (simp add: slice_def Cons_nth_drop_Suc [symmetric])

lemma cat_bytes:
  assumes "volume px img W s" and "chain_ok (bpb s) img cs"
    and "p + n \<le> length cs * spc (bpb s) * bps (bpb s)"
    and "p < length cs * spc (bpb s) * bps (bpb s) \<Longrightarrow> at_byte cs p s"
  shows "wp (repeat_m n (cat_turn px))
    (\<lambda>_. printed px img W cs (p + n) (string_of (slice p n (chain_data (bpb s) img cs))) s) s"
  using assms
proof (induction n arbitrary: p s)
  case 0
  then show ?case by (simp add: wp_simps printed_def slice_def)
next
  case (Suc n)
  let ?data = "chain_data (bpb s) img cs"
  have p: "at_byte cs p s" "p < length ?data"
    using Suc.prems by (simp_all add: length_chain_data)
  have "wp (cat_turn px) (\<lambda>_. wp (repeat_m n (cat_turn px))
      (\<lambda>_. printed px img W cs (p + Suc n) (string_of (slice p (Suc n) ?data)) s)) s"
  proof (rule wp_mono [OF cat_turn_step [OF Suc.prems(1,2) p(1)]])
    fix r and t :: "'a server"
    assume t: "printed px img W cs (Suc p) (string_of [?data ! p]) s t"
    then have b: "bpb t = bpb s" by (simp add: printed_def frame_defs)
    have "wp (repeat_m n (cat_turn px)) (\<lambda>_. printed px img W cs (Suc p + n)
        (string_of (slice (Suc p) n (chain_data (bpb t) img cs))) t) t"
      using t Suc.prems b by (intro Suc.IH) (simp_all add: printed_def)
    then show "wp (repeat_m n (cat_turn px))
       (\<lambda>_. printed px img W cs (p + Suc n) (string_of (slice p (Suc n) ?data)) s) t"
      by (rule wp_mono) (use t b p(2) in \<open>simp add: printed_def slice_Suc\<close>)
  qed
  then show ?case by (simp add: wp_simps)
qed

section \<open>Directory entries\<close>

abbreviation entry :: "Bpb \<Rightarrow> byte list \<Rightarrow> u32 list \<Rightarrow> nat \<Rightarrow> byte list" where
  "entry b img cs j \<equiv> slice (32 * j) 32 (chain_data b img cs)"

definition entries :: "Bpb \<Rightarrow> byte list \<Rightarrow> u32 list \<Rightarrow> byte list list" where
  "entries b img cs = map (entry b img cs) [0..<length cs * spc b * bps b div 32]"

definition at_entry :: "byte list \<Rightarrow> u32 list \<Rightarrow> nat \<Rightarrow> 'w server \<Rightarrow> bool" where
  "at_entry img cs j s \<longleftrightarrow> at_byte cs (32 * j) s
     \<and> (let e = entry (bpb s) img cs j
        in if e ! 0 = 0 then de_type (db_de (dir_buff s)) = DIR_TYPE_UNDEFINED
           else db_de (dir_buff s) = \<lparr>de_type = get_dir_type e 0, de_u = e\<rparr>)"

lemma parse_dir_at:
  assumes s: "volume px img W s" and cs: "chain_ok (bpb s) img cs" and p: "at_byte cs (32 * j) s"
  shows "wp (parse_dir (db_offset (dir_buff s)))
     (\<lambda>_ t. volume px img W t \<and> nav_frame t = nav_frame s \<and> at_entry img cs j t) s"
proof -
  let ?B = "bps (bpb s)" and ?off = "db_offset (dir_buff s)" and ?p = "32 * j"
  note o = at_byte_offset [OF s p]
  have B: "32 dvd ?B" "0 < ?B" using s by (simp_all add: volume_def geometry_ok_def)
  have room: "?p mod ?B + 32 \<le> ?B" using B by (intro dvd_mod_room) auto
  have mod: "?off mod 32 = 0"
  proof -
    have "unat (?off mod 32) = ?p mod ?B mod 32" by (simp add: unat_mod o(1))
    also have "\<dots> = 0" using B by (simp add: mod_mod_cancel)
    finally show ?thesis by (simp add: unat_eq_0)
  qed
  have e: "slice (unat ?off) 32 (buff (fs_data s)) = entry (bpb s) img cs j"
  proof -
    have "slice (unat ?off) 32 (buff (fs_data s)) = slice (?p mod ?B) 32 (take ?B (buff (fs_data s)))"
      using room by (simp add: o(1) slice_def drop_take min_def)
    also have "\<dots> = slice (?p div ?B * ?B + ?p mod ?B) 32 (chain_data (bpb s) img cs)"
      using on_sector_bytes [OF s cs, of "?p div ?B"] p room by (simp add: at_byte_def slice_slice)
    finally show ?thesis by simp
  qed
  have nth: "buff (fs_data s) ! (unat ?off + k) = entry (bpb s) img cs j ! k" if "k < 32" for k
    unfolding e [symmetric] using that room s o(1) by (subst nth_slice) (auto simp: volume_def geometry_ok_def)
  from nth [of 0] nth [of 11] nth [of 12] mod room o s p e show ?thesis
    by (auto simp: parse_dir_def wp_simps at_entry_def get_dir_type_def volume_def frame_defs
      at_byte_def on_sector_def Let_def)
qed

end
