(* ===== verification/Fat32_Dir.thy ===== *)
theory Fat32_Dir
  imports Fat32_Disk
begin

text \<open>
  Directories as lists: the children of a directory, each with its name and its entry, read
  off the bytes of its chain. The loops of \<open>find_child\<close>, \<open>find_child_by_cluster_id\<close> and
  \<open>_ls\<close> visit exactly these children, in order, and end at the end mark.
\<close>

section \<open>From entry to entry\<close>

lemma div_mod_step:
  fixes p k B :: nat
  assumes "p mod B + k < B"
  shows "(p + k) div B = p div B" and "(p + k) mod B = p mod B + k"
proof -
  have "(q * B + r + k) div B = q \<and> (q * B + r + k) mod B = r + k" if "r + k < B" for q r :: nat
    using that by (simp add: add.assoc)
  from this [OF assms, of "p div B"] show "(p + k) div B = p div B" and "(p + k) mod B = p mod B + k"
    by simp_all
qed

lemma div_mod_carry:
  fixes p k B :: nat
  assumes "p mod B + k = B" and "0 < B"
  shows "(p + k) div B = Suc (p div B)" and "(p + k) mod B = 0"
proof -
  have "p + k = Suc (p div B) * B" using assms(1) div_mult_mod_eq [of p B] mult_Suc [of "p div B" B] by linarith
  then show "(p + k) div B = Suc (p div B)" and "(p + k) mod B = 0" using assms(2) by (simp_all del: mult_Suc)
qed

definition stepped :: "'w posix \<Rightarrow> byte list \<Rightarrow> ('w \<Rightarrow> bool) \<Rightarrow> u32 list \<Rightarrow> nat \<Rightarrow> 'w server \<Rightarrow> 'w server \<Rightarrow> bool" where
  "stepped px img W cs j s t \<longleftrightarrow> volume px img W t \<and> nav_frame t = nav_frame s \<and> at_entry img cs j t"

lemma parse_dir_stepped:
  assumes "volume px img W u" and "nav_frame u = nav_frame s" and "chain_ok (bpb s) img cs"
    and "at_byte cs (32 * j) u"
  shows "wp (parse_dir (db_offset (dir_buff u))) (\<lambda>_. stepped px img W cs j s) u"
proof -
  have "bpb u = bpb s" using assms(2) by (simp add: frame_defs)
  with assms show ?thesis
    by (intro wp_mono [OF parse_dir_at [of px img W u cs j]]) (simp_all add: stepped_def)
qed

lemma next_dir_entry_chain:
  assumes s: "volume px img W s" and cs: "chain_ok (bpb s) img cs" and e: "at_byte cs (32 * j) s"
    and more: "32 * Suc j < length cs * spc (bpb s) * bps (bpb s)"
  shows "wp (next_dir_entry px) (\<lambda>_. stepped px img W cs (Suc j) s) s"
proof -
  let ?B = "bps (bpb s)" and ?p = "32 * j" and ?db = "dir_buff s"
  let ?u = "s\<lparr>dir_buff := ?db\<lparr>db_sector := db_sector ?db, db_offset := db_offset ?db + 32\<rparr>\<rparr>"
  note o = at_byte_offset [OF s e]
  have B: "32 dvd ?B" "0 < ?B" using s by (simp_all add: volume_def geometry_ok_def)
  have room: "?p mod ?B + 32 \<le> ?B" using B by (intro dvd_mod_room) auto
  have on: "on_sector cs (?p div ?B) s" using e by (simp add: at_byte_def)
  have "unat (db_offset ?db + 32) = ?p mod ?B + 32"
    using room o by (simp add: unat_word_ariths)
  then have last: "db_offset ?db + 32 = ucast (bytes_per_sector (bpb s)) \<longleftrightarrow> ?p mod ?B + 32 = ?B"
    by (metis unat_ucast_16 unsigned_word_eqI)
  have "wp (advance_sector px) (\<lambda>_ u. wp (parse_dir (db_offset (dir_buff u))) (\<lambda>_. stepped px img W cs (Suc j) s) u) s"
    if l: "?p mod ?B + 32 = ?B"
  proof (rule wp_mono [OF advance_sector_chain [OF s cs on]])
    fix r and u :: "'a server"
    assume u: "advanced px img W cs (?p div ?B) s u"
    then have b: "bpb u = bpb s" by (simp add: advanced_def frame_defs)
    note c = div_mod_carry [OF l B(2)]
    have "Suc (?p div ?B) < length cs * spc (bpb s)" using more c(1) by (metis less_mult_imp_div_less add.commute mult_Suc_right)
    with u b c have "at_byte cs (32 * Suc j) u" by (simp add: advanced_def at_byte_def add.commute)
    with u cs show "wp (parse_dir (db_offset (dir_buff u))) (\<lambda>_. stepped px img W cs (Suc j) s) u"
      by (intro parse_dir_stepped) (simp_all add: advanced_def)
  qed
  moreover have "wp (parse_dir (db_offset ?db + 32)) (\<lambda>_. stepped px img W cs (Suc j) s) ?u"
    if l: "?p mod ?B + 32 \<noteq> ?B"
  proof -
    have "at_byte cs (32 * Suc j) ?u"
      using e div_mod_step [of ?p ?B 32] l room by (simp add: at_byte_def on_sector_def add.commute)
    moreover have "volume px img W ?u" "nav_frame ?u = nav_frame s" using s by (simp_all add: volume_def frame_defs)
    ultimately show ?thesis using parse_dir_stepped [of px img W ?u s cs "Suc j"] cs by simp
  qed
  ultimately show ?thesis
    by (cases "?p mod ?B + 32 = ?B") (simp_all add: next_dir_entry_def set_pos_def wp_simps last)
qed

section \<open>Children\<close>

text \<open>The piece of a name a long entry holds, and the name a short entry holds.\<close>

definition long_piece :: "byte list \<Rightarrow> byte list" where
  "long_piece e = cstr (evens (slice 1 10 e) @ evens (slice 14 12 e) @ evens (slice 28 4 e) @ [0])"

definition short_base :: "byte list \<Rightarrow> byte list" where
  "short_base e = takeWhile (\<lambda>c. c \<noteq> 0x20) (take 8 e)"

definition short_ext :: "byte list \<Rightarrow> byte list" where
  "short_ext e = takeWhile (\<lambda>c. c \<noteq> 0x20) (slice 8 3 e)"

definition name_8_3 :: "byte list \<Rightarrow> byte list" where
  "name_8_3 e = cstr ((if hd (short_base e) = 0x2E \<or> short_ext e = [] then short_base e
     else short_base e @ [0x2E] @ short_ext e) @ [0])"

text \<open>
  The children from entry \<open>j\<close> on: the number of the short entry, the name and the entry. The
  pieces of a long name come before the short entry, the last piece first; \<open>acc\<close> is what
  was collected so far.
\<close>

fun children :: "byte list \<Rightarrow> nat \<Rightarrow> byte list list \<Rightarrow> (nat \<times> byte list \<times> byte list) list" where
  "children acc j [] = []"
| "children acc j (e # es) =
     (if e ! 0 = 0 then []
      else if get_dir_type e 0 = DIR_TYPE_LONG then children (long_piece e @ acc) (Suc j) es
      else (j, (if acc = [] then name_8_3 e else acc), e) # children [] (Suc j) es)"

text \<open>
  What the code needs of a directory: an end mark, names that fit their arrays, and short
  names that do not start with a blank.
\<close>

fun dir_ok :: "byte list \<Rightarrow> byte list list \<Rightarrow> bool" where
  "dir_ok acc [] = False"
| "dir_ok acc (e # es) =
     (if e ! 0 = 0 then True
      else if get_dir_type e 0 = DIR_TYPE_LONG
           then length (long_piece e @ acc) < MAX_NAME_LEN \<and> dir_ok (long_piece e @ acc) es
      else e ! 0 \<noteq> 0x20 \<and> dir_ok [] es)"

definition dir_children :: "Bpb \<Rightarrow> byte list \<Rightarrow> u32 list \<Rightarrow> (nat \<times> byte list \<times> byte list) list" where
  "dir_children b img cs = children [] 0 (entries b img cs)"

text \<open>The children up to the first one that is looked for, that one included.\<close>

fun upto_hit :: "('k \<Rightarrow> bool) \<Rightarrow> 'k list \<Rightarrow> 'k list" where
  "upto_hit p [] = []"
| "upto_hit p (k # ks) = k # (if p k then [] else upto_hit p ks)"

section \<open>The loop over the children\<close>

lemma cstr_rest: "cstr (xs @ 0 # ys) = cstr (xs @ [0])"
  by (induction xs) (simp_all add: cstr_def)

lemma cstr_overwrite_0 [simp]: "cstr (overwrite 0 (xs @ [0]) ys) = cstr (xs @ [0])"
  using cstr_rest [of xs "drop (length xs + 1) ys"] by (simp add: overwrite_def)

lemma get_name_long:
  assumes "de_type d = DIR_TYPE_LONG"
  shows "wp (get_name d name) Q s = (Q (1, overwrite 0 (evens (slice 1 10 (de_u d))
    @ evens (slice 14 12 (de_u d)) @ evens (slice 28 4 (de_u d)) @ [0]) name) s)"
  using assms by (simp add: get_name_def wp_simps LongDirEntry_of_bytes_def)

lemma collect_long_wp:
  assumes "de_type d = DIR_TYPE_LONG" and "terminated (snd pf)"
    and "length (long_piece (de_u d) @ cstr (snd pf)) < MAX_NAME_LEN"
    and "\<And>pf'. terminated (snd pf') \<Longrightarrow> cstr (snd pf') = long_piece (de_u d) @ cstr (snd pf) \<Longrightarrow> Q pf' s"
  shows "wp (collect_long d pf) Q s"
proof -
  let ?n = "overwrite 0 ((evens (slice 1 10 (de_u d)) @ evens (slice 14 12 (de_u d))
    @ evens (slice 28 4 (de_u d))) @ [0]) (fst pf)"
  have n: "terminated ?n" "cstr ?n = long_piece (de_u d)" by (simp_all only: terminated_overwrite cstr_overwrite_0) (simp add: long_piece_def)
  have "terminated (overwrite 0 ((long_piece (de_u d) @ cstr (snd pf)) @ [0]) (snd pf))"
    "cstr (overwrite 0 ((long_piece (de_u d) @ cstr (snd pf)) @ [0]) (snd pf)) = long_piece (de_u d) @ cstr (snd pf)"
    using cstr_append_zero [of "long_piece (de_u d) @ cstr (snd pf)" "[]"]
    by (simp_all only: terminated_overwrite cstr_overwrite_0) (simp add: long_piece_def)
  with n assms show ?thesis
    by (simp add: collect_long_def wp_simps get_name_long)
qed

definition dotted :: "byte list \<Rightarrow> byte list" where
  "dotted e = (if hd (short_base e) = 0x2E \<or> short_ext e = [] then short_base e
     else short_base e @ [0x2E] @ short_ext e)"

lemma name_8_3_dotted: "name_8_3 e = cstr (dotted e @ [0])"
  by (simp only: name_8_3_def dotted_def)

lemma length_name_8_3: "length (name_8_3 e) \<le> 12"
proof -
  have "length (short_base e) \<le> 8" "length (short_ext e) \<le> 3"
    using length_takeWhile_le [of "\<lambda>c. c \<noteq> 0x20" "take 8 e"] length_takeWhile_le [of "\<lambda>c. c \<noteq> 0x20" "slice 8 3 e"]
    by (simp_all add: short_base_def short_ext_def slice_def)
  then have "length (dotted e) \<le> 12" by (simp add: dotted_def)
  then show ?thesis using length_cstr_less [of "dotted e @ [0]"] by (simp only: name_8_3_dotted) simp
qed

lemma get_name_short:
  assumes "de_type d = DIR_TYPE_SHORT" and e: "length (de_u d) = 32" "de_u d ! 0 \<noteq> 0x20"
  shows "\<exists>r. get_name d name s = Some (Inr ((r, overwrite 0 (dotted (de_u d) @ [0]) name), s))"
proof -
  let ?e = "de_u d"
  obtain c cs where c: "take 8 ?e = c # cs" "c \<noteq> 0x20" using e by (cases ?e) auto
  then have base: "short_base ?e \<noteq> []" by (simp add: short_base_def)
  have parts: "take 8 (short_name (reg d)) = take 8 ?e" "take 3 (drop 8 (short_name (reg d))) = slice 8 3 ?e"
    by (simp_all add: RegDirEntry_of_bytes_def slice_def drop_take)
  have hd: "hd (overwrite 0 (short_base ?e) name) = hd (short_base ?e)" "overwrite 0 (short_base ?e) name \<noteq> []"
    using base by (simp_all add: overwrite_def)
  show ?thesis
    unfolding get_name_def Let_def parts short_base_def [symmetric] short_ext_def [symmetric] dotted_def
    using assms(1) hd by (simp add: andthen_def bnd_def check_def ret_def)
qed

lemma collect_short_wp:
  assumes "de_type d = DIR_TYPE_SHORT" and "terminated (snd pf)"
    and e: "length (de_u d) = 32" "de_u d ! 0 \<noteq> 0x20"
    and Q: "\<And>pf'. terminated (snd pf') \<Longrightarrow>
      cstr (snd pf') = (if cstr (snd pf) = [] then name_8_3 (de_u d) else cstr (snd pf)) \<Longrightarrow> Q pf' s"
  shows "wp (collect_short d pf) Q s"
proof (cases "cstr (snd pf) = []")
  case True
  let ?n = "overwrite 0 (dotted (de_u d) @ [0]) (fst pf)"
  obtain r where r: "get_name d (fst pf) s = Some (Inr ((r, ?n), s))"
    using get_name_short [OF assms(1) e] by blast
  then have "wp (get_name d (fst pf)) P s = P (r, ?n) s" for P by (simp add: wp_def)
  moreover have "terminated ?n" "cstr ?n = name_8_3 (de_u d)"
    by (simp_all only: terminated_overwrite cstr_overwrite_0 name_8_3_dotted)
  moreover have "cstr (overwrite 0 (name_8_3 (de_u d) @ [0]) xs) = name_8_3 (de_u d)" for xs
    by (simp add: name_8_3_dotted)
  ultimately show ?thesis
    using True assms length_name_8_3 [of "de_u d"] by (simp add: collect_short_def wp_simps)
next
  case False
  with assms show ?thesis by (simp add: collect_short_def wp_simps)
qed

definition scan_frame where
  "scan_frame s = (mid_frame s, last_hop_sector s, last_hop_offset s, tmp s)"

text \<open>
  What the loop does with a child: it prints \<open>h\<close>, and leaves with a result in \<open>R\<close> exactly
  for the children in \<open>hit\<close>.
\<close>

definition visits :: "(DirEntry \<Rightarrow> byte list \<Rightarrow> ('w, 'r option) fprog) \<Rightarrow> (byte list \<Rightarrow> byte list \<Rightarrow> bool)
    \<Rightarrow> (byte list \<Rightarrow> byte list \<Rightarrow> string) \<Rightarrow> (byte list \<Rightarrow> 'r \<Rightarrow> bool) \<Rightarrow> bool" where
  "visits visit hit h R \<longleftrightarrow> (\<forall>d full s. terminated full \<longrightarrow> wp (visit d full) (\<lambda>v t.
     t = s\<lparr>out := out s @ h (cstr full) (de_u d)\<rparr>
     \<and> (case v of None \<Rightarrow> \<not> hit (cstr full) (de_u d)
        | Some r \<Rightarrow> hit (cstr full) (de_u d) \<and> R (cstr full) r)) s)"

definition scanned where
  "scanned px img W cs at_end hit h R kids s r t \<longleftrightarrow> volume px img W t \<and> scan_frame t = scan_frame s
     \<and> out t = out s @ concat (map (\<lambda>(i, nm, e). h nm e) (upto_hit (\<lambda>(i, nm, e). hit nm e) kids))
     \<and> (case find (\<lambda>(i, nm, e). hit nm e) kids of
          None \<Rightarrow> (\<exists>x. r = at_end x)
        | Some (i, nm, e) \<Rightarrow> R nm r \<and> at_entry img cs i t)"

lemma scanned_later:
  assumes "scanned px img W cs at_end hit h R kids t r u" and "scan_frame t = scan_frame s"
    and "out t = out s @ x" and "kids' = kids \<and> x = [] \<or> kids' = (i, nm, e) # kids \<and> x = h nm e \<and> \<not> hit nm e"
  shows "scanned px img W cs at_end hit h R kids' s r u"
  using assms by (auto simp: scanned_def)

lemma div_32_room: "j < n div 32 \<Longrightarrow> 32 * Suc j \<le> n" for n :: nat
  using less_eq_div_iff_mult_less_eq [of 32 "Suc j" n] by (simp add: Suc_le_eq mult.commute)

lemma entries_drop:
  assumes "drop j (entries b img cs) = e # es"
  shows "e = entry b img cs j" and "drop (Suc j) (entries b img cs) = es"
    and "es \<noteq> [] \<Longrightarrow> 32 * Suc j < length cs * spc b * bps b"
    and "32 * Suc j \<le> length cs * spc b * bps b"
proof -
  have j: "j < length (entries b img cs)" using assms by (metis drop_eq_Nil leI list.distinct(1))
  show "drop (Suc j) (entries b img cs) = es" using assms by (metis drop_Suc list.sel(3) tl_drop)
  have "e = entries b img cs ! j" using assms j by (metis Cons_nth_drop_Suc list.inject)
  with j show "e = entry b img cs j" by (simp add: entries_def)
  show "32 * Suc j \<le> length cs * spc b * bps b" using j by (intro div_32_room) (simp add: entries_def)
  assume "es \<noteq> []"
  then have "Suc j < length (entries b img cs)" using \<open>drop (Suc j) (entries b img cs) = es\<close> by force
  then have "32 * Suc (Suc j) \<le> length cs * spc b * bps b" by (intro div_32_room) (simp add: entries_def)
  then show "32 * Suc j < length cs * spc b * bps b" by simp
qed

lemma length_entry:
  assumes "chain_ok b img cs" and "drop j (entries b img cs) = e # es"
  shows "length e = 32"
  using entries_drop [OF assms(2)] length_chain_data [OF assms(1)] by (simp add: length_slice)

lemma at_entry_out: "at_entry img cs j (s\<lparr>out := x\<rparr>) = at_entry img cs j s" "volume px img W (s\<lparr>out := x\<rparr>) = volume px img W s"
  by (simp_all add: at_entry_def at_byte_def on_sector_def volume_def)

lemma next_dir_entry_scan:
  assumes "volume px img W s" and "chain_ok (bpb s) img cs" and "at_entry img cs j s"
    and "drop j (entries (bpb s) img cs) = e # es" and "es \<noteq> []"
    and "\<And>t. volume px img W t \<Longrightarrow> nav_frame t = nav_frame s \<Longrightarrow> at_entry img cs (Suc j) t \<Longrightarrow> Q t"
  shows "wp (next_dir_entry px) (\<lambda>_. Q) s"
proof (rule wp_mono [OF next_dir_entry_chain [OF assms(1,2)]])
  show "at_byte cs (32 * j) s" using assms(3) by (simp add: at_entry_def)
  show "32 * Suc j < length cs * spc (bpb s) * bps (bpb s)" by (rule entries_drop(3) [OF assms(4,5)])
qed (simp add: stepped_def assms(6))

lemma nav_scan_frame:
  "nav_frame t = nav_frame s \<Longrightarrow> scan_frame t = scan_frame s \<and> out t = out s \<and> bpb t = bpb s"
  by (simp add: scan_frame_def frame_defs)

lemma scan_long:
  assumes s: "volume px img W s" "chain_ok (bpb s) img cs" "at_entry img cs j s"
    "drop j (entries (bpb s) img cs) = e # es" "terminated (snd pf)" "dir_ok (cstr (snd pf)) (e # es)"
    and long: "e ! 0 \<noteq> 0" "get_dir_type e 0 = DIR_TYPE_LONG"
    and d: "db_de (dir_buff s) = \<lparr>de_type = DIR_TYPE_LONG, de_u = e\<rparr>"
    and IH: "\<And>t pf'. volume px img W t \<Longrightarrow> bpb t = bpb s \<Longrightarrow> at_entry img cs (Suc j) t \<Longrightarrow>
      terminated (snd pf') \<Longrightarrow> dir_ok (cstr (snd pf')) es \<Longrightarrow>
      wp (loop pf') (scanned px img W cs at_end hit h R (children (cstr (snd pf')) (Suc j) es) t) t"
  shows "wp (collect_long (db_de (dir_buff s)) pf) (\<lambda>pf'. wp (next_dir_entry px) (\<lambda>_.
    wp (loop pf') (scanned px img W cs at_end hit h R (children (cstr (snd pf)) j (e # es)) s))) s"
proof (rule collect_long_wp)
  fix pf' :: "byte list \<times> byte list"
  assume pf': "terminated (snd pf')" "cstr (snd pf') = long_piece (de_u (db_de (dir_buff s))) @ cstr (snd pf)"
  have ok: "dir_ok (cstr (snd pf')) es" and acc: "cstr (snd pf') = long_piece e @ cstr (snd pf)"
    using s(6) long pf'(2) d by simp_all
  show "wp (next_dir_entry px) (\<lambda>_. wp (loop pf')
      (scanned px img W cs at_end hit h R (children (cstr (snd pf)) j (e # es)) s)) s"
  proof (rule next_dir_entry_scan [OF s(1-4)])
    show "es \<noteq> []" using ok by auto
    fix t :: "'a server"
    assume t: "volume px img W t" "nav_frame t = nav_frame s" "at_entry img cs (Suc j) t"
    note f = nav_scan_frame [OF t(2)]
    show "wp (loop pf') (scanned px img W cs at_end hit h R (children (cstr (snd pf)) j (e # es)) s) t"
      by (rule wp_mono [OF IH [OF t(1) _ t(3) pf'(1) ok]])
        (use f long acc in \<open>auto elim!: scanned_later [where x = "[]"]\<close>)
  qed
qed (use d s long in simp_all)

lemma scan_short:
  assumes V: "visits visit hit h R"
    and s: "volume px img W s" "chain_ok (bpb s) img cs" "at_entry img cs j s"
    "drop j (entries (bpb s) img cs) = e # es" "terminated (snd pf)" "dir_ok (cstr (snd pf)) (e # es)"
    and short: "e ! 0 \<noteq> 0" "get_dir_type e 0 = DIR_TYPE_SHORT"
    and d: "db_de (dir_buff s) = \<lparr>de_type = DIR_TYPE_SHORT, de_u = e\<rparr>"
    and IH: "\<And>t pf'. volume px img W t \<Longrightarrow> bpb t = bpb s \<Longrightarrow> at_entry img cs (Suc j) t \<Longrightarrow>
      terminated (snd pf') \<Longrightarrow> dir_ok (cstr (snd pf')) es \<Longrightarrow>
      wp (loop pf') (scanned px img W cs at_end hit h R (children (cstr (snd pf')) (Suc j) es) t) t"
  defines "P \<equiv> scanned px img W cs at_end hit h R (children (cstr (snd pf)) j (e # es)) s"
  shows "wp (collect_short (db_de (dir_buff s)) pf) (\<lambda>pf'. wp (visit (db_de (dir_buff s)) (snd pf')) (\<lambda>v t.
    case v of Some r \<Rightarrow> P r t
    | None \<Rightarrow> wp (next_dir_entry px) (\<lambda>_. wp (loop (fst pf', clear_name (snd pf'))) P) t)) s"
proof (rule collect_short_wp)
  fix pf' :: "byte list \<times> byte list"
  let ?d = "db_de (dir_buff s)" and ?nm = "if cstr (snd pf) = [] then name_8_3 e else cstr (snd pf)"
  let ?u = "s\<lparr>out := out s @ h ?nm e\<rparr>"
  assume pf': "terminated (snd pf')"
    "cstr (snd pf') = (if cstr (snd pf) = [] then name_8_3 (de_u ?d) else cstr (snd pf))"
  then have nm: "cstr (snd pf') = ?nm" using d by simp
  have ok: "dir_ok [] es" and kids: "children (cstr (snd pf)) j (e # es) = (j, ?nm, e) # children [] (Suc j) es"
    using s(6) short by simp_all
  have clear: "terminated (clear_name (snd pf'))" "cstr (clear_name (snd pf')) = []"
    by (simp_all add: clear_name_def overwrite_def)
  have u: "volume px img W ?u" "chain_ok (bpb ?u) img cs" "at_entry img cs j ?u" "drop j (entries (bpb ?u) img cs) = e # es"
    using s by (simp_all add: at_entry_out)
  have next_turn: "wp (next_dir_entry px) (\<lambda>_. wp (loop (fst pf', clear_name (snd pf'))) P) ?u" if miss: "\<not> hit ?nm e"
  proof (rule next_dir_entry_scan [OF u])
    show "es \<noteq> []" using ok by auto
    fix t :: "'a server"
    assume t: "volume px img W t" "nav_frame t = nav_frame ?u" "at_entry img cs (Suc j) t"
    have f: "scan_frame t = scan_frame s" "out t = out s @ h ?nm e" "bpb t = bpb s"
      using nav_scan_frame [OF t(2)] by (simp_all add: scan_frame_def frame_defs)
    have "wp (loop (fst pf', clear_name (snd pf'))) (scanned px img W cs at_end hit h R (children [] (Suc j) es) t) t"
      using IH [OF t(1) f(3) t(3), of "(fst pf', clear_name (snd pf'))"] clear ok by simp
    then show "wp (loop (fst pf', clear_name (snd pf'))) P t"
      unfolding P_def kids by (rule wp_mono) (use f miss in \<open>blast intro: scanned_later\<close>)
  qed
  have "P r ?u" if "hit ?nm e" "R ?nm r" for r
    unfolding P_def kids using that u by (simp add: scanned_def scan_frame_def frame_defs)
  with next_turn show "wp (visit ?d (snd pf')) (\<lambda>v t. case v of Some r \<Rightarrow> P r t
    | None \<Rightarrow> wp (next_dir_entry px) (\<lambda>_. wp (loop (fst pf', clear_name (snd pf'))) P) t) s"
    by (intro wp_mono [OF V [unfolded visits_def, rule_format, OF pf'(1)]])
      (auto simp: nm d split: option.splits)
qed (use d s short length_entry [OF s(2,4)] in simp_all)

lemma wp_option:
  "wp (case v of None \<Rightarrow> a | Some x \<Rightarrow> f x) Q = (\<lambda>t. case v of None \<Rightarrow> wp a Q t | Some x \<Rightarrow> wp (f x) Q t)"
  by (simp split: option.split)

lemma get_dir_type_cases: "get_dir_type bs off = DIR_TYPE_LONG \<or> get_dir_type bs off = DIR_TYPE_SHORT"
  by (simp add: get_dir_type_def)

lemma scan:
  assumes V: "visits visit hit h R"
  shows "volume px img W s \<Longrightarrow> chain_ok (bpb s) img cs \<Longrightarrow> at_entry img cs j s \<Longrightarrow>
    drop j (entries (bpb s) img cs) = es \<Longrightarrow> terminated (snd pf) \<Longrightarrow> dir_ok (cstr (snd pf)) es \<Longrightarrow>
    wp (loop_m (dir_turn px at_end visit other) pf)
      (scanned px img W cs at_end hit h R (children (cstr (snd pf)) j es) s) s"
proof (induction es arbitrary: j pf s)
  case Nil
  then show ?case by simp
next
  case (Cons e es)
  let ?d = "db_de (dir_buff s)" and ?loop = "loop_m (dir_turn px at_end visit other)"
  note e = entries_drop [OF Cons.prems(4)] and len = length_entry [OF Cons.prems(2,4)]
  have IH: "wp (?loop pf') (scanned px img W cs at_end hit h R (children (cstr (snd pf')) (Suc j) es) t) t"
    if "volume px img W t" "bpb t = bpb s" "at_entry img cs (Suc j) t" "terminated (snd pf')" "dir_ok (cstr (snd pf')) es"
    for t pf' using that Cons.prems(2) e(2) by (intro Cons.IH) simp_all
  consider (stop) "e ! 0 = 0" | (long) "e ! 0 \<noteq> 0" "get_dir_type e 0 = DIR_TYPE_LONG"
    | (short) "e ! 0 \<noteq> 0" "get_dir_type e 0 = DIR_TYPE_SHORT" using get_dir_type_cases [of e 0] by blast
  then show ?case
  proof cases
    case stop
    then have "de_type ?d = DIR_TYPE_UNDEFINED" using Cons.prems(3) e(1) by (simp add: at_entry_def Let_def)
    with stop Cons.prems(1) show ?thesis
      by (subst wp_loop_unfold) (auto simp: dir_turn_def wp_simps scanned_def)
  next
    case long
    then have d: "?d = \<lparr>de_type = DIR_TYPE_LONG, de_u = e\<rparr>" using Cons.prems(3) e(1) by (simp add: at_entry_def Let_def)
    show ?thesis
      using scan_long [OF Cons.prems long d, where loop = ?loop, OF IH] d
      by (subst wp_loop_unfold) (simp add: dir_turn_def wp_simps)
  next
    case short
    then have d: "?d = \<lparr>de_type = DIR_TYPE_SHORT, de_u = e\<rparr>" using Cons.prems(3) e(1) by (simp add: at_entry_def Let_def)
    show ?thesis
      using scan_short [OF V Cons.prems short d, where loop = ?loop, OF IH] d
      by (subst wp_loop_unfold) (simp add: dir_turn_def wp_simps wp_option del: children.simps cong: option.case_cong)
  qed
qed

section \<open>The three loops\<close>

lemma visits_find:
  "visits (\<lambda>d full_name. bnd (streq full_name q) (\<lambda>eq. ret (if eq then Some (0 :: int) else None)))
     (\<lambda>nm e. nm = cstr q) (\<lambda>nm e. []) (\<lambda>nm r. r = 0)" if "terminated q"
  using that by (simp add: visits_def wp_simps)

lemma visits_cluster:
  "visits (\<lambda>d full_name. let c = entry_cluster (reg d); curr_cluster_id = (if c = 0 then 2 else c)
       in ret (if cluster_id = curr_cluster_id then Some (0 :: int, full_name) else None))
     (\<lambda>nm e. let c = entry_cluster (RegDirEntry_of_bytes e) in cluster_id = (if c = 0 then 2 else c))
     (\<lambda>nm e. []) (\<lambda>nm r. fst r = 0 \<and> cstr (snd r) = nm)"
  by (simp add: visits_def wp_simps Let_def)

definition ls_line :: "byte list \<Rightarrow> byte list \<Rightarrow> string" where
  "ls_line nm e = (if attributes (RegDirEntry_of_bytes e) AND 0x10 > 0 then ''[*]'' else [])
     @ string_of nm @ [CHR 0x0A]"

lemma visits_ls: "visits ls_visit (\<lambda>nm e. False) ls_line (\<lambda>nm r. False)"
  by (simp add: visits_def ls_visit_def printf_def wp_simps is_directory_def ls_line_def)

lemma upto_none: "upto_hit (\<lambda>(i, nm, e). False) ks = ks"
  by (induction ks) auto

lemma find_none: "find (\<lambda>(i, nm, e). False) ks = None"
  by (induction ks) auto

lemma clear_name_nil: "terminated (clear_name xs)" "cstr (clear_name xs) = []"
  by (simp_all add: clear_name_def overwrite_def)

definition dir_here :: "'w posix \<Rightarrow> byte list \<Rightarrow> ('w \<Rightarrow> bool) \<Rightarrow> u32 list \<Rightarrow> 'w server \<Rightarrow> bool" where
  "dir_here px img W cs s \<longleftrightarrow> volume px img W s \<and> chain_ok (bpb s) img cs \<and> at_entry img cs 0 s
     \<and> dir_ok [] (entries (bpb s) img cs)"

lemma scan_dir:
  assumes "visits visit hit h R" and "dir_here px img W cs s"
  shows "wp (loop_m (dir_turn px at_end visit other) (pt, clear_name x))
    (scanned px img W cs at_end hit h R (dir_children (bpb s) img cs) s) s"
  using scan [OF assms(1), where pf = "(pt, clear_name x)" and j = 0] assms(2)
  by (simp add: dir_here_def dir_children_def clear_name_nil)

lemma find_child_children:
  assumes "dir_here px img W cs s" and "terminated q"
  shows "wp (find_child px q) (\<lambda>r t. volume px img W t \<and> nav_frame t = nav_frame s
     \<and> (case find (\<lambda>(i, nm, e). nm = cstr q) (dir_children (bpb s) img cs) of
          None \<Rightarrow> r = 1
        | Some (i, nm, e) \<Rightarrow> r = 0 \<and> at_entry img cs i t)) s"
  unfolding find_child_def
  by (rule wp_mono [OF scan_dir [OF visits_find [OF assms(2)] assms(1)]])
    (auto simp: scanned_def scan_frame_def nav_frame_def case_prod_unfold split: option.splits)

end
