(* ===== verification/Fat32_Path.thy ===== *)
theory Fat32_Path
  imports Fat32_Dir
begin

text \<open>
  Paths: the segments of a path, the directory tree on the disk as chains of clusters, and
  the resolution of a path in it. The lemmas show that the walk, the change of directory,
  the listing and the printing of a file compute this resolution, that they return on a
  well-formed tree, and what they print.
\<close>

section \<open>Segments\<close>

text \<open>The segments of a path; the flag says that the segment ends the path.\<close>

function segments :: "byte list \<Rightarrow> (byte list \<times> bool) list" where
  "segments p = (if p = [] then []
     else let seg = takeWhile (\<lambda>c. c \<noteq> 0x2F) p; rest = drop (length seg) p
          in if rest = [] then [(seg, True)] else (seg, False) # segments (tl rest))"
  by pat_completeness auto
termination
proof (relation "measure length")
  fix p seg rest :: "byte list"
  assume "p \<noteq> []" "seg = takeWhile (\<lambda>c. c \<noteq> 0x2F) p" "rest = drop (length seg) p"
  then show "(tl rest, p) \<in> measure length" by (cases p) (auto simp: less_Suc_eq_le)
qed simp

declare segments.simps [simp del]

section \<open>The tree\<close>

text \<open>
  \<open>ch\<close> gives the chain of clusters that starts at a cluster. A directory is a chain that
  starts at its cluster and holds a well-formed list of entries.
\<close>

definition directory :: "Bpb \<Rightarrow> byte list \<Rightarrow> (u32 \<Rightarrow> u32 list) \<Rightarrow> u32 \<Rightarrow> bool" where
  "directory b img ch c \<longleftrightarrow> ch c \<noteq> [] \<and> hd (ch c) = c \<and> chain_ok b img (ch c) \<and> dir_ok [] (entries b img (ch c))"

definition target :: "Bpb \<Rightarrow> byte list \<Rightarrow> u32" where
  "target b e = (let c = entry_cluster (RegDirEntry_of_bytes e) in if c = 0 then root_cluster b else c)"

definition is_dir_entry :: "byte list \<Rightarrow> bool" where
  "is_dir_entry e \<longleftrightarrow> attributes (RegDirEntry_of_bytes e) AND 0x10 > 0"

definition child :: "Bpb \<Rightarrow> byte list \<Rightarrow> u32 list \<Rightarrow> byte list \<Rightarrow> (nat \<times> byte list) option" where
  "child b img cs q = map_option (\<lambda>(i, nm, e). (i, e)) (find (\<lambda>(i, nm, e). nm = q) (dir_children b img cs))"

text \<open>
  The result of a resolution: the code that \<open>walk\<close> returns, the cluster reached, and the
  chain and number of the entry that led there.
\<close>

fun resolve :: "Bpb \<Rightarrow> byte list \<Rightarrow> (u32 \<Rightarrow> u32 list) \<Rightarrow> bool \<Rightarrow> bool \<Rightarrow> (byte list \<times> bool) list
    \<Rightarrow> u32 \<Rightarrow> (u32 list \<times> nat) option \<Rightarrow> int \<times> u32 \<times> (u32 list \<times> nat) option" where
  "resolve b img ch ban_files ban_dirs [] c via = (0, c, via)"
| "resolve b img ch ban_files ban_dirs ((seg, at_end) # segs) c via =
     (case child b img (ch c) seg of
        None \<Rightarrow> (1, c, via)
      | Some (i, e) \<Rightarrow>
          if \<not> at_end \<and> \<not> is_dir_entry e
             \<or> at_end \<and> (ban_dirs \<and> is_dir_entry e \<or> ban_files \<and> \<not> is_dir_entry e) then (2, c, via)
          else resolve b img ch ban_files ban_dirs segs (target b e) (Some (ch c, i)))"

text \<open>Every directory on the way is well-formed.\<close>

fun passable :: "Bpb \<Rightarrow> byte list \<Rightarrow> (u32 \<Rightarrow> u32 list) \<Rightarrow> bool \<Rightarrow> bool \<Rightarrow> (byte list \<times> bool) list \<Rightarrow> u32 \<Rightarrow> bool" where
  "passable b img ch ban_files ban_dirs [] c = True"
| "passable b img ch ban_files ban_dirs ((seg, at_end) # segs) c =
     (directory b img ch c \<and>
      (case child b img (ch c) seg of
        None \<Rightarrow> True
      | Some (i, e) \<Rightarrow>
          if \<not> at_end \<and> \<not> is_dir_entry e
             \<or> at_end \<and> (ban_dirs \<and> is_dir_entry e \<or> ban_files \<and> \<not> is_dir_entry e) then True
          else passable b img ch ban_files ban_dirs segs (target b e)))"

section \<open>Jumps\<close>

lemma parse_dir_total:
  "volume px img W s \<Longrightarrow> wp (parse_dir 0) (\<lambda>_. volume px img W) s"
  by (auto simp: parse_dir_def wp_simps volume_def Let_def)

lemma set_pos_volume:
  "volume px img W s \<Longrightarrow> volume px img W (s\<lparr>dir_buff := db\<rparr>)"
  by (simp add: volume_def)

lemma jump_volume:
  assumes "volume px img W s"
  shows "wp (jump_to_sector px sec)
    (\<lambda>_ t. volume px img W t \<and> starts_at sec t \<and> nav_frame t = nav_frame s) s"
proof -
  have "wp (jump_to_sector px sec) (\<lambda>_. volume px img W) s"
    unfolding jump_to_sector_def set_pos_def wp_andthen wp_modify wp_ret
    by (rule wp_mono [OF load_sector_volume [OF set_pos_volume [OF assms]]]) (simp add: parse_dir_total)
  from wp_conj_wlp [OF this jump_spec] show ?thesis .
qed

lemma first_sector_volume:
  assumes "volume px img W s" and "2 \<le> unat c"
  shows "first_sector_of_cluster c s = of_nat (data_start (bpb s) + (unat c - 2) * spc (bpb s))"
  using assms first_sector_chain [OF assms(2), of "data_start (bpb s)" "bpb s"]
  by (simp add: first_sector_of_cluster_def volume_def)

lemma chain_sector_0: "cs \<noteq> [] \<Longrightarrow> chain_sector b cs 0 = data_start b + (unat (hd cs) - 2) * spc b"
  by (simp add: chain_sector_def hd_conv_nth)

lemma starts_chain:
  assumes s: "volume px img W s" and at: "starts_at (first_sector_of_cluster (hd cs) s) s"
    and cs: "chain_ok (bpb s) img cs" "cs \<noteq> []"
  shows "at_byte cs 0 s"
proof -
  have "cluster_ok (bpb s) img (hd cs)" using cs by (simp add: chain_ok_def)
  then have "2 \<le> unat (hd cs)" by (simp add: cluster_ok_def)
  moreover have "0 < spc (bpb s)" using s by (simp add: volume_def geometry_ok_def)
  ultimately show ?thesis
    using at cs(2) first_sector_volume [OF s]
    by (simp add: at_byte_def on_sector_def starts_at_def chain_sector_0)
qed

lemma starts_entry:
  assumes s: "volume px img W s" and at: "starts_at (first_sector_of_cluster (hd cs) s) s"
    and cs: "chain_ok (bpb s) img cs" "cs \<noteq> []"
  shows "at_entry img cs 0 s"
proof -
  let ?B = "bps (bpb s)" and ?buff = "buff (fs_data s)"
  have a: "at_byte cs 0 s" by (rule starts_chain [OF assms])
  then have "on_sector cs 0 s" by (simp add: at_byte_def)
  from on_sector_bytes [OF s cs(1) this]
  have eq: "take ?B ?buff = take ?B (chain_data (bpb s) img cs)" by (simp add: slice_def)
  have B: "32 \<le> ?B" using s by (auto simp: volume_def geometry_ok_def dest: dvd_imp_le)
  then have e: "slice 0 32 ?buff = entry (bpb s) img cs 0"
    using arg_cong [OF eq, of "take 32"] by (simp add: slice_def min_def)
  have len: "32 \<le> length ?buff" using s by (simp add: volume_def)
  have nth: "?buff ! k = entry (bpb s) img cs 0 ! k" if "k < 32" for k
    unfolding e [symmetric] using that len by (simp add: slice_def)
  have "get_dir_type ?buff 0 = get_dir_type (entry (bpb s) img cs 0) 0" by (simp add: get_dir_type_def nth)
  with a at e nth [of 0] show ?thesis by (simp add: at_entry_def starts_at_def Let_def)
qed

lemma starts_dir:
  assumes "volume px img W s" and "starts_at (first_sector_of_cluster c s) s" and "directory (bpb s) img ch c"
  shows "dir_here px img W (ch c) s"
  using assms starts_entry [of px img W s "ch c"] by (auto simp: dir_here_def directory_def)

section \<open>Hops\<close>

lemma hop_volume:
  assumes s: "volume px img W s" and d: "db_de (dir_buff s) = \<lparr>de_type = DIR_TYPE_SHORT, de_u = e\<rparr>"
  shows "wp (hop px) (\<lambda>r t. volume px img W t \<and> starts_at (first_sector_of_cluster (target (bpb s) e) t) t
    \<and> mid_frame t = mid_frame s \<and> out t = out s
    \<and> last_hop_sector t = db_sector (dir_buff s) \<and> last_hop_offset t = db_offset (dir_buff s)) s"
proof -
  let ?u = "s\<lparr>last_hop_sector := db_sector (dir_buff s), last_hop_offset := db_offset (dir_buff s)\<rparr>"
  let ?sec = "first_sector_of_cluster (target (bpb s) e) s"
  have u: "volume px img W ?u" using s by (simp add: volume_def)
  have "wp (jump_to_sector px ?sec) (\<lambda>_ t. volume px img W t
      \<and> starts_at (first_sector_of_cluster (target (bpb s) e) t) t \<and> mid_frame t = mid_frame s \<and> out t = out s
      \<and> last_hop_sector t = db_sector (dir_buff s) \<and> last_hop_offset t = db_offset (dir_buff s)) ?u"
  proof (rule wp_mono [OF jump_volume [OF u]], elim conjE)
    fix x and t :: "'a server"
    assume t: "volume px img W t" "starts_at ?sec t" "nav_frame t = nav_frame ?u"
    then have "core_frame t = core_frame s" by (simp add: frame_defs)
    from first_sector_core [OF this] t show "volume px img W t
      \<and> starts_at (first_sector_of_cluster (target (bpb s) e) t) t \<and> mid_frame t = mid_frame s \<and> out t = out s
      \<and> last_hop_sector t = db_sector (dir_buff s) \<and> last_hop_offset t = db_offset (dir_buff s)"
      by (simp add: frame_defs)
  qed
  with d show ?thesis
    by (cases "entry_cluster (RegDirEntry_of_bytes e) = 0")
      (simp_all add: hop_def wp_simps target_def Let_def first_sector_of_cluster_def)
qed

lemma children_entry:
  assumes "(i, nm, e) \<in> set (children acc j es)"
  shows "j \<le> i \<and> i < j + length es \<and> e = es ! (i - j) \<and> e ! 0 \<noteq> 0 \<and> get_dir_type e 0 = DIR_TYPE_SHORT"
  using assms
proof (induction acc j es rule: children.induct)
  case (2 acc j e' es)
  then show ?case
    using get_dir_type_cases [of e' 0] by (force split: if_splits simp del: DIR_TYPE_SHORT_def DIR_TYPE_LONG_def simp: nth_Cons')
qed simp

lemma child_active:
  assumes at: "at_entry img cs i t" and c: "child (bpb t) img cs q = Some (i, e)"
  shows "db_de (dir_buff t) = \<lparr>de_type = DIR_TYPE_SHORT, de_u = e\<rparr>"
proof -
  from c obtain nm where "find (\<lambda>(i, nm, e). nm = q) (dir_children (bpb t) img cs) = Some (i, nm, e)"
    by (auto simp: child_def)
  then have "(i, nm, e) \<in> set (children [] 0 (entries (bpb t) img cs))"
    by (auto simp: find_Some_iff dir_children_def in_set_conv_nth)
  note e = children_entry [OF this]
  then have eq: "entry (bpb t) img cs i = e" by (simp add: entries_def)
  from at have "if e ! 0 = 0 then de_type (db_de (dir_buff t)) = DIR_TYPE_UNDEFINED
      else db_de (dir_buff t) = \<lparr>de_type = get_dir_type e 0, de_u = e\<rparr>"
    unfolding at_entry_def Let_def eq by blast
  moreover have "e ! 0 \<noteq> 0" "get_dir_type e 0 = DIR_TYPE_SHORT" using e by blast+
  ultimately show ?thesis by simp
qed

section \<open>Strings\<close>

lemma cstr_drop: "n \<le> length (cstr q) \<Longrightarrow> cstr (drop n q) = drop n (cstr q)"
  by (induction q arbitrary: n) (auto simp: cstr_def drop_Cons' split: if_splits)

lemma terminated_drop: "terminated q \<Longrightarrow> n \<le> length (cstr q) \<Longrightarrow> terminated (drop n q)"
  by (induction q arbitrary: n) (auto simp: cstr_def drop_Cons' split: if_splits)

lemma cstr_cut: "n \<le> length (cstr q) \<Longrightarrow> terminated q \<Longrightarrow> cstr (q[n := 0]) = take n (cstr q)"
proof (induction q arbitrary: n)
  case (Cons x q)
  then show ?case by (cases n) (auto simp: cstr_def split: if_splits)
qed simp

lemma terminated_cut: "n < length q \<Longrightarrow> terminated (q[n := 0])"
  by (simp add: set_update_memI)

lemma segments_eq_Nil: "segments p = [] \<longleftrightarrow> p = []"
  by (subst segments.simps) (simp add: Let_def)

lemma segments_Nil: "segments [] = []"
  by (simp add: segments.simps)

section \<open>The walk\<close>

definition led_by :: "(u32 list \<times> nat) option \<Rightarrow> 'w server \<Rightarrow> bool" where
  "led_by via t = (case via of None \<Rightarrow> True
     | Some (cs, i) \<Rightarrow> last_hop_sector t = of_nat (chain_sector (bpb t) cs (32 * i div bps (bpb t)))
        \<and> last_hop_offset t = of_nat (32 * i mod bps (bpb t)))"

text \<open>In a walk that started in \<open>s\<close>: at the beginning of the cluster \<open>c\<close>.\<close>

definition walk_at :: "'w posix \<Rightarrow> byte list \<Rightarrow> ('w \<Rightarrow> bool) \<Rightarrow> 'w server \<Rightarrow> u32 \<Rightarrow> (u32 list \<times> nat) option \<Rightarrow> 'w server \<Rightarrow> bool" where
  "walk_at px img W s c via t \<longleftrightarrow> walking s t \<and> volume px img W t \<and> out t = out s
     \<and> starts_at (first_sector_of_cluster c t) t \<and> led_by via t"

text \<open>What a walk guarantees: the stack as it was, and the resolved position.\<close>

definition walked :: "'w posix \<Rightarrow> byte list \<Rightarrow> ('w \<Rightarrow> bool) \<Rightarrow> 'w server
    \<Rightarrow> int \<times> u32 \<times> (u32 list \<times> nat) option \<Rightarrow> int \<Rightarrow> 'w server \<Rightarrow> bool" where
  "walked px img W s res r t \<longleftrightarrow> (let (code, c, via) = res in r = code \<and> volume px img W t \<and> out t = out s
     \<and> core_frame t = core_frame s \<and> stack_wf t \<and> saved_sectors t = saved_sectors s
     \<and> (if code = 0 then starts_at (first_sector_of_cluster c t) t \<and> led_by via t
        else starts_at (db_sector (dir_buff s)) t))"

lemma push_total:
  assumes "stack_wf s" and "sp s < int STACK_SIZE"
    and "\<And>t. walking s t \<Longrightarrow> beside_stack t = beside_stack s \<Longrightarrow> sp t = sp s + 1 \<Longrightarrow> Q () t"
  shows "wp (stack_push (db_sector (dir_buff s))) Q s"
proof -
  let ?u = "s\<lparr>stack := (stack s)[nat (sp s) := db_sector (dir_buff s)], sp := sp s + 1\<rparr>"
  have "wlp (stack_push (db_sector (dir_buff s))) (\<lambda>_ t. walking s t \<and> beside_stack t = beside_stack s) s"
    using assms(1) by (intro push_walking) auto
  then have "walking s ?u" "beside_stack ?u = beside_stack s"
    using assms(1,2) by (simp_all add: stack_push_def wp_simps stack_wf_def)
  from assms(3) [OF this] show ?thesis
    using assms(1,2) by (simp add: stack_push_def wp_simps stack_wf_def)
qed

lemma pop_total:
  assumes "stack_wf s" and "saved_sectors s = xs @ [x]"
    and "\<And>t. stack_wf t \<Longrightarrow> saved_sectors t = xs \<Longrightarrow> beside_stack t = beside_stack s \<Longrightarrow> Q x t"
  shows "wp stack_pop Q s"
  by (rule wp_mono [OF sectors.pop_law [OF assms(1,2)]]) (auto intro: assms(3))

lemma volume_beside:
  assumes "beside_stack t = beside_stack s"
  shows "volume px img W t = volume px img W s" "out t = out s" "led_by via t = led_by via s"
    "first_sector_of_cluster c t = first_sector_of_cluster c s" "bpb t = bpb s"
proof -
  have f: "core_frame t = core_frame s" "fs_data t = fs_data s" "world t = world s" "out t = out s"
    "last_hop_sector t = last_hop_sector s" "last_hop_offset t = last_hop_offset s"
    using assms by (auto simp: beside_stack_def)
  then show "volume px img W t = volume px img W s" "out t = out s" "led_by via t = led_by via s"
    "first_sector_of_cluster c t = first_sector_of_cluster c s" "bpb t = bpb s"
    by (simp_all add: volume_def core_frame_def led_by_def first_sector_of_cluster_def split: option.split)
qed

text \<open>The ways a walk ends: at the target, or back where it started.\<close>

lemma walk_arrives:
  assumes "walk_at px img W s c via t"
  shows "wp stack_pop (\<lambda>_. walked px img W s (0, c, via) 0) t"
proof (rule pop_total [of t "saved_sectors s" "db_sector (dir_buff s)"])
  fix u :: "'a server"
  assume u: "stack_wf u" "saved_sectors u = saved_sectors s" "beside_stack u = beside_stack t"
  with assms beside_stackD [OF u(3)] volume_beside [OF u(3)] show "walked px img W s (0, c, via) 0 u"
    by (simp add: walked_def walk_at_def walking_def)
qed (use assms in \<open>simp_all add: walk_at_def walking_def\<close>)

definition returned :: "'w posix \<Rightarrow> byte list \<Rightarrow> ('w \<Rightarrow> bool) \<Rightarrow> 'w server \<Rightarrow> string \<Rightarrow> 'w server \<Rightarrow> bool" where
  "returned px img W s x t \<longleftrightarrow> volume px img W t \<and> out t = out s @ x
     \<and> core_frame t = core_frame s \<and> stack_wf t \<and> saved_sectors t = saved_sectors s
     \<and> starts_at (db_sector (dir_buff s)) t"

lemma go_back:
  assumes "walking s t" and "volume px img W t" and "out t = out s @ x"
  shows "wp stack_pop (\<lambda>sec. wp (jump_to_sector px sec) (\<lambda>_. returned px img W s x)) t"
proof (rule pop_total [of t "saved_sectors s" "db_sector (dir_buff s)"])
  fix u :: "'a server"
  assume u: "stack_wf u" "saved_sectors u = saved_sectors s" "beside_stack u = beside_stack t"
  then have v: "volume px img W u" "out u = out s @ x" "core_frame u = core_frame s"
    using assms beside_stackD(1) [OF u(3)] volume_beside [OF u(3)] by (simp_all add: walking_def)
  show "wp (jump_to_sector px (db_sector (dir_buff s))) (\<lambda>_. returned px img W s x) u"
  proof (rule wp_mono [OF jump_volume [OF v(1)]], elim conjE)
    fix y and w :: "'a server"
    assume w: "volume px img W w" "starts_at (db_sector (dir_buff s)) w" "nav_frame w = nav_frame u"
    have "mid_frame w = mid_frame u" "out w = out u" "core_frame w = core_frame u"
      using w(3) by (simp_all add: nav_frame_def mid_frame_def)
    with w u v stack_of_mid [of w u] show "returned px img W s x w"
      by (simp add: returned_def)
  qed
qed (use assms in \<open>simp_all add: walking_def\<close>)

lemma go_back_then:
  assumes "walking s t" and "volume px img W t" and "out t = out s @ x"
    and "\<And>w. returned px img W s x w \<Longrightarrow> Q w"
  shows "wp stack_pop (\<lambda>sec. wp (jump_to_sector px sec) (\<lambda>_. Q)) t"
  by (rule wp_mono [OF go_back [OF assms(1-3)]], erule wp_mono) (rule assms(4))

lemma walked_back: "code \<noteq> 0 \<Longrightarrow> walked px img W s (code, c, via) code = returned px img W s []"
  by (rule ext) (auto simp: walked_def returned_def)

lemma walk_returns:
  assumes "walking s t" and "volume px img W t" and "out t = out s" and "code \<noteq> 0"
  shows "wp stack_pop (\<lambda>sec. wp (jump_to_sector px sec) (\<lambda>_. walked px img W s (code, c, via) code)) t"
  using go_back [OF assms(1,2), of "[]"] assms(3) by (simp add: walked_back [OF assms(4)])

text \<open>Where the segment loop is: at the start of the rest of the path, or past its end.\<close>

definition path_at :: "byte list \<Rightarrow> nat \<Rightarrow> nat \<Rightarrow> (byte list \<times> bool) list \<Rightarrow> bool" where
  "path_at path len right segs \<longleftrightarrow>
     right \<le> length path \<and> terminated (drop right path) \<and> right + length (cstr (drop right path)) = len
       \<and> segs = segments (cstr (drop right path))
     \<or> right = Suc len \<and> segs = []"

lemma path_at_Nil: "path_at path len right [] \<Longrightarrow> len \<le> right"
proof (rule ccontr)
  assume p: "path_at path len right []" and "\<not> len \<le> right"
  then have "cstr (drop right path) \<noteq> []" "segments (cstr (drop right path)) = []"
    by (auto simp: path_at_def)
  then show False by (simp add: segments_eq_Nil)
qed

lemma path_at_Cons:
  assumes p: "path_at path len right ((seg, at_end) # segs)"
  defines "r \<equiv> segment_end path len right"
  shows "right < len" and "terminated (drop right (path[r := 0]))" and "cstr (drop right (path[r := 0])) = seg"
    and "r \<le> len" and "r = len \<longleftrightarrow> at_end" and "path_at (path[r := 0]) len (Suc r) segs"
    and "drop (Suc len) (path[r := 0]) = drop (Suc len) path"
proof -
  let ?q = "drop right path" and ?p = "cstr (drop right path)"
  let ?seg = "takeWhile (\<lambda>c. c \<noteq> 0x2F) ?p"
  have q: "right \<le> length path" "terminated ?q" "right + length ?p = len" "(seg, at_end) # segs = segments ?p"
    using p by (auto simp: path_at_def)
  have ne: "?p \<noteq> []" using q(4) by (auto simp: segments_Nil)
  then show "right < len" using q(3) by (cases ?p) auto
  have "len - right = length ?p" using q(3) by simp
  then have "slice right (len - right) path = ?p" by (simp add: slice_def)
  then have r: "r = right + length ?seg" by (simp add: r_def segment_end_def)
  have le: "length ?seg \<le> length ?p" by (rule length_takeWhile_le)
  then show "r \<le> len" using r q(3) by simp
  have seg: "seg = ?seg" "at_end \<longleftrightarrow> drop (length ?seg) ?p = []"
    "segs = (if at_end then [] else segments (tl (drop (length ?seg) ?p)))"
    using q(4) ne by (auto simp: segments.simps [of ?p] Let_def split: if_splits)
  show last: "r = len \<longleftrightarrow> at_end" using seg(2) r q(3) le by auto
  have cut: "drop right (path[r := 0]) = ?q[length ?seg := 0]" using r by (simp add: drop_update_swap)
  have room: "length ?seg < length ?q" using le length_cstr_less [OF q(2)] by simp
  show "terminated (drop right (path[r := 0]))" unfolding cut by (rule terminated_cut [OF room])
  show "cstr (drop right (path[r := 0])) = seg"
    unfolding cut using cstr_cut [OF le q(2)] by (simp add: seg(1) takeWhile_eq_take [symmetric])
  show "drop (Suc len) (path[r := 0]) = drop (Suc len) path" using \<open>r \<le> len\<close> by (intro drop_update_cancel) simp
  show "path_at (path[r := 0]) len (Suc r) segs"
  proof (cases at_end)
    case True
    then show ?thesis using last seg(3) by (simp add: path_at_def)
  next
    case False
    then have less: "Suc (length ?seg) \<le> length ?p" using seg(2) by auto
    have d: "drop (Suc r) (path[r := 0]) = drop (Suc (length ?seg)) ?q" using r by (simp add: add.commute)
    show ?thesis
      unfolding path_at_def d cstr_drop [OF less]
      using r False seg(3) q(3) less terminated_drop [OF q(2) less] room
      by (simp add: drop_Suc tl_drop)
  qed
qed

lemma child_walk:
  assumes t: "walk_at px img W s c via t" and dir: "directory (bpb s) img ch c" and q: "terminated q"
  shows "wp (find_child px q) (\<lambda>r u. walking s u \<and> volume px img W u \<and> out u = out s \<and>
     (case child (bpb s) img (ch c) (cstr q) of None \<Rightarrow> r = 1
      | Some (i, e) \<Rightarrow> r = 0 \<and> at_entry img (ch c) i u \<and> db_de (dir_buff u) = \<lparr>de_type = DIR_TYPE_SHORT, de_u = e\<rparr>)) t"
proof -
  have b: "bpb t = bpb s" and v: "volume px img W t"
    using t by (simp_all add: walk_at_def walking_def core_frame_def)
  have here: "dir_here px img W (ch c) t"
    using t dir b by (intro starts_dir [OF v]) (simp_all add: walk_at_def)
  show ?thesis
  proof (rule wp_mono [OF find_child_children [OF here q]], elim conjE)
    fix r and u :: "'a server"
    assume u: "volume px img W u" "nav_frame u = nav_frame t"
      and r: "case find (\<lambda>(i, nm, e). nm = cstr q) (dir_children (bpb t) img (ch c)) of None \<Rightarrow> r = 1
        | Some (i, nm, e) \<Rightarrow> r = 0 \<and> at_entry img (ch c) i u"
    have f: "walking s u" "out u = out s" "bpb u = bpb s"
      using t walking_nav [OF _ u(2)] u(2) b by (simp_all add: walk_at_def frame_defs)
    have "case child (bpb u) img (ch c) (cstr q) of None \<Rightarrow> r = 1
      | Some (i, e) \<Rightarrow> r = 0 \<and> at_entry img (ch c) i u \<and> db_de (dir_buff u) = \<lparr>de_type = DIR_TYPE_SHORT, de_u = e\<rparr>"
      using r b f(3) child_active [of img "ch c" _ u "cstr q"]
      by (auto simp: child_def split: option.splits prod.splits)
    with u f show "walking s u \<and> volume px img W u \<and> out u = out s \<and>
       (case child (bpb s) img (ch c) (cstr q) of None \<Rightarrow> r = 1
        | Some (i, e) \<Rightarrow> r = 0 \<and> at_entry img (ch c) i u \<and> db_de (dir_buff u) = \<lparr>de_type = DIR_TYPE_SHORT, de_u = e\<rparr>)"
      by simp
  qed
qed

lemma hop_walk:
  assumes u: "walking s u" "volume px img W u" "out u = out s" "at_entry img cs i u"
    and d: "db_de (dir_buff u) = \<lparr>de_type = DIR_TYPE_SHORT, de_u = e\<rparr>"
    and Q: "\<And>v. walk_at px img W s (target (bpb s) e) (Some (cs, i)) v \<Longrightarrow> Q v"
  shows "wp (hop px) (\<lambda>_. Q) u"
proof (rule wp_mono [OF hop_volume [OF u(2) d]], elim conjE)
  fix r and v :: "'a server"
  assume v: "volume px img W v" "starts_at (first_sector_of_cluster (target (bpb u) e) v) v"
    "mid_frame v = mid_frame u" "out v = out u"
    "last_hop_sector v = db_sector (dir_buff u)" "last_hop_offset v = db_offset (dir_buff u)"
  have "bpb u = bpb s" "bpb v = bpb u" using u(1) v(3) by (simp_all add: walking_def frame_defs)
  with u v walking_mid [OF u(1) v(3)] show "Q v"
    by (intro Q) (simp add: walk_at_def led_by_def at_entry_def at_byte_def on_sector_def)
qed

definition walk_post where
  "walk_post px img W s path len res y u \<longleftrightarrow> walked px img W s res (fst y) u \<and> drop (Suc len) (snd y) = drop (Suc len) path"

definition banned :: "bool \<Rightarrow> bool \<Rightarrow> bool \<Rightarrow> byte list \<Rightarrow> bool" where
  "banned ban_files ban_dirs at_end e \<longleftrightarrow> \<not> at_end \<and> \<not> is_dir_entry e
    \<or> at_end \<and> (ban_dirs \<and> is_dir_entry e \<or> ban_files \<and> \<not> is_dir_entry e)"

text \<open>
  A turn of the walk that is not the last one: \<open>home\<close> and \<open>onward\<close> are what the turn needs
  of the way back and of the turns after the hop.
\<close>

lemma walk_turn_child:
  assumes t: "walk_at px img W s c via t" and p: "path_at path len right ((seg, at_end) # segs)"
    and dir: "directory (bpb s) img ch c"
  defines "r \<equiv> segment_end path len right"
  assumes home: "\<And>code u. walking s u \<Longrightarrow> volume px img W u \<Longrightarrow> out u = out s \<Longrightarrow>
        code = 1 \<and> child (bpb s) img (ch c) seg = None
        \<or> code = 2 \<and> (\<exists>i e. child (bpb s) img (ch c) seg = Some (i, e) \<and> banned ban_files ban_dirs at_end e) \<Longrightarrow>
        wp stack_pop (\<lambda>sec. wp (jump_to_sector px sec) (\<lambda>_. Q (Inr (code, path[r := 0])))) u"
    and onward: "\<And>v i e. walk_at px img W s (target (bpb s) e) (Some (ch c, i)) v \<Longrightarrow>
        child (bpb s) img (ch c) seg = Some (i, e) \<Longrightarrow> \<not> banned ban_files ban_dirs at_end e \<Longrightarrow>
        Q (Inl (path[r := 0], Suc r, Suc r)) v"
  shows "wp (walk_turn px len ban_files ban_dirs (path, right, right)) Q t"
proof -
  let ?p = "path[r := 0]" and ?b = "bpb s"
  note pc = path_at_Cons [OF p, folded r_def]
  let ?G = "\<lambda>d. r < len \<and> \<not> d \<or> r = len \<and> (ban_dirs \<and> d \<or> ban_files \<and> \<not> d)"
  have "wp (find_child px (drop right ?p)) (\<lambda>x u. if x \<noteq> 0
      then wp stack_pop (\<lambda>sec. wp (jump_to_sector px sec) (\<lambda>_. Q (Inr (1, ?p)))) u
      else if ?G (is_directory (db_de (dir_buff u)))
      then wp stack_pop (\<lambda>sec. wp (jump_to_sector px sec) (\<lambda>_. Q (Inr (2, ?p)))) u
      else wp (hop px) (\<lambda>_. Q (Inl (?p, Suc r, Suc r))) u) t"
  proof (rule wp_mono [OF child_walk [OF t dir pc(2), unfolded pc(3)]], elim conjE, goal_cases)
    case (1 x u)
    note u = 1(1-3)
    show ?case
    proof (cases "child ?b img (ch c) seg")
      case None
      with 1 home [OF u, of 1] show ?thesis by simp
    next
      case (Some ie)
      obtain i e where ie: "ie = (i, e)" by (cases ie)
      with Some 1(4) have f: "x = 0" "at_entry img (ch c) i u" "db_de (dir_buff u) = \<lparr>de_type = DIR_TYPE_SHORT, de_u = e\<rparr>"
        by simp_all
      have "?G (is_directory (db_de (dir_buff u))) = banned ban_files ban_dirs at_end e"
        using f(3) pc(4,5) by (auto simp: is_directory_def is_dir_entry_def banned_def)
      moreover have "wp (hop px) (\<lambda>_. Q (Inl (?p, Suc r, Suc r))) u" if "\<not> banned ban_files ban_dirs at_end e"
        by (rule hop_walk [OF u f(2,3)]) (use onward that Some ie in blast)
      ultimately show ?thesis using f(1) Some ie home [OF u, of 2] by auto
    qed
  qed
  with pc(1) show ?thesis
    by (simp add: walk_turn_def r_def [symmetric] wp_bnd wp_andthen wp_if wp_gets wp_ret Let_def split del: if_split cong: if_cong)
qed

lemma resolve_Cons:
  assumes "child b img (ch c) seg = Some (i, e)"
  shows "resolve b img ch bf bd ((seg, at_end) # segs) c via =
    (if banned bf bd at_end e then (2, c, via) else resolve b img ch bf bd segs (target b e) (Some (ch c, i)))"
    and "passable b img ch bf bd ((seg, at_end) # segs) c \<Longrightarrow> \<not> banned bf bd at_end e \<Longrightarrow>
      passable b img ch bf bd segs (target b e)"
  using assms by (auto simp: banned_def)

lemma walk_loop:
  "walk_at px img W s c via t \<Longrightarrow> path_at path len right segs \<Longrightarrow>
   passable (bpb s) img ch ban_files ban_dirs segs c \<Longrightarrow>
   wp (loop_m (walk_turn px len ban_files ban_dirs) (path, right, right))
     (walk_post px img W s path len (resolve (bpb s) img ch ban_files ban_dirs segs c via)) t"
proof (induction segs arbitrary: c via t path right)
  case Nil
  have "wp stack_pop (\<lambda>_. walk_post px img W s path len (0, c, via) (0, path)) t"
    by (rule wp_mono [OF walk_arrives [OF Nil.prems(1)]]) (simp add: walk_post_def)
  with path_at_Nil [OF Nil.prems(2)] show ?case
    by (subst wp_loop_unfold) (simp add: walk_turn_def wp_simps)
next
  case (Cons sg segs)
  obtain seg at_end where sg: "sg = (seg, at_end)" by (cases sg)
  let ?r = "segment_end path len right" and ?loop = "loop_m (walk_turn px len ban_files ban_dirs)"
  let ?p = "path[?r := 0]" and ?b = "bpb s"
  let ?res = "resolve ?b img ch ban_files ban_dirs (sg # segs) c via"
  note p = path_at_Cons [OF Cons.prems(2) [unfolded sg]]
  show ?case
    unfolding wp_loop_unfold [of _ "(path, right, right)"]
  proof (rule walk_turn_child [OF Cons.prems(1) Cons.prems(2) [unfolded sg], where ch = ch], goal_cases)
    case 1
    show ?case using Cons.prems(3) sg by simp
  next
    case (2 code u)
    then have res: "?res = (code, c, via)" "code \<noteq> 0" using sg by (auto simp: banned_def)
    show ?case
      by (rule wp_mono [OF walk_returns [OF 2(1-3) res(2), of c via]], erule wp_mono)
        (simp add: walk_post_def res(1) p(7))
  next
    case (3 v i e)
    note ch = resolve_Cons [where ch = ch and c = c, OF 3(2)]
    from wp_mono [OF Cons.IH [OF 3(1) p(6) ch(2) [OF Cons.prems(3) [unfolded sg] 3(3)]]] show ?case
      using sg ch(1) 3(3) p(7) by (simp add: walk_post_def)
  qed
qed

lemma walk_resolves:
  assumes s: "volume px img W s" "stack_wf s" "sp s < int STACK_SIZE" "starts_at (first_sector_of_cluster c s) s"
    and path: "terminated path"
    and ok: "passable (bpb s) img ch (flags AND WALK_BAN_FILES > 0) (flags AND WALK_BAN_DIRS > 0) (segments (cstr path)) c"
  shows "wp (walk px path flags) (walk_post px img W s path (length (cstr path))
    (resolve (bpb s) img ch (flags AND WALK_BAN_FILES > 0) (flags AND WALK_BAN_DIRS > 0) (segments (cstr path)) c None)) s"
proof -
  let ?len = "length (cstr path)" and ?bf = "flags AND WALK_BAN_FILES > 0" and ?bd = "flags AND WALK_BAN_DIRS > 0"
  have "wp (stack_push (db_sector (dir_buff s))) (\<lambda>_. wp (loop_m (walk_turn px ?len ?bf ?bd) (path, 0, 0))
    (walk_post px img W s path ?len (resolve (bpb s) img ch ?bf ?bd (segments (cstr path)) c None))) s"
  proof (rule push_total [OF s(2,3)])
    fix t
    assume t: "walking s t" "beside_stack t = beside_stack s"
    have "walk_at px img W s c None t"
      using s t beside_stackD [OF t(2)] volume_beside [OF t(2)] by (simp add: walk_at_def led_by_def)
    moreover have "path_at path ?len 0 (segments (cstr path))" using path by (simp add: path_at_def)
    ultimately show "wp (loop_m (walk_turn px ?len ?bf ?bd) (path, 0, 0))
      (walk_post px img W s path ?len (resolve (bpb s) img ch ?bf ?bd (segments (cstr path)) c None)) t"
      by (rule walk_loop) (rule ok)
  qed
  then show ?thesis using path by (simp add: walk_def wp_simps)
qed

section \<open>The commands\<close>

text \<open>A walk inside a command that saved its sector.\<close>

lemma walked_inside:
  assumes u: "walking s u" "out u = out s" "bpb u = bpb s" and t: "walked px img W u (code, c, via) code t"
  shows "walking s t" and "volume px img W t" and "out t = out s"
    and "code = 0 \<Longrightarrow> walk_at px img W s c via t"
  using assms by (auto simp: walked_def walking_def walk_at_def)

definition ready :: "'w posix \<Rightarrow> byte list \<Rightarrow> ('w \<Rightarrow> bool) \<Rightarrow> u32 \<Rightarrow> nat \<Rightarrow> 'w server \<Rightarrow> bool" where
  "ready px img W c n s \<longleftrightarrow> volume px img W s \<and> stack_wf s \<and> sp s + int n \<le> int STACK_SIZE
     \<and> starts_at (first_sector_of_cluster c s) s"

lemma push_ready:
  assumes s: "ready px img W c (Suc n) s"
    and Q: "\<And>t. walking s t \<Longrightarrow> ready px img W c n t \<Longrightarrow> out t = out s \<Longrightarrow> bpb t = bpb s \<Longrightarrow>
      dir_buff t = dir_buff s \<Longrightarrow> Q () t"
  shows "wp (stack_push (db_sector (dir_buff s))) Q s"
proof (rule push_total)
  fix t
  assume t: "walking s t" "beside_stack t = beside_stack s" "sp t = sp s + 1"
  note f = beside_stackD [OF t(2)] volume_beside [OF t(2)]
  with s t show "Q () t" by (intro Q) (simp_all add: ready_def walking_def)
qed (use s in \<open>simp_all add: ready_def\<close>)

lemma cd_resolves:
  assumes s: "ready px img W c 2 s" and path: "terminated path"
    and ok: "passable (bpb s) img ch True False (segments (cstr path)) c"
  shows "wp (cd px path)
    (walked px img W s (resolve (bpb s) img ch True False (segments (cstr path)) c None)) s"
proof -
  obtain code c' via where res: "resolve (bpb s) img ch True False (segments (cstr path)) c None = (code, c', via)"
    by (metis prod_cases3)
  let ?Q = "walked px img W s (code, c', via)"
  have "wp (stack_push (db_sector (dir_buff s))) (\<lambda>_. wp (walk px path WALK_BAN_FILES) (\<lambda>r t.
      if fst r \<noteq> 0 then wp stack_pop (\<lambda>sec'. wp (jump_to_sector px sec') (\<lambda>_. ?Q (fst r))) t
      else wp stack_pop (\<lambda>_. ?Q 0) t)) s"
  proof (rule push_ready [where n = 1])
    fix u
    assume u: "walking s u" "ready px img W c 1 u" "out u = out s" "bpb u = bpb s"
    have "wp (walk px path WALK_BAN_FILES) (walk_post px img W u path (length (cstr path)) (code, c', via)) u"
      using walk_resolves [of px img W u c path ch WALK_BAN_FILES] u path ok res by (simp add: ready_def)
    then show "wp (walk px path WALK_BAN_FILES) (\<lambda>r t.
      if fst r \<noteq> 0 then wp stack_pop (\<lambda>sec'. wp (jump_to_sector px sec') (\<lambda>_. ?Q (fst r))) t
      else wp stack_pop (\<lambda>_. ?Q 0) t) u"
    proof (rule wp_mono)
      fix r t
      assume "walk_post px img W u path (length (cstr path)) (code, c', via) r t"
      then have t: "walked px img W u (code, c', via) code t" and "fst r = code"
        by (auto simp: walk_post_def walked_def)
      note w = walked_inside [OF u(1,3,4) t]
      from w \<open>fst r = code\<close> show "if fst r \<noteq> 0 then wp stack_pop (\<lambda>sec'. wp (jump_to_sector px sec') (\<lambda>_. ?Q (fst r))) t
         else wp stack_pop (\<lambda>_. ?Q 0) t"
        using walk_returns [OF w(1-3)] walk_arrives [OF w(4)] by simp
    qed
  qed (use s in \<open>simp add: numeral_2_eq_2\<close>)
  then show ?thesis
    unfolding cd_def res by (simp add: wp_simps del: WALK_BAN_FILES_def cong: if_cong)
qed

text \<open>\<open>_ls\<close> prints a line for every child of the directory the path names.\<close>

definition dot :: "byte list" where
  "dot = bytes_of ''.''"

definition ls_resolve :: "Bpb \<Rightarrow> byte list \<Rightarrow> (u32 \<Rightarrow> u32 list) \<Rightarrow> byte list \<Rightarrow> u32 \<Rightarrow> int \<times> u32" where
  "ls_resolve b img ch p c = (if p = dot then (0, c)
     else let (code, c', via) = resolve b img ch True False (segments p) c None in (code, c'))"

definition listing :: "Bpb \<Rightarrow> byte list \<Rightarrow> u32 list \<Rightarrow> string" where
  "listing b img cs = concat (map (\<lambda>(i, nm, e). ls_line nm e) (dir_children b img cs))"

lemma cstr_dot: "cstr (bytes_of ''.'' @ [0]) = dot" "terminated (bytes_of ''.'' @ [0])"
  by (simp_all add: dot_def bytes_of_def cstr_def)

lemma ls_loop:
  assumes t: "walk_at px img W s c via t" and dir: "directory (bpb s) img ch c"
  shows "wp (loop_m (dir_turn px (\<lambda>_. ()) ls_visit (printf ''OOPS'')) ([], clear_name []))
    (\<lambda>_ u. walking s u \<and> volume px img W u \<and> out u = out s @ listing (bpb s) img (ch c)) t"
proof -
  have b: "bpb t = bpb s" and v: "volume px img W t"
    using t by (simp_all add: walk_at_def walking_def core_frame_def)
  have here: "dir_here px img W (ch c) t"
    using t dir b by (intro starts_dir [OF v]) (simp_all add: walk_at_def)
  show ?thesis
  proof (rule wp_mono [OF scan_dir [OF visits_ls here]], goal_cases)
    case (1 r u)
    then have u: "volume px img W u" "mid_frame u = mid_frame t" "out u = out t @ listing (bpb t) img (ch c)"
      by (simp_all add: scanned_def scan_frame_def upto_none listing_def)
    with t b walking_mid [OF _ u(2)] show ?case by (simp add: walk_at_def)
  qed
qed

definition ls_post where
  "ls_post px img W s ch code c r t \<longleftrightarrow>
     (if code = 0 then r = OK \<and> returned px img W s (listing (bpb s) img (ch c)) t
      else r = code \<and> returned px img W s [] t)"

lemma ls_entered_prints:
  assumes "walking s t" and "volume px img W t" and "out t = out s"
    and at: "code = 0 \<Longrightarrow> walk_at px img W s c via t" and dir: "code = 0 \<Longrightarrow> directory (bpb s) img ch c"
  shows "wp (ls_entered px code) (ls_post px img W s ch code c) t"
proof (cases "code = 0")
  case True
  have "wp (loop_m (dir_turn px (\<lambda>_. ()) ls_visit (printf ''OOPS'')) ([], clear_name [])) (\<lambda>_.
      wp stack_pop (\<lambda>sec'. wp (jump_to_sector px sec') (\<lambda>_. returned px img W s (listing (bpb s) img (ch c))))) t"
    by (rule wp_mono [OF ls_loop [OF at [OF True] dir [OF True]]]) (blast intro: go_back)
  with True show ?thesis by (simp add: ls_entered_def ls_post_def wp_simps)
next
  case False
  with go_back [OF assms(1,2), of "[]"] assms(3) show ?thesis
    by (simp add: ls_entered_def ls_post_def wp_simps)
qed

lemma ls_prints:
  assumes s: "ready px img W c 3 s" and path: "terminated path"
    and ok: "cstr path = dot \<or> passable (bpb s) img ch True False (segments (cstr path)) c"
    and res: "ls_resolve (bpb s) img ch (cstr path) c = (code, c')"
    and dir: "code = 0 \<Longrightarrow> directory (bpb s) img ch c'"
  shows "wp (ls px path) (ls_post px img W s ch code c') s"
proof -
  let ?Q = "ls_post px img W s ch code c'"
  have "wp (stack_push (db_sector (dir_buff s))) (\<lambda>_ t. if cstr path = dot then wp (ls_entered px 0) ?Q t
      else wp (cd px path) (\<lambda>r. wp (ls_entered px r) ?Q) t) s"
  proof (rule push_ready [where n = 2])
    fix u
    assume u: "walking s u" "ready px img W c 2 u" "out u = out s" "bpb u = bpb s"
    show "if cstr path = dot then wp (ls_entered px 0) ?Q u else wp (cd px path) (\<lambda>r. wp (ls_entered px r) ?Q) u"
    proof (cases "cstr path = dot")
      case True
      with res have "code = 0" "c' = c" by (simp_all add: ls_resolve_def)
      with True ls_entered_prints [of s u px img W 0 c None ch] dir u show ?thesis
        by (simp add: ready_def walk_at_def led_by_def)
    next
      case False
      obtain via where r: "resolve (bpb s) img ch True False (segments (cstr path)) c None = (code, c', via)"
        using res False by (auto simp: ls_resolve_def split: prod.splits)
      have "wp (cd px path) (walked px img W u (code, c', via)) u"
        using cd_resolves [OF u(2) path, of ch] u(4) ok False r by simp
      then have "wp (cd px path) (\<lambda>r. wp (ls_entered px r) ?Q) u"
      proof (rule wp_mono)
        fix r t
        assume t: "walked px img W u (code, c', via) r t"
        then have "r = code" by (simp add: walked_def)
        note w = walked_inside [OF u(1,3,4) t [unfolded this]]
        from ls_entered_prints [OF w dir] show "wp (ls_entered px r) ?Q t" by (simp add: \<open>r = code\<close>)
      qed
      with False show ?thesis by simp
    qed
  qed (use s in \<open>simp add: numeral_3_eq_3 numeral_2_eq_2\<close>)
  then show ?thesis
    using path by (simp add: ls_def wp_simps cstr_dot split del: if_split cong: if_cong)
qed

text \<open>The size that \<open>_cat\<close> reads is the one of the entry that led to the file.\<close>

definition entry_size :: "byte list \<Rightarrow> nat" where
  "entry_size e = unat (file_size (RegDirEntry_of_bytes e))"

definition leads :: "Bpb \<Rightarrow> byte list \<Rightarrow> u32 list \<Rightarrow> nat \<Rightarrow> bool" where
  "leads b img cs i \<longleftrightarrow> chain_ok b img cs \<and> i < length (entries b img cs) \<and> entry b img cs i ! 0 \<noteq> 0"

lemma child_leads:
  assumes "child b img cs q = Some (i, e)" and "chain_ok b img cs"
  shows "leads b img cs i" and "e = entry b img cs i"
proof -
  obtain nm where "find (\<lambda>(i, nm, e). nm = q) (dir_children b img cs) = Some (i, nm, e)"
    using assms(1) by (auto simp: child_def)
  then have "(i, nm, e) \<in> set (children [] 0 (entries b img cs))"
    by (auto simp: find_Some_iff dir_children_def in_set_conv_nth)
  note e = children_entry [OF this]
  then show eq: "e = entry b img cs i" by (simp add: entries_def)
  from e have "i < length (entries b img cs)" and "e ! 0 \<noteq> 0" by (simp, blast)
  with assms(2) eq show "leads b img cs i" by (simp add: leads_def)
qed

lemma resolve_leads:
  assumes "resolve b img ch bf bd segs c via = (0, c', Some (cs, i))"
    and "passable b img ch bf bd segs c"
    and "\<And>cs i. via = Some (cs, i) \<Longrightarrow> leads b img cs i \<and> c = target b (entry b img cs i)"
  shows "leads b img cs i \<and> c' = target b (entry b img cs i)"
  using assms
proof (induction segs arbitrary: c via)
  case Nil
  then show ?case by simp
next
  case (Cons sg segs)
  obtain seg at_end where sg: "sg = (seg, at_end)" by (cases sg)
  from Cons.prems sg obtain k e where ch: "child b img (ch c) seg = Some (k, e)"
    by (cases "child b img (ch c) seg") auto
  note r = resolve_Cons [where ch = ch and c = c, OF ch]
  have nb: "\<not> banned bf bd at_end e" using Cons.prems(1) r(1) sg by (auto split: if_splits)
  have dir: "chain_ok b img (ch c)" using Cons.prems(2) sg by (simp add: directory_def)
  show ?case
  proof (rule Cons.IH)
    show "resolve b img ch bf bd segs (target b e) (Some (ch c, k)) = (0, c', Some (cs, i))"
      using Cons.prems(1) r(1) nb sg by simp
    show "passable b img ch bf bd segs (target b e)" by (rule r(2) [OF Cons.prems(2) [unfolded sg] nb])
  qed (use child_leads [OF ch dir] in auto)
qed

lemma reread_entry:
  assumes u: "volume px img W u" and l: "leads (bpb u) img cs i"
    and hop: "hs = of_nat (chain_sector (bpb u) cs (32 * i div bps (bpb u)))" "ho = of_nat (32 * i mod bps (bpb u))"
    and K: "\<And>v. volume px img W v \<Longrightarrow> nav_frame v = nav_frame u \<Longrightarrow> de_u (db_de (dir_buff v)) = entry (bpb u) img cs i \<Longrightarrow> K v"
  shows "wp (load_sector px hs) (\<lambda>_. wp (parse_dir ho) (\<lambda>_. K))
    (u\<lparr>dir_buff := (dir_buff u)\<lparr>db_sector := hs, db_offset := ho\<rparr>\<rparr>)"
proof (rule wp_mono [OF load_sector_volume [OF set_pos_volume [OF u]]], elim conjE, goal_cases)
  case (1 r v)
  let ?B = "bps (bpb u)"
  have f: "nav_frame v = nav_frame u" "bpb v = bpb u" using 1(2) by (simp_all add: frame_defs)
  have cs: "chain_ok (bpb v) img cs" using l f(2) by (simp add: leads_def)
  have "32 * Suc i \<le> length cs * spc (bpb u) * ?B"
    using l by (intro div_32_room) (simp add: leads_def entries_def)
  then have "32 * i < length cs * spc (bpb u) * ?B" by simp
  then have "32 * i div ?B < length cs * spc (bpb u)" by (rule less_mult_imp_div_less)
  then have at: "at_byte cs (32 * i) v" using 1 f hop by (simp add: at_byte_def on_sector_def)
  have off: "db_offset (dir_buff v) = ho" using 1 by simp
  show ?case
    unfolding off [symmetric]
  proof (rule wp_mono [OF parse_dir_at [OF 1(1) cs at]], elim conjE)
    fix x and w :: "'a server"
    assume w: "volume px img W w" "nav_frame w = nav_frame v" "at_entry img cs i w"
    then have "bpb w = bpb u" using f by (simp add: frame_defs)
    then have "de_u (db_de (dir_buff w)) = entry (bpb u) img cs i"
      using w(3) l by (simp add: at_entry_def leads_def Let_def)
    with w f show "K w" by (intro K) simp_all
  qed
qed

lemma hop_file_size_volume:
  assumes t: "walk_at px img W s c (Some (cs, i)) t" and room: "sp t < int STACK_SIZE"
    and l: "leads (bpb s) img cs i"
  shows "wp (hop_file_size px) (\<lambda>sz u. unat sz = entry_size (entry (bpb s) img cs i)
    \<and> walking s u \<and> volume px img W u \<and> out u = out s \<and> starts_at (first_sector_of_cluster c u) u) t"
proof -
  let ?e = "entry (bpb s) img cs i"
  define Q where "Q sz u \<longleftrightarrow> unat sz = entry_size ?e
    \<and> walking s u \<and> volume px img W u \<and> out u = out s \<and> starts_at (first_sector_of_cluster c u) u" for sz :: u32 and u
  have b: "bpb t = bpb s" and start: "db_sector (dir_buff t) = first_sector_of_cluster c t"
    using t by (simp_all add: walk_at_def walking_def core_frame_def starts_at_def)
  have Q: "Q (file_size (RegDirEntry_of_bytes ?e)) w" if "returned px img W t [] w" for w
  proof -
    have "first_sector_of_cluster c w = first_sector_of_cluster c t"
      using that by (intro first_sector_core) (simp add: returned_def)
    with that t start show ?thesis by (simp add: Q_def returned_def walk_at_def walking_def entry_size_def)
  qed
  have "wp (stack_push (db_sector (dir_buff t))) (\<lambda>_ u. wp (load_sector px (last_hop_sector u)) (\<lambda>_.
      wp (parse_dir (last_hop_offset u)) (\<lambda>_ v. wp stack_pop (\<lambda>sec'. wp (jump_to_sector px sec')
        (\<lambda>_. Q (file_size (reg (db_de (dir_buff v)))))) v))
      (u\<lparr>dir_buff := (dir_buff u)\<lparr>db_sector := last_hop_sector u, db_offset := last_hop_offset u\<rparr>\<rparr>)) t"
  proof (rule push_total)
    fix u
    assume u: "walking t u" "beside_stack u = beside_stack t"
    note f = volume_beside [OF u(2)]
    have "led_by (Some (cs, i)) u" using t f(3) [of "Some (cs, i)"] by (simp add: walk_at_def)
    with t f(1,5) b have h: "last_hop_sector u = of_nat (chain_sector (bpb u) cs (32 * i div bps (bpb u)))"
      "last_hop_offset u = of_nat (32 * i mod bps (bpb u))" "volume px img W u" "bpb u = bpb s"
      by (simp_all add: walk_at_def led_by_def)
    show "wp (load_sector px (last_hop_sector u)) (\<lambda>_. wp (parse_dir (last_hop_offset u)) (\<lambda>_ v.
        wp stack_pop (\<lambda>sec'. wp (jump_to_sector px sec') (\<lambda>_. Q (file_size (reg (db_de (dir_buff v)))))) v))
      (u\<lparr>dir_buff := (dir_buff u)\<lparr>db_sector := last_hop_sector u, db_offset := last_hop_offset u\<rparr>\<rparr>)"
    proof (rule reread_entry [OF h(3) _ h(1,2)])
      fix v
      assume v: "volume px img W v" "nav_frame v = nav_frame u" "de_u (db_de (dir_buff v)) = entry (bpb u) img cs i"
      then have "out v = out t @ []" using f(2) by (simp add: frame_defs)
      then show "wp stack_pop (\<lambda>sec'. wp (jump_to_sector px sec') (\<lambda>_. Q (file_size (reg (db_de (dir_buff v)))))) v"
        by (rule go_back_then [OF walking_nav [OF u(1) v(2)] v(1)]) (use Q v(3) h(4) in simp)
    qed (use l h(4) in simp)
  qed (use t room in \<open>simp_all add: walk_at_def walking_def\<close>)
  then have "wp (hop_file_size px) Q t" by (simp add: hop_file_size_def set_pos_def wp_simps)
  then show ?thesis unfolding Q_def .
qed

text \<open>
  \<open>_cat\<close> on a file: exactly the bytes of its chain up to its size, and the end mark.
\<close>

definition file_chain :: "Bpb \<Rightarrow> byte list \<Rightarrow> u32 \<Rightarrow> nat \<Rightarrow> u32 list \<Rightarrow> bool" where
  "file_chain b img c n fcs \<longleftrightarrow> chain_ok b img fcs \<and> n \<le> length fcs * spc b * bps b \<and> (fcs = [] \<or> hd fcs = c)"

definition cat_text :: "Bpb \<Rightarrow> byte list \<Rightarrow> u32 list \<Rightarrow> nat \<Rightarrow> string" where
  "cat_text b img fcs n = string_of (take n (chain_data b img fcs)) @ ''^EOF'' @ [CHR 0x0A]"

lemma cat_body:
  assumes u: "walking s u" "volume px img W u" "out u = out s" "starts_at (first_sector_of_cluster c u) u"
    and f: "file_chain (bpb s) img c n fcs"
  shows "wp (repeat_m n (cat_turn px)) (\<lambda>_ v. wp stack_pop (\<lambda>sec'. wp (jump_to_sector px sec')
      (\<lambda>_. returned px img W s (cat_text (bpb s) img fcs n))) (v\<lparr>out := out v @ ''^EOF'' @ [CHR 0x0A]\<rparr>)) u"
proof -
  have b: "bpb u = bpb s" using u(1) by (simp add: walking_def core_frame_def)
  have at: "at_byte fcs 0 u" if "0 < length fcs * spc (bpb u) * bps (bpb u)"
    using that f u b by (intro starts_chain [OF u(2)]) (auto simp: file_chain_def)
  have "wp (repeat_m n (cat_turn px))
    (\<lambda>_. printed px img W fcs (0 + n) (string_of (slice 0 n (chain_data (bpb u) img fcs))) u) u"
    using f b at by (intro cat_bytes [OF u(2)]) (simp_all add: file_chain_def)
  then show ?thesis
  proof (rule wp_mono, goal_cases)
    case (1 r v)
    then have v: "mid_frame v = mid_frame u" "volume px img W v" "out v = out s @ string_of (take n (chain_data (bpb s) img fcs))"
      using u(3) b by (simp_all add: printed_def slice_def)
    show ?case
      by (rule go_back) (use v walking_mid [OF u(1) v(1)] in \<open>simp_all add: at_entry_out cat_text_def\<close>)
  qed
qed

lemma saved_sp: "stack_wf s \<Longrightarrow> sp s = int (length (saved_sectors s))"
  by (simp add: stack_wf_def saved_sectors_def min_def) linarith

lemma cat_found:
  assumes u: "walking s u" "ready px img W c 1 u" "out u = out s" "bpb u = bpb s"
    and t: "walked px img W u (0, c', Some (cs, i)) 0 t" and l: "leads (bpb s) img cs i"
    and f: "file_chain (bpb s) img c' (entry_size (entry (bpb s) img cs i)) fcs"
  shows "wp (hop_file_size px) (\<lambda>sz. wp (repeat_m (unat sz) (cat_turn px)) (\<lambda>_ v. wp stack_pop (\<lambda>sec'.
    wp (jump_to_sector px sec') (\<lambda>_. returned px img W s (cat_text (bpb s) img fcs (entry_size (entry (bpb s) img cs i)))))
      (v\<lparr>out := out v @ ''^EOF'' @ [CHR 0x0A]\<rparr>))) t"
proof (rule wp_mono [OF hop_file_size_volume [OF walked_inside(4) [OF u(1,3,4) t refl] _ l]])
  have "sp t = sp u" using t u(1) saved_sp [of t] saved_sp [of u] by (simp add: walked_def walking_def)
  then show "sp t < int STACK_SIZE" using u(2) by (simp add: ready_def)
qed (use cat_body [OF _ _ _ _ f] in auto)

definition cat_post where
  "cat_post px img W s code fcs n r t \<longleftrightarrow> r = code \<and>
     returned px img W s (if code = 0 then cat_text (bpb s) img fcs n else []) t"

lemma cat_post_simps:
  "cat_post px img W s 0 fcs n 0 = returned px img W s (cat_text (bpb s) img fcs n)"
  "code \<noteq> 0 \<Longrightarrow> cat_post px img W s code fcs n code = returned px img W s []"
  by (rule ext, simp add: cat_post_def)+

lemma cat_prints:
  assumes s: "ready px img W c 2 s" and path: "terminated path"
    and ok: "passable (bpb s) img ch False True (segments (cstr path)) c"
    and res: "resolve (bpb s) img ch False True (segments (cstr path)) c None = (code, c', via)"
    and f: "code = 0 \<Longrightarrow> via = Some (cs, i) \<and> file_chain (bpb s) img c' (entry_size (entry (bpb s) img cs i)) fcs"
  shows "wp (cat px path) (cat_post px img W s code fcs (entry_size (entry (bpb s) img cs i))) s"
proof -
  let ?Q = "cat_post px img W s code fcs (entry_size (entry (bpb s) img cs i))"
  let ?K = "\<lambda>r t. if r \<noteq> 0 then wp stack_pop (\<lambda>sec'. wp (jump_to_sector px sec') (\<lambda>_. ?Q r)) t
    else wp (hop_file_size px) (\<lambda>sz. wp (repeat_m (unat sz) (cat_turn px)) (\<lambda>_ v. wp stack_pop (\<lambda>sec'.
      wp (jump_to_sector px sec') (\<lambda>_. ?Q 0)) (v\<lparr>out := out v @ ''^EOF'' @ [CHR 0x0A]\<rparr>))) t"
  have "wp (stack_push (db_sector (dir_buff s))) (\<lambda>_. wp (walk px path WALK_BAN_DIRS) (\<lambda>r. ?K (fst r))) s"
  proof (rule push_ready [where n = 1])
    fix u
    assume u: "walking s u" "ready px img W c 1 u" "out u = out s" "bpb u = bpb s"
    have "wp (walk px path WALK_BAN_DIRS) (walk_post px img W u path (length (cstr path)) (code, c', via)) u"
      using walk_resolves [of px img W u c path ch WALK_BAN_DIRS] u path ok res by (simp add: ready_def)
    then show "wp (walk px path WALK_BAN_DIRS) (\<lambda>r. ?K (fst r)) u"
    proof (rule wp_mono)
      fix r t
      assume "walk_post px img W u path (length (cstr path)) (code, c', via) r t"
      then have t: "walked px img W u (code, c', via) code t" and r: "fst r = code"
        by (auto simp: walk_post_def walked_def)
      note w = walked_inside [OF u(1,3,4) t]
      show "?K (fst r) t"
      proof (cases "code = 0")
        case True
        with f resolve_leads [of "bpb s" img ch False True _ c None c' cs i] res ok
        have "leads (bpb s) img cs i" by simp
        from cat_found [OF u _ this] t f True r show ?thesis by (simp add: cat_post_simps)
      next
        case False
        with go_back [OF w(1,2), of "[]"] w(3) r show ?thesis by (simp add: cat_post_simps)
      qed
    qed
  qed (use s in \<open>simp add: numeral_2_eq_2\<close>)
  then show ?thesis
    unfolding cat_def by (simp add: wp_simps printf_def del: WALK_BAN_DIRS_def split del: if_split cong: if_cong)
qed

end
