(* ===== verification/Fat32_Requests.thy ===== *)
theory Fat32_Requests
  imports Fat32_Position
begin

text \<open>
  The invariant of the server between requests and the handlers that keep it: nothing is
  saved on the stack and the active entry is the first of a cluster. While nothing is mounted
  the geometry is the zero geometry of \<open>reset\<close>.
\<close>

section \<open>The invariant\<close>

definition server_inv :: "'w server \<Rightarrow> bool" where
  "server_inv s \<longleftrightarrow> stack_wf s \<and> saved_sectors s = [] \<and> cluster_start s
     \<and> (device_fd s = - 1 \<longrightarrow> first_data_sector (fs_data s) = 0 \<and> starts_at 0 s)"

lemma starts_at_0_cluster: "starts_at 0 s \<Longrightarrow> first_data_sector (fs_data s) = 0 \<Longrightarrow> cluster_start s"
  unfolding cluster_start_def by (rule exI [of _ 2]) (simp add: first_sector_of_cluster_def)

lemma server_inv_reset: "wp reset (\<lambda>_ t. server_inv t \<and> device_fd t = - 1) s"
  by (auto simp: reset_def wp_simps server_inv_def stack_wf_def saved_sectors_def starts_at_def
      intro!: starts_at_0_cluster)

text \<open>The invariant only reads the variables of the file system.\<close>

lemmas server_inv_view = server_inv_def stack_wf_def saved_sectors_def starts_at_def
  cluster_start_def first_sector_of_cluster_def

lemma preserves_server_inv_say: "preserves server_inv (say t)"
  by (simp add: preserves_def say_def wp_simps server_inv_view)

lemma preserves_server_inv_printf: "preserves server_inv (printf t)"
  by (simp add: preserves_def wp_simps server_inv_view)

lemma preserves_server_inv_sys: "preserves server_inv (sys f)"
  by (simp add: preserves_def wp_simps server_inv_view)

lemma preserves_server_inv_free_txt: "preserves server_inv free_txt"
  by (simp add: preserves_def free_txt_def wp_simps server_inv_view)

lemma preserves_server_inv_get_txt: "preserves server_inv (get_txt px m)"
  by (simp add: preserves_def get_txt_def wp_simps server_inv_view)

lemma preserves_server_inv_streq: "preserves I (streq a b)"
  by (simp add: preserves_def wp_simps)

lemma preserves_server_inv_reset: "preserves server_inv reset"
  by (simp add: preserves_def wlp_mono [OF wp_wlp [OF server_inv_reset]])

lemmas server_inv_basic = preserves_server_inv_say preserves_server_inv_printf
  preserves_server_inv_sys preserves_server_inv_free_txt preserves_server_inv_get_txt
  preserves_server_inv_streq preserves_server_inv_reset

section \<open>The commands keep it\<close>

lemma settled_server_inv: "server_inv s \<Longrightarrow> settled s p t \<Longrightarrow> device_fd s \<noteq> - 1 \<Longrightarrow> server_inv t"
  by (simp add: server_inv_def settled_def core_frame_def)

text \<open>The commands only run while something is mounted.\<close>

definition mounted_inv :: "'w server \<Rightarrow> bool" where
  "mounted_inv s \<longleftrightarrow> server_inv s \<and> device_fd s \<noteq> - 1"

lemma settled_mounted: "mounted_inv s \<Longrightarrow> settled s p t \<Longrightarrow> mounted_inv t"
  unfolding mounted_inv_def
  by (auto intro: settled_server_inv simp: settled_def core_frame_def)

lemma mounted_command:
  assumes "\<And>s :: 'w server. stack_wf s \<Longrightarrow> cluster_start s \<Longrightarrow> wlp m (\<lambda>r t. P s r t \<and> settled s (p s r) t) s"
  shows "preserves mounted_inv m"
  unfolding preserves_def
proof (intro allI impI)
  fix s :: "'w server"
  assume s: "mounted_inv s"
  then have "stack_wf s" "cluster_start s" by (auto simp: mounted_inv_def server_inv_def)
  from assms [OF this] show "wlp m (\<lambda>_. mounted_inv) s"
    by (rule wlp_mono) (use settled_mounted [OF s] in blast)
qed

lemma came_back_command:
  assumes "\<And>s :: 'w server. stack_wf s \<Longrightarrow> cluster_start s \<Longrightarrow> wlp m (came_back s) s"
  shows "preserves mounted_inv m"
proof (rule mounted_command [of _ "\<lambda>_ _ _. True" "\<lambda>s _. Some (db_sector (dir_buff s))"])
  fix s :: "'w server"
  assume "stack_wf s" "cluster_start s"
  from assms [OF this] show "wlp m (\<lambda>r t. True \<and> settled s (Some (db_sector (dir_buff s))) t) s"
    by (rule wlp_mono) (simp add: came_back_def)
qed

lemma preserves_mounted_commands:
  "preserves mounted_inv (cd px path)"
  "preserves mounted_inv (ls px path)"
  "preserves mounted_inv (cat px path)"
  "preserves mounted_inv (stat px path)"
  by (rule mounted_command [OF cd_settled], assumption+)
     (rule came_back_command, rule ls_settled cat_settled stat_settled, assumption+)+

lemma server_inv_mounted_only:
  assumes "preserves mounted_inv m"
  shows "preserves server_inv (mounted_only m)"
  using assms
  using preserves_server_inv_say [of "''Nothing is mounted.''"]
  by (auto simp: preserves_def mounted_only_def wp_simps mounted_inv_def elim!: wlp_mono)

lemma mounted_basic:
  "preserves mounted_inv (say t)" "preserves mounted_inv (printf t)" "preserves mounted_inv (sys f)"
  "preserves mounted_inv free_txt" "preserves mounted_inv (get_txt px m)"
  by (simp_all add: preserves_def mounted_inv_def say_def free_txt_def get_txt_def wp_simps
      server_inv_view)

lemma server_inv_do_cd: "preserves server_inv (do_cd px m)"
  unfolding do_cd_def
  by (intro server_inv_mounted_only preserves_intros mounted_basic preserves_mounted_commands)

lemma server_inv_do_ls: "preserves server_inv (do_ls px m)"
  unfolding do_ls_def
  by (intro server_inv_mounted_only preserves_intros mounted_basic preserves_mounted_commands)

lemma server_inv_do_cat: "preserves server_inv (do_cat px m)"
  unfolding do_cat_def
  by (intro server_inv_mounted_only preserves_intros mounted_basic preserves_mounted_commands)

lemma server_inv_do_stat: "preserves server_inv (do_stat px m)"
  unfolding do_stat_def
  by (intro server_inv_mounted_only preserves_intros mounted_basic preserves_mounted_commands)

lemma server_inv_do_unmount: "preserves server_inv (do_unmount px m)"
  unfolding do_unmount_def mounted_only_def
  by (intro preserves_intros server_inv_basic)

section \<open>Mounting\<close>

lemma keeps_print_welcome_stats: "keeps mid_frame print_welcome_stats"
  unfolding print_welcome_stats_def print_magic_def print_jump_boot_def print_oem_name_def
    print_bytes_per_sector_def print_sectors_per_cluster_def print_num_reserved_sectors_def
    print_num_fats_def print_total_sectors_32_def print_fat_size_32_def print_root_cluster_def
    print_fs_type_def print_first_data_sector_def print_num_data_sectors_def
    print_num_data_clusters_def
  by (intro keeps_intros keeps_ops)

lemma read_bpb_frame:
  "wlp (read_bpb px) (\<lambda>r t. dir_buff t = dir_buff s \<and> stack t = stack s \<and> sp t = sp s
     \<and> device_fd t = device_fd s \<and> buff (fs_data t) = buff (fs_data s)
     \<and> curr_sector (fs_data t) = curr_sector (fs_data s)
     \<and> (r \<noteq> OK \<longrightarrow> first_data_sector (fs_data t) = first_data_sector (fs_data s))) s"
  unfolding read_bpb_def by (auto simp: wp_simps split: option.split)

lemma read_bpb_failed:
  assumes "stack_wf s" "saved_sectors s = []" "first_data_sector (fs_data s) = 0" "starts_at 0 s"
    and "device_fd s \<noteq> - 1"
    and "dir_buff t = dir_buff s \<and> stack t = stack s \<and> sp t = sp s
     \<and> device_fd t = device_fd s \<and> buff (fs_data t) = buff (fs_data s)
     \<and> curr_sector (fs_data t) = curr_sector (fs_data s)
     \<and> first_data_sector (fs_data t) = first_data_sector (fs_data s)"
  shows "mounted_inv t"
proof -
  have "starts_at 0 t" "first_data_sector (fs_data t) = 0"
    using assms by (simp_all add: starts_at_def)
  from starts_at_0_cluster [OF this] this assms show ?thesis
    by (simp add: mounted_inv_def server_inv_def stack_wf_def saved_sectors_def)
qed

lemma jump_mounted:
  fixes s :: "'w server"
  assumes "length (stack s) = STACK_SIZE" and "device_fd s \<noteq> - 1"
  shows "wlp (jump_to_sector px (first_sector_of_cluster c s)) (\<lambda>_ t. mounted_inv (t\<lparr>sp := 0\<rparr>)) s"
proof (rule wlp_mono [OF jump_spec], goal_cases)
  case (1 _ t)
  then have "core_frame t = core_frame s" "stack t = stack s" "device_fd t = device_fd s"
    by (auto simp: frame_defs)
  with starts_cluster [OF conjunct1 [OF 1] this(1) refl] assms show ?case
    by (simp add: mounted_inv_def server_inv_view)
qed

lemma mount_opened_inv:
  fixes s :: "'w server"
  assumes s: "stack_wf s" "saved_sectors s = []" "first_data_sector (fs_data s) = 0" "starts_at 0 s"
    and fd: "device_fd s \<noteq> - 1"
  shows "wlp (mount_opened px) (\<lambda>r t. mounted_inv t) s"
  unfolding mount_opened_def wlp_bnd [of "read_bpb px"]
proof (rule wlp_mono [OF read_bpb_frame], goal_cases)
  case (1 r t)
  show ?case
  proof (cases "r = OK")
    case False
    then have "mounted_inv t" using 1 by (intro read_bpb_failed [OF s fd]) auto
    with False show ?thesis
      using preservesD [OF mounted_basic(1), of t] by (auto simp: wp_simps)
  next
    case True
    have "wlp print_welcome_stats (\<lambda>_ u. wlp (jump_to_sector px
        (first_sector_of_cluster (root_cluster (bpb u)) (u\<lparr>live_txt := live_txt u - 1\<rparr>)))
        (\<lambda>_ v. mounted_inv (v\<lparr>sp := 0\<rparr>)) (u\<lparr>live_txt := live_txt u - 1\<rparr>)) t"
      by (rule wlp_keeps_only [OF keeps_print_welcome_stats], rule jump_mounted)
         (use 1 s fd in \<open>auto simp: frame_defs stack_wf_def\<close>)
    with True show ?thesis by (simp add: wp_simps free_txt_def)
  qed
qed

lemma server_inv_do_mount: "preserves server_inv (do_mount px m)"
  unfolding preserves_def
proof (intro allI impI)
  fix s :: "'a server"
  assume s: "server_inv s"
  show "wlp (do_mount px m) (\<lambda>_. server_inv) s"
  proof (cases "device_fd s = - 1")
    case False
    with s preservesD [OF preserves_server_inv_say s] show ?thesis
      by (simp add: do_mount_def wp_simps)
  next
    case True
    have opened: "wlp (mount_opened px) (\<lambda>_. server_inv) t" if "server_inv t" "device_fd t \<noteq> - 1" 
      "first_data_sector (fs_data t) = 0" "starts_at 0 t" for t
      by (rule wlp_mono [OF mount_opened_inv]) (use that in \<open>auto simp: server_inv_def mounted_inv_def\<close>)
    show ?thesis
      using s True
      by (simp add: do_mount_def get_txt_def free_txt_def say_def wp_simps)
         (auto intro!: opened simp: server_inv_view)
  qed
qed

end
