(* ===== verification/C_Service.thy ===== *)
theory C_Service
  imports C_Prelude
begin

text \<open>
  The shape the servers share: a start-up, and a loop whose turn receives one request and
  answers it. The states between requests are those \<open>served\<close> gives; an invariant that the
  start-up establishes and the turns keep holds in all of them.
\<close>

inductive served :: "('s, 'a) prog \<Rightarrow> ('s, unit) prog \<Rightarrow> ('s \<Rightarrow> bool) \<Rightarrow> 's \<Rightarrow> bool"
  for start turn allowed where
  started: "start s = Some (Inr (r, t)) \<Longrightarrow> served start turn allowed t"
| turned: "served start turn allowed s \<Longrightarrow> allowed s \<Longrightarrow> turn s = Some (Inr ((), t))
    \<Longrightarrow> served start turn allowed t"

locale service =
  fixes start :: "('s, 'a) prog"
    and turn :: "('s, unit) prog"
    and allowed :: "'s \<Rightarrow> bool"
    and inv :: "'s \<Rightarrow> bool"
  assumes start_law: "wlp start (\<lambda>_. inv) s"
    and turn_law: "inv s \<Longrightarrow> allowed s \<Longrightarrow> wlp turn (\<lambda>_. inv) s"
begin

lemma served_inv: "served start turn allowed s \<Longrightarrow> inv s"
proof (induction rule: served.induct)
  case (started s r t)
  then show ?case using start_law [of s] by (simp add: wlp_def)
next
  case (turned s t)
  then show ?case using turn_law [of s] by (simp add: wlp_def)
qed

end

end
