(* ===== verification/Fat32_Service.thy ===== *)
theory Fat32_Service
  imports Fat32_Requests C_Service
begin

text \<open>
  The server as a whole: the states between two requests, from \<open>sef_cb_init\<close> through any
  number of turns of the loop of \<open>main\<close>, on every device and for every client.
\<close>

section \<open>Print working directory\<close>

text \<open>
  \<open>_pwd\<close> returns \<open>-1\<close> from inside its loop without popping what it saved. The turns that do
  this are the ones excluded.
\<close>

definition pwd_returns :: "'w posix \<Rightarrow> 'w server \<Rightarrow> bool" where
  "pwd_returns px s \<longleftrightarrow> (\<forall>t. pwd px s \<noteq> Some (Inr (- 1, t)))"

lemma pwd_mounted:
  assumes "mounted_inv s" and "pwd_returns px s"
  shows "wlp (pwd px) (\<lambda>_. mounted_inv) s"
proof (rule wlpI)
  fix r t
  assume run: "pwd px s = Some (Inr (r, t))"
  have "stack_wf s" "cluster_start s" using assms(1) by (auto simp: mounted_inv_def server_inv_def)
  from pwd_settled [OF this, of px] run assms(2) have "came_back s r t"
    by (auto simp: wlp_def pwd_returns_def)
  then show "mounted_inv t" using settled_mounted [OF assms(1)] by (auto simp: came_back_def)
qed

lemma do_pwd_inv:
  assumes "server_inv s" and "device_fd s \<noteq> - 1 \<Longrightarrow> pwd_returns px s"
  shows "wlp (do_pwd px m) (\<lambda>_. server_inv) s"
proof (cases "device_fd s = - 1")
  case True
  have "preserves server_inv (andthen (say ''Nothing is mounted.'') (ret EINVAL))"
    by (intro preserves_intros server_inv_basic)
  from preservesD [OF this assms(1)] True show ?thesis
    by (simp add: do_pwd_def mounted_only_def wlp_bnd wlp_gets wlp_if)
next
  case False
  with assms have "wlp (pwd px) (\<lambda>_. mounted_inv) s" by (intro pwd_mounted) (simp_all add: mounted_inv_def)
  then have "wlp (pwd px) (\<lambda>_. server_inv) s" by (rule wlp_mono) (simp add: mounted_inv_def)
  with False show ?thesis by (simp add: do_pwd_def mounted_only_def wp_simps)
qed

section \<open>Requests\<close>

lemma server_inv_request:
  "server_inv (s\<lparr>world := w, who_e := e, callnr := c\<rparr>) = server_inv s"
  by (simp add: server_inv_view)

definition allowed_request :: "'w posix \<Rightarrow> 'w server \<Rightarrow> bool" where
  "allowed_request px s \<longleftrightarrow> (\<forall>m t. get_work px s = Some (Inr (m, t)) \<and> callnr t = FAT32S_PWD
     \<and> device_fd t \<noteq> - 1 \<longrightarrow> pwd_returns px t)"

lemma dispatch_inv:
  assumes s: "server_inv s" and pwd: "callnr s = FAT32S_PWD \<Longrightarrow> device_fd s \<noteq> - 1 \<Longrightarrow> pwd_returns px s"
  shows "wlp (dispatch px m) (\<lambda>_. server_inv) s"
proof (cases "callnr s = FAT32S_PWD")
  case True
  then have "wlp (dispatch px m) (\<lambda>_. server_inv) s = wlp (do_pwd px m) (\<lambda>_. server_inv) s"
    by (simp add: dispatch_def wp_simps is_notify_def)
  with do_pwd_inv [OF s pwd] True show ?thesis by simp
next
  case False
  have refused: "wlp (andthen (say t) (ret EINVAL)) (\<lambda>_. server_inv) s" for t
    using s by (intro preservesD [where I = server_inv] preserves_intros server_inv_basic)
  note handlers = server_inv_do_mount server_inv_do_unmount server_inv_do_cd server_inv_do_ls
    server_inv_do_cat server_inv_do_stat
  from False show ?thesis
    unfolding dispatch_def wlp_bnd wlp_gets wlp_if
    by (simp only: if_False split: if_split) (intro conjI impI refused handlers [THEN preservesD] s)
qed

lemma reply_inv: "preserves server_inv (reply px w m)"
  unfolding reply_def by (intro preserves_intros server_inv_basic)

lemma main_turn_inv:
  assumes "server_inv s" and "allowed_request px s"
  shows "wlp (main_turn px) (\<lambda>_. server_inv) s"
  unfolding main_turn_def wlp_bnd
proof (rule wlpI)
  fix m t
  assume work: "get_work px s = Some (Inr (m, t))"
  then have "wlp (get_work px) (\<lambda>_ t. server_inv t) s"
    using assms(1) by (simp add: get_work_def wp_simps server_inv_view)
  with work have t: "server_inv t" by (simp add: wlp_def)
  have "wlp (dispatch px m) (\<lambda>_. server_inv) t"
    using dispatch_inv [OF t] assms(2) work by (auto simp: allowed_request_def)
  then show "wlp (dispatch px m) (\<lambda>r. wlp (if r \<noteq> EDONTREPLY then bnd (gets who_e) (\<lambda>w. reply px w (m\<lparr>m_type := r\<rparr>))
      else ret ()) (\<lambda>_. server_inv)) t"
    by (rule wlp_mono) (use reply_inv in \<open>auto simp: wp_simps preserves_def\<close>)
qed

interpretation fat32s: service sef_cb_init "main_turn px" "allowed_request px" server_inv for px
proof
  show "wlp sef_cb_init (\<lambda>_. server_inv) s" for s :: "'a server"
    unfolding sef_cb_init_def wlp_andthen wlp_check wlp_ret wlp_printf
    by (intro impI wlp_mono [OF wp_wlp [OF server_inv_reset]]) simp
qed (rule main_turn_inv)

end
