(* ===== verification/Fat32_Session.thy ===== *)
theory Fat32_Session
  imports Fat32_Path Fat32_Service
begin

text \<open>
  From the mount to the answer: mounting a well-formed volume puts the server at the root
  directory, ready for the commands, and the handlers pass the path of the request to them.
\<close>

section \<open>Mounting\<close>

text \<open>What a successful \<open>read\<close> from a fresh descriptor gives: the boot sector.\<close>

definition boot_read :: "'w posix \<Rightarrow> int \<Rightarrow> byte list \<Rightarrow> ('w \<Rightarrow> bool) \<Rightarrow> 'w \<Rightarrow> bool" where
  "boot_read px fd img W w \<longleftrightarrow> fst (px_read px fd BPB_SIZE w) = Some (slice 0 BPB_SIZE img)
     \<and> W (snd (px_read px fd BPB_SIZE w))"

definition bootable :: "byte list \<Rightarrow> bool" where
  "bootable img \<longleftrightarrow> BPB_SIZE \<le> length img \<and> le16 [img ! 510, img ! 511] 0 = MAGIC
     \<and> geometry_ok (Bpb_of_bytes (slice 0 BPB_SIZE img)) img"

text \<open>The variables as \<open>reset\<close> leaves them, with the device opened.\<close>

definition opened :: "'w server \<Rightarrow> bool" where
  "opened s \<longleftrightarrow> device_fd s \<noteq> - 1 \<and> length (buff (fs_data s)) = MAX_BYTES_PER_SECTOR
     \<and> curr_sector (fs_data s) = 0 \<and> length (stack s) = STACK_SIZE \<and> 8 < length (tmp s)"

lemma data_start_word:
  "ucast (num_reserved_sectors b) + ucast (num_fats b) * fat_size_32 b = (of_nat (data_start b) :: u32)"
  by (simp add: data_start_def)

lemma line_tmp_wp:
  assumes "n < length (tmp s)" and "\<And>x y. length x = length (tmp s) \<Longrightarrow> Q () (s\<lparr>tmp := x, out := y\<rparr>)"
  shows "wp (line_tmp label field n) Q s"
proof -
  let ?x = "(strncpy (tmp s) (field (bpb s)) n)[n := 0]"
  have l: "length (strncpy (tmp s) (field (bpb s)) n) = length (tmp s)"
    using assms(1) by (simp add: strncpy_def Let_def)
  then have "terminated ?x" using assms(1) by (intro set_update_memI) simp
  with assms(2) [of ?x] l show ?thesis by (simp add: line_tmp_def line_s_def wp_simps)
qed

definition prints :: "('w, unit) fprog \<Rightarrow> bool" where
  "prints m \<longleftrightarrow> (\<forall>s Q. 8 < length (tmp s) \<longrightarrow>
     (\<forall>x y. length x = length (tmp s) \<longrightarrow> Q () (s\<lparr>tmp := x, out := y\<rparr>)) \<longrightarrow> wp m Q s)"

lemma prints_andthen: "prints m \<Longrightarrow> prints n \<Longrightarrow> prints (andthen m n)"
  unfolding prints_def wp_andthen by fastforce

lemma prints_line_tmp: "n \<le> 8 \<Longrightarrow> prints (line_tmp label field n)"
  unfolding prints_def by (auto intro!: line_tmp_wp)

lemma prints_printf: "prints (printf t)"
  unfolding prints_def wp_printf
proof (intro allI impI)
  fix s :: "'a server" and Q
  assume "\<forall>x y. length x = length (tmp s) \<longrightarrow> Q () (s\<lparr>tmp := x, out := y\<rparr>)"
  then have "Q () (s\<lparr>tmp := tmp s, out := out s @ t\<rparr>)" by blast
  then show "Q () (s\<lparr>out := out s @ t\<rparr>)" by simp
qed

lemma prints_gets: "(\<And>x. prints (k x)) \<Longrightarrow> prints (bnd (gets g) k)"
  by (simp add: prints_def wp_simps)

lemma prints_welcome: "prints print_welcome_stats"
  unfolding print_welcome_stats_def print_magic_def print_jump_boot_def print_oem_name_def
    print_bytes_per_sector_def print_sectors_per_cluster_def print_num_reserved_sectors_def
    print_num_fats_def print_total_sectors_32_def print_fat_size_32_def print_root_cluster_def
    print_fs_type_def print_first_data_sector_def print_num_data_sectors_def
    print_num_data_clusters_def line_d_def
  by (intro prints_andthen prints_printf prints_gets prints_line_tmp) simp_all

definition loaded :: "'w posix \<Rightarrow> byte list \<Rightarrow> ('w \<Rightarrow> bool) \<Rightarrow> int \<Rightarrow> 'w server \<Rightarrow> bool" where
  "loaded px img W fd t \<longleftrightarrow> volume px img W t \<and> bpb t = Bpb_of_bytes (slice 0 BPB_SIZE img)
     \<and> device_fd t = fd \<and> length (stack t) = STACK_SIZE \<and> 8 < length (tmp t)"

lemma loaded_update:
  "loaded px img W fd (t\<lparr>live_txt := k\<rparr>) = loaded px img W fd t"
  "length x = length (tmp t) \<Longrightarrow> loaded px img W fd (t\<lparr>tmp := x, out := y\<rparr>) = loaded px img W fd t"
  by (simp_all add: loaded_def volume_def)

lemma read_bpb_loaded:
  assumes img: "bootable img" and s: "opened s" "disk_device px (device_fd s) img W"
    and boot: "boot_read px (device_fd s) img W (world s)"
  shows "wp (read_bpb px) (\<lambda>r t. r = OK \<and> loaded px img W (device_fd s) t) s"
proof -
  let ?b = "Bpb_of_bytes (slice 0 BPB_SIZE img)"
  have len: "length (slice 0 BPB_SIZE img) = BPB_SIZE" and nth: "slice 0 BPB_SIZE img ! i = img ! i" if "i < 512" for i
    using img that by (simp_all add: bootable_def length_slice nth_slice)
  have spc: "sectors_per_cluster ?b \<noteq> 0" using img by (auto simp: bootable_def geometry_ok_def)
  from boot have rd: "fst (px_read px (device_fd s) 512 (world s)) = Some (slice 0 512 img)"
    "W (snd (px_read px (device_fd s) 512 (world s)))" by (simp_all add: boot_read_def)
  have geo: "geometry_ok ?b img" and magic: "le16 [img ! 510, img ! 511] 0 = MAGIC"
    using img by (simp_all add: bootable_def)
  show ?thesis
    using s len [of 0] nth [of 510] nth [of 511] rd spc geo magic
    by (simp add: read_bpb_def wp_simps data_start_word loaded_def volume_def opened_def sector_ok_def Let_def)
qed

lemma mount_opened_ready:
  assumes img: "bootable img" and s: "opened s" "disk_device px (device_fd s) img W"
    and boot: "boot_read px (device_fd s) img W (world s)"
  shows "wp (mount_opened px) (\<lambda>r t. r = OK \<and> device_fd t = device_fd s \<and> saved_sectors t = []
    \<and> ready px img W (root_cluster (Bpb_of_bytes (slice 0 BPB_SIZE img))) STACK_SIZE t) s"
proof -
  define Q where "Q r t \<longleftrightarrow> r = OK \<and> device_fd t = device_fd s \<and> saved_sectors t = []
    \<and> ready px img W (root_cluster (Bpb_of_bytes (slice 0 BPB_SIZE img))) STACK_SIZE t" for r t
  have jump: "wp (jump_to_sector px (first_sector_of_cluster (root_cluster (bpb t)) t)) (\<lambda>_ u. Q OK (u\<lparr>sp := 0\<rparr>)) t"
    if t: "loaded px img W (device_fd s) t" for t
  proof -
    have v: "volume px img W t" using t by (simp add: loaded_def)
    show ?thesis
    proof (rule wp_mono [OF jump_volume [OF v]], elim conjE)
      fix x and u :: "'a server"
      assume u: "volume px img W u" "starts_at (first_sector_of_cluster (root_cluster (bpb t)) t) u" "nav_frame u = nav_frame t"
      then have f: "core_frame u = core_frame t" "stack u = stack t" by (simp_all add: frame_defs)
      from u(1) have "volume px img W (u\<lparr>sp := 0\<rparr>)" by (simp add: volume_def)
      moreover from f(1) have "first_sector_of_cluster c (u\<lparr>sp := 0\<rparr>) = first_sector_of_cluster c t" for c
        by (simp add: first_sector_of_cluster_def core_frame_def)
      ultimately show "Q OK (u\<lparr>sp := 0\<rparr>)"
        using t u(2) f by (simp add: Q_def ready_def loaded_def saved_sectors_def stack_wf_def core_frame_def starts_at_def)
    qed
  qed
  have "wp print_welcome_stats (\<lambda>_ t. wp (jump_to_sector px (first_sector_of_cluster (root_cluster (bpb t)) (t\<lparr>live_txt := live_txt t - 1\<rparr>)))
      (\<lambda>_ u. Q OK (u\<lparr>sp := 0\<rparr>)) (t\<lparr>live_txt := live_txt t - 1\<rparr>)) t"
    if t: "loaded px img W (device_fd s) t" for t
  proof (rule prints_welcome [unfolded prints_def, rule_format])
    show "8 < length (tmp t)" using t by (simp add: loaded_def)
    fix x :: "byte list" and y :: string
    assume x: "length x = length (tmp t)"
    let ?u = "t\<lparr>tmp := x, out := y\<rparr>"
    from jump [of "?u\<lparr>live_txt := live_txt ?u - 1\<rparr>"] t x
    show "wp (jump_to_sector px (first_sector_of_cluster (root_cluster (bpb ?u)) (?u\<lparr>live_txt := live_txt ?u - 1\<rparr>)))
      (\<lambda>_ u. Q OK (u\<lparr>sp := 0\<rparr>)) (?u\<lparr>live_txt := live_txt ?u - 1\<rparr>)"
      by (simp only: loaded_update) simp
  qed
  then have "wp (mount_opened px) Q s"
    unfolding mount_opened_def wp_bnd
    by (intro wp_mono [OF read_bpb_loaded [OF assms]]) (auto simp: wp_simps free_txt_def)
  then show ?thesis unfolding Q_def .
qed

section \<open>Requests with a path\<close>

text \<open>
  The client's text: \<open>malloc\<close> succeeds and \<open>sys_datacopy\<close> gives the bytes the message
  points to, without disturbing the device.
\<close>

definition client_text :: "'w posix \<Rightarrow> ('w \<Rightarrow> bool) \<Rightarrow> message \<Rightarrow> byte list \<Rightarrow> bool" where
  "client_text px W m p \<longleftrightarrow> txt_len m = int (length p) \<and> (\<forall>w. W w \<longrightarrow>
     (let a = px_malloc px (txt_len m + 1) w;
          d = px_datacopy px (m_source m) (txt_loc m) (txt_len m) (snd a)
      in fst a \<and> fst d = (OK, p) \<and> W (snd d)))"

lemma get_txt_client:
  assumes "client_text px W m p" and "W (world s)"
    and "\<And>w. W w \<Longrightarrow> Q OK (s\<lparr>world := w, txt_buf := p @ [0], live_txt := live_txt s + 1\<rparr>)"
  shows "wp (get_txt px m) Q s"
proof -
  let ?a = "px_malloc px (txt_len m + 1) (world s)"
  let ?d = "px_datacopy px (m_source m) (txt_loc m) (txt_len m) (snd ?a)"
  from assms(1,2) have "fst ?a" "fst ?d = (OK, p)" "W (snd ?d)" "txt_len m = int (length p)"
    unfolding client_text_def Let_def by blast+
  with assms(3) [of "snd ?d"] show ?thesis by (simp add: get_txt_def wp_simps)
qed

lemma ready_text:
  "W w \<Longrightarrow> ready px img W c n s \<Longrightarrow> ready px img W c n (s\<lparr>world := w, txt_buf := p, live_txt := k\<rparr>)"
  by (simp add: ready_def volume_def stack_wf_def starts_at_def first_sector_of_cluster_def Let_def)

text \<open>The answer of the handlers of \<open>ls\<close> and \<open>cat\<close>: the text, and a line when it failed.\<close>

definition answered :: "'w posix \<Rightarrow> byte list \<Rightarrow> ('w \<Rightarrow> bool) \<Rightarrow> u32 \<Rightarrow> 'w server \<Rightarrow> int \<Rightarrow> string \<Rightarrow> int \<Rightarrow> 'w server \<Rightarrow> bool" where
  "answered px img W c s code x r t \<longleftrightarrow> r = code \<and> out t = out s @ x
     \<and> volume px img W t \<and> stack_wf t \<and> saved_sectors t = saved_sectors s
     \<and> starts_at (first_sector_of_cluster c t) t \<and> live_txt t = live_txt s + 1"

lemma starts_at_out: "starts_at sec (s\<lparr>out := x\<rparr>) = starts_at sec s"
  by (simp add: starts_at_def)

lemma returned_answered:
  assumes s: "ready px img W c n s"
    and t: "returned px img W (s\<lparr>world := w, txt_buf := p, live_txt := live_txt s + 1\<rparr>) x t"
  shows "answered px img W c s code (x @ y) code (t\<lparr>out := out t @ y\<rparr>)"
proof -
  let ?t = "t\<lparr>out := out t @ y\<rparr>"
  have "first_sector_of_cluster c ?t = first_sector_of_cluster c s"
    using t by (simp add: returned_def core_frame_def first_sector_of_cluster_def)
  moreover have "db_sector (dir_buff s) = first_sector_of_cluster c s" using s by (simp add: ready_def starts_at_def)
  ultimately have "starts_at (first_sector_of_cluster c ?t) ?t"
    using t by (simp add: returned_def starts_at_out)
  moreover have "volume px img W ?t" "stack_wf ?t" "saved_sectors ?t = saved_sectors s" "out ?t = out s @ x @ y"
    "live_txt ?t = live_txt s + 1"
    using t by (simp_all add: returned_def at_entry_out stack_wf_def saved_sectors_def core_frame_def)
  ultimately show ?thesis by (simp add: answered_def)
qed

text \<open>The common body of the two handlers.\<close>

lemma text_command_answers:
  assumes s: "ready px img W c n s" "device_fd s \<noteq> - 1" and m: "client_text px W m p"
    and cmd: "\<And>w. W w \<Longrightarrow> wp (cmd (p @ [0])) (\<lambda>r t. r = code
        \<and> returned px img W (s\<lparr>world := w, txt_buf := p @ [0], live_txt := live_txt s + 1\<rparr>) x t)
        (s\<lparr>world := w, txt_buf := p @ [0], live_txt := live_txt s + 1\<rparr>)"
  shows "wp (mounted_only (bnd (get_txt px m) (\<lambda>st. if st \<noteq> OK then failed
      else bnd (gets txt_buf) (\<lambda>t. bnd (cmd t) (\<lambda>status.
        andthen (if status \<noteq> 0 then printf msg else ret ()) (ret status))))))
    (answered px img W c s code (x @ (if code = 0 then [] else msg))) s"
proof -
  let ?Q = "answered px img W c s code (x @ (if code = 0 then [] else msg))"
  have v: "W (world s)" using s by (simp add: ready_def volume_def)
  have "wp (get_txt px m) (\<lambda>st t. st = OK \<and> wp (cmd (txt_buf t)) (\<lambda>status.
      wp (if status \<noteq> 0 then printf msg else ret ()) (\<lambda>_. ?Q status)) t) s"
  proof (rule get_txt_client [OF m v], intro conjI refl)
    fix w
    assume w: "W w"
    let ?u = "s\<lparr>world := w, txt_buf := p @ [0], live_txt := live_txt s + 1\<rparr>"
    have "?Q code (t\<lparr>out := out t @ (if code = 0 then [] else msg)\<rparr>)" if "returned px img W ?u x t" for t
      using returned_answered [OF s(1) that] .
    then have "wp (cmd (p @ [0])) (\<lambda>status. wp (if status \<noteq> 0 then printf msg else ret ()) (\<lambda>_. ?Q status)) ?u"
      by (intro wp_mono [OF cmd [OF w]]) (cases "code = 0"; force simp: wp_simps)
    then show "wp (cmd (txt_buf ?u)) (\<lambda>status. wp (if status \<noteq> 0 then printf msg else ret ()) (\<lambda>_. ?Q status)) ?u"
      by simp
  qed
  then have "wp (get_txt px m) (\<lambda>st. wp (if st \<noteq> OK then failed
      else bnd (gets txt_buf) (\<lambda>t. bnd (cmd t) (\<lambda>status.
        andthen (if status \<noteq> 0 then printf msg else ret ()) (ret status)))) ?Q) s"
    by (rule wp_mono) (simp add: wp_bnd wp_gets wp_andthen wp_ret)
  with s(2) show ?thesis by (simp add: mounted_only_def wp_bnd wp_gets)
qed

lemma do_cat_answers:
  assumes s: "ready px img W c 2 s" "device_fd s \<noteq> - 1" and m: "client_text px W m p" "0 \<notin> set p"
    and ok: "passable (bpb s) img ch False True (segments p) c"
    and res: "resolve (bpb s) img ch False True (segments p) c None = (code, c', via)"
    and f: "code = 0 \<Longrightarrow> via = Some (cs, i) \<and> file_chain (bpb s) img c' (entry_size (entry (bpb s) img cs i)) fcs"
  shows "wp (do_cat px m) (answered px img W c s code
    ((if code = 0 then cat_text (bpb s) img fcs (entry_size (entry (bpb s) img cs i)) else [])
     @ (if code = 0 then [] else ''FAT32S: You can't cat the requested file.''))) s"
  unfolding do_cat_def
proof (rule text_command_answers [OF s m(1)])
  fix w
  assume w: "W w"
  let ?u = "s\<lparr>world := w, txt_buf := p @ [0], live_txt := live_txt s + 1\<rparr>"
  have p: "cstr (p @ [0]) = p" "terminated (p @ [0])" using m(2) by simp_all
  have "wp (cat px (p @ [0])) (cat_post px img W ?u code fcs (entry_size (entry (bpb ?u) img cs i))) ?u"
    using ok res f p by (intro cat_prints [OF ready_text [OF w s(1)]]) simp_all
  then show "wp (cat px (p @ [0])) (\<lambda>r t. r = code \<and> returned px img W ?u
     (if code = 0 then cat_text (bpb s) img fcs (entry_size (entry (bpb s) img cs i)) else []) t) ?u"
    by (rule wp_mono) (auto simp: cat_post_def split: if_splits)
qed

lemma do_ls_answers:
  assumes s: "ready px img W c 3 s" "device_fd s \<noteq> - 1" and m: "client_text px W m p" "0 \<notin> set p"
    and ok: "p = dot \<or> passable (bpb s) img ch True False (segments p) c"
    and res: "ls_resolve (bpb s) img ch p c = (code, c')"
    and dir: "code = 0 \<Longrightarrow> directory (bpb s) img ch c'"
  shows "wp (do_ls px m) (answered px img W c s code
    ((if code = 0 then listing (bpb s) img (ch c') else [])
     @ (if code = 0 then [] else ''FAT32S: You can't ls like that.''))) s"
  unfolding do_ls_def
proof (rule text_command_answers [OF s m(1)])
  fix w
  assume w: "W w"
  let ?u = "s\<lparr>world := w, txt_buf := p @ [0], live_txt := live_txt s + 1\<rparr>"
  have p: "cstr (p @ [0]) = p" "terminated (p @ [0])" using m(2) by simp_all
  have "wp (ls px (p @ [0])) (ls_post px img W ?u ch code c') ?u"
    using ok res dir p by (intro ls_prints [OF ready_text [OF w s(1)]]) simp_all
  then show "wp (ls px (p @ [0])) (\<lambda>r t. r = code \<and> returned px img W ?u
     (if code = 0 then listing (bpb s) img (ch c') else []) t) ?u"
    by (rule wp_mono) (auto simp: ls_post_def split: if_splits)
qed

section \<open>Mounting what is not a volume\<close>

definition bad_boot :: "'w posix \<Rightarrow> int \<Rightarrow> 'w \<Rightarrow> bool" where
  "bad_boot px fd w \<longleftrightarrow> (case fst (px_read px fd BPB_SIZE w) of None \<Rightarrow> True
     | Some bs \<Rightarrow> length bs \<noteq> BPB_SIZE \<or> le16 [bs ! 510, bs ! 511] 0 \<noteq> MAGIC)"

lemma read_bpb_bad:
  assumes "bad_boot px (device_fd s) (world s)"
  shows "wp (read_bpb px) (\<lambda>r t. r = EINVAL \<and> device_fd t = device_fd s \<and> live_txt t = live_txt s) s"
  using assms by (auto simp: read_bpb_def bad_boot_def wp_simps split: option.splits)

lemma mount_bad_boot:
  assumes s: "device_fd s = - 1" "W (world s)" and m: "client_text px W m p"
    and p: "0 \<notin> set p" "length p < MAX_DEVICE_LABEL"
    and dev: "\<And>w. W w \<Longrightarrow> fst (px_open px p w) \<noteq> - 1 \<and> bad_boot px (fst (px_open px p w)) (snd (px_open px p w))"
  shows "wp (do_mount px m) (\<lambda>r t. r = EINVAL \<and> device_fd t \<noteq> - 1 \<and> live_txt t = live_txt s + 1) s"
proof -
  let ?Q = "\<lambda>r t. r = EINVAL \<and> device_fd t \<noteq> - 1 \<and> live_txt t = live_txt s + 1"
  have "wp (mount_opened px) ?Q u" if "bad_boot px (device_fd u) (world u)" "device_fd u \<noteq> - 1" "live_txt u = live_txt s + 1" for u
    unfolding mount_opened_def wp_bnd
    by (rule wp_mono [OF read_bpb_bad [OF that(1)]]) (use that in \<open>auto simp: wp_simps say_def\<close>)
  then show ?thesis
    using s p dev unfolding do_mount_def wp_bnd [of "gets _"] wp_gets wp_if
    by (simp add: wp_bnd [of "get_txt px m"])
      (rule get_txt_client [OF m s(2)], simp add: wp_simps cstr_append_zero)
qed

end
