(* ===== verification/Fat32_Pwd.thy ===== *)
theory Fat32_Pwd
  imports Fat32_Session
begin

text \<open>
  The way \<open>_pwd\<close> goes: from the directory to its parent, where it looks for the entry with
  the cluster of the directory. In a tree whose parent does not list the directory the
  command gives up with what it saved still on the stack.
\<close>

definition dotdot :: "byte list" where
  "dotdot = bytes_of ''..''"

lemma cstr_dotdot: "cstr (bytes_of ''..'' @ [0]) = dotdot" "terminated (bytes_of ''..'' @ [0])"
  by (simp_all add: dotdot_def bytes_of_def cstr_def)

text \<open>The cluster an entry stands for; 0 is written for the root and taken for 2.\<close>

definition entry_id :: "byte list \<Rightarrow> u32" where
  "entry_id e = (let c = entry_cluster (RegDirEntry_of_bytes e) in if c = 0 then 2 else c)"

definition named :: "Bpb \<Rightarrow> byte list \<Rightarrow> u32 list \<Rightarrow> u32 \<Rightarrow> byte list option" where
  "named b img cs c = map_option (\<lambda>(i, nm, e). nm) (find (\<lambda>(i, nm, e). entry_id e = c) (dir_children b img cs))"

lemma find_by_cluster:
  assumes "dir_here px img W cs s"
  shows "wp (find_child_by_cluster_id px full c) (\<lambda>r t. volume px img W t \<and> nav_frame t = nav_frame s
     \<and> (case named (bpb s) img cs c of None \<Rightarrow> fst r = 1 | Some nm \<Rightarrow> fst r = 0 \<and> cstr (snd r) = nm)) s"
proof -
  have hit: "(let d = entry_cluster (RegDirEntry_of_bytes e) in c = (if d = 0 then 2 else d)) = (entry_id e = c)" for e
    by (auto simp: entry_id_def Let_def)
  show ?thesis
    unfolding find_child_by_cluster_id_def
    by (rule wp_mono [OF scan_dir [OF visits_cluster assms]])
      (auto simp: scanned_def scan_frame_def nav_frame_def hit named_def split: option.splits)
qed

lemma sector_to_cluster_start:
  assumes "volume px img W s" and "cluster_ok (bpb s) img c"
  shows "wp (sector_to_cluster (first_sector_of_cluster c s)) Q s = Q c s"
proof -
  have g: "geometry_ok (bpb s) img" and fds: "first_data_sector (fs_data s) = of_nat (data_start (bpb s))"
    using assms(1) by (simp_all add: volume_def)
  have cs: "chain_ok (bpb s) img [c]" using assms(2) by (simp add: chain_ok_def)
  have spc: "sectors_per_cluster (bpb s) \<noteq> 0" "0 < spc (bpb s)" using g by (auto simp: geometry_ok_def)
  have "2 \<le> unat c" using assms(2) by (simp add: cluster_ok_def)
  from first_sector_volume [OF assms(1) this]
  have "first_sector_of_cluster c s = of_nat (chain_sector (bpb s) [c] 0)" by (simp add: chain_sector_def)
  with chain_leaving(2) [OF g cs, of 0] spc show ?thesis by (simp add: wp_simps fds)
qed

lemma pwd_up_gives_up:
  assumes u: "walk_at px img W s d via u" and room: "sp u < int STACK_SIZE"
    and dir: "directory (bpb s) img ch d" and lost: "named (bpb s) img (ch d) c = None"
  shows "wp (pwd_up px (name, full, c)) (\<lambda>y t. y = Inr None
    \<and> saved_sectors t = saved_sectors u @ [first_sector_of_cluster d u]) u"
proof -
  have b: "bpb u = bpb s" using u by (simp add: walk_at_def walking_def core_frame_def)
  have sec: "db_sector (dir_buff u) = first_sector_of_cluster d u" using u by (simp add: walk_at_def starts_at_def)
  have wf: "stack_wf u" using u by (simp add: walk_at_def walking_def)
  show ?thesis
    unfolding pwd_up_def Let_def prod.case wp_bnd [of "gets _"] wp_gets wp_andthen
  proof (rule push_total [OF wf room])
    fix v
    assume v: "walking u v" "beside_stack v = beside_stack u"
    note f = volume_beside [OF v(2)] beside_stackD [OF v(2)]
    have here: "dir_here px img W (ch d) v"
      using u dir b f by (intro starts_dir [of px img W v d]) (simp_all add: walk_at_def)
    show "wp (bnd (find_child_by_cluster_id px name c) (\<lambda>found. if fst found \<noteq> 0
        then andthen (printf ''This should never happen..'') (ret (Inr None)) else k found))
      (\<lambda>y t. y = Inr None \<and> saved_sectors t = saved_sectors u @ [first_sector_of_cluster d u]) v" for k
      unfolding wp_bnd
    proof (rule wp_mono [OF find_by_cluster [OF here]], goal_cases)
      case (1 r t)
      then have "mid_frame t = mid_frame v" by (simp add: nav_frame_def)
      from stack_of_mid [OF this] 1 v(1) lost f b sec show ?case
        by (simp add: walking_def wp_simps saved_sectors_def)
    qed
  qed
qed

text \<open>What is left when the parent does not list the directory.\<close>

definition left_on_stack :: "'w server \<Rightarrow> u32 \<Rightarrow> u32 \<Rightarrow> 'w server \<Rightarrow> bool" where
  "left_on_stack s c d t \<longleftrightarrow>
     saved_sectors t = saved_sectors s @ [first_sector_of_cluster c s, first_sector_of_cluster d s]"

lemma pwd_turn_gives_up:
  assumes u: "walk_at px img W s c None u" and room: "sp u < int STACK_SIZE"
    and sec: "db_sector (dir_buff s) = first_sector_of_cluster c s" and c: "directory (bpb s) img ch c"
    and up: "child (bpb s) img (ch c) dotdot = Some (i, e)"
    and d: "d = target (bpb s) e" "directory (bpb s) img ch d" and lost: "named (bpb s) img (ch d) c = None"
  shows "wp (pwd_turn px (name, full, c)) (\<lambda>y t. y = Inr None \<and> left_on_stack s c d t) u"
  unfolding pwd_turn_def wp_bnd
proof (rule wp_mono [OF child_walk [OF u c cstr_dotdot(2)]], elim conjE, goal_cases)
  case (1 r x)
  then have x: "r = 0" "at_entry img (ch c) i x" "db_de (dir_buff x) = \<lparr>de_type = DIR_TYPE_SHORT, de_u = e\<rparr>"
    by (simp_all add: cstr_dotdot up)
  have "wp (hop px) (\<lambda>_. wp (pwd_up px (name, full, c)) (\<lambda>y t. y = Inr None \<and> left_on_stack s c d t)) x"
  proof (rule hop_walk [OF 1(1-3) x(2,3)])
    fix y
    assume y: "walk_at px img W s (target (bpb s) e) (Some (ch c, i)) y"
    have "sp y = sp u"
      using y u saved_sp [of y] saved_sp [of u] by (simp add: walk_at_def walking_def)
    then have room': "sp y < int STACK_SIZE" using room by simp
    have f: "first_sector_of_cluster d y = first_sector_of_cluster d s"
      using y by (intro first_sector_core) (simp add: walk_at_def walking_def)
    show "wp (pwd_up px (name, full, c)) (\<lambda>y t. y = Inr None \<and> left_on_stack s c d t) y"
      by (rule wp_mono [OF pwd_up_gives_up [OF y [folded d(1)] room' d(2) lost]])
        (use y f sec in \<open>simp add: walk_at_def walking_def left_on_stack_def\<close>)
  qed
  with x(1) show ?case by (simp add: wp_simps)
qed

lemma pwd_gives_up:
  assumes s: "ready px img W c 2 s" and c: "cluster_ok (bpb s) img c" "directory (bpb s) img ch c"
    and up: "child (bpb s) img (ch c) dotdot = Some (i, e)"
    and d: "d = target (bpb s) e" "directory (bpb s) img ch d" and lost: "named (bpb s) img (ch d) c = None"
  shows "wp (pwd px) (\<lambda>r t. r = - 1 \<and> left_on_stack s c d t) s"
proof -
  have sec: "db_sector (dir_buff s) = first_sector_of_cluster c s"
    using s by (simp add: ready_def starts_at_def)
  show ?thesis
    unfolding pwd_def wp_bnd [of "gets _"] wp_gets wp_andthen
  proof (rule push_ready [where n = 1])
    fix u
    assume u: "walking s u" "ready px img W c 1 u" "out u = out s" "bpb u = bpb s"
    have at: "walk_at px img W s c None u" using u by (simp add: walk_at_def ready_def led_by_def)
    have room: "sp u < int STACK_SIZE" using u(2) by (simp add: ready_def)
    have f: "first_sector_of_cluster c s = first_sector_of_cluster c u"
      using u(1) by (intro first_sector_core) (simp add: walking_def)
    have vc: "volume px img W u" "cluster_ok (bpb u) img c" using u c(1) by (simp_all add: ready_def)
    show "wp (bnd (sector_to_cluster (db_sector (dir_buff s))) (\<lambda>cluster_id.
       bnd (loop_m (pwd_turn px) ([], [0], cluster_id)) (\<lambda>r. case r of None \<Rightarrow> ret (- 1) | Some p \<Rightarrow> k p)))
       (\<lambda>r t. r = - 1 \<and> left_on_stack s c d t) u" for k
      unfolding wp_bnd sec f sector_to_cluster_start [OF vc]
      by (subst wp_loop_unfold, rule wp_mono [OF pwd_turn_gives_up [OF at room sec c(2) up d lost]])
        (simp add: wp_simps)
  qed (use s in \<open>simp add: numeral_2_eq_2\<close>)
qed

end
