(* ===== verification/Fat32_Example.thy ===== *)
theory Fat32_Example
  imports Fat32_Session
begin

text \<open>
  A small volume and a device that serves it: sectors of 32 bytes, one reserved sector, two
  sectors of table, and clusters of one sector. The root directory, in the clusters 2 to 5,
  holds the file \<open>readme.md\<close> with a long name, whose data are in the clusters 6 and 7, and
  the directory \<open>SUB\<close>, in the clusters 8 and 9, with its parent entry. The clusters 10 and 11
  hold a directory like \<open>SUB\<close> that no other directory lists. It is the input of the examples.
\<close>

definition ex_bpb :: Bpb where
  "ex_bpb = \<lparr>jump_boot = [0, 0, 0], oem_name = replicate 8 0x20, bytes_per_sector = 32,
     sectors_per_cluster = 1, num_reserved_sectors = 1, num_fats = 1, num_root_entries = 0,
     total_sectors_16 = 0, media = 0xF8, fat_size_16 = 0, sectors_per_track = 0, num_heads = 0,
     hidden_sectors = 0, total_sectors_32 = 13, fat_size_32 = 2, ext_flags = 0, fs_version = 0,
     root_cluster = 2, fs_info_sector = 0, backup_boot_sector = 0, bpb_reserved = replicate 12 0,
     drive_number = 0, bs_reserved = 0, boot_signature = 0x29, volume_id = 0,
     volume_label = replicate 11 0x20, fs_type = replicate 8 0x20\<rparr>"

definition ex_entry :: "string \<Rightarrow> byte \<Rightarrow> u16 \<Rightarrow> u32 \<Rightarrow> byte list" where
  "ex_entry nm attr c n = bytes_of_RegDirEntry \<lparr>short_name = bytes_of nm, attributes = attr,
     nt_res = 0, time_created_10ms = 0, time_created = 0, date_created = 0, date_last_access = 0,
     first_cluster_hi = 0, time_last_write = 0, date_last_write = 0, first_cluster_lo = c,
     file_size = n\<rparr>"

definition ex_long :: "byte list" where
  "ex_long = [0x41] @ concat (map (\<lambda>c. [c, 0]) (bytes_of ''readm'')) @ [0x0F, 0, 0]
     @ concat (map (\<lambda>c. [c, 0]) (bytes_of ''e.md'')) @ [0, 0, 0xFF, 0xFF] @ [0, 0] @ [0xFF, 0xFF, 0xFF, 0xFF]"

definition ex_file :: "byte list" where
  "ex_file = concat (replicate 4 (bytes_of ''MINIX 3.3\<newline>''))"

definition ex_fat :: "byte list" where
  "ex_fat = concat (map bytes32 ([0x0FFFFFF8, 0x0FFFFFFF, 3, 4, 5, 0x0FFFFFFF, 7, 0x0FFFFFFF, 9,
     0x0FFFFFFF, 11, 0x0FFFFFFF] @ replicate 4 0))"

definition ex_root :: "byte list" where
  "ex_root = ex_long @ ex_entry ''README~1MD '' 0x20 6 40 @ ex_entry ''SUB        '' 0x10 8 0 @ replicate 32 0"

definition ex_img :: "byte list" where
  "ex_img = replicate 32 0 @ ex_fat @ ex_root @ (ex_file @ replicate 24 0)
     @ concat (replicate 2 (ex_entry ''..         '' 0x10 0 0 @ replicate 32 0))"

lemma ex_img_code [code]:
  "ex_img = [
     0, 0, 0, 0, 0, 0, 0, 0, 0, 0, 0, 0, 0, 0, 0, 0,
     0, 0, 0, 0, 0, 0, 0, 0, 0, 0, 0, 0, 0, 0, 0, 0,
     248, 255, 255, 15, 255, 255, 255, 15, 3, 0, 0, 0, 4, 0, 0, 0,
     5, 0, 0, 0, 255, 255, 255, 15, 7, 0, 0, 0, 255, 255, 255, 15,
     9, 0, 0, 0, 255, 255, 255, 15, 11, 0, 0, 0, 255, 255, 255, 15,
     0, 0, 0, 0, 0, 0, 0, 0, 0, 0, 0, 0, 0, 0, 0, 0,
     65, 114, 0, 101, 0, 97, 0, 100, 0, 109, 0, 15, 0, 0, 101, 0,
     46, 0, 109, 0, 100, 0, 0, 0, 255, 255, 0, 0, 255, 255, 255, 255,
     82, 69, 65, 68, 77, 69, 126, 49, 77, 68, 32, 32, 0, 0, 0, 0,
     0, 0, 0, 0, 0, 0, 0, 0, 0, 0, 6, 0, 40, 0, 0, 0,
     83, 85, 66, 32, 32, 32, 32, 32, 32, 32, 32, 16, 0, 0, 0, 0,
     0, 0, 0, 0, 0, 0, 0, 0, 0, 0, 8, 0, 0, 0, 0, 0,
     0, 0, 0, 0, 0, 0, 0, 0, 0, 0, 0, 0, 0, 0, 0, 0,
     0, 0, 0, 0, 0, 0, 0, 0, 0, 0, 0, 0, 0, 0, 0, 0,
     77, 73, 78, 73, 88, 32, 51, 46, 51, 10, 77, 73, 78, 73, 88, 32,
     51, 46, 51, 10, 77, 73, 78, 73, 88, 32, 51, 46, 51, 10, 77, 73,
     78, 73, 88, 32, 51, 46, 51, 10, 0, 0, 0, 0, 0, 0, 0, 0,
     0, 0, 0, 0, 0, 0, 0, 0, 0, 0, 0, 0, 0, 0, 0, 0,
     46, 46, 32, 32, 32, 32, 32, 32, 32, 32, 32, 16, 0, 0, 0, 0,
     0, 0, 0, 0, 0, 0, 0, 0, 0, 0, 0, 0, 0, 0, 0, 0,
     0, 0, 0, 0, 0, 0, 0, 0, 0, 0, 0, 0, 0, 0, 0, 0,
     0, 0, 0, 0, 0, 0, 0, 0, 0, 0, 0, 0, 0, 0, 0, 0,
     46, 46, 32, 32, 32, 32, 32, 32, 32, 32, 32, 16, 0, 0, 0, 0,
     0, 0, 0, 0, 0, 0, 0, 0, 0, 0, 0, 0, 0, 0, 0, 0,
     0, 0, 0, 0, 0, 0, 0, 0, 0, 0, 0, 0, 0, 0, 0, 0,
     0, 0, 0, 0, 0, 0, 0, 0, 0, 0, 0, 0, 0, 0, 0, 0]"
  by code_simp

text \<open>The device: the world is the file position.\<close>

definition image_posix :: "byte list \<Rightarrow> nat posix" where
  "image_posix img = \<lparr>
     px_open = (\<lambda>l w. (3, 0)), px_close = (\<lambda>fd w. (0, w)),
     px_lseek = (\<lambda>fd off w. (off, nat off)),
     px_read = (\<lambda>fd n w. (Some (slice w n img), w + n)),
     px_write = (\<lambda>fd bs w. (int (length bs), w + length bs)),
     px_malloc = (\<lambda>n w. (True, w)),
     px_datacopy = (\<lambda>src loc n w. ((0, bytes_of ''readme.md''), w)),
     px_receive = (\<lambda>w. ((0, \<lparr>m_source = 5, m_type = 0x1703, txt_loc = 0, txt_len = 0\<rparr>), w)),
     px_send = (\<lambda>to m w. (0, w))\<rparr>"

lemma image_device: "disk_device (image_posix img) fd img (\<lambda>_. True)"
  by (simp add: disk_device_def image_posix_def Let_def)

definition ex_px :: "nat posix" where
  "ex_px = image_posix ex_img"

text \<open>The server after the volume was mounted.\<close>

definition ex_server :: "nat server" where
  "ex_server = \<lparr>bpb = ex_bpb,
     fs_data = \<lparr>magic = [0x55, 0xAA], first_data_sector = 3, num_data_sectors = 10,
       num_data_clusters = 10, buff = ex_long @ replicate 4064 0, curr_sector = 3\<rparr>,
     device_fd = 3, device_label = replicate 16 0,
     dir_buff = \<lparr>db_de = \<lparr>de_type = 2, de_u = ex_long\<rparr>, db_sector = 3, db_offset = 0\<rparr>,
     stack = replicate 128 0, sp = 0, last_hop_sector = 0, last_hop_offset = 0,
     txt_buf = [], live_txt = 0, tmp = [], out = [], who_e = 0, callnr = 0, world = 0\<rparr>"

definition ex_chain :: "u32 \<Rightarrow> u32 list" where
  "ex_chain c = (if c = 2 then [2, 3, 4, 5] else if c \<in> {6, 8, 10} then [c, c + 1] else [c])"

lemma chain_ok_exec [code]:
  "chain_ok b img cs \<longleftrightarrow> (\<forall>c \<in> set cs. cluster_ok b img c)
     \<and> (\<forall>k \<in> set [0..<length cs - 1]. fat_entry b img (cs ! k) = cs ! Suc k)"
  unfolding chain_ok_def by (auto simp: Suc_less_eq2 less_diff_conv)

definition entries_of :: "byte list \<Rightarrow> nat \<Rightarrow> byte list list" where
  "entries_of d n = map (\<lambda>j. slice (32 * j) 32 d) [0..<n]"

lemma entries_exec [code]:
  "entries b img cs = entries_of (chain_data b img cs) (length cs * spc b * bps b div 32)"
  by (simp add: entries_def entries_of_def)

lemma geometry_ok_exec [code]:
  "geometry_ok b img \<longleftrightarrow> 0 < bps b \<and> 32 dvd bps b \<and> bps b \<le> MAX_BYTES_PER_SECTOR
     \<and> 0 < spc b \<and> 0 < rsv b \<and> data_start b * bps b \<le> length img \<and> int (length img) \<le> 2 ^ 32"
  unfolding geometry_ok_def by (simp add: of_nat_le_iff [symmetric] del: of_nat_le_iff)

lemma ex_geometry: "geometry_ok ex_bpb ex_img"
  by code_simp

lemma ex_start: "starts_at (first_sector_of_cluster 2 ex_server) ex_server"
  by code_simp

lemma ex_volume: "volume ex_px ex_img (\<lambda>_. True) ex_server"
proof -
  have "first_data_sector (fs_data ex_server) = of_nat (data_start (bpb ex_server))" by code_simp
  moreover have "length (buff (fs_data ex_server)) = MAX_BYTES_PER_SECTOR"
    "take (bps (bpb ex_server)) (buff (fs_data ex_server))
      = slice (unat (curr_sector (fs_data ex_server)) * bps (bpb ex_server)) (bps (bpb ex_server)) ex_img"
    by code_simp+
  moreover have "geometry_ok (bpb ex_server) ex_img" using ex_geometry by (simp add: ex_server_def)
  ultimately show ?thesis
    unfolding volume_def Let_def ex_px_def using image_device by simp
qed

text \<open>The server in the directory that is not listed.\<close>

definition ex_orphan :: "nat server" where
  "ex_orphan = ex_server\<lparr>
     fs_data := (fs_data ex_server)\<lparr>buff := ex_entry ''..         '' 0x10 0 0 @ replicate 4064 0, curr_sector := 11\<rparr>,
     dir_buff := \<lparr>db_de = \<lparr>de_type = 1, de_u = ex_entry ''..         '' 0x10 0 0\<rparr>, db_sector = 11, db_offset = 0\<rparr>\<rparr>"

lemma ex_orphan_start: "starts_at (first_sector_of_cluster 10 ex_orphan) ex_orphan"
  by code_simp

lemma ex_orphan_volume: "volume ex_px ex_img (\<lambda>_. True) ex_orphan"
proof -
  have "first_data_sector (fs_data ex_orphan) = of_nat (data_start (bpb ex_orphan))" by code_simp
  moreover have "length (buff (fs_data ex_orphan)) = MAX_BYTES_PER_SECTOR"
    "take (bps (bpb ex_orphan)) (buff (fs_data ex_orphan))
      = slice (unat (curr_sector (fs_data ex_orphan)) * bps (bpb ex_orphan)) (bps (bpb ex_orphan)) ex_img"
    by code_simp+
  moreover have "geometry_ok (bpb ex_orphan) ex_img" using ex_geometry by (simp add: ex_orphan_def ex_server_def)
  ultimately show ?thesis
    unfolding volume_def Let_def ex_px_def using image_device by simp
qed

lemma ex_orphan_ready: "n \<le> 128 \<Longrightarrow> ready ex_px ex_img (\<lambda>_. True) 10 n ex_orphan"
  unfolding ready_def using ex_orphan_volume ex_orphan_start by (simp add: stack_wf_def ex_orphan_def ex_server_def)

lemma ex_ready: "n \<le> 128 \<Longrightarrow> ready ex_px ex_img (\<lambda>_. True) 2 n ex_server"
  unfolding ready_def using ex_volume ex_start by (simp add: stack_wf_def ex_server_def)

lemma ex_path: "terminated (bytes_of ''readme.md'' @ [0])" "cstr (bytes_of ''readme.md'' @ [0]) = bytes_of ''readme.md''"
  "terminated (bytes_of ''SUB'' @ [0])" "cstr (bytes_of ''SUB'' @ [0]) = bytes_of ''SUB''"
  by code_simp+

lemma ex_passable:
  "passable ex_bpb ex_img ex_chain False True (segments (bytes_of ''readme.md'')) 2"
  "passable ex_bpb ex_img ex_chain True False (segments (bytes_of ''SUB'')) 2"
  by code_simp+

lemma ex_resolve:
  "resolve ex_bpb ex_img ex_chain False True (segments (bytes_of ''readme.md'')) 2 None = (0, 6, Some ([2, 3, 4, 5], 1))"
  "resolve ex_bpb ex_img ex_chain True False (segments (bytes_of ''SUB'')) 2 None = (0, 8, Some ([2, 3, 4, 5], 2))"
  by code_simp+

lemma ex_size: "entry_size (slice 32 32 (chain_data ex_bpb ex_img [2, 3, 4, 5])) = 40"
  by code_simp

lemma ex_file_chain: "file_chain ex_bpb ex_img 6 40 [6, 7]"
  by code_simp

lemma ex_text: "cat_text ex_bpb ex_img [6, 7] 40 = string_of ex_file @ ''^EOF\<newline>''"
  by code_simp

lemma ex_directories: "directory ex_bpb ex_img ex_chain 2" "directory ex_bpb ex_img ex_chain 10"
  by code_simp+

lemma ex_listing: "listing ex_bpb ex_img [2, 3, 4, 5] = ''readme.md\<newline>[*]SUB\<newline>''"
  by code_simp

section \<open>A volume to mount\<close>

definition ex_boot :: "byte list" where
  "ex_boot = (bytes_of_Bpb (ex_bpb\<lparr>num_reserved_sectors := 16\<rparr>) @ replicate 420 0) @ [0x55, 0xAA] @ replicate 96 0"

definition ex_fresh :: "nat server" where
  "ex_fresh = ex_server\<lparr>fs_data := (fs_data ex_server)\<lparr>curr_sector := 0\<rparr>, tmp := replicate 64 0, world := 0\<rparr>"

lemma ex_boot_bpb: "Bpb_of_bytes (slice 0 512 ex_boot) = ex_bpb\<lparr>num_reserved_sectors := 16\<rparr>"
proof -
  have "length (bytes_of_Bpb (ex_bpb\<lparr>num_reserved_sectors := 16\<rparr>)) = 90" by code_simp
  then have "slice 0 512 ex_boot = bytes_of_Bpb (ex_bpb\<lparr>num_reserved_sectors := 16\<rparr>) @ replicate 420 0 @ [0x55, 0xAA]"
    by (simp add: ex_boot_def slice_def)
  then show ?thesis by (simp add: Bpb_of_bytes_of_Bpb Bpb_wf_def ex_bpb_def)
qed

lemma ex_bootable: "bootable ex_boot"
proof -
  have len: "length (bytes_of_Bpb (ex_bpb\<lparr>num_reserved_sectors := 16\<rparr>)) = 90" by code_simp
  have "le16 [ex_boot ! 510, ex_boot ! 511] 0 = MAGIC"
    by (simp add: ex_boot_def nth_append len le16_def)
  moreover have "length ex_boot = 608" by (simp add: ex_boot_def len)
  moreover have "geometry_ok (ex_bpb\<lparr>num_reserved_sectors := 16\<rparr>) ex_boot"
    using \<open>length ex_boot = 608\<close> by (simp add: geometry_ok_def data_start_def ex_bpb_def)
  ultimately show ?thesis by (simp add: bootable_def ex_boot_bpb)
qed

end
