(* ===== verification/Fat32_Properties.thy ===== *)
theory Fat32_Properties
  imports Fat32_Pwd Fat32_Example
begin

text \<open>
  The properties of the FAT32 server, each with an instance on the example volume. \<open>wp m Q s\<close>
  says that \<open>m\<close>, run from \<open>s\<close>, returns, without a fault, with a result and a state in \<open>Q\<close>.
\<close>

section \<open>The commands\<close>


lemma ex_bpb_server: "bpb ex_server = ex_bpb" "out ex_server = []" "device_fd ex_server = 3"
  by (simp_all add: ex_server_def)









section \<open>The disk\<close>

text \<open>
  C5. \<open>fat_get\<close>, which goes through the sector cache, gives the entry of the cluster in the
  file allocation table of the device image, read by its byte offset, for every cluster of
  the volume; nothing but the cache changes.
\<close>

theorem fat_get_reads_table:
  assumes "volume px img W s" and "cluster_ok (bpb s) img c"
  shows "wp (fat_get px c) (\<lambda>r t. r = fat_entry (bpb s) img c \<and> volume px img W t
     \<and> nav_frame t = nav_frame s \<and> dir_buff t = dir_buff s) s"
  by (rule fat_get_volume [OF assms])

theorem fat_get_reads_table_witness: "wp (fat_get ex_px 3) (\<lambda>r t. r = 4) ex_server"
proof -
  have c: "cluster_ok (bpb ex_server) ex_img 3" "fat_entry ex_bpb ex_img 3 = 4" by code_simp+
  show ?thesis
    by (rule wp_mono [OF fat_get_reads_table [OF ex_volume c(1)]]) (simp add: ex_bpb_server c)
qed

text \<open>
  C6. The sector cache: after \<open>load_sector\<close> of a sector of the device the buffer holds the
  bytes of that sector, whatever it held before, and the cache stays coherent.
\<close>

theorem load_sector_caches:
  assumes "volume px img W s" and "sector_ok (bpb s) img (unat sec)"
  shows "wp (load_sector px sec) (\<lambda>_ t. volume px img W t \<and> curr_sector (fs_data t) = sec
     \<and> take (bps (bpb s)) (buff (fs_data t)) = slice (unat sec * bps (bpb s)) (bps (bpb s)) img) s"
  by (rule wp_mono [OF load_sector_volume [OF assms(1)]]) (use assms(2) in auto)

theorem load_sector_caches_witness:
  "wp (load_sector ex_px 7) (\<lambda>_ t. take 32 (buff (fs_data t)) = take 32 ex_file) ex_server"
proof -
  have c: "sector_ok (bpb ex_server) ex_img (unat (7 :: u32))" "slice (unat (7 :: u32) * bps ex_bpb) (bps ex_bpb) ex_img = take 32 ex_file"
    "bps ex_bpb = 32" by code_simp+
  show ?thesis
    by (rule wp_mono [OF load_sector_caches [OF ex_volume c(1)]]) (use c in \<open>simp add: ex_bpb_server\<close>)
qed

text \<open>
  Round trip of the sector arithmetic: every sector of a cluster is mapped back to the
  cluster by \<open>sector_to_cluster\<close>.
\<close>

theorem sector_cluster_roundtrip:
  assumes "volume px img W s" and "cluster_ok (bpb s) img c" and "k < spc (bpb s)"
  shows "wp (sector_to_cluster (first_sector_of_cluster c s + of_nat k)) (\<lambda>r t. r = c \<and> t = s) s"
proof -
  have g: "geometry_ok (bpb s) img" and fds: "first_data_sector (fs_data s) = of_nat (data_start (bpb s))"
    using assms(1) by (simp_all add: volume_def)
  have cs: "chain_ok (bpb s) img [c]" using assms(2) by (simp add: chain_ok_def)
  have "2 \<le> unat c" using assms(2) by (simp add: cluster_ok_def)
  from first_sector_volume [OF assms(1) this]
  have sec: "first_sector_of_cluster c s + of_nat k = of_nat (chain_sector (bpb s) [c] k)"
    using assms(3) by (simp add: chain_sector_def)
  have "sectors_per_cluster (bpb s) \<noteq> 0" using g by (auto simp: geometry_ok_def)
  with chain_leaving(2) [OF g cs, of k] assms(3) show ?thesis by (simp add: wp_simps sec fds)
qed

theorem sector_cluster_roundtrip_witness:
  "wp (sector_to_cluster (first_sector_of_cluster 8 ex_server + of_nat 0)) (\<lambda>r t. r = 8 \<and> t = ex_server) ex_server"
proof -
  have "cluster_ok (bpb ex_server) ex_img 8" "0 < spc (bpb ex_server)" by code_simp+
  from sector_cluster_roundtrip [OF ex_volume this] show ?thesis .
qed

section \<open>The structures\<close>



text \<open>The same for the 32 bytes of a short directory entry.\<close>

theorem dir_entry_roundtrip:
  assumes "length (short_name r) = 11"
  shows "RegDirEntry_of_bytes (bytes_of_RegDirEntry r @ rest) = r"
  by (rule RegDirEntry_of_bytes_of_RegDirEntry [OF assms])

theorem dir_entry_roundtrip_witness:
  "file_size (RegDirEntry_of_bytes (ex_entry ''README~1MD '' 0x20 6 40)) = 40"
  using dir_entry_roundtrip [where rest = "[]"] by (simp add: ex_entry_def bytes_of_def)

section \<open>The server\<close>

text \<open>
  C8. The invariant that a comment in \<open>fat32.c\<close> states: between any two requests, from
  the start-up on, whatever the clients send and whatever the device returns, nothing is
  left on the stack of saved sectors and the active entry is the first one of a cluster.
  The turns in which \<open>_pwd\<close> gives up with \<open>-1\<close> are excluded; they break it.
\<close>

theorem cluster_start_between_requests:
  assumes "served sef_cb_init (main_turn px) (allowed_request px) s"
  shows "server_inv s"
  by (rule fat32s.served_inv [OF assms])

lemma ex_client:
  "px_receive ex_px = (\<lambda>w. ((0, \<lparr>m_source = 5, m_type = 0x1703, txt_loc = 0, txt_len = 0\<rparr>), w))"
  "px_send ex_px = (\<lambda>to m w. (0, w))"
  by (simp_all add: ex_px_def image_posix_def)

lemma ex_started: "wp sef_cb_init (\<lambda>r t. device_fd t = - 1) ex_server"
  by (simp add: sef_cb_init_def reset_def wp_simps Bpb_layout_def FsInfo_layout_def RegDirEntry_layout_def
      LongDirEntry_layout_def)

lemma ex_turn: "device_fd t = - 1 \<Longrightarrow> wp (main_turn ex_px) (\<lambda>_ _. True) t"
  by (simp add: main_turn_def get_work_def dispatch_def do_pwd_def mounted_only_def say_def
      reply_def is_notify_def wp_simps ex_client)

lemma ex_allowed: "device_fd t = - 1 \<Longrightarrow> allowed_request ex_px t"
  by (auto simp: allowed_request_def get_work_def prog_defs sys_def ex_client)

theorem cluster_start_between_requests_witness:
  "\<exists>t. andthen sef_cb_init (main_turn ex_px) ex_server = Some (Inr ((), t)) \<and> server_inv t"
proof -
  obtain r t where t: "sef_cb_init ex_server = Some (Inr (r, t))" "device_fd t = - 1"
    using ex_started by (auto simp: wp_def split: option.splits sum.splits prod.splits)
  have t1: "served sef_cb_init (main_turn ex_px) (allowed_request ex_px) t" by (rule served.started) (rule t(1))
  obtain u where u: "main_turn ex_px t = Some (Inr ((), u))"
    using ex_turn [OF t(2)] by (auto simp: wp_def split: option.splits sum.splits prod.splits)
  have "served sef_cb_init (main_turn ex_px) (allowed_request ex_px) u"
    by (rule served.turned [OF t1 ex_allowed [OF t(2)]]) (rule u)
  from cluster_start_between_requests [OF this] t(1) u show ?thesis
    by (simp add: andthen_def bnd_def)
qed

text \<open>
  A request of an unknown type and an illegal notification are answered \<open>EINVAL\<close>, with
  a warning on the console and no other change of the server's variables.
\<close>

theorem unknown_requests_refused:
  assumes "is_notify (callnr s) \<or> callnr s < FAT32S_BASE \<or> FAT32S_STAT < callnr s"
  shows "wp (dispatch px m) (\<lambda>r t. r = EINVAL \<and> (\<exists>x. t = s\<lparr>out := out s @ x\<rparr>)) s"
proof -
  have out: "wp (andthen (say t) (ret EINVAL)) (\<lambda>r t. r = EINVAL \<and> (\<exists>x. t = s\<lparr>out := out s @ x\<rparr>)) s" for t
    by (auto simp: say_def wp_simps)
  show ?thesis
  proof (cases "is_notify (callnr s)")
    case True
    with out show ?thesis unfolding dispatch_def wp_bnd wp_gets by simp
  next
    case False
    then have "callnr s \<notin> {FAT32S_MOUNT, FAT32S_UNMOUNT, FAT32S_CD, FAT32S_PWD, FAT32S_LS, FAT32S_CAT, FAT32S_STAT}"
      using assms by auto
    with False out show ?thesis unfolding dispatch_def wp_bnd wp_gets by simp
  qed
qed

theorem unknown_requests_refused_witness:
  "wp (dispatch ex_px zero_msg) (\<lambda>r t. r = EINVAL \<and> (\<exists>x. t = ex_server\<lparr>out := out ex_server @ x\<rparr>)) ex_server"
  by (rule unknown_requests_refused) (simp add: ex_server_def)

text \<open>
  C9. Mounting: when the boot sector is valid, the part of \<open>do_mount\<close> after the open ends
  with \<open>OK\<close> at the root directory, with an empty stack and a coherent cache, so that every
  command may follow.
\<close>

theorem mount_makes_ready:
  assumes "bootable img" and "opened s" and "disk_device px (device_fd s) img W"
    and "boot_read px (device_fd s) img W (world s)"
  shows "wp (mount_opened px) (\<lambda>r t. r = OK \<and> device_fd t = device_fd s \<and> saved_sectors t = []
    \<and> ready px img W (root_cluster (Bpb_of_bytes (slice 0 BPB_SIZE img))) STACK_SIZE t) s"
  by (rule mount_opened_ready [OF assms])

theorem mount_makes_ready_witness:
  "wp (mount_opened (image_posix ex_boot)) (\<lambda>r t. r = OK \<and> ready (image_posix ex_boot) ex_boot (\<lambda>_. True) 2 128 t) ex_fresh"
proof -
  have "opened ex_fresh" "boot_read (image_posix ex_boot) (device_fd ex_fresh) ex_boot (\<lambda>_. True) (world ex_fresh)"
    using ex_volume by (simp_all add: opened_def ex_fresh_def boot_read_def image_posix_def volume_def) (simp_all add: ex_server_def)
  from mount_makes_ready [OF ex_bootable this(1) image_device this(2)] show ?thesis
    by (rule wp_mono) (simp add: ex_boot_bpb ex_bpb_def)
qed




section \<open>Where the code does not do what it means to\<close>

text \<open>
  C11. A mount of a device that is no FAT32 volume is answered \<open>EINVAL\<close>, but the descriptor
  stays set, so the server takes itself for mounted, and the array with the label is lost.
\<close>

theorem failed_mount_stays_mounted:
  assumes "device_fd s = - 1" and "W (world s)" and "client_text px W m p"
    and "0 \<notin> set p" and "length p < MAX_DEVICE_LABEL"
    and "\<And>w. W w \<Longrightarrow> fst (px_open px p w) \<noteq> - 1
      \<and> bad_boot px (fst (px_open px p w)) (snd (px_open px p w))"
  shows "wp (do_mount px m) (\<lambda>r t. r = EINVAL \<and> device_fd t \<noteq> - 1 \<and> live_txt t = live_txt s + 1) s"
  by (rule mount_bad_boot [OF assms])

theorem failed_mount_stays_mounted_witness:
  "wp (do_mount ex_px \<lparr>m_source = 5, m_type = 0x1700, txt_loc = 0, txt_len = 9\<rparr>)
     (\<lambda>r t. r = EINVAL \<and> device_fd t \<noteq> - 1 \<and> live_txt t = 1) (ex_server\<lparr>device_fd := - 1\<rparr>)"
proof -
  have "length ex_img = 416" by code_simp
  then have "bad_boot ex_px 3 0" by (simp add: bad_boot_def ex_px_def image_posix_def slice_def)
  moreover have "px_open ex_px = (\<lambda>l w. (3, 0))" by (simp add: ex_px_def image_posix_def)
  moreover have "client_text ex_px (\<lambda>_. True) \<lparr>m_source = 5, m_type = 0x1700, txt_loc = 0, txt_len = 9\<rparr> (bytes_of ''readme.md'')"
    by (simp add: client_text_def ex_px_def image_posix_def bytes_of_def)
  moreover have "0 \<notin> set (bytes_of ''readme.md'')" "length (bytes_of ''readme.md'') < MAX_DEVICE_LABEL" "live_txt ex_server = 0"
    by (simp_all add: bytes_of_def ex_server_def)
  ultimately show ?thesis
    using failed_mount_stays_mounted [of "ex_server\<lparr>device_fd := - 1\<rparr>" "\<lambda>_. True" ex_px] by simp
qed

text \<open>
  C12. \<open>_pwd\<close> in a directory that its parent does not list returns \<open>-1\<close> with both sectors
  it saved still on the stack: the invariant between requests does not survive it.
\<close>

theorem pwd_leaves_stack:
  assumes "ready px img W c 2 s" and "cluster_ok (bpb s) img c" and "directory (bpb s) img ch c"
    and "child (bpb s) img (ch c) dotdot = Some (i, e)"
    and "d = target (bpb s) e" and "directory (bpb s) img ch d" and "named (bpb s) img (ch d) c = None"
  shows "wp (pwd px) (\<lambda>r t. r = - 1 \<and>
     saved_sectors t = saved_sectors s @ [first_sector_of_cluster c s, first_sector_of_cluster d s]) s"
  using pwd_gives_up [OF assms] by (simp add: left_on_stack_def)

theorem pwd_leaves_stack_witness:
  "wp (pwd ex_px) (\<lambda>r t. r = - 1 \<and> saved_sectors t = [11, 3]) ex_orphan"
proof -
  let ?e = "ex_entry ''..         '' 0x10 0 0"
  have b: "bpb ex_orphan = ex_bpb" "saved_sectors ex_orphan = []"
    by (simp_all add: ex_orphan_def ex_server_def saved_sectors_def)
  have f: "cluster_ok ex_bpb ex_img 10" "child ex_bpb ex_img (ex_chain 10) dotdot = Some (0, ?e)"
    "target ex_bpb ?e = 2" "named ex_bpb ex_img (ex_chain 2) 10 = None"
    "first_sector_of_cluster 10 ex_orphan = 11" "first_sector_of_cluster 2 ex_orphan = 3"
    by code_simp+
  from pwd_leaves_stack [OF ex_orphan_ready, where ch = ex_chain and i = 0 and e = ?e and d = 2]
  show ?thesis by (simp add: b f ex_directories)
qed




end
