(* ===== verification/Ds_Store.thy ===== *)
theory Ds_Store
  imports Minix_Base
begin

text \<open>
  The data store server: its tables (\<open>servers/ds/store.h\<close>), the operations on them
  (\<open>servers/ds/store.c\<close>) and its main loop (\<open>servers/ds/main.c\<close>). The flags are those of
  \<open>include/minix/ds.h\<close>, the messages those of \<open>include/minix/ipc.h\<close>.

  A pointer to a slot of a table is the index of the slot. What leaves the server, the copies
  from and to the address space of a client, the notifications, the choice of the allocator,
  the regular expressions and the receipt and the sending of a message, are the fields of a
  record \<open>'w ds_os\<close> that every operation takes; nothing is assumed about them.
\<close>

section \<open>Constants\<close>

definition DSF_IN_USE :: s32 where [simp]: "DSF_IN_USE = 0x001"
definition DSF_PRIV_RETRIEVE :: s32 where [simp]: "DSF_PRIV_RETRIEVE = 0x002"
definition DSF_PRIV_OVERWRITE :: s32 where [simp]: "DSF_PRIV_OVERWRITE = 0x004"
definition DSF_PRIV_SUBSCRIBE :: s32 where [simp]: "DSF_PRIV_SUBSCRIBE = 0x008"
definition DSF_TYPE_U32 :: s32 where [simp]: "DSF_TYPE_U32 = 0x010"
definition DSF_TYPE_STR :: s32 where [simp]: "DSF_TYPE_STR = 0x020"
definition DSF_TYPE_MEM :: s32 where [simp]: "DSF_TYPE_MEM = 0x040"
definition DSF_TYPE_LABEL :: s32 where [simp]: "DSF_TYPE_LABEL = 0x100"
definition DSF_MASK_TYPE :: s32 where [simp]: "DSF_MASK_TYPE = 0xFF0"
definition DSF_MASK_INTERNAL :: s32 where [simp]: "DSF_MASK_INTERNAL = 0xFFF"
definition DSF_OVERWRITE :: s32 where [simp]: "DSF_OVERWRITE = 0x01000"
definition DSF_INITIAL :: s32 where [simp]: "DSF_INITIAL = 0x02000"

definition DS_MAX_KEYLEN :: nat where [simp]: "DS_MAX_KEYLEN = 80"
definition NR_DS_KEYS :: nat where [simp]: "NR_DS_KEYS = 2 * NR_SYS_PROCS"
definition NR_DS_SUBS :: nat where [simp]: "NR_DS_SUBS = 4 * NR_SYS_PROCS"

definition DS_PUBLISH :: int where [simp]: "DS_PUBLISH = 0x800"
definition DS_RETRIEVE :: int where [simp]: "DS_RETRIEVE = 0x801"
definition DS_SUBSCRIBE :: int where [simp]: "DS_SUBSCRIBE = 0x802"
definition DS_CHECK :: int where [simp]: "DS_CHECK = 0x803"
definition DS_DELETE :: int where [simp]: "DS_DELETE = 0x804"
definition DS_RETRIEVE_LABEL :: int where [simp]: "DS_RETRIEVE_LABEL = 0x806"
definition DS_GETSYSINFO :: int where [simp]: "DS_GETSYSINFO = 0x807"
definition SI_DATA_STORE :: s32 where [simp]: "SI_DATA_STORE = 5"

abbreviation has :: "s32 \<Rightarrow> s32 \<Rightarrow> bool" where
  "has flags f \<equiv> flags AND f \<noteq> 0"

section \<open>The tables\<close>

text \<open>
  In the union of an entry the number and the pointer to the data share the first word; the
  two lengths follow it.
\<close>

record data_store =
  d_flags :: s32
  d_key :: "byte list"
  d_owner :: "byte list"
  d_word :: u32 \<comment> \<open>\<open>u.u32\<close> and \<open>u.mem.data\<close>\<close>
  d_length :: u32
  d_reallen :: u32

text \<open>A compiled regular expression is the bytes of the \<open>regex_t\<close> the library fills in.\<close>

record subscription =
  sub_flags :: s32
  sub_owner :: "byte list"
  sub_regex :: "byte list"
  old_subs :: "u32 list"

text \<open>
  The words of a request. A reply uses the same words: \<open>m_ds_reply.val_out\<close> is the word of
  \<open>key_grant\<close>, \<open>m_ds_reply.val_len\<close> the word of \<open>key_len\<close>, and the three words of
  \<open>m_lsys_getsysinfo\<close> are those of \<open>key_grant\<close>, \<open>key_len\<close> and \<open>flags\<close>.
\<close>

record ds_msg =
  dm_source :: endpoint
  dm_type :: int
  key_grant :: s32
  key_len :: s32
  dm_flags :: s32
  val_in :: u32
  val_len :: s32
  dm_owner :: endpoint

definition set_val_out :: "u32 \<Rightarrow> ds_msg \<Rightarrow> ds_msg" where
  "set_val_out v m = m\<lparr>key_grant := v\<rparr>"

definition set_reply_len :: "u32 \<Rightarrow> ds_msg \<Rightarrow> ds_msg" where
  "set_reply_len n m = m\<lparr>key_len := n\<rparr>"

record rprocpub =
  rp_in_use :: u16
  rp_endpoint :: endpoint
  rp_label :: "byte list"

record 'w ds = "'w process" +
  ds_store :: "data_store list"
  ds_subs :: "subscription list"
  ds_heap :: heap
  ds_who_e :: endpoint
  ds_callnr :: int

text \<open>
  The system interface. A copy from a client gives a status and, when the status is \<open>OK\<close>, the
  byte at every offset; \<open>os_stack\<close> is what the uninitialised arrays on the stack hold.
\<close>

record 'w ds_os =
  os_safecopyfrom :: "endpoint \<Rightarrow> s32 \<Rightarrow> nat \<Rightarrow> 'w \<Rightarrow> (int \<times> (nat \<Rightarrow> byte)) \<times> 'w"
  os_safecopyto :: "endpoint \<Rightarrow> s32 \<Rightarrow> byte list \<Rightarrow> 'w \<Rightarrow> int \<times> 'w"
  os_datacopy :: "endpoint \<Rightarrow> u32 \<Rightarrow> data_store list \<Rightarrow> 'w \<Rightarrow> int \<times> 'w"
  os_rproctab :: "'w \<Rightarrow> (int \<times> (nat \<Rightarrow> rprocpub)) \<times> 'w"
  os_notify :: "endpoint \<Rightarrow> 'w \<Rightarrow> int \<times> 'w"
  os_malloc :: "nat \<Rightarrow> 'w \<Rightarrow> (u32 \<times> (nat \<Rightarrow> byte)) \<times> 'w"
  os_regcomp :: "byte list \<Rightarrow> int \<times> byte list"
  os_regerror :: "int \<Rightarrow> byte list \<Rightarrow> string"
  os_regexec :: "byte list \<Rightarrow> byte list \<Rightarrow> int"
  os_stack :: "nat \<Rightarrow> byte"
  os_receive :: "'w \<Rightarrow> (int \<times> ds_msg) \<times> 'w"
  os_send :: "endpoint \<Rightarrow> ds_msg \<Rightarrow> 'w \<Rightarrow> int \<times> 'w"

type_synonym ('w, 'a) dprog = "('w ds, 'a) prog"

definition set_slot :: "nat \<Rightarrow> (data_store \<Rightarrow> data_store) \<Rightarrow> ('w, unit) dprog" where
  "set_slot i f = modify (\<lambda>s. s\<lparr>ds_store := (ds_store s)[i := f (ds_store s ! i)]\<rparr>)"

definition set_sub :: "nat \<Rightarrow> (subscription \<Rightarrow> subscription) \<Rightarrow> ('w, unit) dprog" where
  "set_sub i f = modify (\<lambda>s. s\<lparr>ds_subs := (ds_subs s)[i := f (ds_subs s ! i)]\<rparr>)"

definition ds_free :: "u32 \<Rightarrow> ('w, unit) dprog" where
  "ds_free p = bnd (gets ds_heap) (\<lambda>h. case free p h of
      None \<Rightarrow> raise OutOfBounds
    | Some h' \<Rightarrow> modify (\<lambda>s. s\<lparr>ds_heap := h'\<rparr>))"

definition ds_malloc :: "'w ds_os \<Rightarrow> nat \<Rightarrow> ('w, u32) dprog" where
  "ds_malloc os n = bnd (os_call (os_malloc os n)) (\<lambda>c.
     bnd (gets (\<lambda>s. malloc c n (ds_heap s))) (\<lambda>r.
     andthen (modify (\<lambda>s. s\<lparr>ds_heap := snd r\<rparr>)) (ret (fst r))))"

definition ds_write :: "u32 \<Rightarrow> nat \<Rightarrow> byte list \<Rightarrow> ('w, unit) dprog" where
  "ds_write p off bs = bnd (gets ds_heap) (\<lambda>h. case write_block p off bs h of
      None \<Rightarrow> raise OutOfBounds
    | Some h' \<Rightarrow> modify (\<lambda>s. s\<lparr>ds_heap := h'\<rparr>))"

definition ds_read :: "u32 \<Rightarrow> nat \<Rightarrow> ('w, byte list) dprog" where
  "ds_read p n = bnd (gets ds_heap) (\<lambda>h. case read_block p n h of
      None \<Rightarrow> raise OutOfBounds
    | Some bs \<Rightarrow> ret bs)"

text \<open>\<open>strcpy\<close> into an array of a slot; all of them have \<open>DS_MAX_KEYLEN\<close> bytes.\<close>

definition strcpy_slot ::
  "((byte list \<Rightarrow> byte list) \<Rightarrow> data_store \<Rightarrow> data_store) \<Rightarrow> nat \<Rightarrow> byte list \<Rightarrow> ('w, unit) dprog" where
  "strcpy_slot field i src =
     andthen (check OutOfBounds (terminated src \<and> length (cstr src) < DS_MAX_KEYLEN))
       (set_slot i (field (overwrite 0 (cstr src @ [0]))))"

definition strcpy_sub_owner :: "nat \<Rightarrow> byte list \<Rightarrow> ('w, unit) dprog" where
  "strcpy_sub_owner i src =
     andthen (check OutOfBounds (terminated src \<and> length (cstr src) < DS_MAX_KEYLEN))
       (set_sub i (sub_owner_update (overwrite 0 (cstr src @ [0]))))"

section \<open>Searches\<close>

text \<open>Every array of the tables holds a terminated string, so that \<open>strcmp\<close> compares \<open>cstr\<close>s.\<close>

definition alloc_data_slot :: "data_store list \<Rightarrow> nat option" where
  "alloc_data_slot store = first_slot (\<lambda>d. \<not> has (d_flags d) DSF_IN_USE) store"

definition alloc_sub_slot :: "subscription list \<Rightarrow> nat option" where
  "alloc_sub_slot subs = first_slot (\<lambda>u. \<not> has (sub_flags u) DSF_IN_USE) subs"

definition lookup_entry :: "data_store list \<Rightarrow> byte list \<Rightarrow> s32 \<Rightarrow> nat option" where
  "lookup_entry store key_name ty = first_slot (\<lambda>d. has (d_flags d) DSF_IN_USE
     \<and> has (d_flags d) ty \<and> cstr (d_key d) = cstr key_name) store"

definition lookup_label_entry :: "data_store list \<Rightarrow> u32 \<Rightarrow> nat option" where
  "lookup_label_entry store num = first_slot (\<lambda>d. has (d_flags d) DSF_IN_USE
     \<and> has (d_flags d) DSF_TYPE_LABEL \<and> d_word d = num) store"

definition lookup_sub :: "subscription list \<Rightarrow> byte list \<Rightarrow> nat option" where
  "lookup_sub subs owner = first_slot (\<lambda>u. has (sub_flags u) DSF_IN_USE
     \<and> cstr (sub_owner u) = cstr owner) subs"

text \<open>
  A process name is a pointer: to the literal \<open>ds\<close> or to the key of a slot, so that it changes
  when the key of the slot does.
\<close>

datatype name_ptr = First_proc | Key_of nat

definition name_at :: "data_store list \<Rightarrow> name_ptr \<Rightarrow> byte list" where
  "name_at store p = (case p of First_proc \<Rightarrow> bytes_of ''ds'' @ [0] | Key_of i \<Rightarrow> d_key (store ! i))"

definition ds_getprocname :: "data_store list \<Rightarrow> endpoint \<Rightarrow> name_ptr option" where
  "ds_getprocname store e =
     (if e = DS_PROC_NR then Some First_proc else map_option Key_of (lookup_label_entry store e))"

definition ds_getprocep :: "byte list \<Rightarrow> ('w, endpoint) dprog" where
  "ds_getprocep name = bnd (gets ds_store) (\<lambda>store.
     case lookup_entry store name DSF_TYPE_LABEL of
       Some i \<Rightarrow> ret (d_word (store ! i))
     | None \<Rightarrow> raise Panic)"

definition check_auth :: "data_store list \<Rightarrow> data_store \<Rightarrow> endpoint \<Rightarrow> s32 \<Rightarrow> bool" where
  "check_auth store p ep perm \<longleftrightarrow> \<not> has (d_flags p) perm
     \<or> (case ds_getprocname store ep of
          None \<Rightarrow> False
        | Some source \<Rightarrow> cstr (d_owner p) = cstr (name_at store source))"

definition stack_array :: "'w ds_os \<Rightarrow> nat \<Rightarrow> byte list" where
  "stack_array os n = map (os_stack os) [0..<n]"

definition get_key_name :: "'w ds_os \<Rightarrow> ds_msg \<Rightarrow> byte list \<Rightarrow> ('w, int \<times> byte list) dprog" where
  "get_key_name os m key_name =
     (if sint (key_len m) > int DS_MAX_KEYLEN \<or> sint (key_len m) < 2 then
        andthen (print (''DS: bogus key length ('' @ fmt_d (sint (key_len m)) @ '') from ''
          @ fmt_d (sint (dm_source m)) @ ''\<newline>''))
          (ret (EINVAL, key_name))
      else
        bnd (os_call (os_safecopyfrom os (dm_source m) (key_grant m) (unat (key_len m)))) (\<lambda>r.
        if fst r \<noteq> OK then
          andthen (print (''DS: publish: copy failed from '' @ fmt_d (sint (dm_source m)) @ '': ''
            @ fmt_d (fst r) @ ''\<newline>''))
            (ret (fst r, key_name))
        else
          ret (OK, (overwrite 0 (map (snd r) [0..<unat (key_len m)]) key_name)[DS_MAX_KEYLEN - 1 := 0])))"

section \<open>Subscribers\<close>

definition check_sub_match ::
  "'w ds_os \<Rightarrow> data_store list \<Rightarrow> subscription \<Rightarrow> data_store \<Rightarrow> endpoint \<Rightarrow> bool" where
  "check_sub_match os store subp dsp ep \<longleftrightarrow> check_auth store dsp ep DSF_PRIV_SUBSCRIBE
     \<and> os_regexec os (sub_regex subp) (cstr (d_key dsp)) = 0"

definition update_subscriber :: "'w ds_os \<Rightarrow> nat \<Rightarrow> bool \<Rightarrow> nat \<Rightarrow> ('w, unit) dprog" where
  "update_subscriber os nr set' i =
     bnd (gets (\<lambda>s. ds_subs s ! i)) (\<lambda>sub.
     bnd (gets (\<lambda>s. ds_store s ! nr)) (\<lambda>dsp.
     if \<not> has (sub_flags sub) DSF_IN_USE then ret ()
     else if sub_flags sub AND d_flags dsp AND DSF_MASK_TYPE = 0 then ret ()
     else
       bnd (ds_getprocep (sub_owner sub)) (\<lambda>ep.
       bnd (gets (\<lambda>s. check_sub_match os (ds_store s) sub dsp ep)) (\<lambda>matches.
       if \<not> matches then ret ()
       else
         andthen (set_sub i (\<lambda>u. u\<lparr>old_subs :=
           (if set' then SET_BIT (old_subs u) nr else UNSET_BIT (old_subs u) nr)\<rparr>)) (
         andthen (os_call (os_notify os ep)) (ret ()))))))"

definition update_subscribers :: "'w ds_os \<Rightarrow> nat \<Rightarrow> bool \<Rightarrow> ('w, unit) dprog" where
  "update_subscribers os nr set' = for_m [0..<NR_DS_SUBS] (update_subscriber os nr set')"

section \<open>Start\<close>

definition map_service :: "'w ds_os \<Rightarrow> rprocpub \<Rightarrow> ('w, int) dprog" where
  "map_service os rpub = bnd (gets ds_store) (\<lambda>store.
     case alloc_data_slot store of
       None \<Rightarrow> ret ENOMEM
     | Some i \<Rightarrow>
         andthen (strcpy_slot d_key_update i (rp_label rpub)) (
         andthen (set_slot i (\<lambda>d. d\<lparr>d_word := rp_endpoint rpub\<rparr>)) (
         andthen (strcpy_slot d_owner_update i (bytes_of ''rs'' @ [0])) (
         andthen (set_slot i (\<lambda>d. d\<lparr>d_flags := DSF_IN_USE OR DSF_TYPE_LABEL\<rparr>)) (
         andthen (update_subscribers os i True) (ret OK))))))"

definition map_boot_service :: "'w ds_os \<Rightarrow> (nat \<Rightarrow> rprocpub) \<Rightarrow> nat \<Rightarrow> ('w, unit) dprog" where
  "map_boot_service os tab i =
     (if rp_in_use (tab i) \<noteq> 0 then
        bnd (map_service os (tab i)) (\<lambda>r. if r \<noteq> OK then raise Panic else ret ())
      else ret ())"

definition sef_cb_init_fresh :: "'w ds_os \<Rightarrow> ('w, int) dprog" where
  "sef_cb_init_fresh os =
     andthen (modify (\<lambda>s. s\<lparr>ds_store := map (\<lambda>d. d\<lparr>d_flags := 0\<rparr>) (ds_store s)\<rparr>)) (
     andthen (modify (\<lambda>s. s\<lparr>ds_subs := map (\<lambda>u. u\<lparr>sub_flags := 0\<rparr>) (ds_subs s)\<rparr>)) (
     bnd (os_call (os_rproctab os)) (\<lambda>r.
     if fst r \<noteq> OK then raise Panic
     else andthen (for_m [0..<NR_BOOT_PROCS] (map_boot_service os (snd r))) (ret OK))))"

end
