(* ===== verification/Ds_Server.thy ===== *)
theory Ds_Server
  imports Ds_Store
begin

text \<open>
  The requests of the data store server (\<open>do_publish\<close> to \<open>do_getsysinfo\<close> in
  \<open>servers/ds/store.c\<close>) and its main loop (\<open>servers/ds/main.c\<close>). A handler gives the result and,
  where the code writes into it, the message that goes back to the client.
\<close>

section \<open>Publish\<close>

text \<open>The slot the value goes to, or the error of the search.\<close>

definition publish_slot :: "data_store list \<Rightarrow> ds_msg \<Rightarrow> byte list \<Rightarrow> int + nat" where
  "publish_slot store m key_name =
     (let flags = dm_flags m;
          by_key = lookup_entry store key_name (flags AND DSF_MASK_TYPE);
          dsp = (if has flags DSF_TYPE_LABEL \<and> by_key = None
                 then lookup_label_entry store (val_in m) else by_key)
      in case dsp of
           None \<Rightarrow> (case alloc_data_slot store of None \<Rightarrow> Inl ENOMEM | Some i \<Rightarrow> Inr i)
         | Some i \<Rightarrow>
             if has flags DSF_OVERWRITE then
               if check_auth store (store ! i) (dm_source m) DSF_PRIV_OVERWRITE then Inr i else Inl EPERM
             else Inl EEXIST)"

definition new_block :: "'w ds_os \<Rightarrow> nat \<Rightarrow> u32 \<Rightarrow> ('w, int) dprog" where
  "new_block os i len = bnd (ds_malloc os (unat len)) (\<lambda>p.
     andthen (set_slot i (\<lambda>d. d\<lparr>d_word := p\<rparr>)) (
     if p = 0 then ret ENOMEM
     else andthen (set_slot i (\<lambda>d. d\<lparr>d_reallen := len\<rparr>)) (ret OK)))"

text \<open>The buffer of the slot: a new one for a new entry, a larger one where it is too small.\<close>

definition publish_buffer :: "'w ds_os \<Rightarrow> nat \<Rightarrow> u32 \<Rightarrow> ('w, int) dprog" where
  "publish_buffer os i len = bnd (gets (\<lambda>s. ds_store s ! i)) (\<lambda>d.
     if \<not> has (d_flags d) DSF_IN_USE then new_block os i len
     else if len > d_reallen d then andthen (ds_free (d_word d)) (new_block os i len)
     else ret OK)"

text \<open>The copy of the value into the buffer of the slot.\<close>

definition publish_copy :: "'w ds_os \<Rightarrow> ds_msg \<Rightarrow> nat \<Rightarrow> ('w, int) dprog" where
  "publish_copy os m i =
     bnd (gets (\<lambda>s. d_word (ds_store s ! i))) (\<lambda>p.
     bnd (os_call (os_safecopyfrom os (dm_source m) (val_in m) (unat (val_len m)))) (\<lambda>c.
     if fst c \<noteq> OK then
       andthen (print (''DS: publish: memory map/copy failed from '' @ fmt_d (sint (dm_source m))
         @ '': '' @ fmt_d (fst c) @ ''\<newline>'')) (
       andthen (ds_free p) (ret (fst c)))
     else
       andthen (ds_write p 0 (map (snd c) [0..<unat (val_len m)])) (
       andthen (set_slot i (\<lambda>d. d\<lparr>d_length := val_len m\<rparr>)) (
       andthen (if has (dm_flags m) DSF_TYPE_STR then ds_write p (unat (val_len m - 1)) [0] else ret ())
         (ret OK)))))"

definition publish_mem :: "'w ds_os \<Rightarrow> ds_msg \<Rightarrow> nat \<Rightarrow> ('w, int) dprog" where
  "publish_mem os m i =
     bnd (publish_buffer os i (val_len m)) (\<lambda>r. if r \<noteq> OK then ret r else publish_copy os m i)"

definition publish_value :: "'w ds_os \<Rightarrow> ds_msg \<Rightarrow> nat \<Rightarrow> ('w, int) dprog" where
  "publish_value os m i =
     (let ty = dm_flags m AND DSF_MASK_TYPE in
      if ty = DSF_TYPE_U32 then andthen (set_slot i (\<lambda>d. d\<lparr>d_word := val_in m\<rparr>)) (ret OK)
      else if ty = DSF_TYPE_LABEL then andthen (set_slot i (\<lambda>d. d\<lparr>d_word := val_in m\<rparr>)) (ret OK)
      else if ty = DSF_TYPE_STR \<or> ty = DSF_TYPE_MEM then publish_mem os m i
      else ret EINVAL)"

text \<open>
  The attributes, in the order of the code: the key is stored first, so that a source that
  points to the key of this very slot is the new key when the owner is stored.
\<close>

definition publish_attributes :: "ds_msg \<Rightarrow> byte list \<Rightarrow> name_ptr \<Rightarrow> nat \<Rightarrow> ('w, unit) dprog" where
  "publish_attributes m key_name source i =
     andthen (strcpy_slot d_key_update i key_name) (
     bnd (gets (\<lambda>s. name_at (ds_store s) source)) (\<lambda>name.
     andthen (strcpy_slot d_owner_update i name)
       (set_slot i (\<lambda>d. d\<lparr>d_flags := DSF_IN_USE OR (dm_flags m AND DSF_MASK_INTERNAL)\<rparr>))))"

definition do_publish :: "'w ds_os \<Rightarrow> ds_msg \<Rightarrow> ('w, int) dprog" where
  "do_publish os m = bnd (gets (\<lambda>s. ds_getprocname (ds_store s) (dm_source m))) (\<lambda>source.
     case source of
       None \<Rightarrow> ret EPERM
     | Some src \<Rightarrow>
         if has (dm_flags m) DSF_TYPE_LABEL \<and> dm_source m \<noteq> RS_PROC_NR then ret EPERM
         else
           bnd (get_key_name os m (stack_array os DS_MAX_KEYLEN)) (\<lambda>k.
           if fst k \<noteq> OK then ret (fst k)
           else
             bnd (gets (\<lambda>s. publish_slot (ds_store s) m (snd k))) (\<lambda>slot.
             case slot of
               Inl e \<Rightarrow> ret e
             | Inr i \<Rightarrow>
                 bnd (publish_value os m i) (\<lambda>r.
                 if r \<noteq> OK then ret r
                 else
                   andthen (publish_attributes m (snd k) src i) (
                   andthen (update_subscribers os i True) (ret OK))))))"

section \<open>Retrieve\<close>

text \<open>The copy of the requested data into the reply or to the client.\<close>

definition retrieve_value :: "'w ds_os \<Rightarrow> ds_msg \<Rightarrow> data_store \<Rightarrow> ('w, int \<times> ds_msg) dprog" where
  "retrieve_value os m dsp =
     (let ty = dm_flags m AND DSF_MASK_TYPE in
      if ty = DSF_TYPE_U32 then ret (OK, set_val_out (d_word dsp) m)
      else if ty = DSF_TYPE_LABEL then ret (OK, set_val_out (d_word dsp) m)
      else if ty = DSF_TYPE_STR \<or> ty = DSF_TYPE_MEM then
        let len = min (val_len m) (d_length dsp) in
        bnd (ds_read (d_word dsp) (unat len)) (\<lambda>bs.
        bnd (os_call (os_safecopyto os (dm_source m) (val_in m) bs)) (\<lambda>r.
        if r \<noteq> OK then
          andthen (print (''DS: retrieve: copy failed to '' @ fmt_d (sint (dm_source m))
            @ '': '' @ fmt_d r @ ''\<newline>'')) (ret (r, m))
        else ret (OK, set_reply_len len m)))
      else ret (EINVAL, m))"

definition do_retrieve :: "'w ds_os \<Rightarrow> ds_msg \<Rightarrow> ('w, int \<times> ds_msg) dprog" where
  "do_retrieve os m = bnd (get_key_name os m (stack_array os DS_MAX_KEYLEN)) (\<lambda>k.
     if fst k \<noteq> OK then ret (fst k, m)
     else
       bnd (gets ds_store) (\<lambda>store.
       case lookup_entry store (snd k) (dm_flags m AND DSF_MASK_TYPE) of
         None \<Rightarrow> ret (ESRCH, m)
       | Some i \<Rightarrow>
           if \<not> check_auth store (store ! i) (dm_source m) DSF_PRIV_RETRIEVE then ret (EPERM, m)
           else retrieve_value os m (store ! i)))"

definition do_retrieve_label :: "'w ds_os \<Rightarrow> ds_msg \<Rightarrow> ('w, int) dprog" where
  "do_retrieve_label os m = bnd (gets ds_store) (\<lambda>store.
     case lookup_label_entry store (val_in m) of
       None \<Rightarrow> ret ESRCH
     | Some i \<Rightarrow>
         bnd (os_call (os_safecopyto os (dm_source m) (key_grant m) (cstr (d_key (store ! i)) @ [0]))) (\<lambda>r.
         if r \<noteq> OK then
           andthen (print (''DS: copy failed from '' @ fmt_d (sint (dm_source m)) @ '': ''
             @ fmt_d r @ ''\<newline>'')) (ret r)
         else ret OK))"

section \<open>Subscribe and check\<close>

text \<open>The slot of the owner's subscription, a free slot, or the error.\<close>

definition subscribe_slot :: "subscription list \<Rightarrow> byte list \<Rightarrow> s32 \<Rightarrow> int + nat" where
  "subscribe_slot subs owner flags = (case lookup_sub subs owner of
      None \<Rightarrow> (case alloc_sub_slot subs of None \<Rightarrow> Inl EAGAIN | Some i \<Rightarrow> Inr i)
    | Some i \<Rightarrow> if has flags DSF_OVERWRITE then Inr i else Inl EEXIST)"

text \<open>
  The entries a new subscription matches, in the order of the loop that marks them. The loop
  reads nothing that it changes.
\<close>

definition initial_matches ::
  "'w ds_os \<Rightarrow> data_store list \<Rightarrow> subscription \<Rightarrow> s32 \<Rightarrow> endpoint \<Rightarrow> nat list" where
  "initial_matches os store subp type_set ep = filter (\<lambda>i.
     has (d_flags (store ! i)) DSF_IN_USE \<and> has (d_flags (store ! i)) type_set
     \<and> check_sub_match os store subp (store ! i) ep) [0..<NR_DS_KEYS]"

definition subscribe_initial :: "'w ds_os \<Rightarrow> nat \<Rightarrow> s32 \<Rightarrow> endpoint \<Rightarrow> ('w, unit) dprog" where
  "subscribe_initial os subi type_set ep =
     bnd (gets (\<lambda>s. initial_matches os (ds_store s) (ds_subs s ! subi) type_set ep)) (\<lambda>is.
     andthen (set_sub subi (\<lambda>u. u\<lparr>old_subs := foldl SET_BIT (old_subs u) is\<rparr>)) (
     if is \<noteq> [] then andthen (os_call (os_notify os ep)) (ret ()) else ret ()))"

definition do_subscribe :: "'w ds_os \<Rightarrow> ds_msg \<Rightarrow> ('w, int) dprog" where
  "do_subscribe os m = bnd (gets ds_store) (\<lambda>store.
     case ds_getprocname store (dm_source m) of
       None \<Rightarrow> ret ESRCH
     | Some owner \<Rightarrow>
         bnd (gets (\<lambda>s. subscribe_slot (ds_subs s) (name_at store owner) (dm_flags m))) (\<lambda>slot.
         case slot of
           Inl e \<Rightarrow> ret e
         | Inr i \<Rightarrow>
             let regex = stack_array os (DS_MAX_KEYLEN + 2) in
             bnd (get_key_name os m (tl regex)) (\<lambda>k.
             if fst k \<noteq> OK then ret (fst k)
             else
               bnd (strcat (DS_MAX_KEYLEN + 2) (0x5E # snd k) (bytes_of ''$'' @ [0])) (\<lambda>regex'.
               let c = os_regcomp os (cstr regex') in
               andthen (set_sub i (\<lambda>u. u\<lparr>sub_regex := snd c\<rparr>)) (
               if fst c \<noteq> 0 then
                 andthen (print (''DS: subscribe: regerror: '' @ os_regerror os (fst c) (snd c) @ ''\<newline>''))
                   (ret EINVAL)
               else
                 let ty = dm_flags m AND DSF_MASK_TYPE;
                     type_set = (if ty = 0 then DSF_MASK_TYPE else ty) in
                 andthen (set_sub i (\<lambda>u. u\<lparr>sub_flags := DSF_IN_USE OR type_set\<rparr>)) (
                 andthen (strcpy_sub_owner i (name_at store owner)) (
                 andthen (set_sub i (\<lambda>u. u\<lparr>old_subs := replicate (BITMAP_CHUNKS NR_DS_KEYS) 0\<rparr>)) (
                 andthen (if has (dm_flags m) DSF_INITIAL
                          then subscribe_initial os i type_set (dm_source m) else ret ())
                   (ret OK)))))))))"

definition do_check :: "'w ds_os \<Rightarrow> ds_msg \<Rightarrow> ('w, int \<times> ds_msg) dprog" where
  "do_check os m = bnd (gets ds_store) (\<lambda>store. bnd (gets ds_subs) (\<lambda>subs.
     case ds_getprocname store (dm_source m) of
       None \<Rightarrow> ret (ESRCH, m)
     | Some owner \<Rightarrow>
         (case lookup_sub subs (name_at store owner) of
           None \<Rightarrow> ret (ESRCH, m)
         | Some subi \<Rightarrow>
             (case first_slot (GET_BIT (old_subs (subs ! subi))) [0..<NR_DS_KEYS] of
               None \<Rightarrow> ret (ENOENT, m)
             | Some i \<Rightarrow>
                 bnd (os_call (os_safecopyto os (dm_source m) (key_grant m) (cstr (d_key (store ! i)) @ [0]))) (\<lambda>r.
                 if r \<noteq> OK then
                   andthen (print (''DS: check: copy failed from '' @ fmt_d (sint (dm_source m)) @ '': ''
                     @ fmt_d r @ ''\<newline>'')) (ret (r, m))
                 else
                   bnd (ds_getprocep (d_owner (store ! i))) (\<lambda>entry_owner_e.
                   andthen (set_sub subi (\<lambda>u. u\<lparr>old_subs := UNSET_BIT (old_subs u) i\<rparr>))
                     (ret (OK, m\<lparr>dm_flags := d_flags (store ! i) AND DSF_MASK_TYPE,
                       dm_owner := entry_owner_e\<rparr>))))))))"

section \<open>Delete\<close>

definition delete_subs :: "byte list \<Rightarrow> ('w, unit) dprog" where
  "delete_subs label = modify (\<lambda>s. s\<lparr>ds_subs := map (\<lambda>u.
     if has (sub_flags u) DSF_IN_USE \<and> cstr (sub_owner u) = cstr label
     then u\<lparr>sub_flags := 0\<rparr> else u) (ds_subs s)\<rparr>)"

definition delete_owned :: "'w ds_os \<Rightarrow> byte list \<Rightarrow> nat \<Rightarrow> ('w, unit) dprog" where
  "delete_owned os label i = bnd (gets (\<lambda>s. ds_store s ! i)) (\<lambda>d.
     if has (d_flags d) DSF_IN_USE \<and> cstr (d_owner d) = cstr label then
       andthen (update_subscribers os i False) (set_slot i (\<lambda>d. d\<lparr>d_flags := 0\<rparr>))
     else ret ())"

definition delete_value :: "'w ds_os \<Rightarrow> s32 \<Rightarrow> data_store \<Rightarrow> ('w, int) dprog" where
  "delete_value os ty dsp =
     (if ty = DSF_TYPE_U32 then ret OK
      else if ty = DSF_TYPE_LABEL then
        andthen (delete_subs (d_key dsp)) (
        andthen (for_m [0..<NR_DS_KEYS] (delete_owned os (d_key dsp))) (ret OK))
      else if ty = DSF_TYPE_STR \<or> ty = DSF_TYPE_MEM then andthen (ds_free (d_word dsp)) (ret OK)
      else ret EINVAL)"

definition do_delete :: "'w ds_os \<Rightarrow> ds_msg \<Rightarrow> ('w, int) dprog" where
  "do_delete os m = bnd (gets ds_store) (\<lambda>store.
     case ds_getprocname store (dm_source m) of
       None \<Rightarrow> ret EPERM
     | Some source \<Rightarrow>
         bnd (get_key_name os m (stack_array os DS_MAX_KEYLEN)) (\<lambda>k.
         if fst k \<noteq> OK then ret (fst k)
         else
           let ty = dm_flags m AND DSF_MASK_TYPE in
           (case lookup_entry store (snd k) ty of
             None \<Rightarrow> ret ESRCH
           | Some i \<Rightarrow>
               if cstr (d_owner (store ! i)) \<noteq> cstr (name_at store source) then ret EPERM
               else
                 bnd (delete_value os ty (store ! i)) (\<lambda>r.
                 if r \<noteq> OK then ret r
                 else
                   andthen (update_subscribers os i False) (
                   andthen (set_slot i (\<lambda>d. d\<lparr>d_flags := 0\<rparr>)) (ret OK))))))"

definition sizeof_data_store :: nat where
  "sizeof_data_store = 4 + DS_MAX_KEYLEN + DS_MAX_KEYLEN + 3 * 4"

definition do_getsysinfo :: "'w ds_os \<Rightarrow> ds_msg \<Rightarrow> ('w, int) dprog" where
  "do_getsysinfo os m =
     (if key_grant m = SI_DATA_STORE then
        if unat (dm_flags m) \<noteq> sizeof_data_store * NR_DS_KEYS then ret EINVAL
        else
          bnd (gets ds_store) (\<lambda>store.
          bnd (os_call (os_datacopy os (dm_source m) (key_len m) store)) (\<lambda>r.
          if r \<noteq> OK then andthen (print (''DS: copy failed: '' @ fmt_d r @ ''\<newline>'')) (ret r)
          else ret OK))
      else ret EINVAL)"

section \<open>The main loop\<close>

definition ds_get_work :: "'w ds_os \<Rightarrow> ('w, ds_msg) dprog" where
  "ds_get_work os = bnd (os_call (os_receive os)) (\<lambda>r.
     if fst r \<noteq> OK then raise Panic
     else andthen (modify (\<lambda>s. s\<lparr>ds_who_e := dm_source (snd r), ds_callnr := dm_type (snd r)\<rparr>)) (ret (snd r)))"

definition ds_reply :: "'w ds_os \<Rightarrow> endpoint \<Rightarrow> ds_msg \<Rightarrow> ('w, unit) dprog" where
  "ds_reply os who m = bnd (os_call (os_send os who m)) (\<lambda>r.
     if r \<noteq> OK then print (''DS: unable to send reply to '' @ fmt_d (sint who) @ '': '' @ fmt_d r @ ''\<newline>'')
     else ret ())"

definition with_msg :: "ds_msg \<Rightarrow> ('w, int) dprog \<Rightarrow> ('w, int \<times> ds_msg) dprog" where
  "with_msg m h = bnd h (\<lambda>r. ret (r, m))"

definition ds_dispatch :: "'w ds_os \<Rightarrow> ds_msg \<Rightarrow> ('w, int \<times> ds_msg) dprog" where
  "ds_dispatch os m = bnd (gets ds_callnr) (\<lambda>nr.
     if is_notify nr then
       andthen (print (''DS: warning, got illegal notify from: '' @ fmt_d (sint (dm_source m)) @ ''\<newline>''))
         (ret (EINVAL, m))
     else if nr = DS_PUBLISH then with_msg m (do_publish os m)
     else if nr = DS_RETRIEVE then do_retrieve os m
     else if nr = DS_RETRIEVE_LABEL then with_msg m (do_retrieve_label os m)
     else if nr = DS_DELETE then with_msg m (do_delete os m)
     else if nr = DS_SUBSCRIBE then with_msg m (do_subscribe os m)
     else if nr = DS_CHECK then do_check os m
     else if nr = DS_GETSYSINFO then with_msg m (do_getsysinfo os m)
     else
       andthen (print (''DS: warning, got illegal request from '' @ fmt_d (sint (dm_source m)) @ ''\<newline>''))
         (ret (EINVAL, m)))"

definition ds_main_turn :: "'w ds_os \<Rightarrow> ('w, unit) dprog" where
  "ds_main_turn os = bnd (ds_get_work os) (\<lambda>m.
     bnd (ds_dispatch os m) (\<lambda>r.
     if fst r \<noteq> EDONTREPLY then
       bnd (gets ds_who_e) (\<lambda>who. ds_reply os who ((snd r)\<lparr>dm_type := fst r\<rparr>))
     else ret ()))"

section \<open>The process\<close>

text \<open>The static tables are zero when the process starts; nothing is allocated.\<close>

definition zero_entry :: data_store where
  "zero_entry = \<lparr>d_flags = 0, d_key = replicate DS_MAX_KEYLEN 0, d_owner = replicate DS_MAX_KEYLEN 0,
     d_word = 0, d_length = 0, d_reallen = 0\<rparr>"

definition zero_sub :: subscription where
  "zero_sub = \<lparr>sub_flags = 0, sub_owner = replicate DS_MAX_KEYLEN 0, sub_regex = [],
     old_subs = replicate (BITMAP_CHUNKS NR_DS_KEYS) 0\<rparr>"

definition ds_image :: "'w ds \<Rightarrow> 'w ds" where
  "ds_image s = s\<lparr>ds_store := replicate NR_DS_KEYS zero_entry, ds_subs := replicate NR_DS_SUBS zero_sub,
     ds_heap := (\<lambda>_. None)\<rparr>"

definition ds_start :: "'w ds_os \<Rightarrow> ('w, int) dprog" where
  "ds_start os = andthen (modify ds_image) (sef_cb_init_fresh os)"

end
