(* ===== verification/Ds_Inv.thy ===== *)
theory Ds_Inv
  imports Ds_Server C_Service
begin

text \<open>
  What holds of the tables of the data store in every state between two requests, what each
  building block of a request keeps, and the invariant of the server.
\<close>

section \<open>Flags\<close>

abbreviation in_use :: "data_store \<Rightarrow> bool" where
  "in_use d \<equiv> has (d_flags d) DSF_IN_USE"

definition type_of :: "s32 \<Rightarrow> s32" where
  "type_of f = f AND DSF_MASK_TYPE"

text \<open>Exactly one of the four types.\<close>

definition type_ok :: "s32 \<Rightarrow> bool" where
  "type_ok f \<longleftrightarrow> type_of f \<in> {DSF_TYPE_U32, DSF_TYPE_STR, DSF_TYPE_MEM, DSF_TYPE_LABEL}"

lemma stored_flags:
  assumes "p AND 1 = 0" and "p AND 0xFFF = p"
  shows "((1 :: s32) OR (f AND 0xFFF)) AND p = f AND p"
proof -
  have "1 AND p = 0" "0xFFF AND p = p" using assms by (simp_all add: and.commute)
  then show ?thesis by (simp add: bit.conj_disj_distrib2 and.assoc)
qed

lemma stored_in_use: "((1 :: s32) OR x) AND 1 = 1"
  by (simp add: bit.conj_disj_distrib2 and.commute)

lemma stored_type [simp]: "type_of (1 OR (f AND 0xFFF)) = type_of f"
  by (simp add: type_of_def stored_flags)

lemma has_type:
  assumes "type_ok f" and "ty \<in> {DSF_TYPE_U32, DSF_TYPE_STR, DSF_TYPE_MEM, DSF_TYPE_LABEL}"
  shows "has f ty \<longleftrightarrow> type_of f = ty"
proof -
  have "f AND ty = type_of f AND ty" using assms(2) by (auto simp: type_of_def and.assoc)
  with assms show ?thesis by (auto simp: type_ok_def)
qed

section \<open>Well-formed tables\<close>

definition entry_ok :: "data_store \<Rightarrow> bool" where
  "entry_ok d \<longleftrightarrow> length (d_key d) = DS_MAX_KEYLEN \<and> terminated (d_key d)
     \<and> length (d_owner d) = DS_MAX_KEYLEN \<and> terminated (d_owner d)
     \<and> (in_use d \<longrightarrow> type_ok (d_flags d))"

definition sub_ok :: "subscription \<Rightarrow> bool" where
  "sub_ok u \<longleftrightarrow> length (sub_owner u) = DS_MAX_KEYLEN \<and> terminated (sub_owner u)
     \<and> length (old_subs u) = BITMAP_CHUNKS NR_DS_KEYS"

definition tables_ok :: "'w ds \<Rightarrow> bool" where
  "tables_ok s \<longleftrightarrow> length (ds_store s) = NR_DS_KEYS \<and> length (ds_subs s) = NR_DS_SUBS
     \<and> list_all entry_ok (ds_store s) \<and> list_all sub_ok (ds_subs s)"

text \<open>No two entries in use have the same type and the same key.\<close>

definition keys_unique :: "data_store list \<Rightarrow> bool" where
  "keys_unique store \<longleftrightarrow> (\<forall>i < length store. \<forall>j < length store.
     in_use (store ! i) \<and> in_use (store ! j) \<and> type_of (d_flags (store ! i)) = type_of (d_flags (store ! j))
     \<and> cstr (d_key (store ! i)) = cstr (d_key (store ! j)) \<longrightarrow> i = j)"

lemma list_all_update: "list_all P xs \<Longrightarrow> (i < length xs \<Longrightarrow> P x) \<Longrightarrow> list_all P (xs[i := x])"
  by (cases "i < length xs") (auto simp: list_all_length nth_list_update)

lemma list_all_nth: "list_all P xs \<Longrightarrow> i < length xs \<Longrightarrow> P (xs ! i)"
  by (simp add: list_all_length)

lemma preserves_set_slot: "(\<And>d. entry_ok d \<Longrightarrow> entry_ok (f d)) \<Longrightarrow> preserves tables_ok (set_slot i f)"
  unfolding set_slot_def
  by (rule preserves_modify) (auto simp: tables_ok_def intro!: list_all_update dest: list_all_nth)

lemma preserves_set_sub: "(\<And>u. sub_ok u \<Longrightarrow> sub_ok (f u)) \<Longrightarrow> preserves tables_ok (set_sub i f)"
  unfolding set_sub_def
  by (rule preserves_modify) (auto simp: tables_ok_def intro!: list_all_update dest: list_all_nth)

text \<open>The rest of the state does not matter.\<close>

lemma preserves_tables:
  "(\<And>s. ds_store (f s) = ds_store s) \<Longrightarrow> (\<And>s. ds_subs (f s) = ds_subs s) \<Longrightarrow> preserves tables_ok (modify f)"
  by (rule preserves_modify) (simp add: tables_ok_def)

lemma preserves_os_call [preserves_intros]: "preserves tables_ok (os_call f)"
  by (simp add: preserves_def wp_simps tables_ok_def)

lemma preserves_print [preserves_intros]: "preserves tables_ok (print t)"
  by (simp add: preserves_def wp_simps tables_ok_def)

lemma preserves_heap_ops [preserves_intros]:
  "preserves tables_ok (ds_free p)" "preserves tables_ok (ds_malloc os n)"
  "preserves tables_ok (ds_write p off bs)" "preserves tables_ok (ds_read p n)"
  unfolding ds_free_def ds_malloc_def ds_write_def ds_read_def
  by (intro preserves_intros preserves_tables; simp)+

lemma preserves_getprocep [preserves_intros]: "preserves tables_ok (ds_getprocep n)"
  unfolding ds_getprocep_def by (intro preserves_intros)

lemma preserves_get_key_name [preserves_intros]: "preserves tables_ok (get_key_name os m k)"
  unfolding get_key_name_def by (intro preserves_intros)

lemma sub_ok_marks [simp]:
  "sub_ok u \<Longrightarrow> sub_ok (u\<lparr>old_subs := SET_BIT (old_subs u) n\<rparr>)"
  "sub_ok u \<Longrightarrow> sub_ok (u\<lparr>old_subs := UNSET_BIT (old_subs u) n\<rparr>)"
  by (simp_all add: sub_ok_def SET_BIT_def UNSET_BIT_def)

lemma preserves_update_subscribers [preserves_intros]: "preserves tables_ok (update_subscribers os nr b)"
  unfolding update_subscribers_def update_subscriber_def
  by (intro preserves_intros preserves_set_sub) simp

lemma preserves_strcpy [preserves_intros]:
  "preserves tables_ok (strcpy_slot d_key_update i src)"
  "preserves tables_ok (strcpy_slot d_owner_update i src)"
  "preserves tables_ok (strcpy_sub_owner i src)"
  unfolding strcpy_slot_def strcpy_sub_owner_def
  by (rule preserves_check_then, rule preserves_set_slot preserves_set_sub,
      simp add: entry_ok_def sub_ok_def overwrite_def)+

lemma preserves_publish_value [preserves_intros]: "preserves tables_ok (publish_value os m i)"
  unfolding publish_value_def publish_mem_def publish_copy_def publish_buffer_def new_block_def Let_def
  by (intro preserves_intros preserves_set_slot) (simp_all add: entry_ok_def)

lemma publish_value_type: "wlp (publish_value os m i) (\<lambda>r _. r = OK \<longrightarrow> type_ok (dm_flags m)) s"
  by (simp add: publish_value_def Let_def type_ok_def type_of_def wp_simps)

lemma preserves_publish_attributes:
  "type_ok (dm_flags m) \<Longrightarrow> preserves tables_ok (publish_attributes m k src i)"
  unfolding publish_attributes_def
  by (intro preserves_intros preserves_set_slot) (simp_all add: entry_ok_def type_ok_def)

lemma preserves_do_publish [preserves_intros]: "preserves tables_ok (do_publish os m)"
  unfolding do_publish_def
  by (rule preserves_bnd preserves_gets preserves_option preserves_ret preserves_get_key_name
      preserves_sum preserves_cond preserves_andthen preserves_update_subscribers
      preserves_bnd_result [OF preserves_publish_value publish_value_type] preserves_publish_attributes
    | simp)+

lemma preserves_do_retrieve [preserves_intros]: "preserves tables_ok (do_retrieve os m)"
  unfolding do_retrieve_def retrieve_value_def Let_def by (intro preserves_intros)

lemma preserves_do_retrieve_label [preserves_intros]: "preserves tables_ok (do_retrieve_label os m)"
  unfolding do_retrieve_label_def by (intro preserves_intros)

lemma length_fold_SET_BIT [simp]: "length (foldl SET_BIT m is) = length m"
  by (induction "is" arbitrary: m) (simp_all add: SET_BIT_def)

lemma preserves_do_subscribe [preserves_intros]: "preserves tables_ok (do_subscribe os m)"
  unfolding do_subscribe_def subscribe_initial_def strcat_def Let_def
  by (intro preserves_intros preserves_set_sub) (simp_all add: sub_ok_def)

lemma preserves_do_check [preserves_intros]: "preserves tables_ok (do_check os m)"
  unfolding do_check_def by (intro preserves_intros preserves_set_sub) simp

lemma preserves_do_delete [preserves_intros]: "preserves tables_ok (do_delete os m)"
proof -
  have subs: "preserves tables_ok (delete_subs l :: ('a, unit) dprog)" for l
    unfolding delete_subs_def
    by (rule preserves_modify) (auto simp: tables_ok_def list_all_iff sub_ok_def)
  show ?thesis
    unfolding do_delete_def delete_value_def delete_owned_def Let_def
    by (intro preserves_intros preserves_set_slot subs) (simp_all add: entry_ok_def)
qed

lemma preserves_do_getsysinfo [preserves_intros]: "preserves tables_ok (do_getsysinfo os m)"
  unfolding do_getsysinfo_def by (intro preserves_intros)

lemma preserves_ds_main_turn [preserves_intros]: "preserves tables_ok (ds_main_turn os)"
  unfolding ds_main_turn_def ds_get_work_def ds_dispatch_def ds_reply_def with_msg_def
  by (intro preserves_intros preserves_tables) simp_all

end
