(* ===== verification/Ds_Map.thy ===== *)
theory Ds_Map
  imports Ds_Inv
begin

text \<open>
  The data store as what it promises to be: a map from a type and a key to an owner, flags and
  a value. The searches of the code compute this map, and storing into a slot updates it.
\<close>

section \<open>Searches in well-formed tables\<close>

abbreviation types :: "s32 set" where
  "types \<equiv> {DSF_TYPE_U32, DSF_TYPE_STR, DSF_TYPE_MEM, DSF_TYPE_LABEL}"

definition holds :: "data_store \<Rightarrow> s32 \<Rightarrow> byte list \<Rightarrow> bool" where
  "holds d ty k \<longleftrightarrow> in_use d \<and> type_of (d_flags d) = ty \<and> cstr (d_key d) = k"

definition slot_of :: "data_store list \<Rightarrow> s32 \<Rightarrow> byte list \<Rightarrow> nat option" where
  "slot_of store ty k = first_slot (\<lambda>d. holds d ty k) store"

lemma lookup_slot_of:
  assumes "list_all entry_ok store" and "ty \<in> types"
  shows "lookup_entry store key ty = slot_of store ty (cstr key)"
  unfolding lookup_entry_def slot_of_def
proof (rule first_slot_cong)
  fix i
  assume "i < length store"
  then have "entry_ok (store ! i)" using assms(1) by (rule list_all_nth [rotated])
  then show "(in_use (store ! i) \<and> has (d_flags (store ! i)) ty \<and> cstr (d_key (store ! i)) = cstr key)
      = holds (store ! i) ty (cstr key)"
    using has_type [OF _ assms(2), of "d_flags (store ! i)"] by (auto simp: entry_ok_def holds_def)
qed simp

lemma keys_unique_holds:
  assumes "keys_unique store" and "i < length store" and "j < length store"
    and "holds (store ! i) ty k" and "holds (store ! j) ty k"
  shows "i = j"
  by (rule assms(1) [unfolded keys_unique_def, rule_format])
    (use assms(2-5) in \<open>simp_all add: holds_def\<close>)

lemma slot_of_iff:
  assumes "keys_unique store"
  shows "slot_of store ty k = Some i \<longleftrightarrow> i < length store \<and> holds (store ! i) ty k"
  unfolding slot_of_def
proof
  assume "i < length store \<and> holds (store ! i) ty k"
  then show "first_slot (\<lambda>d. holds d ty k) store = Some i"
    by (intro first_slot_unique) (auto dest: keys_unique_holds [OF assms])
qed (simp add: first_slot_Some)

lemma slot_of_none: "slot_of store ty k = None \<longleftrightarrow> (\<forall>i < length store. \<not> holds (store ! i) ty k)"
  by (simp add: slot_of_def first_slot_None)

lemma slot_of_holds: "slot_of store ty k = Some i \<Longrightarrow> i < length store \<and> holds (store ! i) ty k"
  by (simp add: slot_of_def first_slot_Some)

lemma option_eqI: "(\<And>x. a = Some x \<longleftrightarrow> b = Some x) \<Longrightarrow> a = b"
  by (cases a; cases b) auto

section \<open>Storing into a slot\<close>

text \<open>No other slot holds the key of the new entry.\<close>

definition slot_free_for :: "data_store list \<Rightarrow> nat \<Rightarrow> s32 \<Rightarrow> byte list \<Rightarrow> bool" where
  "slot_free_for store i ty k \<longleftrightarrow> i < length store
     \<and> (\<forall>j < length store. j \<noteq> i \<longrightarrow> \<not> holds (store ! j) ty k)"

lemma holds_update:
  "i < length store \<Longrightarrow> holds (store[i := d] ! j) ty k = (if j = i then holds d ty k else holds (store ! j) ty k)"
  by (simp add: nth_list_update)

lemma keys_unique_alt:
  "keys_unique store \<longleftrightarrow> (\<forall>i < length store. \<forall>j < length store. \<forall>ty k.
     holds (store ! i) ty k \<longrightarrow> holds (store ! j) ty k \<longrightarrow> i = j)"
  by (auto simp: keys_unique_def holds_def)

lemma keys_unique_store:
  assumes "keys_unique store" and "holds d ty k" and "slot_free_for store i ty k"
  shows "keys_unique (store[i := d])"
proof -
  have d: "holds d ty' k' \<longleftrightarrow> ty' = ty \<and> k' = k" for ty' k' using assms(2) by (auto simp: holds_def)
  show ?thesis
    using assms(1,3) unfolding keys_unique_alt slot_free_for_def by (auto simp: nth_list_update d)
qed

lemma slot_of_store:
  assumes u: "keys_unique store" and d: "holds d ty k" and free: "slot_free_for store i ty k"
  shows "slot_of (store[i := d]) ty' k' =
    (if ty' = ty \<and> k' = k then Some i
     else if slot_of store ty' k' = Some i then None
     else slot_of store ty' k')"
proof (rule option_eqI)
  fix j
  have i: "i < length store" using free by (simp add: slot_free_for_def)
  have dh: "holds d ty'' k'' \<longleftrightarrow> ty'' = ty \<and> k'' = k" for ty'' k'' using d by (auto simp: holds_def)
  show "slot_of (store[i := d]) ty' k' = Some j \<longleftrightarrow> (if ty' = ty \<and> k' = k then Some i
      else if slot_of store ty' k' = Some i then None else slot_of store ty' k') = Some j"
    using i free
    by (auto simp: slot_of_iff [OF keys_unique_store [OF u d free]] slot_of_iff [OF u] nth_list_update dh
        slot_free_for_def dest: keys_unique_holds [OF u])
qed

lemma keys_unique_clear:
  "keys_unique store \<Longrightarrow> \<not> in_use d \<Longrightarrow> keys_unique (store[i := d])"
  unfolding keys_unique_alt by (cases "i < length store") (auto simp: nth_list_update holds_def)

end
