(* ===== verification/Ds_Spec.thy ===== *)
theory Ds_Spec
  imports Ds_Map
begin

text \<open>
  The requests of the data store against the map: what publishing stores, what retrieving
  returns, and how the buffers of the entries live in the heap.
\<close>

section \<open>Quiet clients\<close>

text \<open>A condition on the world that no system call of the server ends.\<close>

definition stable :: "'w ds_os \<Rightarrow> ('w \<Rightarrow> bool) \<Rightarrow> bool" where
  "stable os W \<longleftrightarrow> (\<forall>w. W w \<longrightarrow> (\<forall>e g n. W (snd (os_safecopyfrom os e g n w)))
     \<and> (\<forall>e g bs. W (snd (os_safecopyto os e g bs w))) \<and> (\<forall>e. W (snd (os_notify os e w)))
     \<and> (\<forall>n. W (snd (os_malloc os n w))))"

abbreviation in_world :: "('w \<Rightarrow> bool) \<Rightarrow> 'w ds \<Rightarrow> bool" where
  "in_world W s \<equiv> W (p_world s)"

lemma world_ops [preserves_intros]:
  assumes "stable os W"
  shows "preserves (in_world W) (os_call (os_safecopyfrom os e g n))"
    and "preserves (in_world W) (os_call (os_safecopyto os e g bs))"
    and "preserves (in_world W) (os_call (os_notify os e))"
    and "preserves (in_world W) (os_call (os_malloc os n))"
  using assms by (auto simp: preserves_def wp_simps stable_def)

lemma world_kept [preserves_intros]:
  "preserves (in_world W) (print t)" "preserves (in_world W) (set_slot i f)"
  "preserves (in_world W) (set_sub i g)" "preserves (in_world W) (modify (\<lambda>s. s\<lparr>ds_heap := h\<rparr>))"
  "preserves (in_world W) (ds_free p)" "preserves (in_world W) (ds_write p off bs)"
  "preserves (in_world W) (ds_read p n)"
  unfolding ds_free_def ds_write_def ds_read_def
  by (auto simp: preserves_def wp_simps set_slot_def set_sub_def split: option.split)

section \<open>The abstract store\<close>

datatype ds_value = Number u32 | Bytes "byte list"

definition value_of :: "heap \<Rightarrow> data_store \<Rightarrow> ds_value" where
  "value_of h d =
     (if type_of (d_flags d) \<in> {DSF_TYPE_STR, DSF_TYPE_MEM}
      then Bytes (case h (d_word d) of None \<Rightarrow> [] | Some b \<Rightarrow> take (unat (d_length d)) b)
      else Number (d_word d))"

definition entry_of :: "heap \<Rightarrow> data_store \<Rightarrow> byte list \<times> s32 \<times> ds_value" where
  "entry_of h d = (cstr (d_owner d), d_flags d, value_of h d)"

definition abs_ds :: "'w ds \<Rightarrow> s32 \<times> byte list \<Rightarrow> (byte list \<times> s32 \<times> ds_value) option" where
  "abs_ds s = (\<lambda>(ty, k). map_option (\<lambda>i. entry_of (ds_heap s) (ds_store s ! i))
     (slot_of (ds_store s) ty k))"

text \<open>The name of the process at an endpoint.\<close>

definition proc_name :: "'w ds \<Rightarrow> endpoint \<Rightarrow> byte list option" where
  "proc_name s e = map_option (\<lambda>p. cstr (name_at (ds_store s) p)) (ds_getprocname (ds_store s) e)"

section \<open>The key of a request\<close>

definition request_key :: "'w ds_os \<Rightarrow> ds_msg \<Rightarrow> byte list \<Rightarrow> 'w \<Rightarrow> byte list option" where
  "request_key os m buf w =
     (let r = fst (os_safecopyfrom os (dm_source m) (key_grant m) (unat (key_len m)) w) in
      if 2 \<le> sint (key_len m) \<and> sint (key_len m) \<le> int DS_MAX_KEYLEN \<and> fst r = OK
      then Some ((overwrite 0 (map (snd r) [0..<unat (key_len m)]) buf)[DS_MAX_KEYLEN - 1 := 0]) else None)"

lemma get_key_name_key:
  "wp (get_key_name os m buf) (\<lambda>k t.
     (case request_key os m buf (p_world s) of None \<Rightarrow> fst k \<noteq> OK | Some key \<Rightarrow> k = (OK, key))
     \<and> ds_store t = ds_store s \<and> ds_subs t = ds_subs s \<and> ds_heap t = ds_heap s
     \<and> (p_world t = p_world s
        \<or> p_world t = snd (os_safecopyfrom os (dm_source m) (key_grant m) (unat (key_len m)) (p_world s)))) s"
  by (auto simp: get_key_name_def request_key_def wp_simps Let_def)

section \<open>Buffers\<close>

definition mem_entry :: "data_store \<Rightarrow> bool" where
  "mem_entry d \<longleftrightarrow> in_use d \<and> type_of (d_flags d) \<in> {DSF_TYPE_STR, DSF_TYPE_MEM}"

definition buffer_ok :: "heap \<Rightarrow> data_store \<Rightarrow> bool" where
  "buffer_ok h d \<longleftrightarrow> d_word d \<noteq> 0 \<and> d_length d \<le> d_reallen d
     \<and> (\<exists>b. h (d_word d) = Some b \<and> length b = unat (d_reallen d))"

text \<open>Every entry with a buffer has a live one of its own, as long as it says.\<close>

definition heap_ok :: "'w ds \<Rightarrow> bool" where
  "heap_ok s \<longleftrightarrow>
     (\<forall>i < length (ds_store s). mem_entry (ds_store s ! i) \<longrightarrow> buffer_ok (ds_heap s) (ds_store s ! i))
     \<and> (\<forall>i < length (ds_store s). \<forall>j < length (ds_store s). i \<noteq> j
          \<longrightarrow> mem_entry (ds_store s ! i) \<longrightarrow> mem_entry (ds_store s ! j)
          \<longrightarrow> d_word (ds_store s ! i) \<noteq> d_word (ds_store s ! j))"

text \<open>The blocks that are not the buffer of slot \<open>i\<close> are as they were.\<close>

definition others_kept :: "'w ds \<Rightarrow> nat \<Rightarrow> u32 \<Rightarrow> heap \<Rightarrow> bool" where
  "others_kept s i p h \<longleftrightarrow> (\<forall>q. ds_heap s q \<noteq> None
     \<and> (in_use (ds_store s ! i) \<longrightarrow> q \<noteq> d_word (ds_store s ! i)) \<longrightarrow> h q = ds_heap s q \<and> q \<noteq> p)"

definition buffer_ready :: "'w ds \<Rightarrow> nat \<Rightarrow> u32 \<Rightarrow> 'w ds \<Rightarrow> bool" where
  "buffer_ready s i len t \<longleftrightarrow> (\<exists>p b rl.
     ds_store t = (ds_store s)[i := (ds_store s ! i)\<lparr>d_word := p, d_reallen := rl\<rparr>]
     \<and> ds_subs t = ds_subs s \<and> p \<noteq> 0 \<and> ds_heap t p = Some b \<and> length b = unat rl \<and> len \<le> rl
     \<and> others_kept s i p (ds_heap t))"

lemma wp_ds_malloc [wp_simps]:
  "wp (ds_malloc os n) Q = (\<lambda>s. let c = fst (os_malloc os n (p_world s)); r = malloc c n (ds_heap s) in
     Q (fst r) (s\<lparr>p_world := snd (os_malloc os n (p_world s)), ds_heap := snd r\<rparr>))"
  by (rule ext) (simp add: ds_malloc_def wp_simps Let_def)

lemma wlp_ds_malloc [wp_simps]:
  "wlp (ds_malloc os n) Q = (\<lambda>s. let c = fst (os_malloc os n (p_world s)); r = malloc c n (ds_heap s) in
     Q (fst r) (s\<lparr>p_world := snd (os_malloc os n (p_world s)), ds_heap := snd r\<rparr>))"
  by (rule ext) (simp add: ds_malloc_def wp_simps Let_def)

lemma wp_ds_free [wp_simps]:
  "wp (ds_free p) Q = (\<lambda>s. case free p (ds_heap s) of None \<Rightarrow> False | Some h \<Rightarrow> Q () (s\<lparr>ds_heap := h\<rparr>))"
  by (rule ext) (simp add: ds_free_def wp_simps split: option.split)

lemma wlp_ds_free [wp_simps]:
  "wlp (ds_free p) Q = (\<lambda>s. case free p (ds_heap s) of None \<Rightarrow> True | Some h \<Rightarrow> Q () (s\<lparr>ds_heap := h\<rparr>))"
  by (rule ext) (simp add: ds_free_def wp_simps split: option.split)

lemma wp_ds_write [wp_simps]:
  "wp (ds_write p off bs) Q = (\<lambda>s. case write_block p off bs (ds_heap s) of None \<Rightarrow> False
     | Some h \<Rightarrow> Q () (s\<lparr>ds_heap := h\<rparr>))"
  by (rule ext) (simp add: ds_write_def wp_simps split: option.split)

lemma wlp_ds_write [wp_simps]:
  "wlp (ds_write p off bs) Q = (\<lambda>s. case write_block p off bs (ds_heap s) of None \<Rightarrow> True
     | Some h \<Rightarrow> Q () (s\<lparr>ds_heap := h\<rparr>))"
  by (rule ext) (simp add: ds_write_def wp_simps split: option.split)

lemma wp_ds_read [wp_simps]:
  "wp (ds_read p n) Q = (\<lambda>s. case read_block p n (ds_heap s) of None \<Rightarrow> False | Some bs \<Rightarrow> Q bs s)"
  by (rule ext) (simp add: ds_read_def wp_simps split: option.split)

lemma wp_set_slot [wp_simps]:
  "wp (set_slot i f) Q = (\<lambda>s. Q () (s\<lparr>ds_store := (ds_store s)[i := f (ds_store s ! i)]\<rparr>))"
  by (rule ext) (simp add: set_slot_def wp_simps)

lemma wlp_set_slot [wp_simps]:
  "wlp (set_slot i f) Q = (\<lambda>s. Q () (s\<lparr>ds_store := (ds_store s)[i := f (ds_store s ! i)]\<rparr>))"
  by (rule ext) (simp add: set_slot_def wp_simps)

lemma new_block_ready:
  assumes "i < length (ds_store s)"
  shows "wlp (new_block os i len) (\<lambda>r t. r = OK \<longrightarrow> buffer_ready s i len t) s"
proof -
  let ?c = "fst (os_malloc os (unat len) (p_world s))"
  obtain p h where m: "malloc ?c (unat len) (ds_heap s) = (p, h)" by fastforce
  show ?thesis
  proof (cases "p = 0")
    case False
    with malloc_fresh [OF m] obtain b where "ds_heap s p = None" "length b = unat len" "h = (ds_heap s)(p \<mapsto> b)"
      by blast
    with False assms show ?thesis
      by (auto simp: new_block_def wp_simps Let_def m buffer_ready_def others_kept_def)
  qed (simp add: new_block_def wp_simps Let_def m)
qed

lemma publish_buffer_ready:
  assumes i: "i < length (ds_store s)"
    and buf: "in_use (ds_store s ! i) \<Longrightarrow> buffer_ok (ds_heap s) (ds_store s ! i)"
  shows "wlp (publish_buffer os i len) (\<lambda>r t. r = OK \<longrightarrow> buffer_ready s i len t) s"
proof (cases "in_use (ds_store s ! i)")
  case False
  with new_block_ready [OF i] show ?thesis by (simp add: publish_buffer_def wp_simps)
next
  case True
  let ?d = "ds_store s ! i" and ?s = "s\<lparr>ds_heap := (ds_heap s)(d_word (ds_store s ! i) := None)\<rparr>"
  obtain b where b: "ds_heap s (d_word ?d) = Some b" "length b = unat (d_reallen ?d)" "d_word ?d \<noteq> 0"
    using buf [OF True] by (auto simp: buffer_ok_def)
  have "others_kept s i p h" if "others_kept ?s i p h" for p h
    unfolding others_kept_def
  proof (intro allI impI)
    fix q
    assume "ds_heap s q \<noteq> None \<and> (in_use ?d \<longrightarrow> q \<noteq> d_word ?d)"
    with True that [unfolded others_kept_def, rule_format, of q] show "h q = ds_heap s q \<and> q \<noteq> p" by simp
  qed
  then have "buffer_ready ?s i len t \<Longrightarrow> buffer_ready s i len t" for t
    unfolding buffer_ready_def by simp blast
  then have new: "wlp (new_block os i len) (\<lambda>r t. r = OK \<longrightarrow> buffer_ready s i len t) ?s"
    by (intro wlp_mono [OF new_block_ready]) (use i in auto)
  have old: "buffer_ready s i len s" if "len \<le> d_reallen ?d"
    using that b True unfolding buffer_ready_def others_kept_def
    by (intro exI [of _ "d_word ?d"] exI [of _ b] exI [of _ "d_reallen ?d"]) simp
  show ?thesis
    using True b new old
    by (auto simp: publish_buffer_def wp_simps free_def not_less)
qed

text \<open>The slot after a value with a buffer was stored into it.\<close>

definition published_mem :: "'w ds \<Rightarrow> nat \<Rightarrow> byte list \<Rightarrow> u32 \<Rightarrow> 'w ds \<Rightarrow> bool" where
  "published_mem s i bs len t \<longleftrightarrow> (\<exists>p b rl.
     ds_store t = (ds_store s)[i := (ds_store s ! i)\<lparr>d_word := p, d_reallen := rl, d_length := len\<rparr>]
     \<and> ds_subs t = ds_subs s \<and> p \<noteq> 0 \<and> ds_heap t p = Some b \<and> length b = unat rl \<and> len \<le> rl
     \<and> take (unat len) b = bs \<and> others_kept s i p (ds_heap t))"

definition stored_bytes :: "ds_msg \<Rightarrow> (nat \<Rightarrow> byte) \<Rightarrow> byte list" where
  "stored_bytes m data =
     (let bs = map data [0..<unat (val_len m)]
      in if has (dm_flags m) DSF_TYPE_STR then bs[unat (val_len m - 1) := 0] else bs)"

lemma world_publish_buffer [preserves_intros]:
  "stable os W \<Longrightarrow> preserves (in_world W) (publish_buffer os i len)"
  unfolding publish_buffer_def new_block_def ds_malloc_def by (intro preserves_intros)

text \<open>A value with a buffer that some copy of the client's memory gave.\<close>

definition published_copy :: "'w ds_os \<Rightarrow> ('w \<Rightarrow> bool) \<Rightarrow> ds_msg \<Rightarrow> 'w ds \<Rightarrow> nat \<Rightarrow> 'w ds \<Rightarrow> bool" where
  "published_copy os W m s i t \<longleftrightarrow> (\<exists>w data w'. W w
     \<and> os_safecopyfrom os (dm_source m) (val_in m) (unat (val_len m)) w = ((OK, data), w')
     \<and> published_mem s i (stored_bytes m data) (val_len m) t)"

lemma overwrite_one: "n < length b \<Longrightarrow> overwrite n [x] b = b[n := x]"
  by (simp add: overwrite_def upd_conv_take_nth_drop)

lemma stored_bytes_block:
  fixes b :: "byte list"
  assumes "length b = unat rl" and "val_len m \<le> rl"
    and "has (dm_flags m) DSF_TYPE_STR \<Longrightarrow> unat (val_len m - 1) < unat rl"
  shows "take (unat (val_len m)) (let b' = overwrite 0 (map data [0..<unat (val_len m)]) b
     in if has (dm_flags m) DSF_TYPE_STR then overwrite (unat (val_len m - 1)) [0] b' else b') = stored_bytes m data"
proof -
  let ?bs = "map data [0..<unat (val_len m)]"
  have n: "unat (val_len m) \<le> length b" using assms(1,2) by (simp add: word_le_nat_alt)
  have w: "overwrite 0 ?bs b = ?bs @ drop (unat (val_len m)) b" by (simp add: overwrite_def)
  then have len: "length (overwrite 0 ?bs b) = unat rl" using n assms(1) by simp
  show ?thesis
  proof (cases "has (dm_flags m) DSF_TYPE_STR")
    case True
    then show ?thesis using assms(3) len
      by (simp add: stored_bytes_def Let_def overwrite_one take_update_swap w)
  next
    case False
    then show ?thesis by (simp add: stored_bytes_def Let_def w)
  qed
qed

lemma publish_copy_wlp:
  assumes i: "i < length (ds_store s)" and ready: "buffer_ready s i (val_len m) t" and W: "W (p_world t)"
  shows "wlp (publish_copy os m i) (\<lambda>r u. r = OK \<longrightarrow> published_copy os W m s i u) t"
proof -
  obtain p b rl where t: "ds_store t = (ds_store s)[i := (ds_store s ! i)\<lparr>d_word := p, d_reallen := rl\<rparr>]"
    "ds_subs t = ds_subs s" "p \<noteq> 0" "ds_heap t p = Some b" "length b = unat rl" "val_len m \<le> rl"
    "others_kept s i p (ds_heap t)"
    using ready by (auto simp: buffer_ready_def)
  obtain st data w' where c: "os_safecopyfrom os (dm_source m) (val_in m) (unat (val_len m)) (p_world t) = ((st, data), w')"
    by (metis prod.exhaust)
  let ?b = "overwrite 0 (map data [0..<unat (val_len m)]) b"
  let ?b' = "if has (dm_flags m) DSF_TYPE_STR then overwrite (unat (val_len m - 1)) [0] ?b else ?b"
  have len: "length ?b = unat rl" using t(5,6) by (simp add: word_le_nat_alt)
  have post: "published_copy os W m s i u" if "st = OK"
    "has (dm_flags m) DSF_TYPE_STR \<Longrightarrow> unat (val_len m - 1) < unat rl" "ds_subs u = ds_subs t"
    "ds_heap u = (ds_heap t)(p \<mapsto> ?b')" "ds_store u = (ds_store t)[i := (ds_store t ! i)\<lparr>d_length := val_len m\<rparr>]" for u
  proof -
    have "take (unat (val_len m)) ?b' = stored_bytes m data"
      using stored_bytes_block [OF t(5,6) that(2), of data] by (simp add: Let_def)
    moreover have "length ?b' = unat rl" using len that(2) by (simp add: overwrite_one)
    moreover have "others_kept s i p ((ds_heap t)(p \<mapsto> ?b'))" using t(7) by (auto simp: others_kept_def)
    ultimately have "published_mem s i (stored_bytes m data) (val_len m) u"
      unfolding published_mem_def
      by (intro exI [of _ p] exI [of _ ?b'] exI [of _ rl]) (use t i that(3-5) in simp)
    then show ?thesis using c W that(1) unfolding published_copy_def by blast
  qed
  have word: "d_word (ds_store t ! i) = p" using t(1) i by simp
  show ?thesis
  proof (cases "st = OK")
    case False
    then show ?thesis by (simp add: publish_copy_def wp_simps c split: option.split)
  next
    case True
    have wr: "write_block p 0 (map data [0..<unat (val_len m)]) (ds_heap t) = Some ((ds_heap t)(p \<mapsto> ?b))"
      using t(4-6) by (simp add: write_block_def word_le_nat_alt)
    have zero: "write_block p n [0] ((ds_heap t)(p \<mapsto> ?b))
        = (if n < unat rl then Some ((ds_heap t)(p \<mapsto> overwrite n [0] ?b)) else None)" for n
      using len by (simp add: write_block_def)
    show ?thesis
      using True post by (auto simp: publish_copy_def wp_simps c word wr zero)
  qed
qed

lemma publish_mem_wlp:
  assumes i: "i < length (ds_store s)"
    and buf: "in_use (ds_store s ! i) \<Longrightarrow> buffer_ok (ds_heap s) (ds_store s ! i)"
    and W: "stable os W" "W (p_world s)"
  shows "wlp (publish_mem os m i) (\<lambda>r t. r = OK \<longrightarrow> published_copy os W m s i t) s"
  unfolding publish_mem_def wlp_bnd
proof (rule wlp_mono)
  show "wlp (publish_buffer os i (val_len m)) (\<lambda>r t. (r = OK \<longrightarrow> buffer_ready s i (val_len m) t) \<and> W (p_world t)) s"
    unfolding wlp_conj using publish_buffer_ready [OF i buf] preservesD [OF world_publish_buffer [OF W(1)]] W(2) by blast
next
  fix r t
  assume "(r = OK \<longrightarrow> buffer_ready s i (val_len m) t) \<and> W (p_world t)"
  then show "wlp (if r \<noteq> OK then ret r else publish_copy os m i) (\<lambda>r t. r = OK \<longrightarrow> published_copy os W m s i t) t"
    using publish_copy_wlp [where s = s and t = t, OF i] by (auto simp: wp_simps)
qed

section \<open>Publishing\<close>

abbreviation tables :: "'w ds \<Rightarrow> data_store list \<times> heap" where
  "tables s \<equiv> (ds_store s, ds_heap s)"

lemma keeps_tables_os [keeps_ops]: "keeps tables (os_call f)"
  by (simp add: keeps_def wp_simps)

lemma keeps_tables_print [keeps_ops]: "keeps tables (print t)"
  by (simp add: keeps_def wp_simps)

lemma keeps_tables_set_sub [keeps_ops]: "keeps tables (set_sub i f)"
  by (simp add: keeps_def set_sub_def wp_simps)

lemma keeps_tables_getprocep [keeps_ops]: "keeps tables (ds_getprocep n)"
  unfolding ds_getprocep_def by (intro keeps_intros)

lemma keeps_tables_update [keeps_ops]: "keeps tables (update_subscribers os nr b)"
  unfolding update_subscribers_def update_subscriber_def by (intro keeps_intros keeps_ops)

text \<open>The owner that is stored: a source that is the key of the very slot is the new key.\<close>

definition stored_owner :: "data_store list \<Rightarrow> name_ptr \<Rightarrow> nat \<Rightarrow> byte list \<Rightarrow> byte list" where
  "stored_owner store src i key = (if src = Key_of i then cstr key else cstr (name_at store src))"

definition stored_slot :: "data_store list \<Rightarrow> ds_msg \<Rightarrow> byte list \<Rightarrow> name_ptr \<Rightarrow> nat \<Rightarrow> data_store" where
  "stored_slot store m key src i =
     (d_owner_update (overwrite 0 (stored_owner store src i key @ [0]))
       (d_key_update (overwrite 0 (cstr key @ [0])) (store ! i)))
     \<lparr>d_flags := DSF_IN_USE OR (dm_flags m AND DSF_MASK_INTERNAL)\<rparr>"

lemma publish_attributes_wlp:
  assumes "i < length (ds_store s)"
  shows "wlp (publish_attributes m key src i) (\<lambda>_ t.
     t = s\<lparr>ds_store := (ds_store s)[i := stored_slot (ds_store s) m key src i]\<rparr>) s"
  using assms
  by (cases src) (auto simp: publish_attributes_def strcpy_slot_def wp_simps stored_slot_def
      stored_owner_def name_at_def)

text \<open>The slot \<open>do_publish\<close> stores into: a free one, the entry itself, or a label to rename.\<close>

lemma publish_slot_found:
  assumes "publish_slot store m key = Inr i"
  shows "(lookup_entry store key (type_of (dm_flags m)) = None \<and> alloc_data_slot store = Some i)
    \<or> lookup_entry store key (type_of (dm_flags m)) = Some i
    \<or> (lookup_entry store key (type_of (dm_flags m)) = None \<and> has (dm_flags m) DSF_TYPE_LABEL
        \<and> lookup_label_entry store (val_in m) = Some i)"
  using assms
  by (auto simp: publish_slot_def Let_def type_of_def split: option.splits if_splits)

lemma publish_slot_error: "publish_slot store m key = Inl e \<Longrightarrow> e \<noteq> OK"
  by (auto simp: publish_slot_def Let_def split: option.splits if_splits)

lemma publish_slot_cases:
  assumes found: "publish_slot store m key = Inr i" and ok: "list_all entry_ok store" and ty: "type_ok (dm_flags m)"
  shows "i < length store
    \<and> (in_use (store ! i) \<longrightarrow> type_of (d_flags (store ! i)) = type_of (dm_flags m))
    \<and> (keys_unique store \<longrightarrow> slot_free_for store i (type_of (dm_flags m)) (cstr key))"
proof -
  have t: "type_of (dm_flags m) \<in> types" using ty by (simp add: type_ok_def)
  note look = lookup_slot_of [OF ok t, of key]
  from publish_slot_found [OF found] consider
      (new) "lookup_entry store key (type_of (dm_flags m)) = None" "alloc_data_slot store = Some i"
    | (old) "lookup_entry store key (type_of (dm_flags m)) = Some i"
    | (label) "lookup_entry store key (type_of (dm_flags m)) = None" "has (dm_flags m) DSF_TYPE_LABEL"
        "lookup_label_entry store (val_in m) = Some i"
    by metis
  then show ?thesis
  proof cases
    case new
    then show ?thesis using look by (auto simp: alloc_data_slot_def first_slot_Some slot_free_for_def slot_of_none)
  next
    case old
    then have h: "i < length store" "holds (store ! i) (type_of (dm_flags m)) (cstr key)"
      by (simp_all add: look slot_of_holds)
    then show ?thesis
      by (auto simp: slot_free_for_def dest: keys_unique_holds) (simp add: holds_def)
  next
    case label
    then have i: "i < length store" "has (d_flags (store ! i)) DSF_TYPE_LABEL"
      by (simp_all add: lookup_label_entry_def first_slot_Some)
    have "type_of (dm_flags m) = DSF_TYPE_LABEL" using label(2) has_type [OF ty, of DSF_TYPE_LABEL] by simp
    moreover have "type_of (d_flags (store ! i)) = DSF_TYPE_LABEL" if "in_use (store ! i)"
      using i that list_all_nth [OF ok i(1)] has_type [of "d_flags (store ! i)" DSF_TYPE_LABEL] by (simp add: entry_ok_def)
    moreover have "slot_of store (type_of (dm_flags m)) (cstr key) = None" using label(1) look by simp
    ultimately show ?thesis using i(1) by (simp add: slot_free_for_def slot_of_none)
  qed
qed

abbreviation mem_type :: "s32 \<Rightarrow> bool" where
  "mem_type f \<equiv> type_of f \<in> {DSF_TYPE_STR, DSF_TYPE_MEM}"

text \<open>The words of a slot hold the value of the request.\<close>

definition value_stored ::
  "'w ds_os \<Rightarrow> ('w \<Rightarrow> bool) \<Rightarrow> ds_msg \<Rightarrow> 'w ds \<Rightarrow> nat \<Rightarrow> data_store \<Rightarrow> heap \<Rightarrow> bool" where
  "value_stored os W m s i d h \<longleftrightarrow>
     (if mem_type (dm_flags m) then
        d_length d = val_len m \<and> buffer_ok h d \<and> others_kept s i (d_word d) h
        \<and> (\<exists>w data w'. W w
            \<and> os_safecopyfrom os (dm_source m) (val_in m) (unat (val_len m)) w = ((OK, data), w')
            \<and> map_option (take (unat (val_len m))) (h (d_word d)) = Some (stored_bytes m data))
      else d_word d = val_in m \<and> h = ds_heap s)"

lemma published_copy_value:
  assumes "published_copy os W m s i t" and "mem_type (dm_flags m)"
  shows "\<exists>d. ds_store t = (ds_store s)[i := d] \<and> d_key d = d_key (ds_store s ! i)
    \<and> d_owner d = d_owner (ds_store s ! i) \<and> value_stored os W m s i d (ds_heap t)"
proof -
  obtain w data w' p b rl where c: "W w"
      "os_safecopyfrom os (dm_source m) (val_in m) (unat (val_len m)) w = ((OK, data), w')"
    and t: "ds_store t = (ds_store s)[i := (ds_store s ! i)\<lparr>d_word := p, d_reallen := rl, d_length := val_len m\<rparr>]"
      "p \<noteq> 0" "ds_heap t p = Some b" "length b = unat rl" "val_len m \<le> rl"
      "take (unat (val_len m)) b = stored_bytes m data" "others_kept s i p (ds_heap t)"
    using assms(1) unfolding published_copy_def published_mem_def by blast
  then show ?thesis
    using assms(2) by (intro exI [of _ "(ds_store s ! i)\<lparr>d_word := p, d_reallen := rl, d_length := val_len m\<rparr>"])
      (auto simp: value_stored_def buffer_ok_def)
qed

lemma publish_value_wlp:
  assumes i: "i < length (ds_store s)" and W: "stable os W" "W (p_world s)"
    and buf: "mem_type (dm_flags m) \<Longrightarrow> in_use (ds_store s ! i) \<Longrightarrow> buffer_ok (ds_heap s) (ds_store s ! i)"
  shows "wlp (publish_value os m i) (\<lambda>r t. r = OK \<longrightarrow> (\<exists>d. ds_store t = (ds_store s)[i := d]
     \<and> d_key d = d_key (ds_store s ! i) \<and> d_owner d = d_owner (ds_store s ! i)
     \<and> value_stored os W m s i d (ds_heap t))) s"
proof (cases "mem_type (dm_flags m)")
  case True
  then have "publish_value os m i = publish_mem os m i"
    by (auto simp: publish_value_def type_of_def)
  then show ?thesis
    by (auto intro!: wlp_mono [OF publish_mem_wlp [OF i buf [OF True] W]] published_copy_value [OF _ True])
next
  case False
  then show ?thesis
    by (auto simp: publish_value_def type_of_def wp_simps Let_def value_stored_def
        intro!: exI [of _ "(ds_store s ! i)\<lparr>d_word := val_in m\<rparr>"])
qed

text \<open>
  What a successful publish leaves: one slot has changed, to an entry for the key with the
  name of the source and the flags of the request; \<open>V\<close> is what is known of its words.
\<close>

definition published ::
  "'w ds_os \<Rightarrow> ds_msg \<Rightarrow> (nat \<Rightarrow> data_store \<Rightarrow> heap \<Rightarrow> bool) \<Rightarrow> 'w ds \<Rightarrow> 'w ds \<Rightarrow> bool" where
  "published os m V s t \<longleftrightarrow> (\<exists>key src i d.
     request_key os m (stack_array os DS_MAX_KEYLEN) (p_world s) = Some key
     \<and> ds_getprocname (ds_store s) (dm_source m) = Some src
     \<and> publish_slot (ds_store s) m key = Inr i \<and> type_ok (dm_flags m)
     \<and> ds_store t = (ds_store s)[i := d]
     \<and> d_flags d = DSF_IN_USE OR (dm_flags m AND DSF_MASK_INTERNAL)
     \<and> cstr (d_key d) = cstr key \<and> cstr (d_owner d) = stored_owner (ds_store s) src i key
     \<and> V i d (ds_heap t))"

definition same_words :: "data_store \<Rightarrow> data_store \<Rightarrow> bool" where
  "same_words d d' \<longleftrightarrow> d_word d' = d_word d \<and> d_length d' = d_length d \<and> d_reallen d' = d_reallen d"

lemma stored_owner_cstr [simp]: "cstr (stored_owner store src i key @ 0 # rest) = stored_owner store src i key"
  by (auto simp: stored_owner_def)

lemma published_attributes:
  assumes t: "ds_store t = (ds_store s)[i := d]" and i: "i < length (ds_store s)"
    and d: "d_key d = d_key (ds_store s ! i)" "d_owner d = d_owner (ds_store s ! i)"
    and V: "V i d (ds_heap t)" "\<And>d' h. V i d h \<Longrightarrow> same_words d d' \<Longrightarrow> V i d' h"
    and key: "request_key os m (stack_array os DS_MAX_KEYLEN) (p_world s) = Some key"
    and src: "ds_getprocname (ds_store s) (dm_source m) = Some src"
    and slot: "publish_slot (ds_store s) m key = Inr i" and ty: "type_ok (dm_flags m)"
  shows "wlp (andthen (publish_attributes m key src i) (andthen (update_subscribers os i True) (ret OK)))
     (\<lambda>r u. published os m V s u) t"
proof -
  have it: "i < length (ds_store t)" using t i by simp
  have own: "stored_owner (ds_store t) src i key = stored_owner (ds_store s) src i key"
    using t by (cases src) (auto simp: stored_owner_def name_at_def)
  have pub: "published os m V s u"
    if "tables u = tables (t\<lparr>ds_store := (ds_store t)[i := stored_slot (ds_store t) m key src i]\<rparr>)" for u
    unfolding published_def
    using that t i key src slot ty V(1) own
    by (intro exI [of _ key] exI [of _ src] exI [of _ i] exI [of _ "stored_slot (ds_store t) m key src i"])
      (auto simp: stored_slot_def overwrite_def same_words_def intro: V(2))
  show ?thesis
    unfolding wlp_andthen wlp_ret
    by (rule wlp_mono [OF publish_attributes_wlp [OF it]])
      (auto intro!: wlp_keeps_only [OF keeps_tables_update] pub)
qed

lemma do_publish_wlp:
  fixes s :: "'w ds"
  assumes V: "\<And>i d d' h. V i d h \<Longrightarrow> same_words d d' \<Longrightarrow> V i d' h"
    and val: "\<And>key i s1 :: 'w ds. publish_slot (ds_store s) m key = Inr i \<Longrightarrow> tables s1 = tables s
      \<Longrightarrow> (p_world s1 = p_world s
        \<or> p_world s1 = snd (os_safecopyfrom os (dm_source m) (key_grant m) (unat (key_len m)) (p_world s)))
      \<Longrightarrow> wlp (publish_value os m i) (\<lambda>r t. r = OK \<longrightarrow> (\<exists>d. ds_store t = (ds_store s)[i := d]
         \<and> d_key d = d_key (ds_store s ! i) \<and> d_owner d = d_owner (ds_store s ! i)
         \<and> V i d (ds_heap t))) s1"
  shows "wlp (do_publish os m) (\<lambda>r t. r = OK \<longrightarrow> published os m V s t) s"
proof (cases "ds_getprocname (ds_store s) (dm_source m)")
  case (Some src)
  have step: "wlp (bnd (publish_value os m i) (\<lambda>r. if r \<noteq> OK then ret r
        else andthen (publish_attributes m key src i) (andthen (update_subscribers os i True) (ret OK))))
      (\<lambda>r t. r = OK \<longrightarrow> published os m V s t) s1"
    if key: "request_key os m (stack_array os DS_MAX_KEYLEN) (p_world s) = Some key"
      and slot: "publish_slot (ds_store s) m key = Inr i" and s1: "tables s1 = tables s"
      "p_world s1 = p_world s
        \<or> p_world s1 = snd (os_safecopyfrom os (dm_source m) (key_grant m) (unat (key_len m)) (p_world s))" for key i s1
  proof -
    have i: "i < length (ds_store s)" using publish_slot_found [OF slot]
      by (auto simp: alloc_data_slot_def lookup_entry_def lookup_label_entry_def first_slot_Some)
    show ?thesis
      unfolding wlp_bnd
    proof (rule wlp_mono)
      show "wlp (publish_value os m i) (\<lambda>r t. (r = OK \<longrightarrow> type_ok (dm_flags m)) \<and> (r = OK \<longrightarrow>
          (\<exists>d. ds_store t = (ds_store s)[i := d] \<and> d_key d = d_key (ds_store s ! i)
            \<and> d_owner d = d_owner (ds_store s ! i) \<and> V i d (ds_heap t)))) s1"
        unfolding wlp_conj using publish_value_type val [OF slot s1] by blast
    next
      fix r and t :: "'w ds"
      assume *: "(r = OK \<longrightarrow> type_ok (dm_flags m)) \<and> (r = OK \<longrightarrow>
          (\<exists>d. ds_store t = (ds_store s)[i := d] \<and> d_key d = d_key (ds_store s ! i)
            \<and> d_owner d = d_owner (ds_store s ! i) \<and> V i d (ds_heap t)))"
      show "wlp (if r \<noteq> OK then ret r
          else andthen (publish_attributes m key src i) (andthen (update_subscribers os i True) (ret OK)))
        (\<lambda>r t. r = OK \<longrightarrow> published os m V s t) t"
      proof (cases "r = OK")
        case True
        with * obtain d where d: "ds_store t = (ds_store s)[i := d]" "d_key d = d_key (ds_store s ! i)"
          "d_owner d = d_owner (ds_store s ! i)" "V i d (ds_heap t)" "type_ok (dm_flags m)" by blast
        have "wlp (andthen (publish_attributes m key src i) (andthen (update_subscribers os i True) (ret OK)))
            (\<lambda>r t. r = OK \<longrightarrow> published os m V s t) t"
          by (rule wlp_mono, rule published_attributes [where V = V and d = d and s = s])
            (use d i key Some slot V in simp_all)
        with True show ?thesis by simp
      qed (simp add: wp_simps)
    qed
  qed
  have after_key: "wlp (if fst k \<noteq> OK then ret (fst k) else
      bnd (gets (\<lambda>s. publish_slot (ds_store s) m (snd k))) (\<lambda>slot. case slot of Inl e \<Rightarrow> ret e | Inr i \<Rightarrow>
        bnd (publish_value os m i) (\<lambda>r. if r \<noteq> OK then ret r
        else andthen (publish_attributes m (snd k) src i) (andthen (update_subscribers os i True) (ret OK)))))
      (\<lambda>r t. r = OK \<longrightarrow> published os m V s t) s1"
    if k: "case request_key os m (stack_array os DS_MAX_KEYLEN) (p_world s) of None \<Rightarrow> fst k \<noteq> OK | Some key \<Rightarrow> k = (OK, key)"
      and s1: "tables s1 = tables s" "p_world s1 = p_world s
        \<or> p_world s1 = snd (os_safecopyfrom os (dm_source m) (key_grant m) (unat (key_len m)) (p_world s))" for k s1
  proof (cases "request_key os m (stack_array os DS_MAX_KEYLEN) (p_world s)")
    case None
    with k show ?thesis by (simp add: wp_simps)
  next
    case (Some key)
    with k have k': "k = (OK, key)" by simp
    from step [OF Some _ s1] s1(1) publish_slot_error [of "ds_store s" m key] show ?thesis
      unfolding k' fst_conv snd_conv
      by (cases "publish_slot (ds_store s) m key")
        (auto simp: wlp_bnd [of "gets f" for f] wlp_gets wlp_ret)
  qed
  show ?thesis
  proof (cases "has (dm_flags m) DSF_TYPE_LABEL \<and> dm_source m \<noteq> RS_PROC_NR")
    case True
    then show ?thesis by (simp add: do_publish_def Some wp_simps)
  next
    case False
    have "wlp (bnd (get_key_name os m (stack_array os DS_MAX_KEYLEN)) (\<lambda>k. if fst k \<noteq> OK then ret (fst k) else
      bnd (gets (\<lambda>s. publish_slot (ds_store s) m (snd k))) (\<lambda>slot. case slot of Inl e \<Rightarrow> ret e | Inr i \<Rightarrow>
        bnd (publish_value os m i) (\<lambda>r. if r \<noteq> OK then ret r
        else andthen (publish_attributes m (snd k) src i) (andthen (update_subscribers os i True) (ret OK))))))
      (\<lambda>r t. r = OK \<longrightarrow> published os m V s t) s"
      unfolding wlp_bnd [of "get_key_name os m (stack_array os DS_MAX_KEYLEN)"]
      by (rule wlp_mono [OF wp_wlp [OF get_key_name_key]]) (rule after_key; simp)
    with False Some show ?thesis by (simp only: do_publish_def wlp_bnd wlp_gets option.case if_False)
  qed
qed (simp add: do_publish_def wp_simps)

section \<open>Publishing updates the map\<close>

lemma value_stored_words:
  "value_stored os W m s i d h \<Longrightarrow> same_words d d' \<Longrightarrow> value_stored os W m s i d' h"
  by (auto simp: value_stored_def same_words_def buffer_ok_def)

text \<open>The entries of the other slots have the values they had.\<close>

lemma value_stored_others:
  assumes st: "value_stored os W m s i d h" and heap: "heap_ok s"
    and i: "i < length (ds_store s)" and j: "j < length (ds_store s)" "j \<noteq> i" "in_use (ds_store s ! j)"
    and ty: "in_use (ds_store s ! i) \<longrightarrow> type_of (d_flags (ds_store s ! i)) = type_of (dm_flags m)"
  shows "value_of h (ds_store s ! j) = value_of (ds_heap s) (ds_store s ! j)"
    and "mem_entry (ds_store s ! j) \<Longrightarrow> h (d_word (ds_store s ! j)) = ds_heap s (d_word (ds_store s ! j))"
    and "mem_type (dm_flags m) \<Longrightarrow> mem_entry (ds_store s ! j) \<Longrightarrow> d_word (ds_store s ! j) \<noteq> d_word d"
proof -
  let ?q = "d_word (ds_store s ! j)"
  have kept: "h ?q = ds_heap s ?q \<and> ?q \<noteq> d_word d" if mj: "mem_entry (ds_store s ! j)" and mt: "mem_type (dm_flags m)"
  proof -
    have "ds_heap s ?q \<noteq> None" using heap j mj by (auto simp: heap_ok_def buffer_ok_def)
    moreover have "?q \<noteq> d_word (ds_store s ! i)" if "in_use (ds_store s ! i)"
      using heap i j mj mt ty that unfolding heap_ok_def mem_entry_def by metis
    moreover have "others_kept s i (d_word d) h" using st mt by (simp add: value_stored_def)
    ultimately show ?thesis by (auto simp: others_kept_def)
  qed
  show eq: "h ?q = ds_heap s ?q" if "mem_entry (ds_store s ! j)"
    using kept that st by (cases "mem_type (dm_flags m)") (simp_all add: value_stored_def)
  show "value_of h (ds_store s ! j) = value_of (ds_heap s) (ds_store s ! j)"
    using eq j(3) by (auto simp: value_of_def mem_entry_def)
  show "?q \<noteq> d_word d" if "mem_type (dm_flags m)" "mem_entry (ds_store s ! j)"
    using kept that by blast
qed

text \<open>The value a request stores, as the map has it.\<close>

definition request_value :: "'w ds_os \<Rightarrow> ('w \<Rightarrow> bool) \<Rightarrow> ds_msg \<Rightarrow> ds_value \<Rightarrow> bool" where
  "request_value os W m v \<longleftrightarrow>
     (if mem_type (dm_flags m) then
        (\<exists>w data w'. W w \<and> os_safecopyfrom os (dm_source m) (val_in m) (unat (val_len m)) w = ((OK, data), w')
          \<and> v = Bytes (stored_bytes m data))
      else v = Number (val_in m))"

lemma stored_value:
  assumes "value_stored os W m s i d h" and "d_flags d = DSF_IN_USE OR (dm_flags m AND DSF_MASK_INTERNAL)"
  shows "request_value os W m (value_of h d)"
  using assms by (auto simp: value_stored_def request_value_def value_of_def) blast+

lemma heap_ok_store:
  assumes st: "value_stored os W m s i d (ds_heap t)" and t: "ds_store t = (ds_store s)[i := d]"
    and heap: "heap_ok s" and i: "i < length (ds_store s)"
    and ty: "in_use (ds_store s ! i) \<longrightarrow> type_of (d_flags (ds_store s ! i)) = type_of (dm_flags m)"
    and d: "type_of (d_flags d) = type_of (dm_flags m)"
  shows "heap_ok t"
proof -
  have old: "buffer_ok (ds_heap t) (ds_store s ! j)" "mem_type (dm_flags m) \<Longrightarrow> d_word (ds_store s ! j) \<noteq> d_word d"
    if "j < length (ds_store s)" "j \<noteq> i" "mem_entry (ds_store s ! j)" for j
    using value_stored_others(2,3) [OF st heap i that(1,2) _ ty] that heap
    by (auto simp: mem_entry_def buffer_ok_def heap_ok_def)
  have new: "buffer_ok (ds_heap t) d" "mem_type (dm_flags m)" if "mem_entry d"
    using st that d by (auto simp: mem_entry_def value_stored_def)
  show ?thesis
    unfolding heap_ok_def t length_list_update
  proof (intro conjI allI impI)
    fix j
    assume "j < length (ds_store s)" "mem_entry ((ds_store s)[i := d] ! j)"
    then show "buffer_ok (ds_heap t) ((ds_store s)[i := d] ! j)"
      using old(1) new(1) i by (cases "j = i") auto
  next
    fix j k
    assume "j < length (ds_store s)" "k < length (ds_store s)" "j \<noteq> k"
      "mem_entry ((ds_store s)[i := d] ! j)" "mem_entry ((ds_store s)[i := d] ! k)"
    then show "d_word ((ds_store s)[i := d] ! j) \<noteq> d_word ((ds_store s)[i := d] ! k)"
      using old(2) new(2) i heap by (cases "j = i"; cases "k = i") (auto simp: heap_ok_def dest: sym)
  qed
qed

text \<open>A type other than that of labels: the slot was free or holds the very key.\<close>

lemma publish_slot_same_key:
  assumes "publish_slot store m key = Inr i" and ok: "list_all entry_ok store" and ty: "type_ok (dm_flags m)"
    and nl: "type_of (dm_flags m) \<noteq> DSF_TYPE_LABEL" and use: "in_use (store ! i)"
  shows "holds (store ! i) (type_of (dm_flags m)) (cstr key)"
proof -
  have t: "type_of (dm_flags m) \<in> types" using ty by (simp add: type_ok_def)
  have "\<not> has (dm_flags m) DSF_TYPE_LABEL" using has_type [OF ty, of DSF_TYPE_LABEL] nl by simp
  moreover have "alloc_data_slot store \<noteq> Some i" using use by (simp add: alloc_data_slot_def first_slot_Some)
  ultimately have "lookup_entry store key (type_of (dm_flags m)) = Some i"
    using publish_slot_found [OF assms(1)] by metis
  then show ?thesis using lookup_slot_of [OF ok t] slot_of_holds by metis
qed

text \<open>The names of the processes do not change when a slot that is no label gets a value that is none.\<close>

lemma proc_name_store:
  assumes all: "list_all entry_ok (ds_store s)" and t: "ds_store t = (ds_store s)[i := d]" and i: "i < length (ds_store s)"
    and old: "in_use (ds_store s ! i) \<longrightarrow> type_of (d_flags (ds_store s ! i)) \<noteq> DSF_TYPE_LABEL"
    and new: "type_ok (d_flags d)" "type_of (d_flags d) \<noteq> DSF_TYPE_LABEL"
  shows "proc_name t e = proc_name s e"
proof -
  have no: "\<not> (in_use (ds_store s ! i) \<and> has (d_flags (ds_store s ! i)) DSF_TYPE_LABEL)" "\<not> has (d_flags d) DSF_TYPE_LABEL"
    using old new list_all_nth [OF all i] has_type [of "d_flags (ds_store s ! i)" DSF_TYPE_LABEL]
      has_type [OF new(1), of DSF_TYPE_LABEL] by (auto simp: entry_ok_def)
  have eq: "lookup_label_entry (ds_store t) e = lookup_label_entry (ds_store s) e"
    unfolding lookup_label_entry_def
  proof (rule first_slot_cong)
    fix j
    assume "j < length (ds_store s)"
    then show "(in_use (ds_store t ! j) \<and> has (d_flags (ds_store t ! j)) DSF_TYPE_LABEL \<and> d_word (ds_store t ! j) = e)
      = (in_use (ds_store s ! j) \<and> has (d_flags (ds_store s ! j)) DSF_TYPE_LABEL \<and> d_word (ds_store s ! j) = e)"
      using no i by (cases "j = i") (auto simp: t)
  qed (simp add: t)
  have "ds_store t ! j = ds_store s ! j" if "lookup_label_entry (ds_store s) e = Some j" for j
  proof -
    have "j \<noteq> i" using that no(1) by (auto simp: lookup_label_entry_def first_slot_Some)
    then show ?thesis by (simp add: t)
  qed
  then show ?thesis
    by (cases "lookup_label_entry (ds_store s) e") (simp_all add: proc_name_def ds_getprocname_def eq name_at_def)
qed

lemma published_map:
  assumes pub: "published os m (value_stored os W m s) s t"
    and ok: "tables_ok s" "keys_unique (ds_store s)" "heap_ok s"
    and nl: "type_of (dm_flags m) \<noteq> DSF_TYPE_LABEL"
  shows "\<exists>key name v. request_key os m (stack_array os DS_MAX_KEYLEN) (p_world s) = Some key
    \<and> proc_name s (dm_source m) = Some name \<and> request_value os W m v
    \<and> abs_ds t = (abs_ds s)((type_of (dm_flags m), cstr key)
         \<mapsto> (name, DSF_IN_USE OR (dm_flags m AND DSF_MASK_INTERNAL), v))
    \<and> keys_unique (ds_store t) \<and> heap_ok t \<and> proc_name t = proc_name s"
proof -
  let ?ty = "type_of (dm_flags m)"
  obtain key src i d where key: "request_key os m (stack_array os DS_MAX_KEYLEN) (p_world s) = Some key"
    and src: "ds_getprocname (ds_store s) (dm_source m) = Some src"
    and slot: "publish_slot (ds_store s) m key = Inr i" and ty: "type_ok (dm_flags m)"
    and t: "ds_store t = (ds_store s)[i := d]"
    and d: "d_flags d = DSF_IN_USE OR (dm_flags m AND DSF_MASK_INTERNAL)" "cstr (d_key d) = cstr key"
      "cstr (d_owner d) = stored_owner (ds_store s) src i key"
    and st: "value_stored os W m s i d (ds_heap t)"
    using pub unfolding published_def by blast
  have all: "list_all entry_ok (ds_store s)" using ok(1) by (simp add: tables_ok_def)
  from publish_slot_cases [OF slot all ty] ok(2) have i: "i < length (ds_store s)"
    and ity: "in_use (ds_store s ! i) \<longrightarrow> type_of (d_flags (ds_store s ! i)) = ?ty"
    and free: "slot_free_for (ds_store s) i ?ty (cstr key)" by auto
  have hd: "holds d ?ty (cstr key)" using d by (simp add: holds_def stored_in_use)
  have "src \<noteq> Key_of i"
  proof
    assume "src = Key_of i"
    then have "lookup_label_entry (ds_store s) (dm_source m) = Some i"
      using src by (auto simp: ds_getprocname_def split: if_splits)
    then have "in_use (ds_store s ! i)" "has (d_flags (ds_store s ! i)) DSF_TYPE_LABEL"
      by (simp_all add: lookup_label_entry_def first_slot_Some)
    then show False
      using ity nl list_all_nth [OF all i] has_type [of "d_flags (ds_store s ! i)" DSF_TYPE_LABEL]
      by (simp add: entry_ok_def)
  qed
  then have name: "proc_name s (dm_source m) = Some (cstr (d_owner d))"
    using src d(3) by (simp add: proc_name_def stored_owner_def)
  have abs: "abs_ds t = (abs_ds s)((?ty, cstr key) \<mapsto> entry_of (ds_heap t) d)"
  proof (rule ext)
    fix x :: "s32 \<times> byte list"
    obtain ty' k' where x: "x = (ty', k')" by fastforce
    have "slot_of (ds_store s) ty' k' \<noteq> Some i" if "x \<noteq> (?ty, cstr key)"
      using publish_slot_same_key [OF slot all ty nl] slot_of_holds [of "ds_store s" ty' k' i] that x
      by (auto simp: holds_def)
    then have "slot_of (ds_store t) ty' k' = (if x = (?ty, cstr key) then Some i else slot_of (ds_store s) ty' k')"
      unfolding t slot_of_store [OF ok(2) hd free] using x by auto
    moreover have "entry_of (ds_heap t) (ds_store t ! j) = entry_of (ds_heap s) (ds_store s ! j)"
      if "slot_of (ds_store s) ty' k' = Some j" "x \<noteq> (?ty, cstr key)" for j
      using slot_of_holds [OF that(1)] that \<open>x \<noteq> (?ty, cstr key) \<Longrightarrow> _\<close>
        value_stored_others(1) [OF st ok(3) i _ _ _ ity, of j] t
      by (auto simp: entry_of_def holds_def)
    ultimately show "abs_ds t x = ((abs_ds s)((?ty, cstr key) \<mapsto> entry_of (ds_heap t) d)) x"
      using i t by (cases "slot_of (ds_store s) ty' k'") (auto simp: abs_ds_def x)
  qed
  have "type_ok (d_flags d)" "type_of (d_flags d) \<noteq> DSF_TYPE_LABEL" using d(1) ty nl by (simp_all add: type_ok_def)
  then have names: "proc_name t = proc_name s"
    by (intro ext proc_name_store [OF all t i]) (use ity nl in auto)
  show ?thesis
    using key name names abs stored_value [OF st d(1)] keys_unique_store [OF ok(2) hd free] d(1)
      heap_ok_store [OF st t ok(3) i ity] t
    by (auto simp: entry_of_def)
qed

end
