(* ===== verification/Ds_Notify.thy ===== *)
theory Ds_Notify
  imports Ds_Spec
begin

text \<open>
  The subscribers of the data store: what an update marks, and that the update of the
  subscribers returns as long as the owner of every subscription has a label.
\<close>

section \<open>Marks\<close>

definition labelled :: "'w ds \<Rightarrow> bool" where
  "labelled s \<longleftrightarrow> (\<forall>u \<in> set (ds_subs s). has (sub_flags u) DSF_IN_USE
     \<longrightarrow> lookup_entry (ds_store s) (sub_owner u) DSF_TYPE_LABEL \<noteq> None)"

definition owner_ep :: "data_store list \<Rightarrow> byte list \<Rightarrow> endpoint" where
  "owner_ep store name = (case lookup_entry store name DSF_TYPE_LABEL of
      None \<Rightarrow> 0 | Some i \<Rightarrow> d_word (store ! i))"

definition interested :: "'w ds_os \<Rightarrow> data_store list \<Rightarrow> nat \<Rightarrow> subscription \<Rightarrow> bool" where
  "interested os store nr u \<longleftrightarrow> has (sub_flags u) DSF_IN_USE
     \<and> sub_flags u AND d_flags (store ! nr) AND DSF_MASK_TYPE \<noteq> 0
     \<and> check_sub_match os store u (store ! nr) (owner_ep store (sub_owner u))"

definition marked :: "'w ds_os \<Rightarrow> data_store list \<Rightarrow> nat \<Rightarrow> bool \<Rightarrow> subscription \<Rightarrow> subscription" where
  "marked os store nr b u =
     (if interested os store nr u
      then u\<lparr>old_subs := (if b then SET_BIT (old_subs u) nr else UNSET_BIT (old_subs u) nr)\<rparr>
      else u)"

abbreviation subscribers :: "'w ds \<Rightarrow> (s32 \<times> byte list) list" where
  "subscribers s \<equiv> map (\<lambda>u. (sub_flags u, sub_owner u)) (ds_subs s)"

lemma marked_fields [simp]:
  "sub_flags (marked os store nr b u) = sub_flags u" "sub_owner (marked os store nr b u) = sub_owner u"
  by (simp_all add: marked_def)

lemma labelled_subscribers:
  fixes s t :: "'w ds"
  assumes "subscribers t = subscribers s" and "ds_store t = ds_store s"
  shows "labelled t = labelled s"
proof -
  have alt: "labelled u = (\<forall>(f, ow) \<in> set (subscribers u). has f DSF_IN_USE
      \<longrightarrow> lookup_entry (ds_store u) ow DSF_TYPE_LABEL \<noteq> None)" for u :: "'w ds"
    by (simp add: labelled_def)
  show ?thesis unfolding alt assms ..
qed

lemma update_subscriber_wp:
  assumes "i < length (ds_subs s)"
    and lab: "has (sub_flags (ds_subs s ! i)) DSF_IN_USE
      \<longrightarrow> lookup_entry (ds_store s) (sub_owner (ds_subs s ! i)) DSF_TYPE_LABEL \<noteq> None"
    and W: "stable os W" "W (p_world s)"
  shows "wp (update_subscriber os nr b i) (\<lambda>_ t. tables t = tables s \<and> W (p_world t)
     \<and> ds_subs t = (ds_subs s)[i := marked os (ds_store s) nr b (ds_subs s ! i)]) s"
proof (cases "has (sub_flags (ds_subs s ! i)) DSF_IN_USE")
  case True
  then obtain j where j: "lookup_entry (ds_store s) (sub_owner (ds_subs s ! i)) DSF_TYPE_LABEL = Some j"
    using lab by blast
  then have "owner_ep (ds_store s) (sub_owner (ds_subs s ! i)) = d_word (ds_store s ! j)"
    by (simp add: owner_ep_def)
  with True j W show ?thesis
    by (auto simp: update_subscriber_def ds_getprocep_def set_sub_def wp_simps marked_def interested_def stable_def)
next
  case False
  with W(2) show ?thesis
    by (simp add: update_subscriber_def wp_simps marked_def interested_def)
qed

lemma update_subscribers_wp:
  assumes len: "length (ds_subs s) = NR_DS_SUBS" and lab: "labelled s"
    and W: "stable os W" "W (p_world s)"
  shows "wp (update_subscribers os nr b) (\<lambda>_ t. tables t = tables s \<and> W (p_world t)
     \<and> ds_subs t = map (marked os (ds_store s) nr b) (ds_subs s)) s"
proof -
  let ?f = "marked os (ds_store s) nr b"
  let ?I = "\<lambda>k t. tables t = tables s \<and> W (p_world t) \<and> ds_subs t = map ?f (take k (ds_subs s)) @ drop k (ds_subs s)"
  have "wp (for_m [0..<NR_DS_SUBS] (update_subscriber os nr b)) (\<lambda>_. ?I NR_DS_SUBS) s"
  proof (rule wp_for [where I = ?I])
    fix k and t :: "'a ds"
    assume k: "k < NR_DS_SUBS" and I: "?I k t"
    have kt: "ds_subs t ! k = ds_subs s ! k" "k < length (ds_subs t)" using I k len by (simp_all add: nth_append)
    have "ds_subs s ! k \<in> set (ds_subs s)" using k len by simp
    then have lk: "has (sub_flags (ds_subs t ! k)) DSF_IN_USE
        \<longrightarrow> lookup_entry (ds_store t) (sub_owner (ds_subs t ! k)) DSF_TYPE_LABEL \<noteq> None"
      using lab I kt by (simp add: labelled_def)
    have step: "(map ?f (take k (ds_subs s)) @ drop k (ds_subs s))[k := ?f (ds_subs s ! k)]
        = map ?f (take (Suc k) (ds_subs s)) @ drop (Suc k) (ds_subs s)"
      using k len by (simp add: take_Suc_conv_app_nth list_update_append Cons_nth_drop_Suc [symmetric])
    show "wp (update_subscriber os nr b k) (\<lambda>_. ?I (Suc k)) t"
      by (rule wp_mono [OF update_subscriber_wp [OF kt(2) lk W(1)]]) (use I kt step in auto)
  qed (use W in simp)
  then show ?thesis using len by (simp add: update_subscribers_def)
qed

section \<open>Publishing returns\<close>

lemma labelled_store:
  assumes lab: "labelled s" and all: "list_all entry_ok (ds_store s)" and i: "i < length (ds_store s)"
    and ity: "in_use (ds_store s ! i) \<longrightarrow> type_of (d_flags (ds_store s ! i)) \<noteq> DSF_TYPE_LABEL"
    and t: "ds_store t = (ds_store s)[i := d]" "ds_subs t = ds_subs s"
  shows "labelled t"
  unfolding labelled_def t(2)
proof (intro ballI impI)
  fix u
  assume "u \<in> set (ds_subs s)" "has (sub_flags u) DSF_IN_USE"
  with lab obtain j where "lookup_entry (ds_store s) (sub_owner u) DSF_TYPE_LABEL = Some j"
    unfolding labelled_def by blast
  then have j: "j < length (ds_store s)" "in_use (ds_store s ! j)" "has (d_flags (ds_store s ! j)) DSF_TYPE_LABEL"
    "cstr (d_key (ds_store s ! j)) = cstr (sub_owner u)"
    by (simp_all add: lookup_entry_def first_slot_Some)
  have "j \<noteq> i"
    using j ity list_all_nth [OF all i] has_type [of "d_flags (ds_store s ! i)" DSF_TYPE_LABEL] by (auto simp: entry_ok_def)
  with j have "(ds_store t) ! j = ds_store s ! j" "j < length (ds_store t)" using t(1) by simp_all
  with j show "lookup_entry (ds_store t) (sub_owner u) DSF_TYPE_LABEL \<noteq> None"
    unfolding lookup_entry_def first_slot_None by auto
qed

definition fits :: "byte list \<Rightarrow> bool" where
  "fits k \<longleftrightarrow> terminated k \<and> length (cstr k) < DS_MAX_KEYLEN"

lemma fits_array: "terminated k \<Longrightarrow> length k = DS_MAX_KEYLEN \<Longrightarrow> fits k"
  using length_cstr_less [of k] by (simp add: fits_def)

lemma request_key_fits: "request_key os m (stack_array os DS_MAX_KEYLEN) w = Some key \<Longrightarrow> fits key"
proof (rule fits_array)
  assume *: "request_key os m (stack_array os DS_MAX_KEYLEN) w = Some key"
  let ?n = "unat (key_len m)"
  have n: "?n \<le> 80"
  proof -
    have "sint (key_len m) \<le> 80" "0 \<le> sint (key_len m)"
      using * by (auto simp: request_key_def Let_def split: if_splits)
    then have "uint (key_len m) = sint (key_len m)" by (subst uint_sint) (simp add: take_bit_int_eq_self)
    then show ?thesis using \<open>sint (key_len m) \<le> 80\<close> by (simp add: unat_eq_nat_uint)
  qed
  from * obtain f where k: "key = (overwrite 0 (map f [0..<?n]) (stack_array os 80))[79 := 0]"
    by (auto simp: request_key_def Let_def split: if_splits)
  have len: "length (overwrite 0 (map f [0..<?n]) (stack_array os 80)) = 80"
    using n by (subst length_overwrite) (simp_all add: stack_array_def)
  then show "length key = DS_MAX_KEYLEN" by (simp add: k)
  have "79 < length (overwrite 0 (map f [0..<?n]) (stack_array os 80))" using len by simp
  then show "terminated key" unfolding k by (rule set_update_memI)
qed

lemma name_fits:
  assumes "list_all entry_ok store" and "ds_getprocname store e = Some src"
  shows "fits (name_at store src)"
proof (cases src)
  case First_proc
  then show ?thesis by (simp add: fits_def name_at_def bytes_of_def cstr_def)
next
  case (Key_of i)
  then have "i < length store"
    using assms(2) by (auto simp: ds_getprocname_def lookup_label_entry_def first_slot_Some split: if_splits)
  with list_all_nth [OF assms(1) this] Key_of show ?thesis
    by (auto simp: name_at_def entry_ok_def intro: fits_array)
qed

lemma publish_attributes_wp:
  assumes "i < length (ds_store s)" and "fits key" and "fits (name_at (ds_store s) src)"
  shows "wp (publish_attributes m key src i) (\<lambda>_ t.
     t = s\<lparr>ds_store := (ds_store s)[i := stored_slot (ds_store s) m key src i]\<rparr>) s"
  using assms
  by (cases src) (auto simp: publish_attributes_def strcpy_slot_def wp_simps stored_slot_def
      stored_owner_def name_at_def fits_def nth_list_update)

text \<open>What a request needs to be carried out: a name for its source, a key, a type and a slot.\<close>

definition publishable :: "'w ds_os \<Rightarrow> ds_msg \<Rightarrow> 'w ds \<Rightarrow> byte list \<Rightarrow> name_ptr \<Rightarrow> nat \<Rightarrow> bool" where
  "publishable os m s key src i \<longleftrightarrow> tables_ok s \<and> labelled s
     \<and> ds_getprocname (ds_store s) (dm_source m) = Some src
     \<and> request_key os m (stack_array os DS_MAX_KEYLEN) (p_world s) = Some key
     \<and> publish_slot (ds_store s) m key = Inr i
     \<and> type_ok (dm_flags m) \<and> type_of (dm_flags m) \<noteq> DSF_TYPE_LABEL"

lemma publish_finish:
  fixes s t :: "'w ds"
  assumes pub: "publishable os m s key src i" and W: "stable os W" "W (p_world t)"
    and t: "ds_store t = (ds_store s)[i := d]" "ds_subs t = ds_subs s" "d_key d = d_key (ds_store s ! i)"
  shows "wp (andthen (publish_attributes m key src i) (andthen (update_subscribers os i True) (ret OK)))
     (\<lambda>r u. r = OK \<and> W (p_world u) \<and> labelled u
       \<and> ds_subs u = map (marked os (ds_store u) i True) (ds_subs s)) t"
proof -
  have s: "tables_ok s" "labelled s" "list_all entry_ok (ds_store s)" "ds_getprocname (ds_store s) (dm_source m) = Some src"
    "fits key" "length (ds_subs s) = NR_DS_SUBS"
    using pub request_key_fits by (auto simp: publishable_def tables_ok_def)
  from publish_slot_cases [of "ds_store s" m key i] pub s(3) have i: "i < length (ds_store s)"
    and ity: "in_use (ds_store s ! i) \<longrightarrow> type_of (d_flags (ds_store s ! i)) \<noteq> DSF_TYPE_LABEL"
    by (auto simp: publishable_def)
  have it: "i < length (ds_store t)" using i t(1) by simp
  have "name_at (ds_store t) src = name_at (ds_store s) src"
    using t(1,3) i by (cases src) (auto simp: name_at_def nth_list_update)
  then have nf: "fits (name_at (ds_store t) src)" using name_fits [OF s(3,4)] by simp
  let ?u = "t\<lparr>ds_store := (ds_store t)[i := stored_slot (ds_store t) m key src i]\<rparr>"
  have lab: "labelled ?u"
    by (rule labelled_store [OF s(2,3) i ity]) (use t in simp_all)
  then have upd: "wp (update_subscribers os i True) (\<lambda>_ u. tables u = tables ?u \<and> W (p_world u)
      \<and> ds_subs u = map (marked os (ds_store ?u) i True) (ds_subs ?u)) ?u"
    by (intro update_subscribers_wp) (use s(6) t(2) W in simp_all)
  have "labelled u" if "tables u = tables ?u" "ds_subs u = map (marked os (ds_store ?u) i True) (ds_subs ?u)" for u :: "'w ds"
    using labelled_subscribers [of u ?u] lab that by simp
  with upd have "wp (update_subscribers os i True) (\<lambda>_ u. W (p_world u) \<and> labelled u
      \<and> ds_subs u = map (marked os (ds_store u) i True) (ds_subs s)) ?u"
    by (elim wp_mono) (use t(2) in auto)
  then show ?thesis
    unfolding wp_andthen wp_ret
    by (intro wp_mono [OF publish_attributes_wp [OF it s(5) nf]]) simp
qed

lemma do_publish_wp:
  fixes s :: "'w ds"
  assumes pub: "publishable os m s key src i" and W: "stable os W" "W (p_world s)"
    and val: "\<And>s1 :: 'w ds. tables s1 = tables s \<Longrightarrow> ds_subs s1 = ds_subs s \<Longrightarrow> W (p_world s1)
      \<Longrightarrow> wp (publish_value os m i) (\<lambda>r t. r = OK \<and> W (p_world t) \<and> ds_subs t = ds_subs s
        \<and> (\<exists>d. ds_store t = (ds_store s)[i := d] \<and> d_key d = d_key (ds_store s ! i))) s1"
  shows "wp (do_publish os m) (\<lambda>r t. r = OK \<and> W (p_world t) \<and> labelled t
    \<and> ds_subs t = map (marked os (ds_store t) i True) (ds_subs s)) s"
proof -
  have p: "ds_getprocname (ds_store s) (dm_source m) = Some src"
    "request_key os m (stack_array os DS_MAX_KEYLEN) (p_world s) = Some key"
    "publish_slot (ds_store s) m key = Inr i" "type_ok (dm_flags m)" "type_of (dm_flags m) \<noteq> DSF_TYPE_LABEL"
    using pub by (simp_all add: publishable_def)
  have nl: "\<not> has (dm_flags m) DSF_TYPE_LABEL" using has_type [OF p(4), of DSF_TYPE_LABEL] p(5) by simp
  let ?Q = "\<lambda>r t. r = OK \<and> W (p_world t) \<and> labelled t \<and> ds_subs t = map (marked os (ds_store t) i True) (ds_subs s)"
  have value_done: "wp (bnd (publish_value os m i) (\<lambda>r. if r \<noteq> OK then ret r
      else andthen (publish_attributes m key src i) (andthen (update_subscribers os i True) (ret OK)))) ?Q s1"
    if "tables s1 = tables s" "ds_subs s1 = ds_subs s" "W (p_world s1)" for s1
    unfolding wp_bnd
    by (rule wp_mono [OF val [OF that]]) (auto intro!: publish_finish [OF pub W(1), simplified])
  have "wp (bnd (get_key_name os m (stack_array os DS_MAX_KEYLEN)) (\<lambda>k. if fst k \<noteq> OK then ret (fst k) else
      bnd (gets (\<lambda>s. publish_slot (ds_store s) m (snd k))) (\<lambda>slot. case slot of Inl e \<Rightarrow> ret e | Inr i \<Rightarrow>
        bnd (publish_value os m i) (\<lambda>r. if r \<noteq> OK then ret r
        else andthen (publish_attributes m (snd k) src i) (andthen (update_subscribers os i True) (ret OK)))))) ?Q s"
    unfolding wp_bnd [of "get_key_name os m (stack_array os DS_MAX_KEYLEN)"]
  proof (rule wp_mono [OF get_key_name_key])
    fix k and t :: "'w ds"
    assume *: "(case request_key os m (stack_array os DS_MAX_KEYLEN) (p_world s) of None \<Rightarrow> fst k \<noteq> OK
         | Some key \<Rightarrow> k = (OK, key))
       \<and> ds_store t = ds_store s \<and> ds_subs t = ds_subs s \<and> ds_heap t = ds_heap s
       \<and> (p_world t = p_world s
          \<or> p_world t = snd (os_safecopyfrom os (dm_source m) (key_grant m) (unat (key_len m)) (p_world s)))"
    then have k: "k = (OK, key)" using p(2) by simp
    have "wp (bnd (publish_value os m i) (\<lambda>r. if r \<noteq> OK then ret r
      else andthen (publish_attributes m key src i) (andthen (update_subscribers os i True) (ret OK)))) ?Q t"
      by (rule value_done) (use * W in \<open>auto simp: stable_def\<close>)
    with * p(3) show "wp (if fst k \<noteq> OK then ret (fst k) else
        bnd (gets (\<lambda>s. publish_slot (ds_store s) m (snd k))) (\<lambda>slot. case slot of Inl e \<Rightarrow> ret e | Inr i \<Rightarrow>
          bnd (publish_value os m i) (\<lambda>r. if r \<noteq> OK then ret r
          else andthen (publish_attributes m (snd k) src i) (andthen (update_subscribers os i True) (ret OK))))) ?Q t"
      unfolding k fst_conv snd_conv by (simp add: wp_bnd [of "gets f" for f] wp_gets)
  qed
  with nl p(1) show ?thesis unfolding do_publish_def by (simp only: wp_bnd wp_gets option.case if_False simp_thms)
qed

end
