(* ===== verification/Ds_Access.thy ===== *)
theory Ds_Access
  imports Ds_Notify
begin

text \<open>
  The requests of a client as operations on the map: storing numbers and buffers returns and
  updates the map, retrieving reads it, deleting removes from it, and a request that is refused
  leaves it alone.
\<close>

section \<open>Publishing\<close>

text \<open>The allocator has a block, and the memory of the client can be read.\<close>

definition room :: "'w ds_os \<Rightarrow> ('w \<Rightarrow> bool) \<Rightarrow> heap \<Rightarrow> nat \<Rightarrow> bool" where
  "room os W h n \<longleftrightarrow> (\<forall>w. W w \<longrightarrow> fst (fst (os_malloc os n w)) \<noteq> 0 \<and> h (fst (fst (os_malloc os n w))) = None)"

definition readable :: "'w ds_os \<Rightarrow> ('w \<Rightarrow> bool) \<Rightarrow> ds_msg \<Rightarrow> byte list \<Rightarrow> bool" where
  "readable os W m bs \<longleftrightarrow> (\<forall>w. W w \<longrightarrow> (\<exists>data w'.
     os_safecopyfrom os (dm_source m) (val_in m) (unat (val_len m)) w = ((OK, data), w') \<and> stored_bytes m data = bs))"

lemma new_block_returns:
  assumes "room os W (ds_heap s) (unat len)" and "W (p_world s)"
  shows "wp (new_block os i len) (\<lambda>r t. r = OK) s"
  using assms by (auto simp: new_block_def wp_simps Let_def malloc_def room_def)

lemma publish_buffer_returns:
  assumes room: "room os W (ds_heap s) (unat len)" and W: "W (p_world s)"
    and buf: "in_use (ds_store s ! i) \<Longrightarrow> buffer_ok (ds_heap s) (ds_store s ! i)"
  shows "wp (publish_buffer os i len) (\<lambda>r t. r = OK) s"
proof -
  let ?s = "s\<lparr>ds_heap := (ds_heap s)(d_word (ds_store s ! i) := None)\<rparr>"
  have "room os W (ds_heap ?s) (unat len)" using room by (simp add: room_def)
  then have new: "wp (new_block os i len) (\<lambda>r t. r = OK) ?s" by (rule new_block_returns) (use W in simp)
  show ?thesis
  proof (cases "in_use (ds_store s ! i)")
    case True
    with new buf [OF True] show ?thesis
      by (auto simp: publish_buffer_def wp_simps free_def buffer_ok_def)
  next
    case False
    with new_block_returns [OF room W] show ?thesis by (simp add: publish_buffer_def wp_simps)
  qed
qed

lemma publish_copy_returns:
  assumes i: "i < length (ds_store s)" and ready: "buffer_ready s i (val_len m) t"
    and W: "W (p_world t)" and bs: "readable os W m bs"
    and str: "has (dm_flags m) DSF_TYPE_STR \<Longrightarrow> val_len m \<noteq> 0"
  shows "wp (publish_copy os m i) (\<lambda>r u. r = OK \<and> ds_subs u = ds_subs s) t"
proof -
  obtain p b rl where t: "ds_store t = (ds_store s)[i := (ds_store s ! i)\<lparr>d_word := p, d_reallen := rl\<rparr>]"
    "ds_subs t = ds_subs s" "ds_heap t p = Some b" "length b = unat rl" "val_len m \<le> rl"
    using ready by (auto simp: buffer_ready_def)
  obtain data w' where c: "os_safecopyfrom os (dm_source m) (val_in m) (unat (val_len m)) (p_world t) = ((OK, data), w')"
    using bs W by (auto simp: readable_def)
  have word: "d_word (ds_store t ! i) = p" using t(1) i by simp
  have len: "unat (val_len m) \<le> unat rl" using t(5) by (simp add: word_le_nat_alt)
  have "unat (val_len m - 1) < unat rl" if "has (dm_flags m) DSF_TYPE_STR"
  proof -
    have "0 < unat (val_len m)" using str [OF that] by (simp add: unat_gt_0)
    with len str [OF that] show ?thesis by (simp add: unat_minus_one)
  qed
  moreover have "write_block p 0 (map data [0..<unat (val_len m)]) (ds_heap t)
      = Some ((ds_heap t)(p \<mapsto> overwrite 0 (map data [0..<unat (val_len m)]) b))"
    using t(3,4) len by (simp add: write_block_def)
  moreover have "write_block p n [0] (h(p \<mapsto> overwrite 0 (map data [0..<unat (val_len m)]) b))
      = (if n < unat rl then Some (h(p \<mapsto> overwrite n [0] (overwrite 0 (map data [0..<unat (val_len m)]) b))) else None)" for n h
    using t(4) len by (simp add: write_block_def)
  ultimately show ?thesis
    using t(2) by (simp add: publish_copy_def wp_simps c word)
qed

lemma publish_mem_returns:
  assumes i: "i < length (ds_store s)"
    and buf: "in_use (ds_store s ! i) \<Longrightarrow> buffer_ok (ds_heap s) (ds_store s ! i)"
    and W: "stable os W" "W (p_world s)" and room: "room os W (ds_heap s) (unat (val_len m))"
    and bs: "readable os W m bs" and str: "has (dm_flags m) DSF_TYPE_STR \<Longrightarrow> val_len m \<noteq> 0"
  shows "wp (publish_mem os m i) (\<lambda>r t. r = OK \<and> ds_subs t = ds_subs s) s"
  unfolding publish_mem_def wp_bnd
proof (rule wp_mono)
  show "wp (publish_buffer os i (val_len m)) (\<lambda>r t. r = OK \<and> (r = OK \<longrightarrow> buffer_ready s i (val_len m) t) \<and> W (p_world t)) s"
    using wp_conj_wlp [OF publish_buffer_returns [OF room W(2) buf], of "\<lambda>r t. (r = OK \<longrightarrow> buffer_ready s i (val_len m) t) \<and> W (p_world t)"]
      publish_buffer_ready [OF i buf] preservesD [OF world_publish_buffer [OF W(1)]] W(2)
    by (simp add: wlp_conj)
next
  fix r and t :: "'a ds"
  assume "r = OK \<and> (r = OK \<longrightarrow> buffer_ready s i (val_len m) t) \<and> W (p_world t)"
  then show "wp (if r \<noteq> OK then ret r else publish_copy os m i) (\<lambda>r t. r = OK \<and> ds_subs t = ds_subs s) t"
    using publish_copy_returns [OF i _ _ bs str, of t] by simp
qed

lemma world_publish_value [preserves_intros]:
  "stable os W \<Longrightarrow> preserves (in_world W) (publish_value os m i)"
  unfolding publish_value_def publish_mem_def publish_copy_def Let_def by (intro preserves_intros)

text \<open>The conditions under which the value of a request can be stored.\<close>

definition storable :: "'w ds_os \<Rightarrow> ('w \<Rightarrow> bool) \<Rightarrow> ds_msg \<Rightarrow> 'w ds \<Rightarrow> ds_value \<Rightarrow> bool" where
  "storable os W m s v \<longleftrightarrow>
     (if mem_type (dm_flags m) then
        room os W (ds_heap s) (unat (val_len m)) \<and> (\<exists>bs. readable os W m bs \<and> v = Bytes bs)
        \<and> (has (dm_flags m) DSF_TYPE_STR \<longrightarrow> val_len m \<noteq> 0)
      else v = Number (val_in m))"

lemma storable_value: "storable os W m s v \<Longrightarrow> request_value os W m v' \<Longrightarrow> v' = v"
  by (auto simp: storable_def request_value_def readable_def split: if_splits)

lemma publish_value_returns:
  assumes i: "i < length (ds_store s)" and ty: "type_ok (dm_flags m)"
    and buf: "mem_type (dm_flags m) \<Longrightarrow> in_use (ds_store s ! i) \<Longrightarrow> buffer_ok (ds_heap s) (ds_store s ! i)"
    and W: "stable os W" "W (p_world s)" and st: "storable os W m s v"
  shows "wp (publish_value os m i) (\<lambda>r t. r = OK \<and> ds_subs t = ds_subs s) s"
proof (cases "mem_type (dm_flags m)")
  case True
  then have "publish_value os m i = publish_mem os m i" by (auto simp: publish_value_def type_of_def)
  moreover obtain bs where "room os W (ds_heap s) (unat (val_len m))" "readable os W m bs"
    "has (dm_flags m) DSF_TYPE_STR \<longrightarrow> val_len m \<noteq> 0"
    using st True unfolding storable_def by metis
  ultimately show ?thesis using publish_mem_returns [OF i buf [OF True] W] by metis
next
  case False
  then have "dm_flags m AND DSF_MASK_TYPE = DSF_TYPE_U32 \<or> dm_flags m AND DSF_MASK_TYPE = DSF_TYPE_LABEL"
    using ty by (simp add: type_ok_def type_of_def)
  then show ?thesis by (auto simp: publish_value_def wp_simps Let_def)
qed

text \<open>
  A request to publish that finds a slot and can be carried out returns \<open>OK\<close> and updates the
  map at its type and key, with the name of the caller and the flags and the value given; the
  well-formedness of the store is kept, and the subscribers that match are marked.
\<close>

lemma do_publish_updates:
  fixes s :: "'w ds"
  assumes pub: "publishable os m s key src i" and W: "stable os W" "W (p_world s)"
    and u: "keys_unique (ds_store s)" and heap: "heap_ok s" and st: "storable os W m s v"
  shows "wp (do_publish os m) (\<lambda>r t. r = OK \<and> W (p_world t)
    \<and> abs_ds t = (abs_ds s)((type_of (dm_flags m), cstr key)
         \<mapsto> (cstr (name_at (ds_store s) src), DSF_IN_USE OR (dm_flags m AND DSF_MASK_INTERNAL), v))
    \<and> tables_ok t \<and> keys_unique (ds_store t) \<and> heap_ok t \<and> labelled t \<and> proc_name t = proc_name s
    \<and> ds_subs t = map (marked os (ds_store t) i True) (ds_subs s)) s"
proof -
  let ?V = "value_stored os W m s"
  have p: "tables_ok s" "ds_getprocname (ds_store s) (dm_source m) = Some src"
    "request_key os m (stack_array os DS_MAX_KEYLEN) (p_world s) = Some key"
    "publish_slot (ds_store s) m key = Inr i" "type_ok (dm_flags m)" "type_of (dm_flags m) \<noteq> DSF_TYPE_LABEL"
    using pub by (simp_all add: publishable_def)
  have all: "list_all entry_ok (ds_store s)" using p(1) by (simp add: tables_ok_def)
  have slot: "j < length (ds_store s)" "mem_type (dm_flags m) \<Longrightarrow> in_use (ds_store s ! j) \<Longrightarrow> buffer_ok (ds_heap s) (ds_store s ! j)"
    if "publish_slot (ds_store s) m k = Inr j" for k j
    using publish_slot_cases [OF that all p(5)] heap by (auto simp: heap_ok_def mem_entry_def)
  have val: "wlp (publish_value os m j) (\<lambda>r t. r = OK \<longrightarrow> (\<exists>d. ds_store t = (ds_store s)[j := d]
      \<and> d_key d = d_key (ds_store s ! j) \<and> d_owner d = d_owner (ds_store s ! j) \<and> ?V j d (ds_heap t))) s1"
    if "publish_slot (ds_store s) m k = Inr j" "tables s1 = tables s" "W (p_world s1)" for k j s1
  proof -
    have "value_stored os W m s1 j d h = ?V j d h" for d h
      using that(2) by (simp add: value_stored_def others_kept_def)
    then show ?thesis
      using publish_value_wlp [of j s1 os W m] slot [OF that(1)] that(2,3) W(1) by simp
  qed
  have wl: "wlp (do_publish os m) (\<lambda>r t. r = OK \<longrightarrow> published os m ?V s t) s"
    by (rule do_publish_wlp) (rule value_stored_words, assumption+, rule val, use W in \<open>auto simp: stable_def\<close>)
  have fin: "wp (publish_value os m i) (\<lambda>r t. r = OK \<and> W (p_world t) \<and> ds_subs t = ds_subs s
        \<and> (\<exists>d. ds_store t = (ds_store s)[i := d] \<and> d_key d = d_key (ds_store s ! i))) s1"
    if s1: "tables s1 = tables s" "ds_subs s1 = ds_subs s" "W (p_world s1)" for s1 :: "'w ds"
  proof -
    have "wp (publish_value os m i) (\<lambda>r t. r = OK \<and> ds_subs t = ds_subs s1) s1"
      by (rule publish_value_returns [where v = v, OF _ p(5) _ W(1) s1(3)])
        (use slot [OF p(4)] s1 st in \<open>auto simp: storable_def\<close>)
    from wp_conj_wlp [OF wp_conj_wlp [OF this preservesD [OF world_publish_value [OF W(1)] s1(3)]] val [OF p(4) s1(1,3)]]
    show ?thesis by (rule wp_mono) (use s1(2) in auto)
  qed
  have ret: "wp (do_publish os m) (\<lambda>r t. r = OK \<and> W (p_world t) \<and> labelled t
      \<and> ds_subs t = map (marked os (ds_store t) i True) (ds_subs s)) s"
    by (rule do_publish_wp [OF pub W]) (rule fin)
  have "wp (do_publish os m) (\<lambda>r t. ((r = OK \<and> W (p_world t) \<and> labelled t \<and> ds_subs t = map (marked os (ds_store t) i True) (ds_subs s))
      \<and> (r = OK \<longrightarrow> published os m ?V s t)) \<and> tables_ok t) s"
    by (rule wp_conj_wlp [OF wp_conj_wlp [OF ret wl] preservesD [OF preserves_do_publish p(1)]])
  then show ?thesis
  proof (rule wp_mono)
    fix r and t :: "'w ds"
    assume *: "((r = OK \<and> W (p_world t) \<and> labelled t \<and> ds_subs t = map (marked os (ds_store t) i True) (ds_subs s))
      \<and> (r = OK \<longrightarrow> published os m ?V s t)) \<and> tables_ok t"
    then obtain name v' where "proc_name s (dm_source m) = Some name" "request_value os W m v'"
      "abs_ds t = (abs_ds s)((type_of (dm_flags m), cstr key)
         \<mapsto> (name, DSF_IN_USE OR (dm_flags m AND DSF_MASK_INTERNAL), v'))" "keys_unique (ds_store t)" "heap_ok t"
      "proc_name t = proc_name s"
      using published_map [OF _ p(1) u heap p(6)] p(3) by fastforce
    with * p(2) storable_value [OF st] show "r = OK \<and> W (p_world t)
      \<and> abs_ds t = (abs_ds s)((type_of (dm_flags m), cstr key)
         \<mapsto> (cstr (name_at (ds_store s) src), DSF_IN_USE OR (dm_flags m AND DSF_MASK_INTERNAL), v))
      \<and> tables_ok t \<and> keys_unique (ds_store t) \<and> heap_ok t \<and> labelled t \<and> proc_name t = proc_name s
      \<and> ds_subs t = map (marked os (ds_store t) i True) (ds_subs s)"
      by (auto simp: proc_name_def fun_eq_iff)
  qed
qed

section \<open>Retrieving\<close>

lemma check_auth_name:
  "check_auth (ds_store s) d e perm \<longleftrightarrow> \<not> has (d_flags d) perm \<or> proc_name s e = Some (cstr (d_owner d))"
  by (auto simp: check_auth_def proc_name_def split: option.split)

text \<open>What a request to retrieve answers, read off the map.\<close>

definition retrieved ::
  "'w ds_os \<Rightarrow> ('w \<Rightarrow> bool) \<Rightarrow> ds_msg \<Rightarrow> 'w ds \<Rightarrow> byte list \<Rightarrow> int \<times> ds_msg \<Rightarrow> 'w \<Rightarrow> bool" where
  "retrieved os W m s key r w' \<longleftrightarrow>
     (case abs_ds s (type_of (dm_flags m), cstr key) of
        None \<Rightarrow> r = (ESRCH, m)
      | Some (owner, fl, v) \<Rightarrow>
          if has fl DSF_PRIV_RETRIEVE \<and> proc_name s (dm_source m) \<noteq> Some owner then r = (EPERM, m)
          else (case v of
            Number n \<Rightarrow> r = (OK, set_val_out n m)
          | Bytes bs \<Rightarrow> (\<exists>w st. let sent = take (unat (val_len m)) bs in
              W w \<and> os_safecopyto os (dm_source m) (val_in m) sent w = (st, w')
              \<and> r = (st, if st = OK then set_reply_len (of_nat (length sent)) m else m))))"

lemma read_value:
  assumes "buffer_ok h d" and "mem_type (d_flags d)"
  shows "\<exists>bs. value_of h d = Bytes bs \<and> length bs = unat (d_length d)
    \<and> read_block (d_word d) (unat (min n (d_length d))) h = Some (take (unat n) bs)
    \<and> min n (d_length d) = of_nat (length (take (unat n) bs))"
proof -
  obtain b where b: "h (d_word d) = Some b" "length b = unat (d_reallen d)" "d_length d \<le> d_reallen d"
    using assms(1) by (auto simp: buffer_ok_def)
  then have len: "unat (d_length d) \<le> length b" by (simp add: word_le_nat_alt)
  have mn: "unat (min n (d_length d)) = min (unat n) (unat (d_length d))"
    by (simp add: min_def word_le_nat_alt)
  have "min n (d_length d) = of_nat (min (unat n) (unat (d_length d)))" by (simp flip: mn)
  with b len mn assms(2) show ?thesis by (auto simp: value_of_def read_block_def min.commute [of "unat n"])
qed

lemma retrieve_value_wp:
  assumes buf: "mem_type (dm_flags m) \<Longrightarrow> buffer_ok (ds_heap s) d" and ty: "type_ok (dm_flags m)"
    and dty: "type_of (d_flags d) = type_of (dm_flags m)"
  shows "wp (retrieve_value os m d) (\<lambda>r t. tables t = tables s \<and> ds_subs t = ds_subs s
     \<and> (case value_of (ds_heap s) d of
          Number n \<Rightarrow> r = (OK, set_val_out n m)
        | Bytes bs \<Rightarrow> (let sent = take (unat (val_len m)) bs;
                          c = os_safecopyto os (dm_source m) (val_in m) sent (p_world s) in
            p_world t = snd c \<and> r = (fst c, if fst c = OK then set_reply_len (of_nat (length sent)) m else m)))) s"
proof (cases "mem_type (dm_flags m)")
  case False
  then have "dm_flags m AND DSF_MASK_TYPE = DSF_TYPE_U32 \<or> dm_flags m AND DSF_MASK_TYPE = DSF_TYPE_LABEL"
    using ty by (simp add: type_ok_def type_of_def)
  moreover have "value_of (ds_heap s) d = Number (d_word d)" using False dty by (simp add: value_of_def)
  ultimately show ?thesis by (auto simp: retrieve_value_def wp_simps)
next
  case True
  then obtain bs where bs: "value_of (ds_heap s) d = Bytes bs"
    "read_block (d_word d) (unat (min (val_len m) (d_length d))) (ds_heap s) = Some (take (unat (val_len m)) bs)"
    "min (val_len m) (d_length d) = of_nat (length (take (unat (val_len m)) bs))"
    using read_value [OF buf [OF True], of "val_len m"] dty by metis
  have "dm_flags m AND DSF_MASK_TYPE = DSF_TYPE_STR \<or> dm_flags m AND DSF_MASK_TYPE = DSF_TYPE_MEM"
    using True by (simp add: type_of_def)
  then show ?thesis
    using arg_cong [OF bs(3), of "\<lambda>n. set_reply_len n m"]
    by (elim disjE) (simp_all add: retrieve_value_def wp_simps Let_def bs(1,2))
qed

lemma retrievedI:
  assumes abs: "abs_ds s (type_of (dm_flags m), cstr key) = Some (cstr (d_owner d), d_flags d, v)"
    and auth: "check_auth (ds_store s) d (dm_source m) DSF_PRIV_RETRIEVE" and W: "W w"
    and r: "case v of Number n \<Rightarrow> r = (OK, set_val_out n m)
        | Bytes bs \<Rightarrow> (let sent = take (unat (val_len m)) bs;
                          c = os_safecopyto os (dm_source m) (val_in m) sent w in
            w' = snd c \<and> r = (fst c, if fst c = OK then set_reply_len (of_nat (length sent)) m else m))"
  shows "retrieved os W m s key r w'"
proof (cases v)
  case (Number n)
  then show ?thesis using abs auth r unfolding check_auth_name by (auto simp: retrieved_def)
next
  case (Bytes bs)
  let ?c = "os_safecopyto os (dm_source m) (val_in m) (take (unat (val_len m)) bs) w"
  have "?c = (fst ?c, w')" using r Bytes by (simp add: Let_def)
  then have "\<exists>w st. W w \<and> os_safecopyto os (dm_source m) (val_in m) (take (unat (val_len m)) bs) w = (st, w')
      \<and> r = (st, if st = OK then set_reply_len (of_nat (length (take (unat (val_len m)) bs))) m else m)"
    using r Bytes W by (intro exI [of _ w] exI [of _ "fst ?c"]) (simp add: Let_def)
  then show ?thesis using abs auth Bytes unfolding check_auth_name retrieved_def Let_def by auto
qed

lemma do_retrieve_reads:
  assumes ok: "tables_ok s" "heap_ok s" and W: "stable os W" "W (p_world s)" and ty: "type_ok (dm_flags m)"
    and key: "request_key os m (stack_array os DS_MAX_KEYLEN) (p_world s) = Some key"
  shows "wp (do_retrieve os m) (\<lambda>r t. tables t = tables s \<and> ds_subs t = ds_subs s
     \<and> retrieved os W m s key r (p_world t)) s"
  unfolding do_retrieve_def wp_bnd [of "get_key_name os m b" for b]
proof (rule wp_mono [OF get_key_name_key])
  let ?ty = "type_of (dm_flags m)"
  fix k and t :: "'a ds"
  assume *: "(case request_key os m (stack_array os DS_MAX_KEYLEN) (p_world s) of None \<Rightarrow> fst k \<noteq> OK
       | Some key \<Rightarrow> k = (OK, key))
     \<and> ds_store t = ds_store s \<and> ds_subs t = ds_subs s \<and> ds_heap t = ds_heap s
     \<and> (p_world t = p_world s
        \<or> p_world t = snd (os_safecopyfrom os (dm_source m) (key_grant m) (unat (key_len m)) (p_world s)))"
  then have k: "k = (OK, key)" and Wt: "W (p_world t)" using key W by (auto simp: stable_def)
  have all: "list_all entry_ok (ds_store s)" using ok(1) by (simp add: tables_ok_def)
  have tt: "dm_flags m AND 0xFF0 = ?ty" by (simp add: type_of_def)
  have ts: "?ty \<in> types" using ty by (simp add: type_ok_def)
  note look = lookup_slot_of [OF all ts, of key]
  show "wp (if fst k \<noteq> OK then ret (fst k, m) else
       bnd (gets ds_store) (\<lambda>store. case lookup_entry store (snd k) (dm_flags m AND DSF_MASK_TYPE) of
         None \<Rightarrow> ret (ESRCH, m)
       | Some i \<Rightarrow>
           if \<not> check_auth store (store ! i) (dm_source m) DSF_PRIV_RETRIEVE then ret (EPERM, m)
           else retrieve_value os m (store ! i)))
     (\<lambda>r t. tables t = tables s \<and> ds_subs t = ds_subs s \<and> retrieved os W m s key r (p_world t)) t"
  proof (cases "slot_of (ds_store s) ?ty (cstr key)")
    case None
    then show ?thesis using *
      by (simp add: k tt look wp_bnd [of "gets f" for f] wp_gets wp_ret retrieved_def abs_ds_def)
  next
    case (Some i)
    let ?d = "ds_store s ! i"
    from slot_of_holds [OF Some] have i: "i < length (ds_store s)" "holds ?d ?ty (cstr key)" by auto
    then have dty: "type_of (d_flags ?d) = ?ty" by (simp add: holds_def)
    have abs: "abs_ds s (?ty, cstr key) = Some (cstr (d_owner ?d), d_flags ?d, value_of (ds_heap s) ?d)"
      by (simp add: abs_ds_def Some entry_of_def)
    have "buffer_ok (ds_heap s) ?d" if "mem_type (dm_flags m)"
      using ok(2) i that dty by (simp add: heap_ok_def mem_entry_def holds_def)
    then have "wp (retrieve_value os m ?d) (\<lambda>r u. tables u = tables s \<and> ds_subs u = ds_subs s
       \<and> (case value_of (ds_heap s) ?d of
            Number n \<Rightarrow> r = (OK, set_val_out n m)
          | Bytes bs \<Rightarrow> (let sent = take (unat (val_len m)) bs;
                            c = os_safecopyto os (dm_source m) (val_in m) sent (p_world t) in
              p_world u = snd c \<and> r = (fst c, if fst c = OK then set_reply_len (of_nat (length sent)) m else m)))) t"
      using retrieve_value_wp [of m t ?d os] * ty dty by simp
    then have found: "wp (retrieve_value os m ?d) (\<lambda>r u. tables u = tables s \<and> ds_subs u = ds_subs s
        \<and> retrieved os W m s key r (p_world u)) t"
      if "check_auth (ds_store s) ?d (dm_source m) DSF_PRIV_RETRIEVE"
      by (rule wp_mono) (use retrievedI [where os = os and W = W and m = m and s = s and key = key, OF abs that Wt] in blast)
    have refused: "retrieved os W m s key (EPERM, m) w"
      if "\<not> check_auth (ds_store s) ?d (dm_source m) DSF_PRIV_RETRIEVE" for w
      using that abs by (simp add: retrieved_def check_auth_name)
    show ?thesis
    proof (cases "check_auth (ds_store s) ?d (dm_source m) DSF_PRIV_RETRIEVE")
      case True
      then show ?thesis using * found by (simp add: k tt look Some wp_bnd [of "gets f" for f] wp_gets)
    next
      case False
      then show ?thesis using * refused by (simp add: k tt look Some wp_bnd [of "gets f" for f] wp_gets wp_ret)
    qed
  qed
qed

section \<open>Refused requests\<close>

lemma do_publish_refused:
  assumes src: "ds_getprocname (ds_store s) (dm_source m) = Some src" and nl: "\<not> has (dm_flags m) DSF_TYPE_LABEL"
    and key: "request_key os m (stack_array os DS_MAX_KEYLEN) (p_world s) = Some key"
    and slot: "publish_slot (ds_store s) m key = Inl e"
  shows "wp (do_publish os m) (\<lambda>r t. r = e \<and> tables t = tables s \<and> ds_subs t = ds_subs s) s"
proof -
  have "wp (bnd (get_key_name os m (stack_array os DS_MAX_KEYLEN)) (\<lambda>k. if fst k \<noteq> OK then ret (fst k) else
      bnd (gets (\<lambda>s. publish_slot (ds_store s) m (snd k))) (\<lambda>slot. case slot of Inl e \<Rightarrow> ret e | Inr i \<Rightarrow>
        bnd (publish_value os m i) (\<lambda>r. if r \<noteq> OK then ret r
        else andthen (publish_attributes m (snd k) src i) (andthen (update_subscribers os i True) (ret OK))))))
      (\<lambda>r t. r = e \<and> tables t = tables s \<and> ds_subs t = ds_subs s) s"
    unfolding wp_bnd [of "get_key_name os m b" for b]
    by (rule wp_mono [OF get_key_name_key]) (use key slot in \<open>auto simp: wp_bnd [of "gets f" for f] wp_gets wp_ret\<close>)
  with nl src show ?thesis unfolding do_publish_def by (simp only: wp_bnd wp_gets option.case if_False simp_thms)
qed

text \<open>An entry that only its owner may overwrite is a slot that nobody else gets.\<close>

lemma publish_slot_private:
  assumes ok: "list_all entry_ok (ds_store s)" and ty: "type_ok (dm_flags m)"
    and abs: "abs_ds s (type_of (dm_flags m), cstr key) = Some (owner, fl, v)"
    and priv: "has fl DSF_PRIV_OVERWRITE" "proc_name s (dm_source m) \<noteq> Some owner"
  shows "publish_slot (ds_store s) m key \<in> {Inl EPERM, Inl EEXIST}"
proof -
  have ts: "type_of (dm_flags m) \<in> types" using ty by (simp add: type_ok_def)
  obtain i where i: "slot_of (ds_store s) (type_of (dm_flags m)) (cstr key) = Some i"
    "owner = cstr (d_owner (ds_store s ! i))" "fl = d_flags (ds_store s ! i)"
    using abs by (auto simp: abs_ds_def entry_of_def)
  have look: "lookup_entry (ds_store s) key (dm_flags m AND 0xFF0) = Some i"
    using lookup_slot_of [OF ok ts, of key] i(1) by (simp add: type_of_def)
  have "\<not> check_auth (ds_store s) (ds_store s ! i) (dm_source m) DSF_PRIV_OVERWRITE"
    using priv i unfolding check_auth_name by simp
  then show ?thesis by (simp add: publish_slot_def Let_def look)
qed

section \<open>Deleting\<close>

lemma abs_ds_clear:
  assumes u: "keys_unique (ds_store s)" and i: "slot_of (ds_store s) ty k = Some i"
    and t: "ds_store t = (ds_store s)[i := d]" "\<not> in_use d"
    and val: "\<And>j. j < length (ds_store s) \<Longrightarrow> j \<noteq> i \<Longrightarrow> in_use (ds_store s ! j)
      \<Longrightarrow> value_of (ds_heap t) (ds_store s ! j) = value_of (ds_heap s) (ds_store s ! j)"
  shows "abs_ds t = (abs_ds s)((ty, k) := None)"
proof (rule ext)
  fix x :: "s32 \<times> byte list"
  obtain ty' k' where x: "x = (ty', k')" by fastforce
  have hi: "i < length (ds_store s)" "holds (ds_store s ! i) ty k" using slot_of_holds [OF i] by auto
  have "slot_of (ds_store t) ty' k' = (if x = (ty, k) then None else slot_of (ds_store s) ty' k')"
  proof (rule option_eqI)
    fix j
    show "slot_of (ds_store t) ty' k' = Some j \<longleftrightarrow> (if x = (ty, k) then None else slot_of (ds_store s) ty' k') = Some j"
      unfolding t(1) using hi t(2) x keys_unique_holds [OF u, of i j]
      by (auto simp: slot_of_iff [OF keys_unique_clear [OF u t(2)]] slot_of_iff [OF u] nth_list_update holds_def)
  qed
  moreover have "entry_of (ds_heap t) (ds_store t ! j) = entry_of (ds_heap s) (ds_store s ! j)"
    if "slot_of (ds_store s) ty' k' = Some j" "x \<noteq> (ty, k)" for j
    using slot_of_holds [OF that(1)] hi that(2) x val [of j] t(1)
    by (auto simp: entry_of_def holds_def nth_list_update)
  ultimately show "abs_ds t x = ((abs_ds s)((ty, k) := None)) x"
    by (cases "slot_of (ds_store s) ty' k'") (auto simp: abs_ds_def x)
qed

text \<open>The heap without the buffer of an entry.\<close>

definition heap_without :: "data_store \<Rightarrow> heap \<Rightarrow> heap" where
  "heap_without d h = (if mem_entry d then h(d_word d := None) else h)"

lemma heap_without_others:
  assumes "heap_ok s" and "i < length (ds_store s)" and "j < length (ds_store s)" and "j \<noteq> i"
    and "in_use (ds_store s ! j)"
  shows "value_of (heap_without (ds_store s ! i) (ds_heap s)) (ds_store s ! j) = value_of (ds_heap s) (ds_store s ! j)"
    and "mem_entry (ds_store s ! j) \<Longrightarrow> buffer_ok (heap_without (ds_store s ! i) (ds_heap s)) (ds_store s ! j)"
proof -
  have w: "d_word (ds_store s ! j) \<noteq> d_word (ds_store s ! i)" if "mem_entry (ds_store s ! i)" "mem_entry (ds_store s ! j)"
    using assms that unfolding heap_ok_def by blast
  then have "heap_without (ds_store s ! i) (ds_heap s) (d_word (ds_store s ! j)) = ds_heap s (d_word (ds_store s ! j))"
    if "mem_entry (ds_store s ! j)" using that by (auto simp: heap_without_def)
  then show "value_of (heap_without (ds_store s ! i) (ds_heap s)) (ds_store s ! j) = value_of (ds_heap s) (ds_store s ! j)"
    and "mem_entry (ds_store s ! j) \<Longrightarrow> buffer_ok (heap_without (ds_store s ! i) (ds_heap s)) (ds_store s ! j)"
    using assms by (auto simp: value_of_def mem_entry_def buffer_ok_def heap_ok_def)
qed

lemma delete_value_wp:
  assumes i: "i < length (ds_store s)" "in_use (ds_store s ! i)" "type_of (d_flags (ds_store s ! i)) = ty"
    and ty: "ty \<in> types" "ty \<noteq> DSF_TYPE_LABEL" and heap: "heap_ok s"
  shows "wp (delete_value os ty (ds_store s ! i)) (\<lambda>r t. r = OK
     \<and> t = s\<lparr>ds_heap := heap_without (ds_store s ! i) (ds_heap s)\<rparr>) s"
proof (cases "mem_entry (ds_store s ! i)")
  case True
  then have "buffer_ok (ds_heap s) (ds_store s ! i)" using heap i(1) by (simp add: heap_ok_def)
  then have "free (d_word (ds_store s ! i)) (ds_heap s) = Some (heap_without (ds_store s ! i) (ds_heap s))"
    using True by (auto simp: free_def heap_without_def buffer_ok_def)
  with True i(3) show ?thesis by (auto simp: delete_value_def mem_entry_def wp_simps)
next
  case False
  then have "ty = DSF_TYPE_U32" using i ty by (auto simp: mem_entry_def)
  with False show ?thesis by (simp add: delete_value_def heap_without_def wp_simps)
qed

lemma do_delete_removes:
  fixes s :: "'w ds"
  assumes ok: "tables_ok s" "keys_unique (ds_store s)" "heap_ok s" "labelled s"
    and W: "stable os W" "W (p_world s)"
    and key: "request_key os m (stack_array os DS_MAX_KEYLEN) (p_world s) = Some key"
    and ty: "type_ok (dm_flags m)" "type_of (dm_flags m) \<noteq> DSF_TYPE_LABEL"
    and abs: "abs_ds s (type_of (dm_flags m), cstr key) = Some (owner, fl, v)"
    and own: "proc_name s (dm_source m) = Some owner"
  shows "wp (do_delete os m) (\<lambda>r t. r = OK \<and> abs_ds t = (abs_ds s)((type_of (dm_flags m), cstr key) := None)
     \<and> tables_ok t \<and> keys_unique (ds_store t) \<and> heap_ok t) s"
proof -
  let ?ty = "type_of (dm_flags m)"
  have all: "list_all entry_ok (ds_store s)" and nsubs: "length (ds_subs s) = NR_DS_SUBS"
    using ok(1) by (simp_all add: tables_ok_def)
  have ts: "?ty \<in> types" using ty by (simp add: type_ok_def)
  obtain i where i: "slot_of (ds_store s) ?ty (cstr key) = Some i" and o: "owner = cstr (d_owner (ds_store s ! i))"
    using abs by (auto simp: abs_ds_def entry_of_def)
  obtain src where src: "ds_getprocname (ds_store s) (dm_source m) = Some src" "cstr (name_at (ds_store s) src) = owner"
    using own by (auto simp: proc_name_def)
  have hi: "i < length (ds_store s)" "in_use (ds_store s ! i)" "type_of (d_flags (ds_store s ! i)) = ?ty"
    using slot_of_holds [OF i] by (simp_all add: holds_def)
  have look: "lookup_entry (ds_store s) key (dm_flags m AND 0xFF0) = Some i"
    using lookup_slot_of [OF all ts, of key] i by (simp add: type_of_def)
  let ?h = "heap_without (ds_store s ! i) (ds_heap s)"
  let ?Q = "\<lambda>t :: 'w ds. abs_ds t = (abs_ds s)((?ty, cstr key) := None) \<and> keys_unique (ds_store t) \<and> heap_ok t"
  have post: "?Q t" if t: "ds_store t = (ds_store s)[i := (ds_store s ! i)\<lparr>d_flags := 0\<rparr>]" "ds_heap t = ?h" for t
  proof (intro conjI)
    show "abs_ds t = (abs_ds s)((?ty, cstr key) := None)"
      by (rule abs_ds_clear [OF ok(2) i t(1)]) (use heap_without_others(1) [OF ok(3) hi(1)] t(2) in simp_all)
    show "keys_unique (ds_store t)" unfolding t(1) by (rule keys_unique_clear [OF ok(2)]) simp
    show "heap_ok t"
      using ok(3) hi(1) heap_without_others(2) [OF ok(3) hi(1)]
      unfolding heap_ok_def t by (auto simp: nth_list_update mem_entry_def)
  qed
  have clear: "wp (andthen (update_subscribers os i False) (andthen (set_slot i (\<lambda>d. d\<lparr>d_flags := 0\<rparr>)) (ret OK)))
      (\<lambda>r t. r = OK \<and> ?Q t) u" if u: "tables u = (ds_store s, ?h)" "ds_subs u = ds_subs s" "W (p_world u)" for u
  proof -
    have "labelled u" using ok(4) u by (simp add: labelled_def)
    with nsubs u have "wp (update_subscribers os i False) (\<lambda>_ t. tables t = tables u \<and> W (p_world t)
        \<and> ds_subs t = map (marked os (ds_store u) i False) (ds_subs u)) u"
      by (intro update_subscribers_wp W(1)) simp_all
    then show ?thesis
      unfolding wp_andthen wp_set_slot wp_ret
    proof (rule wp_mono)
      fix x and t :: "'w ds"
      assume "tables t = tables u \<and> W (p_world t) \<and> ds_subs t = map (marked os (ds_store u) i False) (ds_subs u)"
      with u(1) have "?Q (t\<lparr>ds_store := (ds_store t)[i := (ds_store t ! i)\<lparr>d_flags := 0\<rparr>]\<rparr>)"
        by (intro post) simp_all
      then show "OK = OK \<and> ?Q (t\<lparr>ds_store := (ds_store t)[i := (ds_store t ! i)\<lparr>d_flags := 0\<rparr>]\<rparr>)" by blast
    qed
  qed
  have deleted: "wp (bnd (delete_value os (dm_flags m AND DSF_MASK_TYPE) (ds_store s ! i)) (\<lambda>r. if r \<noteq> OK then ret r
      else andthen (update_subscribers os i False) (andthen (set_slot i (\<lambda>d. d\<lparr>d_flags := 0\<rparr>)) (ret OK))))
      (\<lambda>r t. r = OK \<and> ?Q t) u" if u: "tables u = tables s" "ds_subs u = ds_subs s" "W (p_world u)" for u
  proof -
    have "heap_ok u" using ok(3) u(1) by (simp add: heap_ok_def)
    with delete_value_wp [of i u ?ty os] hi ts ty(2) u(1)
    have "wp (delete_value os ?ty (ds_store s ! i)) (\<lambda>r t. r = OK \<and> t = u\<lparr>ds_heap := ?h\<rparr>) u" by simp
    then show ?thesis unfolding wp_bnd [of "delete_value os f d" for f d] type_of_def [symmetric]
    proof (rule wp_mono, goal_cases)
      case (1 r t)
      then show ?case using clear [of t] u by simp
    qed
  qed
  have "wp (bnd (get_key_name os m (stack_array os DS_MAX_KEYLEN)) (\<lambda>k. if fst k \<noteq> OK then ret (fst k) else
      (case lookup_entry (ds_store s) (snd k) (dm_flags m AND DSF_MASK_TYPE) of None \<Rightarrow> ret ESRCH | Some i \<Rightarrow>
        if cstr (d_owner (ds_store s ! i)) \<noteq> cstr (name_at (ds_store s) src) then ret EPERM
        else bnd (delete_value os (dm_flags m AND DSF_MASK_TYPE) (ds_store s ! i)) (\<lambda>r. if r \<noteq> OK then ret r
        else andthen (update_subscribers os i False) (andthen (set_slot i (\<lambda>d. d\<lparr>d_flags := 0\<rparr>)) (ret OK))))))
      (\<lambda>r t. r = OK \<and> ?Q t) s"
    unfolding wp_bnd [of "get_key_name os m b" for b]
  proof (rule wp_mono [OF get_key_name_key], goal_cases)
    case (1 k t)
    then have k: "k = (OK, key)" using key by simp
    have "W (p_world t)" using 1 W by (auto simp: stable_def)
    with 1 deleted [of t] show ?case unfolding k fst_conv snd_conv using look src(2) o by simp
  qed
  then have "wp (do_delete os m) (\<lambda>r t. r = OK \<and> ?Q t) s"
    unfolding do_delete_def Let_def using src(1) by (simp only: wp_bnd wp_gets option.case)
  from wp_conj_wlp [OF this preservesD [OF preserves_do_delete ok(1)]] show ?thesis
    by (rule wp_mono) auto
qed

section \<open>Checking\<close>

abbreviation marks :: "subscription \<Rightarrow> nat set" where
  "marks u \<equiv> bit_array.members GET_BIT NR_DS_KEYS (old_subs u)"

lemma marks_marked:
  assumes "sub_ok u" and "nr < NR_DS_KEYS"
  shows "marks (marked os store nr b u) =
    (if interested os store nr u then (if b then insert nr (marks u) else marks u - {nr}) else marks u)"
  using assms chunks.members_set [of "old_subs u" NR_DS_KEYS nr] chunks.members_unset [of "old_subs u" NR_DS_KEYS nr]
  by (simp add: marked_def sub_ok_def)

text \<open>
  \<open>do_check\<close> hands the key of the first marked entry to the subscriber, with the type and the
  owner of the entry, and unmarks it, or answers that nothing is marked.
\<close>

lemma do_check_delivers:
  assumes ok: "tables_ok s" and name: "ds_getprocname (ds_store s) (dm_source m) = Some src"
    and sub: "lookup_sub (ds_subs s) (name_at (ds_store s) src) = Some k"
    and own: "\<And>i. i \<in> marks (ds_subs s ! k)
      \<Longrightarrow> lookup_entry (ds_store s) (d_owner (ds_store s ! i)) DSF_TYPE_LABEL \<noteq> None"
  shows "wp (do_check os m) (\<lambda>r t. tables t = tables s \<and>
    (if marks (ds_subs s ! k) = {} then r = (ENOENT, m) \<and> ds_subs t = ds_subs s
     else let i = Min (marks (ds_subs s ! k));
              c = os_safecopyto os (dm_source m) (key_grant m) (cstr (d_key (ds_store s ! i)) @ [0]) (p_world s)
          in p_world t = snd c \<and>
             (if fst c = OK then
                r = (OK, m\<lparr>dm_flags := type_of (d_flags (ds_store s ! i)),
                     dm_owner := owner_ep (ds_store s) (d_owner (ds_store s ! i))\<rparr>)
                \<and> marks (ds_subs t ! k) = marks (ds_subs s ! k) - {i}
                \<and> (\<forall>j. j \<noteq> k \<longrightarrow> ds_subs t ! j = ds_subs s ! j)
              else r = (fst c, m) \<and> ds_subs t = ds_subs s))) s"
proof (cases "first_slot (GET_BIT (old_subs (ds_subs s ! k))) [0..<NR_DS_KEYS]")
  case None
  then have "marks (ds_subs s ! k) = {}" by (simp add: chunks.members_none del: NR_DS_KEYS_def)
  with None show ?thesis by (simp add: do_check_def wp_simps name sub del: NR_DS_KEYS_def)
next
  case (Some i)
  then have first: "i \<in> marks (ds_subs s ! k) \<and> (\<forall>j \<in> marks (ds_subs s ! k). i \<le> j)" by (rule chunks.members_first)
  have fin: "finite (marks (ds_subs s ! k))" by (simp add: chunks.members_def)
  have min: "Min (marks (ds_subs s ! k)) = i" using first fin by (intro Min_eqI) auto
  have il: "i < NR_DS_KEYS" using first by (simp add: chunks.members_def)
  obtain j where j: "lookup_entry (ds_store s) (d_owner (ds_store s ! i)) DSF_TYPE_LABEL = Some j"
    using own first by blast
  have k: "k < length (ds_subs s)" using sub by (simp add: lookup_sub_def first_slot_Some)
  then have "sub_ok (ds_subs s ! k)" using ok list_all_nth [of sub_ok "ds_subs s" k] by (simp add: tables_ok_def)
  then have un: "marks ((ds_subs s ! k)\<lparr>old_subs := UNSET_BIT (old_subs (ds_subs s ! k)) i\<rparr>) = marks (ds_subs s ! k) - {i}"
    using il chunks.members_unset [of "old_subs (ds_subs s ! k)" NR_DS_KEYS i] by (simp add: sub_ok_def)
  have ep: "owner_ep (ds_store s) (d_owner (ds_store s ! i)) = d_word (ds_store s ! j)"
    using j by (simp add: owner_ep_def)
  have ne: "marks (ds_subs s ! k) \<noteq> {}" using first by blast
  show ?thesis
    unfolding if_not_P [OF ne] Let_def min ep
    using k un by (simp add: do_check_def wp_simps name sub Some ds_getprocep_def j [simplified] type_of_def set_sub_def
        del: NR_DS_KEYS_def)
qed

end
