(* ===== verification/Ds_Service.thy ===== *)
theory Ds_Service
  imports Ds_Access
begin

text \<open>
  The invariant of the data store server: in every state between two requests the tables are
  well formed, and no type and key has two entries unless the boot image had a label twice.
\<close>

section \<open>Keys stay unique\<close>

abbreviation unique :: "'w ds \<Rightarrow> bool" where
  "unique s \<equiv> keys_unique (ds_store s)"

definition hdr :: "data_store \<Rightarrow> s32 \<times> byte list" where
  "hdr d = (d_flags d, cstr (d_key d))"

definition hdrs :: "'w ds \<Rightarrow> (s32 \<times> byte list) list" where
  "hdrs s = map hdr (ds_store s)"

lemma hdrs_unique: "hdrs t = hdrs s \<Longrightarrow> unique s \<Longrightarrow> unique t"
proof -
  assume h: "hdrs t = hdrs s" and u: "unique s"
  have l: "length (ds_store t) = length (ds_store s)" using arg_cong [OF h, of length] by (simp add: hdrs_def)
  have "hdr (ds_store t ! i) = hdr (ds_store s ! i)" if "i < length (ds_store s)" for i
    using arg_cong [OF h, of "\<lambda>xs. xs ! i"] that l by (simp add: hdrs_def)
  then have "holds (ds_store t ! i) ty k = holds (ds_store s ! i) ty k" if "i < length (ds_store s)" for i ty k
    using that by (simp add: hdr_def holds_def)
  with u l show "unique t" by (simp add: keys_unique_alt)
qed

lemma keeps_hdrs [keeps_ops]: "keeps hdrs (os_call f)" "keeps hdrs (print t)" "keeps hdrs (ds_free p)"
  "keeps hdrs (ds_write p off bs)" "keeps hdrs (ds_malloc os n)" "keeps hdrs (set_sub i g)"
  by (auto simp: keeps_def wp_simps hdrs_def Let_def set_sub_def split: option.split)

lemma keeps_hdrs_set_slot:
  assumes "\<And>d. hdr (f d) = hdr d"
  shows "keeps hdrs (set_slot i f)"
proof -
  have "(map hdr xs)[i := hdr (xs ! i)] = map hdr xs" for xs
    by (cases "i < length xs") (simp_all add: list_update_same_conv list_update_beyond)
  then show ?thesis by (simp add: keeps_def wp_simps hdrs_def map_update assms)
qed

lemma keeps_hdrs_publish_value [keeps_ops]: "keeps hdrs (publish_value os m i)"
  unfolding publish_value_def publish_mem_def publish_buffer_def new_block_def publish_copy_def Let_def
  by (intro keeps_intros keeps_ops keeps_hdrs_set_slot) (simp_all add: hdr_def)

lemma keeps_hdrs_get_key_name [keeps_ops]: "keeps hdrs (get_key_name os m k)"
  unfolding get_key_name_def by (intro keeps_intros keeps_ops)

lemma do_publish_failed: "wlp (do_publish os m) (\<lambda>r t. r \<noteq> OK \<longrightarrow> hdrs t = hdrs s) s"
proof -
  have attr: "wlp (andthen a (andthen b (ret OK))) (\<lambda>r t. r \<noteq> OK \<longrightarrow> P t) u" for a :: "('a, unit) dprog" and b P u
    by (simp add: wlp_andthen wlp_ret)
  have val: "wlp (bnd (publish_value os m i) (\<lambda>r. if r \<noteq> OK then ret r
      else andthen (publish_attributes m key src i) (andthen (update_subscribers os i True) (ret OK))))
      (\<lambda>r t. r \<noteq> OK \<longrightarrow> hdrs t = hdrs s) t" if "hdrs t = hdrs s" for i key src t
    unfolding wlp_bnd
    by (rule wlp_keeps_only [OF keeps_hdrs_publish_value]) (use that attr in \<open>auto simp: wlp_ret\<close>)
  have slot: "wlp (case x of Inl e \<Rightarrow> ret e | Inr i \<Rightarrow> bnd (publish_value os m i) (\<lambda>r. if r \<noteq> OK then ret r
      else andthen (publish_attributes m key src i) (andthen (update_subscribers os i True) (ret OK))))
      (\<lambda>r t. r \<noteq> OK \<longrightarrow> hdrs t = hdrs s) t" if "hdrs t = hdrs s" for x key src t
    using val [OF that] that by (cases x) (simp_all add: wlp_ret)
  have key: "wlp (bnd (get_key_name os m (stack_array os DS_MAX_KEYLEN)) (\<lambda>k. if fst k \<noteq> OK then ret (fst k) else
      bnd (gets (\<lambda>s. publish_slot (ds_store s) m (snd k))) (\<lambda>slot. case slot of Inl e \<Rightarrow> ret e | Inr i \<Rightarrow>
        bnd (publish_value os m i) (\<lambda>r. if r \<noteq> OK then ret r
        else andthen (publish_attributes m (snd k) src i) (andthen (update_subscribers os i True) (ret OK))))))
      (\<lambda>r t. r \<noteq> OK \<longrightarrow> hdrs t = hdrs s) s" for src
    unfolding wlp_bnd [of "get_key_name os m b" for b]
  proof (rule wlp_keeps_only [OF keeps_hdrs_get_key_name], goal_cases)
    case (1 k t)
    then show ?case using slot [OF 1] by (simp add: wlp_ret wlp_bnd [of "gets f" for f] wlp_gets del: OK_def)
  qed
  show ?thesis
    unfolding do_publish_def wlp_bnd [of "gets f" for f] wlp_gets
    using key by (auto simp: wlp_ret split: option.split)
qed

lemma published_unique:
  assumes "published os m V s t" and "tables_ok s" and "unique s"
  shows "unique t"
proof -
  obtain key i d where slot: "publish_slot (ds_store s) m key = Inr i" "type_ok (dm_flags m)"
    and t: "ds_store t = (ds_store s)[i := d]"
    and d: "d_flags d = DSF_IN_USE OR (dm_flags m AND DSF_MASK_INTERNAL)" "cstr (d_key d) = cstr key"
    using assms(1) unfolding published_def by blast
  have "slot_free_for (ds_store s) i (type_of (dm_flags m)) (cstr key)"
    using publish_slot_cases [OF slot(1) _ slot(2)] assms(2,3) by (simp add: tables_ok_def)
  moreover have "holds d (type_of (dm_flags m)) (cstr key)" using d by (simp add: holds_def stored_in_use)
  ultimately show ?thesis unfolding t by (rule keys_unique_store [OF assms(3), rotated])
qed

text \<open>All but the words of one slot.\<close>

definition but_words :: "nat \<Rightarrow> 'w ds \<Rightarrow> data_store list \<times> byte list \<times> byte list" where
  "but_words i s = ((ds_store s)[i := zero_entry], d_key (ds_store s ! i), d_owner (ds_store s ! i))"

lemma keeps_but_words: "keeps (but_words i) (os_call f)" "keeps (but_words i) (print t)" "keeps (but_words i) (ds_free p)"
  "keeps (but_words i) (ds_write p off bs)" "keeps (but_words i) (ds_malloc os n)"
  by (auto simp: keeps_def wp_simps but_words_def Let_def split: option.split)

lemma keeps_but_words_set_slot:
  "(\<And>d. d_key (f d) = d_key d \<and> d_owner (f d) = d_owner d) \<Longrightarrow> keeps (but_words i) (set_slot i f)"
  by (auto simp: keeps_def wp_simps but_words_def nth_list_update)
    (metis list_update_beyond not_less nth_list_update_eq)+

lemma publish_value_slot:
  "wlp (publish_value os m i) (\<lambda>r t. \<exists>d. ds_store t = (ds_store s)[i := d]
     \<and> d_key d = d_key (ds_store s ! i) \<and> d_owner d = d_owner (ds_store s ! i)) s"
proof (rule wlp_keeps_only)
  show "keeps (but_words i) (publish_value os m i)"
    unfolding publish_value_def publish_mem_def publish_buffer_def new_block_def publish_copy_def Let_def
    by (intro keeps_intros keeps_but_words keeps_but_words_set_slot) simp_all
next
  fix x and t :: "'a ds"
  assume b: "but_words i t = but_words i s"
  have "ds_store t = (ds_store t)[i := zero_entry, i := ds_store t ! i]" by simp
  also have "\<dots> = (ds_store s)[i := ds_store t ! i]" using b by (simp add: but_words_def)
  finally show "\<exists>d. ds_store t = (ds_store s)[i := d] \<and> d_key d = d_key (ds_store s ! i) \<and> d_owner d = d_owner (ds_store s ! i)"
    using b by (auto simp: but_words_def)
qed

lemma do_publish_unique:
  assumes "tables_ok s" and "unique s"
  shows "wlp (do_publish os m) (\<lambda>_. unique) s"
proof -
  have "wlp (do_publish os m) (\<lambda>r t. r = OK \<longrightarrow> published os m (\<lambda>_ _ _. True) s t) s"
    by (rule do_publish_wlp) (auto intro!: wlp_mono [OF publish_value_slot])
  then have "wlp (do_publish os m) (\<lambda>r t. (r = OK \<longrightarrow> published os m (\<lambda>_ _ _. True) s t) \<and> (r \<noteq> OK \<longrightarrow> hdrs t = hdrs s)) s"
    using do_publish_failed by (simp add: wlp_conj)
  then show ?thesis
    by (rule wlp_mono) (metis published_unique [OF _ assms] hdrs_unique [OF _ assms(2)])
qed

lemma preserves_unique [preserves_intros]:
  "preserves unique (os_call f)" "preserves unique (print t)" "preserves unique (ds_free p)"
  "preserves unique (ds_read p n)" "preserves unique (set_sub i g)" "preserves unique (delete_subs l)"
  by (auto simp: preserves_def wp_simps set_sub_def delete_subs_def ds_read_def split: option.split)

lemma preserves_unique_clear [preserves_intros]: "preserves unique (set_slot i (\<lambda>d. d\<lparr>d_flags := 0\<rparr>))"
  by (simp add: preserves_def wp_simps keys_unique_clear)

lemma preserves_unique_getprocep [preserves_intros]: "preserves unique (ds_getprocep n)"
  unfolding ds_getprocep_def by (intro preserves_intros)

lemma preserves_unique_update [preserves_intros]: "preserves unique (update_subscribers os nr b)"
  unfolding update_subscribers_def update_subscriber_def by (intro preserves_intros)

lemma preserves_unique_strcat [preserves_intros]: "preserves unique (strcat n a b)" "preserves unique (strcpy_sub_owner i k)"
  unfolding strcat_def strcpy_sub_owner_def by (intro preserves_intros)+

lemma preserves_unique_get_key_name [preserves_intros]: "preserves unique (get_key_name os m k)"
  unfolding get_key_name_def by (intro preserves_intros)

lemma preserves_unique_requests [preserves_intros]:
  "preserves unique (do_retrieve os m)" "preserves unique (do_retrieve_label os m)"
  "preserves unique (do_subscribe os m)" "preserves unique (do_check os m)"
  "preserves unique (do_delete os m)" "preserves unique (do_getsysinfo os m)"
  unfolding do_retrieve_def retrieve_value_def do_retrieve_label_def do_subscribe_def subscribe_initial_def
    do_check_def do_delete_def delete_value_def delete_owned_def do_getsysinfo_def Let_def
  by (intro preserves_intros)+

definition unique_tables :: "'w ds \<Rightarrow> bool" where
  "unique_tables s \<longleftrightarrow> tables_ok s \<and> unique s"

lemma preserves_both:
  "preserves tables_ok p \<Longrightarrow> preserves unique p \<Longrightarrow> preserves unique_tables p"
  by (auto simp: preserves_def unique_tables_def wlp_conj [symmetric] wlp_def)

lemma preserves_unique_tables_publish: "preserves unique_tables (do_publish os m)"
  unfolding preserves_def unique_tables_def wlp_conj
  using preservesD [OF preserves_do_publish] do_publish_unique by blast

lemma preserves_unique_work: "preserves unique_tables (ds_get_work os)"
  unfolding ds_get_work_def
  by (intro preserves_intros preserves_both preserves_modify) (auto simp: unique_tables_def tables_ok_def)

lemma preserves_unique_turn: "preserves unique_tables (ds_main_turn os)"
  unfolding ds_main_turn_def ds_dispatch_def ds_reply_def with_msg_def
  by (intro preserves_bnd preserves_if preserves_ret preserves_gets preserves_andthen preserves_unique_work
      preserves_unique_tables_publish)
    (intro preserves_both preserves_intros)+

section \<open>The start\<close>

text \<open>The table the reincarnation server hands over names no two services alike.\<close>

definition distinct_labels :: "(nat \<Rightarrow> rprocpub) \<Rightarrow> bool" where
  "distinct_labels tab \<longleftrightarrow> (\<forall>i < NR_BOOT_PROCS. \<forall>j < NR_BOOT_PROCS. rp_in_use (tab i) \<noteq> 0 \<longrightarrow> rp_in_use (tab j) \<noteq> 0
     \<longrightarrow> cstr (rp_label (tab i)) = cstr (rp_label (tab j)) \<longrightarrow> i = j)"

definition distinct_boot :: "'w ds_os \<Rightarrow> bool" where
  "distinct_boot os \<longleftrightarrow> (\<forall>w. distinct_labels (snd (fst (os_rproctab os w))))"

definition ds_inv :: "'w ds_os \<Rightarrow> 'w ds \<Rightarrow> bool" where
  "ds_inv os s \<longleftrightarrow> tables_ok s \<and> (distinct_boot os \<longrightarrow> unique s)"

text \<open>The entries after the first \<open>k\<close> services were mapped.\<close>

definition mapped :: "(nat \<Rightarrow> rprocpub) \<Rightarrow> nat \<Rightarrow> 'w ds \<Rightarrow> bool" where
  "mapped tab k s \<longleftrightarrow> tables_ok s \<and> (distinct_labels tab \<longrightarrow> unique s)
     \<and> (\<forall>j < length (ds_store s). in_use (ds_store s ! j)
          \<longrightarrow> (\<exists>i < k. rp_in_use (tab i) \<noteq> 0 \<and> cstr (d_key (ds_store s ! j)) = cstr (rp_label (tab i))))"

lemma preserves_map_service: "preserves tables_ok (map_service os rpub)"
  unfolding map_service_def
  by (intro preserves_intros preserves_set_slot) (simp_all add: entry_ok_def type_ok_def type_of_def)

lemma map_service_slot:
  "wlp (map_service os rpub) (\<lambda>r t. r = OK \<longrightarrow> (\<exists>i d. alloc_data_slot (ds_store s) = Some i
     \<and> ds_store t = (ds_store s)[i := d] \<and> holds d DSF_TYPE_LABEL (cstr (rp_label rpub)))) s"
proof (cases "alloc_data_slot (ds_store s)")
  case None
  then show ?thesis by (simp add: map_service_def wp_simps)
next
  case (Some i)
  define d where "d = (d_owner_update (overwrite 0 (cstr (bytes_of ''rs'' @ [0]) @ [0]))
     ((d_key_update (overwrite 0 (cstr (rp_label rpub) @ [0])) (ds_store s ! i))\<lparr>d_word := rp_endpoint rpub\<rparr>))
     \<lparr>d_flags := DSF_IN_USE OR DSF_TYPE_LABEL\<rparr>"
  have i: "i < length (ds_store s)" using Some by (simp add: alloc_data_slot_def first_slot_Some)
  have "holds d DSF_TYPE_LABEL (cstr (rp_label rpub))" by (simp add: d_def holds_def type_of_def)
  then have upd: "wlp (update_subscribers os i True) (\<lambda>_ t. \<exists>d. ds_store t = (ds_store s)[i := d]
      \<and> holds d DSF_TYPE_LABEL (cstr (rp_label rpub))) u"
    if "ds_store u = (ds_store s)[i := d]" for u :: "'a ds"
    by (intro wlp_keeps_only [OF keeps_tables_update]) (metis fst_conv that)
  show ?thesis
    unfolding map_service_def strcpy_slot_def wp_simps Some option.case
    using i upd by (simp add: d_def)
qed

lemma map_boot_service_mapped:
  assumes "mapped tab k s" and k: "k < NR_BOOT_PROCS"
  shows "wlp (map_boot_service os tab k) (\<lambda>_. mapped tab (Suc k)) s"
proof (cases "rp_in_use (tab k) = 0")
  case True
  then show ?thesis using assms(1) by (auto simp: map_boot_service_def wp_simps mapped_def less_Suc_eq)
next
  case False
  have m: "tables_ok s" "distinct_labels tab \<Longrightarrow> unique s"
    "\<And>j. j < length (ds_store s) \<Longrightarrow> in_use (ds_store s ! j) \<Longrightarrow>
      \<exists>i < k. rp_in_use (tab i) \<noteq> 0 \<and> cstr (d_key (ds_store s ! j)) = cstr (rp_label (tab i))"
    using assms(1) by (auto simp: mapped_def)
  have "mapped tab (Suc k) t" if "tables_ok t" and i: "alloc_data_slot (ds_store s) = Some i"
    and t: "ds_store t = (ds_store s)[i := d]" and d: "holds d DSF_TYPE_LABEL (cstr (rp_label (tab k)))" for t i d
  proof -
    have il: "i < length (ds_store s)" using i by (simp add: alloc_data_slot_def first_slot_Some)
    have "slot_free_for (ds_store s) i DSF_TYPE_LABEL (cstr (rp_label (tab k)))" if dl: "distinct_labels tab"
      unfolding slot_free_for_def
    proof (intro conjI allI impI notI)
      fix j
      assume "j < length (ds_store s)" "holds (ds_store s ! j) DSF_TYPE_LABEL (cstr (rp_label (tab k)))"
      then obtain i' where i': "i' < k" "rp_in_use (tab i') \<noteq> 0" "cstr (rp_label (tab k)) = cstr (rp_label (tab i'))"
        using m(3) [of j] by (auto simp: holds_def)
      have "k = i'"
        by (rule dl [unfolded distinct_labels_def, rule_format]) (use i' False k in simp_all)
      with i'(1) show False by simp
    qed (rule il)
    then have "unique t" if "distinct_labels tab"
      unfolding t using keys_unique_store [OF m(2) [OF that] d] that by simp
    moreover have "\<exists>i' < Suc k. rp_in_use (tab i') \<noteq> 0 \<and> cstr (d_key (ds_store t ! j)) = cstr (rp_label (tab i'))"
      if j: "j < length (ds_store t)" "in_use (ds_store t ! j)" for j
    proof (cases "j = i")
      case True
      then show ?thesis using d False il by (intro exI [of _ k]) (simp add: t holds_def)
    next
      case False
      then obtain i' where "i' < k" "rp_in_use (tab i') \<noteq> 0" "cstr (d_key (ds_store t ! j)) = cstr (rp_label (tab i'))"
        using m(3) [of j] j by (auto simp: t)
      then show ?thesis by (intro exI [of _ i']) simp
    qed
    ultimately show ?thesis using that(1) by (simp add: mapped_def)
  qed
  moreover have "wlp (map_service os (tab k)) (\<lambda>r t. tables_ok t \<and> (r = OK \<longrightarrow> (\<exists>i d. alloc_data_slot (ds_store s) = Some i
     \<and> ds_store t = (ds_store s)[i := d] \<and> holds d DSF_TYPE_LABEL (cstr (rp_label (tab k)))))) s"
    unfolding wlp_conj using preservesD [OF preserves_map_service m(1)] map_service_slot by blast
  ultimately have "wlp (map_service os (tab k)) (\<lambda>r t. r = OK \<longrightarrow> mapped tab (Suc k) t) s"
    by (elim wlp_mono) blast
  with False show ?thesis
    unfolding map_boot_service_def by (simp add: wlp_bnd) (erule wlp_mono, simp add: wp_simps)
qed

lemma ds_start_inv: "wlp (ds_start os) (\<lambda>_. ds_inv os) s"
proof -
  let ?s = "(ds_image s)\<lparr>ds_store := map (\<lambda>d. d\<lparr>d_flags := 0\<rparr>) (ds_store (ds_image s)),
    ds_subs := map (\<lambda>u. u\<lparr>sub_flags := 0\<rparr>) (ds_subs (ds_image s))\<rparr>"
  define tab where "tab = snd (fst (os_rproctab os (p_world s)))"
  have "mapped tab 0 (?s\<lparr>p_world := w\<rparr>)" for w
    by (auto simp: mapped_def tables_ok_def ds_image_def zero_entry_def zero_sub_def entry_ok_def sub_ok_def
        keys_unique_def list_all_iff)
  then have "wlp (for_m [0..<NR_BOOT_PROCS] (map_boot_service os tab)) (\<lambda>_. mapped tab NR_BOOT_PROCS) (?s\<lparr>p_world := w\<rparr>)" for w
    by (intro wlp_for map_boot_service_mapped) auto
  then have "wlp (for_m [0..<NR_BOOT_PROCS] (map_boot_service os tab)) (\<lambda>_. ds_inv os) (?s\<lparr>p_world := w\<rparr>)" for w
    by (rule wlp_mono) (auto simp: mapped_def ds_inv_def distinct_boot_def tab_def)
  moreover have "p_world ?s = p_world s" by (simp add: ds_image_def)
  ultimately show ?thesis
    unfolding ds_start_def sef_cb_init_fresh_def
    by (simp add: wlp_andthen wlp_modify wlp_bnd wlp_os_call wlp_if wlp_raise wlp_ret tab_def ds_image_def
        del: NR_BOOT_PROCS_def)
qed

lemma ds_turn_inv:
  assumes "ds_inv os s"
  shows "wlp (ds_main_turn os) (\<lambda>_. ds_inv os) s"
proof (cases "distinct_boot os")
  case True
  then have "unique_tables s" using assms by (simp add: ds_inv_def unique_tables_def)
  then show ?thesis
    by (rule wlp_mono [OF preservesD [OF preserves_unique_turn]]) (simp add: ds_inv_def unique_tables_def)
next
  case False
  then have "ds_inv os = (tables_ok :: 'a ds \<Rightarrow> bool)" by (auto simp: ds_inv_def fun_eq_iff)
  then show ?thesis using preservesD [OF preserves_ds_main_turn] assms by simp
qed

interpretation dss: service "ds_start os" "ds_main_turn os" "\<lambda>_. True" "ds_inv os" for os
  by unfold_locales (rule ds_start_inv, rule ds_turn_inv)

end
