(* ===== verification/Ds_Client.thy ===== *)
theory Ds_Client
  imports Ds_Server
begin

text \<open>
  The client side of the data store: the stubs of \<open>lib/libsys/ds.c\<close> and the call they make,
  \<open>lib/libsys/taskcall.c\<close>.

  An array of the client is a list of bytes. While a grant on it is in force it can be changed
  through the grant; \<open>co_revoke\<close> gives its contents at the end. Grants and messages are
  programs over a state \<open>'w\<close> that is not the client's, so that the server can be put there.
\<close>

section \<open>The system interface\<close>

record 'w client_os =
  co_grant :: "endpoint \<Rightarrow> byte list \<Rightarrow> s32 \<Rightarrow> ('w, s32) prog"
  co_revoke :: "s32 \<Rightarrow> ('w, byte list) prog"
  co_sendrec :: "endpoint \<Rightarrow> ds_msg \<Rightarrow> ('w, int \<times> ds_msg) prog"

definition CPF_READ :: s32 where [simp]: "CPF_READ = 1"
definition CPF_WRITE :: s32 where [simp]: "CPF_WRITE = 2"

definition GRANT_VALID :: "s32 \<Rightarrow> bool" where
  "GRANT_VALID g \<longleftrightarrow> sint g > - 1"

definition taskcall :: "'w client_os \<Rightarrow> endpoint \<Rightarrow> int \<Rightarrow> ds_msg \<Rightarrow> ('w, int \<times> ds_msg) prog" where
  "taskcall co who syscallnr m = bnd (co_sendrec co who (m\<lparr>dm_type := syscallnr\<rparr>)) (\<lambda>r.
     if fst r \<noteq> 0 then ret r else ret (dm_type (snd r), snd r))"

definition zero_ds_msg :: ds_msg where
  "zero_ds_msg = \<lparr>dm_source = 0, dm_type = 0, key_grant = 0, key_len = 0, dm_flags = 0, val_in = 0,
     val_len = 0, dm_owner = 0\<rparr>"

section \<open>The call\<close>

text \<open>
  The length of the key and the access the server gets to it. For \<open>DS_CHECK\<close> and
  \<open>DS_RETRIEVE_LABEL\<close> the array is where the server stores a key; it has to have room for one.
\<close>

definition key_access :: "int \<Rightarrow> byte list \<Rightarrow> ('w, nat \<times> s32) prog" where
  "key_access ty ds_name =
     (if ty = DS_CHECK \<or> ty = DS_RETRIEVE_LABEL then
        andthen (check OutOfBounds (DS_MAX_KEYLEN \<le> length ds_name)) (ret (DS_MAX_KEYLEN, CPF_WRITE))
      else bnd (strlen ds_name) (\<lambda>n. ret (n + 1, CPF_READ)))"

definition do_invoke_ds ::
  "'w client_os \<Rightarrow> ds_msg \<Rightarrow> int \<Rightarrow> byte list \<Rightarrow> ('w, int \<times> ds_msg \<times> byte list) prog" where
  "do_invoke_ds co m ty ds_name = bnd (key_access ty ds_name) (\<lambda>a.
     bnd (co_grant co DS_PROC_NR (take (fst a) ds_name) (snd a)) (\<lambda>g_key.
     if \<not> GRANT_VALID g_key then ret (ENOMEM, m, ds_name)
     else
       bnd (taskcall co DS_PROC_NR ty (m\<lparr>key_grant := g_key, key_len := of_nat (fst a)\<rparr>)) (\<lambda>r.
       bnd (co_revoke co g_key) (\<lambda>bs.
       ret (fst r, snd r, overwrite 0 bs ds_name)))))"

text \<open>The stubs that only return the result.\<close>

definition invoke :: "'w client_os \<Rightarrow> ds_msg \<Rightarrow> int \<Rightarrow> byte list \<Rightarrow> ('w, int) prog" where
  "invoke co m ty ds_name = bnd (do_invoke_ds co m ty ds_name) (\<lambda>r. ret (fst r))"

section \<open>Publish\<close>

definition ds_publish_label :: "'w client_os \<Rightarrow> byte list \<Rightarrow> endpoint \<Rightarrow> s32 \<Rightarrow> ('w, int) prog" where
  "ds_publish_label co ds_name ep flags =
     invoke co (zero_ds_msg\<lparr>val_in := ep, dm_flags := DSF_TYPE_LABEL OR flags\<rparr>) DS_PUBLISH ds_name"

definition ds_publish_u32 :: "'w client_os \<Rightarrow> byte list \<Rightarrow> u32 \<Rightarrow> s32 \<Rightarrow> ('w, int) prog" where
  "ds_publish_u32 co ds_name val flags =
     invoke co (zero_ds_msg\<lparr>val_in := val, dm_flags := DSF_TYPE_U32 OR flags\<rparr>) DS_PUBLISH ds_name"

definition ds_publish_raw :: "'w client_os \<Rightarrow> byte list \<Rightarrow> byte list \<Rightarrow> u32 \<Rightarrow> s32 \<Rightarrow> ('w, int) prog" where
  "ds_publish_raw co ds_name vaddr len flags =
     bnd (co_grant co DS_PROC_NR (take (unat len) vaddr) CPF_READ) (\<lambda>gid.
     if \<not> GRANT_VALID gid then ret ENOMEM
     else
       bnd (invoke co (zero_ds_msg\<lparr>val_in := gid, val_len := len, dm_flags := flags\<rparr>) DS_PUBLISH ds_name) (\<lambda>r.
       andthen (co_revoke co gid) (ret r)))"

definition ds_publish_str :: "'w client_os \<Rightarrow> byte list \<Rightarrow> byte list \<Rightarrow> s32 \<Rightarrow> ('w, int) prog" where
  "ds_publish_str co ds_name val flags = bnd (strlen val) (\<lambda>n.
     ds_publish_raw co ds_name (val[n := 0]) (of_nat (n + 1)) (flags OR DSF_TYPE_STR))"

definition ds_publish_mem :: "'w client_os \<Rightarrow> byte list \<Rightarrow> byte list \<Rightarrow> u32 \<Rightarrow> s32 \<Rightarrow> ('w, int) prog" where
  "ds_publish_mem co ds_name vaddr len flags = ds_publish_raw co ds_name vaddr len (flags OR DSF_TYPE_MEM)"

section \<open>Retrieve\<close>

definition ds_retrieve_label_name :: "'w client_os \<Rightarrow> byte list \<Rightarrow> endpoint \<Rightarrow> ('w, int \<times> byte list) prog" where
  "ds_retrieve_label_name co ds_name ep =
     bnd (do_invoke_ds co (zero_ds_msg\<lparr>val_in := ep\<rparr>) DS_RETRIEVE_LABEL ds_name) (\<lambda>r. ret (fst r, snd (snd r)))"

text \<open>\<open>m.m_ds_reply.val_out\<close> is read whatever the result is.\<close>

definition ds_retrieve_label_endpt :: "'w client_os \<Rightarrow> byte list \<Rightarrow> ('w, int \<times> endpoint) prog" where
  "ds_retrieve_label_endpt co ds_name =
     bnd (do_invoke_ds co (zero_ds_msg\<lparr>dm_flags := DSF_TYPE_LABEL\<rparr>) DS_RETRIEVE ds_name) (\<lambda>r.
     ret (fst r, key_grant (fst (snd r))))"

definition ds_retrieve_u32 :: "'w client_os \<Rightarrow> byte list \<Rightarrow> ('w, int \<times> u32) prog" where
  "ds_retrieve_u32 co ds_name =
     bnd (do_invoke_ds co (zero_ds_msg\<lparr>dm_flags := DSF_TYPE_U32\<rparr>) DS_RETRIEVE ds_name) (\<lambda>r.
     ret (fst r, key_grant (fst (snd r))))"

text \<open>\<open>m.m_ds_reply.val_len\<close>, the new length, is read whatever the result is.\<close>

definition ds_retrieve_raw ::
  "'w client_os \<Rightarrow> byte list \<Rightarrow> byte list \<Rightarrow> u32 \<Rightarrow> s32 \<Rightarrow> ('w, int \<times> byte list \<times> u32) prog" where
  "ds_retrieve_raw co ds_name vaddr len flags =
     bnd (co_grant co DS_PROC_NR (take (unat len) vaddr) CPF_WRITE) (\<lambda>gid.
     if \<not> GRANT_VALID gid then ret (ENOMEM, vaddr, len)
     else
       bnd (do_invoke_ds co (zero_ds_msg\<lparr>val_in := gid, val_len := len, dm_flags := flags\<rparr>) DS_RETRIEVE ds_name) (\<lambda>r.
       bnd (co_revoke co gid) (\<lambda>bs.
       ret (fst r, overwrite 0 bs vaddr, key_len (fst (snd r))))))"

definition ds_retrieve_str :: "'w client_os \<Rightarrow> byte list \<Rightarrow> byte list \<Rightarrow> u32 \<Rightarrow> ('w, int \<times> byte list) prog" where
  "ds_retrieve_str co ds_name val len_str =
     bnd (ds_retrieve_raw co ds_name val (len_str + 1) DSF_TYPE_STR) (\<lambda>r.
     andthen (check OutOfBounds (unat (snd (snd r) - 1) < length (fst (snd r))))
       (ret (fst r, (fst (snd r))[unat (snd (snd r) - 1) := 0])))"

definition ds_retrieve_mem :: "'w client_os \<Rightarrow> byte list \<Rightarrow> byte list \<Rightarrow> u32 \<Rightarrow> ('w, int \<times> byte list \<times> u32) prog" where
  "ds_retrieve_mem co ds_name vaddr len = ds_retrieve_raw co ds_name vaddr len DSF_TYPE_MEM"

section \<open>Delete, subscribe, check\<close>

definition ds_delete_u32 :: "'w client_os \<Rightarrow> byte list \<Rightarrow> ('w, int) prog" where
  "ds_delete_u32 co ds_name = invoke co (zero_ds_msg\<lparr>dm_flags := DSF_TYPE_U32\<rparr>) DS_DELETE ds_name"

definition ds_delete_str :: "'w client_os \<Rightarrow> byte list \<Rightarrow> ('w, int) prog" where
  "ds_delete_str co ds_name = invoke co (zero_ds_msg\<lparr>dm_flags := DSF_TYPE_STR\<rparr>) DS_DELETE ds_name"

definition ds_delete_mem :: "'w client_os \<Rightarrow> byte list \<Rightarrow> ('w, int) prog" where
  "ds_delete_mem co ds_name = invoke co (zero_ds_msg\<lparr>dm_flags := DSF_TYPE_MEM\<rparr>) DS_DELETE ds_name"

definition ds_delete_label :: "'w client_os \<Rightarrow> byte list \<Rightarrow> ('w, int) prog" where
  "ds_delete_label co ds_name = invoke co (zero_ds_msg\<lparr>dm_flags := DSF_TYPE_LABEL\<rparr>) DS_DELETE ds_name"

definition ds_subscribe :: "'w client_os \<Rightarrow> byte list \<Rightarrow> s32 \<Rightarrow> ('w, int) prog" where
  "ds_subscribe co regexp flags = invoke co (zero_ds_msg\<lparr>dm_flags := flags\<rparr>) DS_SUBSCRIBE regexp"

text \<open>The result, the array with the key, and what goes to the two optional arguments.\<close>

definition ds_check :: "'w client_os \<Rightarrow> byte list \<Rightarrow> ('w, int \<times> byte list \<times> s32 \<times> endpoint) prog" where
  "ds_check co ds_key =
     bnd (do_invoke_ds co zero_ds_msg DS_CHECK ds_key) (\<lambda>r.
     ret (fst r, snd (snd r), dm_flags (fst (snd r)), dm_owner (fst (snd r))))"

section \<open>Clients and the server together\<close>

text \<open>
  The kernel between them: a table of the grants in force, with the access and the memory of
  each, and the address the allocator gives out next. A copy is refused without a grant that
  allows it.
\<close>

record kernel =
  k_grants :: "s32 \<Rightarrow> (s32 \<times> byte list) option"
  k_next :: s32
  k_brk :: u32

definition k_copyfrom :: "endpoint \<Rightarrow> s32 \<Rightarrow> nat \<Rightarrow> kernel \<Rightarrow> (int \<times> (nat \<Rightarrow> byte)) \<times> kernel" where
  "k_copyfrom who g n k = (case k_grants k g of
      Some (access, bs) \<Rightarrow> if access AND CPF_READ \<noteq> 0 \<and> n \<le> length bs then ((OK, nth bs), k) else ((EPERM, \<lambda>_. 0), k)
    | None \<Rightarrow> ((EPERM, \<lambda>_. 0), k))"

definition k_copyto :: "endpoint \<Rightarrow> s32 \<Rightarrow> byte list \<Rightarrow> kernel \<Rightarrow> int \<times> kernel" where
  "k_copyto who g bs k = (case k_grants k g of
      Some (access, b) \<Rightarrow>
        if access AND CPF_WRITE \<noteq> 0 \<and> length bs \<le> length b
        then (OK, k\<lparr>k_grants := (k_grants k)(g \<mapsto> (access, overwrite 0 bs b))\<rparr>) else (EPERM, k)
    | None \<Rightarrow> (EPERM, k))"

definition k_malloc :: "nat \<Rightarrow> kernel \<Rightarrow> (u32 \<times> (nat \<Rightarrow> byte)) \<times> kernel" where
  "k_malloc n k = ((k_brk k, \<lambda>_. 0), k\<lparr>k_brk := k_brk k + of_nat n + 1\<rparr>)"

definition kernel_os :: "(byte list \<Rightarrow> int \<times> byte list) \<Rightarrow> (byte list \<Rightarrow> byte list \<Rightarrow> int) \<Rightarrow> kernel ds_os" where
  "kernel_os rcomp rexec = \<lparr>os_safecopyfrom = k_copyfrom, os_safecopyto = k_copyto,
     os_datacopy = (\<lambda>_ _ _ k. (OK, k)), os_rproctab = (\<lambda>k. ((OK, \<lambda>_. \<lparr>rp_in_use = 0, rp_endpoint = 0, rp_label = []\<rparr>), k)),
     os_notify = (\<lambda>_ k. (OK, k)), os_malloc = k_malloc, os_regcomp = rcomp, os_regerror = (\<lambda>_ _. []),
     os_regexec = rexec, os_stack = (\<lambda>_. 0), os_receive = (\<lambda>k. ((OK, zero_ds_msg), k)), os_send = (\<lambda>_ _ k. (OK, k))\<rparr>"

text \<open>A client at the endpoint \<open>e\<close>: a message is answered by one run of the server's dispatcher.\<close>

definition linked :: "kernel ds_os \<Rightarrow> endpoint \<Rightarrow> kernel ds client_os" where
  "linked os e = \<lparr>
     co_grant = (\<lambda>who bs access. bnd (gets (\<lambda>s. k_next (p_world s))) (\<lambda>g.
       andthen (modify (\<lambda>s. s\<lparr>p_world := (p_world s)\<lparr>k_next := g + 1,
         k_grants := (k_grants (p_world s))(g \<mapsto> (access, bs))\<rparr>\<rparr>)) (ret g))),
     co_revoke = (\<lambda>g. bnd (gets (\<lambda>s. k_grants (p_world s) g)) (\<lambda>r.
       andthen (modify (\<lambda>s. s\<lparr>p_world := (p_world s)\<lparr>k_grants := (k_grants (p_world s))(g := None)\<rparr>\<rparr>))
         (ret (case r of None \<Rightarrow> [] | Some a \<Rightarrow> snd a)))),
     co_sendrec = (\<lambda>who m.
       andthen (modify (\<lambda>s. s\<lparr>ds_who_e := e, ds_callnr := dm_type m\<rparr>)) (
       bnd (ds_dispatch os (m\<lparr>dm_source := e\<rparr>)) (\<lambda>r. ret (0, (snd r)\<lparr>dm_type := fst r\<rparr>))))\<rparr>"

end
