(* ===== verification/Ds_Link.thy ===== *)
theory Ds_Link
  imports Ds_Client Ds_Access
begin

text \<open>
  A client, the kernel's grants and the data store server run together: what one stub stores
  another one gets back.
\<close>

section \<open>The key on its way to the server\<close>

definition key_ok :: "byte list \<Rightarrow> bool" where
  "key_ok name \<longleftrightarrow> terminated name \<and> 0 < length (cstr name) \<and> length (cstr name) < DS_MAX_KEYLEN"

definition granted :: "s32 \<Rightarrow> byte list \<Rightarrow> kernel \<Rightarrow> bool" where
  "granted g bs k \<longleftrightarrow> k_grants k g = Some (CPF_READ, bs)"

lemma kernel_stable: "stable (kernel_os rc rx) (granted g bs)"
  by (auto simp: stable_def kernel_os_def granted_def k_copyfrom_def k_copyto_def k_malloc_def split: option.split)

lemma take_cstr: "terminated name \<Longrightarrow> take (Suc (length (cstr name))) name = cstr name @ [0]"
proof (induction name)
  case (Cons b name)
  then show ?case by (cases "b = 0") (auto simp: cstr_def)
qed simp

lemma cstr_key_cut: "0 \<notin> set xs \<Longrightarrow> length xs \<le> i \<Longrightarrow> cstr ((xs @ 0 # rest)[i := 0]) = xs"
  by (cases "i - length xs") (auto simp: list_update_append)

lemma small_word:
  assumes "n \<le> 80"
  shows "unat (of_nat n :: 32 word) = n" and "sint (of_nat n :: 32 word) = int n"
proof -
  show u: "unat (of_nat n :: 32 word) = n" using assms by (simp add: unat_of_nat)
  have "uint (of_nat n :: 32 word) = int n" using u by (simp add: uint_nat)
  then show "sint (of_nat n :: 32 word) = int n"
    using assms by (simp add: sint_uint signed_take_bit_int_eq_self)
qed

lemma linked_key:
  assumes "key_ok name" and "granted g (cstr name @ [0]) (p_world s)"
    and m: "key_grant m = g" "key_len m = of_nat (length (cstr name) + 1)"
  shows "\<exists>key. request_key (kernel_os rc rx) m (stack_array (kernel_os rc rx) DS_MAX_KEYLEN) (p_world s) = Some key
    \<and> cstr key = cstr name"
proof -
  define n where "n = length (cstr name) + 1"
  let ?bs = "cstr name @ [0]"
  have n: "2 \<le> n" "n \<le> 80" using assms(1) by (simp_all add: n_def key_ok_def Suc_le_eq)
  note w = small_word [OF n(2)]
  have c: "os_safecopyfrom (kernel_os rc rx) (dm_source m) g n (p_world s) = ((OK, nth ?bs), p_world s)"
    using assms(2) by (simp add: kernel_os_def k_copyfrom_def granted_def n_def)
  have mp: "map (nth ?bs) [0..<n] = ?bs" using map_nth [of ?bs] by (simp add: n_def)
  have cut: "cstr ((overwrite 0 ?bs arr)[79 := 0]) = cstr name" for arr
    using n by (simp add: overwrite_def cstr_key_cut n_def)
  have kl: "key_len m = of_nat n" using m(2) by (simp add: n_def)
  show ?thesis
    unfolding request_key_def kl m(1) w c Let_def fst_conv snd_conv mp using n cut by simp
qed

section \<open>A call\<close>

text \<open>The state in which the server gets the message, and the state after the reply.\<close>

definition with_grant :: "endpoint \<Rightarrow> int \<Rightarrow> byte list \<Rightarrow> kernel ds \<Rightarrow> kernel ds" where
  "with_grant e ty bs s = s\<lparr>p_world := (p_world s)\<lparr>k_next := k_next (p_world s) + 1,
     k_grants := (k_grants (p_world s))(k_next (p_world s) \<mapsto> (CPF_READ, bs))\<rparr>, ds_who_e := e, ds_callnr := ty\<rparr>"

definition without_grant :: "s32 \<Rightarrow> kernel ds \<Rightarrow> kernel ds" where
  "without_grant g s = s\<lparr>p_world := (p_world s)\<lparr>k_grants := (k_grants (p_world s))(g := None)\<rparr>\<rparr>"

definition request :: "endpoint \<Rightarrow> int \<Rightarrow> byte list \<Rightarrow> s32 \<Rightarrow> ds_msg \<Rightarrow> ds_msg" where
  "request e ty name g m = m\<lparr>key_grant := g, key_len := of_nat (length (cstr name) + 1), dm_type := ty, dm_source := e\<rparr>"

lemma overwrite_take: "overwrite 0 (take n xs) xs = xs"
  by (simp add: overwrite_def) (metis append_take_drop_id drop_eq_Nil length_take linorder_le_cases min.absorb2 min.absorb1)

lemma linked_invoke:
  assumes key: "key_ok name" and ty: "ty \<noteq> DS_CHECK" "ty \<noteq> DS_RETRIEVE_LABEL"
    and g: "g = k_next (p_world s)" "GRANT_VALID g"
    and run: "wp (ds_dispatch os (request e ty name g m)) (\<lambda>r t. granted g (cstr name @ [0]) (p_world t)
      \<and> Q (fst r, (snd r)\<lparr>dm_type := fst r\<rparr>, name) (without_grant g t)) (with_grant e ty (cstr name @ [0]) s)"
  shows "wp (do_invoke_ds (linked os e) m ty name) Q s"
proof -
  have t: "terminated name" "take (Suc (length (cstr name))) name = cstr name @ [0]"
    using key take_cstr by (simp_all add: key_ok_def)
  have ow: "overwrite 0 (cstr name @ [0]) name = name" using overwrite_take [of "Suc (length (cstr name))" name] t(2) by simp
  have "wp (ds_dispatch os (request e ty name g m)) (\<lambda>r t. Q (fst r, (snd r)\<lparr>dm_type := fst r\<rparr>,
      overwrite 0 (case k_grants (p_world t) g of None \<Rightarrow> [] | Some a \<Rightarrow> snd a) name) (without_grant g t))
      (with_grant e ty (cstr name @ [0]) s)"
    by (rule wp_mono [OF run]) (simp add: granted_def ow)
  note run' = this [unfolded with_grant_def without_grant_def request_def g(1)]
  have st: "wp (strlen name) R s \<longleftrightarrow> R (length (cstr name)) s" for R
    using t(1) by (simp add: wp_strlen)
  show ?thesis
    unfolding do_invoke_ds_def key_access_def
    using ty g(2) run' t(1)
    by (simp add: wp_simps st t(2) g(1) linked_def taskcall_def)
qed

text \<open>The server's tables do not depend on what the kernel holds.\<close>

definition store_ok :: "'w ds \<Rightarrow> bool" where
  "store_ok s \<longleftrightarrow> tables_ok s \<and> keys_unique (ds_store s) \<and> heap_ok s \<and> labelled s"

definition granted_at :: "s32 \<Rightarrow> byte list \<Rightarrow> s32 \<Rightarrow> kernel \<Rightarrow> bool" where
  "granted_at g bs n k \<longleftrightarrow> granted g bs k \<and> k_next k = n"

lemma granted_at_stable: "stable (kernel_os rc rx) (granted_at g bs n)"
  by (auto simp: stable_def kernel_os_def granted_at_def granted_def k_copyfrom_def k_copyto_def k_malloc_def
      split: option.split)

lemma grant_tables [simp]:
  "tables_ok (with_grant e ty bs s) = tables_ok s" "labelled (with_grant e ty bs s) = labelled s"
  "heap_ok (with_grant e ty bs s) = heap_ok s"
  "store_ok (with_grant e ty bs s) = store_ok s" "store_ok (without_grant g s) = store_ok s"
  "abs_ds (with_grant e ty bs s) = abs_ds s" "abs_ds (without_grant g s) = abs_ds s"
  "proc_name (with_grant e ty bs s) = proc_name s" "proc_name (without_grant g s) = proc_name s"
  "ds_store (with_grant e ty bs s) = ds_store s" "ds_callnr (with_grant e ty bs s) = ty"
  "granted_at (k_next (p_world s)) bs (k_next (p_world s) + 1) (p_world (with_grant e ty bs s))"
  "k_next (p_world (without_grant g s)) = k_next (p_world s)"
  by (simp_all add: store_ok_def with_grant_def without_grant_def tables_ok_def heap_ok_def labelled_def
      abs_ds_def [abs_def] proc_name_def [abs_def] granted_at_def granted_def)

lemma dispatch_publish:
  assumes "wp (do_publish os m) (\<lambda>r. Q (r, m)) s" and "ds_callnr s = DS_PUBLISH"
  shows "wp (ds_dispatch os m) Q s"
  using assms by (simp add: ds_dispatch_def wp_simps with_msg_def is_notify_def)

lemma dispatch_retrieve: "wp (do_retrieve os m) Q s \<Longrightarrow> ds_callnr s = DS_RETRIEVE \<Longrightarrow> wp (ds_dispatch os m) Q s"
  by (simp add: ds_dispatch_def wp_simps is_notify_def)

lemma linked_publish_u32:
  assumes key: "key_ok name" and ok: "store_ok s" and me: "proc_name s e = Some me"
    and new: "abs_ds s (DSF_TYPE_U32, cstr name) = None" "alloc_data_slot (ds_store s) \<noteq> None"
    and g: "GRANT_VALID (k_next (p_world s))"
  shows "wp (ds_publish_u32 (linked (kernel_os rc rx) e) name v 0) (\<lambda>r t. r = OK \<and> store_ok t
    \<and> k_next (p_world t) = k_next (p_world s) + 1
    \<and> abs_ds t = (abs_ds s)((DSF_TYPE_U32, cstr name) \<mapsto> (me, DSF_IN_USE OR DSF_TYPE_U32, Number v))) s"
proof -
  let ?g = "k_next (p_world s)" and ?bs = "cstr name @ [0]" and ?os = "kernel_os rc rx"
  define m where "m = request e DS_PUBLISH name ?g (zero_ds_msg\<lparr>val_in := v, dm_flags := DSF_TYPE_U32\<rparr>)"
  let ?s = "with_grant e DS_PUBLISH ?bs s" and ?W = "granted_at ?g ?bs (?g + 1)"
  have W: "?W (p_world ?s)" by simp
  then have gr: "granted ?g ?bs (p_world ?s)" by (simp add: granted_at_def)
  obtain key' where k: "request_key ?os m (stack_array ?os DS_MAX_KEYLEN) (p_world ?s) = Some key'" "cstr key' = cstr name"
    using linked_key [OF key gr, of m rc rx] by (auto simp: m_def request_def)
  obtain i where i: "alloc_data_slot (ds_store s) = Some i" using new(2) by auto
  obtain src where src: "ds_getprocname (ds_store s) e = Some src" "cstr (name_at (ds_store s) src) = me"
    using me by (auto simp: proc_name_def)
  have f: "dm_flags m = DSF_TYPE_U32" "val_in m = v" "dm_source m = e" by (simp_all add: m_def request_def)
  have ty: "type_ok DSF_TYPE_U32" "type_of DSF_TYPE_U32 = DSF_TYPE_U32" "DSF_TYPE_U32 \<in> types" "\<not> mem_type DSF_TYPE_U32"
    by (simp_all add: type_ok_def type_of_def)
  have all: "list_all entry_ok (ds_store s)" using ok by (simp add: store_ok_def tables_ok_def)
  have "lookup_entry (ds_store s) key' DSF_TYPE_U32 = None"
    using new(1) lookup_slot_of [OF all ty(3), of key'] k(2) by (simp add: abs_ds_def)
  then have slot: "publish_slot (ds_store s) m key' = Inr i"
    using i by (simp add: publish_slot_def f Let_def)
  have pub: "publishable ?os m ?s key' src i"
    using ok k(1) src(1) slot ty by (simp add: publishable_def store_ok_def f)
  have un: "publishable ?os m ?s key' src i" "keys_unique (ds_store ?s)" "heap_ok ?s" "storable ?os ?W m ?s (Number v)"
    using pub ok ty(4) by (simp_all add: store_ok_def storable_def f)
  have run: "wp (do_publish ?os m) (\<lambda>r t. r = OK \<and> store_ok t \<and> ?W (p_world t)
    \<and> abs_ds t = (abs_ds s)((DSF_TYPE_U32, cstr name) \<mapsto> (me, DSF_IN_USE OR DSF_TYPE_U32, Number v))) ?s"
    by (rule wp_mono [OF do_publish_updates [OF un(1) granted_at_stable W un(2,3,4)]])
      (simp add: store_ok_def f ty(2) [simplified] k(2) src(2))
  have "wp (do_invoke_ds (linked ?os e) (zero_ds_msg\<lparr>val_in := v, dm_flags := DSF_TYPE_U32\<rparr>) DS_PUBLISH name)
    (\<lambda>r t. fst r = OK \<and> store_ok t \<and> k_next (p_world t) = ?g + 1
    \<and> abs_ds t = (abs_ds s)((DSF_TYPE_U32, cstr name) \<mapsto> (me, DSF_IN_USE OR DSF_TYPE_U32, Number v))) s"
  proof (rule linked_invoke [OF key _ _ refl g])
    show "wp (ds_dispatch ?os (request e DS_PUBLISH name ?g (zero_ds_msg\<lparr>val_in := v, dm_flags := DSF_TYPE_U32\<rparr>))) (\<lambda>r t. granted ?g ?bs (p_world t)
      \<and> (fst (fst r, (snd r)\<lparr>dm_type := fst r\<rparr>, name) = OK \<and> store_ok (without_grant ?g t) \<and> k_next (p_world (without_grant ?g t)) = ?g + 1
    \<and> abs_ds (without_grant ?g t) = (abs_ds s)((DSF_TYPE_U32, cstr name) \<mapsto> (me, DSF_IN_USE OR DSF_TYPE_U32, Number v)))) ?s"
      unfolding m_def [symmetric] by (rule dispatch_publish, rule wp_mono [OF run]) (simp_all add: granted_at_def)
  qed simp_all
  then show ?thesis by (simp add: ds_publish_u32_def invoke_def wp_simps)
qed

lemma do_retrieve_world: "stable os W \<Longrightarrow> preserves (in_world W) (do_retrieve os m)"
  unfolding do_retrieve_def retrieve_value_def get_key_name_def Let_def by (intro preserves_intros | assumption)+

lemma same_tables:
  fixes s t :: "'w ds"
  assumes "tables t = tables s" and "ds_subs t = ds_subs s"
  shows "store_ok t = store_ok s" and "abs_ds t = abs_ds s"
  using assms by (simp_all add: store_ok_def tables_ok_def heap_ok_def labelled_def abs_ds_def [abs_def])

lemma linked_retrieve_u32:
  assumes key: "key_ok name" and ok: "store_ok s" and g: "GRANT_VALID (k_next (p_world s))"
    and ent: "abs_ds s (DSF_TYPE_U32, cstr name) = Some (owner, fl, Number v)"
    and may: "has fl DSF_PRIV_RETRIEVE \<Longrightarrow> proc_name s e = Some owner"
  shows "wp (ds_retrieve_u32 (linked (kernel_os rc rx) e) name) (\<lambda>r t. r = (OK, v) \<and> store_ok t \<and> abs_ds t = abs_ds s) s"
proof -
  let ?g = "k_next (p_world s)" and ?bs = "cstr name @ [0]" and ?os = "kernel_os rc rx"
  define m where "m = request e DS_RETRIEVE name ?g (zero_ds_msg\<lparr>dm_flags := DSF_TYPE_U32\<rparr>)"
  let ?s = "with_grant e DS_RETRIEVE ?bs s" and ?W = "granted_at ?g ?bs (?g + 1)"
  have W: "?W (p_world ?s)" by simp
  then have gr: "granted ?g ?bs (p_world ?s)" by (simp add: granted_at_def)
  obtain key' where k: "request_key ?os m (stack_array ?os DS_MAX_KEYLEN) (p_world ?s) = Some key'" "cstr key' = cstr name"
    using linked_key [OF key gr, of m rc rx] by (auto simp: m_def request_def)
  have f: "type_of (dm_flags m) = DSF_TYPE_U32" "type_ok (dm_flags m)" "dm_source m = e"
    by (simp_all add: m_def request_def type_of_def type_ok_def)
  have run: "wp (do_retrieve ?os m) (\<lambda>r t. r = (OK, set_val_out v m) \<and> store_ok t \<and> abs_ds t = abs_ds s \<and> ?W (p_world t)) ?s"
  proof (rule wp_mono)
    show "wp (do_retrieve ?os m) (\<lambda>r t. (tables t = tables ?s \<and> ds_subs t = ds_subs ?s
        \<and> retrieved ?os ?W m ?s key' r (p_world t)) \<and> ?W (p_world t)) ?s"
      using ok f(2) k(1) W
      by (intro wp_conj_wlp do_retrieve_reads granted_at_stable preservesD [OF do_retrieve_world])
        (simp_all add: store_ok_def)
    show "r = (OK, set_val_out v m) \<and> store_ok t \<and> abs_ds t = abs_ds s \<and> ?W (p_world t)"
      if "(tables t = tables ?s \<and> ds_subs t = ds_subs ?s
        \<and> retrieved ?os ?W m ?s key' r (p_world t)) \<and> ?W (p_world t)" for r and t :: "kernel ds"
    proof -
      have "retrieved ?os ?W m ?s key' r (p_world t)" using that by simp
      then have "r = (OK, set_val_out v m)"
        unfolding retrieved_def f(1) k(2) grant_tables ent using may f(3) by (auto split: if_splits)
      with that ok same_tables [of t ?s] show ?thesis by simp
    qed
  qed
  have "wp (do_invoke_ds (linked ?os e) (zero_ds_msg\<lparr>dm_flags := DSF_TYPE_U32\<rparr>) DS_RETRIEVE name)
    (\<lambda>r t. fst r = OK \<and> key_grant (fst (snd r)) = v \<and> store_ok t \<and> abs_ds t = abs_ds s) s"
  proof (rule linked_invoke [OF key _ _ refl g])
    show "wp (ds_dispatch ?os (request e DS_RETRIEVE name ?g (zero_ds_msg\<lparr>dm_flags := DSF_TYPE_U32\<rparr>)))
      (\<lambda>r t. granted ?g ?bs (p_world t) \<and> (fst (fst r, (snd r)\<lparr>dm_type := fst r\<rparr>, name) = OK
        \<and> key_grant (fst (snd (fst r, (snd r)\<lparr>dm_type := fst r\<rparr>, name))) = v
        \<and> store_ok (without_grant ?g t) \<and> abs_ds (without_grant ?g t) = abs_ds s)) ?s"
      unfolding m_def [symmetric]
      by (rule dispatch_retrieve, rule wp_mono [OF run]) (simp_all add: granted_at_def set_val_out_def)
  qed simp_all
  then show ?thesis by (simp add: ds_retrieve_u32_def wp_simps)
qed

section \<open>A key that is not there\<close>

definition memory_at :: "s32 \<Rightarrow> nat \<Rightarrow> kernel \<Rightarrow> bool" where
  "memory_at g n k \<longleftrightarrow> (\<exists>b. k_grants k g = Some (CPF_WRITE, b) \<and> length b = n)"

lemma memory_at_stable: "stable (kernel_os rc rx) (\<lambda>k. granted g bs k \<and> memory_at g' n k)"
proof -
  have "length (overwrite 0 bs' b) = length b" if "length bs' \<le> length b" for bs' b :: "byte list"
    using that by (simp add: overwrite_def)
  then show ?thesis
    by (auto simp: stable_def kernel_os_def granted_def memory_at_def k_copyfrom_def k_copyto_def k_malloc_def
        split: option.split)
qed

lemma linked_retrieve_missing:
  assumes key: "key_ok name" and ok: "store_ok s" and g: "GRANT_VALID (k_next (p_world s))"
    and ty: "type_ok (dm_flags m0)" and ent: "abs_ds s (type_of (dm_flags m0), cstr name) = None"
    and mem: "memory_at g' n (p_world s)" "g' \<noteq> k_next (p_world s)"
  shows "wp (do_invoke_ds (linked (kernel_os rc rx) e) m0 DS_RETRIEVE name) (\<lambda>r t. fst r = ESRCH
    \<and> key_len (fst (snd r)) = of_nat (length (cstr name) + 1) \<and> memory_at g' n (p_world t)) s"
proof -
  let ?g = "k_next (p_world s)" and ?bs = "cstr name @ [0]" and ?os = "kernel_os rc rx"
  define m where "m = request e DS_RETRIEVE name ?g m0"
  let ?s = "with_grant e DS_RETRIEVE ?bs s" and ?W = "\<lambda>k. granted ?g ?bs k \<and> memory_at g' n k"
  have W: "?W (p_world ?s)" using mem by (auto simp: with_grant_def granted_def memory_at_def)
  then have gr: "granted ?g ?bs (p_world ?s)" by simp
  have f: "dm_flags m = dm_flags m0" "key_len m = of_nat (length (cstr name) + 1)" by (simp_all add: m_def request_def)
  obtain key' where k: "request_key ?os m (stack_array ?os DS_MAX_KEYLEN) (p_world ?s) = Some key'" "cstr key' = cstr name"
    using linked_key [OF key gr, of m rc rx] by (auto simp: m_def request_def)
  have run: "wp (do_retrieve ?os m) (\<lambda>r t. r = (ESRCH, m) \<and> ?W (p_world t)) ?s"
  proof (rule wp_mono)
    show "wp (do_retrieve ?os m) (\<lambda>r t. (tables t = tables ?s \<and> ds_subs t = ds_subs ?s
        \<and> retrieved ?os ?W m ?s key' r (p_world t)) \<and> ?W (p_world t)) ?s"
      using ok ty f(1) k(1) W
      by (intro wp_conj_wlp do_retrieve_reads memory_at_stable preservesD [OF do_retrieve_world])
        (simp_all add: store_ok_def)
  qed (simp add: retrieved_def f(1) k(2) ent)
  show ?thesis
  proof (rule linked_invoke [OF key _ _ refl g])
    show "wp (ds_dispatch ?os (request e DS_RETRIEVE name ?g m0)) (\<lambda>r t. granted ?g ?bs (p_world t)
      \<and> (fst (fst r, (snd r)\<lparr>dm_type := fst r\<rparr>, name) = ESRCH
        \<and> key_len (fst (snd (fst r, (snd r)\<lparr>dm_type := fst r\<rparr>, name))) = of_nat (length (cstr name) + 1)
        \<and> memory_at g' n (p_world (without_grant ?g t)))) ?s"
      unfolding m_def [symmetric] using mem(2)
      by (intro dispatch_retrieve wp_mono [OF run]) (simp_all add: f without_grant_def memory_at_def)
  qed simp_all
qed

text \<open>
  \<open>ds_retrieve_str\<close> ends the string at the length of the reply even when there is no reply to
  the request: the word that is read is then the length of the key.
\<close>

lemma retrieve_str_out_of_bounds:
  assumes key: "key_ok name" and ok: "store_ok s"
    and g: "GRANT_VALID (k_next (p_world s))" "GRANT_VALID (k_next (p_world s) + 1)"
    and ent: "abs_ds s (DSF_TYPE_STR, cstr name) = None"
    and short: "length val = unat len_str + 1" "unat len_str < length (cstr name)"
  shows "ds_retrieve_str (linked (kernel_os rc rx) e) name val len_str s = Some (Inl OutOfBounds)"
proof -
  let ?g = "k_next (p_world s)" and ?co = "linked (kernel_os rc rx) e"
  let ?m = "zero_ds_msg\<lparr>val_in := ?g, val_len := len_str + 1, dm_flags := DSF_TYPE_STR\<rparr>"
  define s1 where "s1 = s\<lparr>p_world := (p_world s)\<lparr>k_next := ?g + 1,
    k_grants := (k_grants (p_world s))(?g \<mapsto> (CPF_WRITE, val))\<rparr>\<rparr>"
  have s1: "store_ok s1" "abs_ds s1 = abs_ds s" "k_next (p_world s1) = ?g + 1" "memory_at ?g (length val) (p_world s1)"
    using ok same_tables [of s1 s] by (simp_all add: s1_def memory_at_def)
  have v: "unat (len_str + 1) = length val" using short key by (simp add: key_ok_def unat_word_ariths)
  have ty: "type_ok (dm_flags ?m)" "type_of (dm_flags ?m) = DSF_TYPE_STR" by (simp_all add: type_ok_def type_of_def)
  have call: "wp (do_invoke_ds ?co ?m DS_RETRIEVE name) (\<lambda>r t. fst r = ESRCH
    \<and> key_len (fst (snd r)) = of_nat (length (cstr name) + 1) \<and> memory_at ?g (length val) (p_world t)) s1"
    by (rule linked_retrieve_missing) (use key s1 g(2) ent ty in \<open>simp_all del: DSF_TYPE_STR_def\<close>)
  have "wp (do_invoke_ds ?co ?m DS_RETRIEVE name) (\<lambda>r. wp (co_revoke ?co ?g)
      (\<lambda>bs t. length (overwrite 0 bs val) = length val \<and> key_len (fst (snd r)) = of_nat (length (cstr name) + 1))) s1"
    by (rule wp_mono [OF call]) (auto simp: linked_def wp_simps memory_at_def overwrite_def)
  then have "wp (ds_retrieve_raw ?co name val (len_str + 1) DSF_TYPE_STR) (\<lambda>r t. length (fst (snd r)) = length val
      \<and> snd (snd r) = of_nat (length (cstr name) + 1)) s"
    using g(1) unfolding s1_def by (simp add: ds_retrieve_raw_def wp_simps v linked_def)
  then obtain r t where r: "ds_retrieve_raw ?co name val (len_str + 1) DSF_TYPE_STR s = Some (Inr (r, t))"
      "length (fst (snd r)) = length val" "snd (snd r) = of_nat (length (cstr name) + 1)"
    by (auto simp: wp_def split: option.splits sum.splits)
  have "unat (of_nat (length (cstr name) + 1) - 1 :: 32 word) = length (cstr name)"
    using small_word(1) [of "length (cstr name)"] key by (simp add: key_ok_def)
  then have "\<not> unat (snd (snd r) - 1) < length (fst (snd r))" using r short by simp
  then show ?thesis using r(1) by (simp add: ds_retrieve_str_def bnd_def check_def andthen_def raise_def)
qed

end
