(* ===== verification/Ds_Label.thy ===== *)
theory Ds_Label
  imports Ds_Access
begin

text \<open>
  Deleting the label of a service removes everything the service left in the data store: its
  subscription and its entries.
\<close>

definition clear_owned :: "byte list \<Rightarrow> data_store \<Rightarrow> data_store" where
  "clear_owned lab d = (if in_use d \<and> cstr (d_owner d) = lab then d\<lparr>d_flags := 0\<rparr> else d)"

text \<open>The service owns no label: only the reincarnation server does.\<close>

definition owns_no_label :: "byte list \<Rightarrow> data_store list \<Rightarrow> bool" where
  "owns_no_label lab store \<longleftrightarrow> (\<forall>d \<in> set store. in_use d \<and> cstr (d_owner d) = lab
     \<longrightarrow> type_of (d_flags d) \<noteq> DSF_TYPE_LABEL)"

definition cleared :: "byte list \<Rightarrow> nat \<Rightarrow> 'w ds \<Rightarrow> 'w ds \<Rightarrow> bool" where
  "cleared lab k s t \<longleftrightarrow> ds_store t = map (clear_owned lab) (take k (ds_store s)) @ drop k (ds_store s)
     \<and> ds_heap t = ds_heap s \<and> subscribers t = subscribers s \<and> labelled t \<and> tables_ok t"

lemma delete_owned_cleared:
  fixes s :: "'w ds"
  assumes I: "cleared lab k s t" "W (p_world t)" and k: "k < NR_DS_KEYS" and len: "length (ds_store s) = NR_DS_KEYS"
    and no: "owns_no_label lab (ds_store s)" and W: "stable os W" and lab: "cstr lab = lab"
  shows "wp (delete_owned os lab k) (\<lambda>_ u. cleared lab (Suc k) s u \<and> W (p_world u)) t"
proof -
  have t: "ds_store t = map (clear_owned lab) (take k (ds_store s)) @ drop k (ds_store s)" "labelled t" "tables_ok t"
    "subscribers t = subscribers s" "ds_heap t = ds_heap s" using I by (simp_all add: cleared_def)
  have kt: "ds_store t ! k = ds_store s ! k" "k < length (ds_store t)" using t(1) k len by (simp_all add: nth_append)
  have step: "(ds_store t)[k := clear_owned lab (ds_store s ! k)]
      = map (clear_owned lab) (take (Suc k) (ds_store s)) @ drop (Suc k) (ds_store s)"
    using k len by (simp add: t(1) take_Suc_conv_app_nth list_update_append Cons_nth_drop_Suc [symmetric])
  show ?thesis
  proof (cases "in_use (ds_store s ! k) \<and> cstr (d_owner (ds_store s ! k)) = lab")
    case False
    then have "clear_owned lab (ds_store s ! k) = ds_store t ! k" by (auto simp: clear_owned_def kt)
    with step have "cleared lab (Suc k) s t" using t by (simp add: cleared_def)
    with False I(2) show ?thesis by (auto simp: delete_owned_def wp_simps kt lab)
  next
    case True
    have nolab: "type_of (d_flags (ds_store s ! k)) \<noteq> DSF_TYPE_LABEL"
      using no True k len unfolding owns_no_label_def by (metis nth_mem)
    have c: "clear_owned lab (ds_store s ! k) = (ds_store t ! k)\<lparr>d_flags := 0\<rparr>" using True by (simp add: clear_owned_def kt)
    have upd: "wp (update_subscribers os k False) (\<lambda>_ u. tables u = tables t \<and> W (p_world u)
        \<and> ds_subs u = map (marked os (ds_store t) k False) (ds_subs t)) t"
      by (rule update_subscribers_wp [OF _ t(2) W I(2)]) (use t(3) in \<open>simp add: tables_ok_def\<close>)
    have "wp (andthen (update_subscribers os k False) (set_slot k (\<lambda>d. d\<lparr>d_flags := 0\<rparr>)))
        (\<lambda>_ u. (tables u = ((ds_store t)[k := (ds_store t ! k)\<lparr>d_flags := 0\<rparr>], ds_heap t)
          \<and> subscribers u = subscribers t \<and> W (p_world u)) \<and> tables_ok u) t"
    proof (rule wp_conj_wlp)
      show "wp (andthen (update_subscribers os k False) (set_slot k (\<lambda>d. d\<lparr>d_flags := 0\<rparr>)))
          (\<lambda>_ u. tables u = ((ds_store t)[k := (ds_store t ! k)\<lparr>d_flags := 0\<rparr>], ds_heap t)
            \<and> subscribers u = subscribers t \<and> W (p_world u)) t"
        unfolding wp_andthen wp_set_slot
        by (rule wp_mono [OF upd]) auto
      have "preserves tables_ok (andthen (update_subscribers os k False) (set_slot k (\<lambda>d. d\<lparr>d_flags := 0\<rparr>)))"
        by (intro preserves_intros preserves_set_slot) (simp add: entry_ok_def)
      from preservesD [OF this t(3)]
      show "wlp (andthen (update_subscribers os k False) (set_slot k (\<lambda>d. d\<lparr>d_flags := 0\<rparr>))) (\<lambda>_. tables_ok) t" .
    qed
    moreover have "labelled u" if u: "tables u = ((ds_store t)[k := (ds_store t ! k)\<lparr>d_flags := 0\<rparr>], ds_heap t)"
      "subscribers u = subscribers t" for u :: "'w ds"
    proof -
      have "labelled (u\<lparr>ds_subs := ds_subs t\<rparr>)"
        by (rule labelled_store [OF t(2) _ kt(2)]) (use t(3) u nolab kt in \<open>simp_all add: tables_ok_def\<close>)
      then show ?thesis using labelled_subscribers [of "u\<lparr>ds_subs := ds_subs t\<rparr>" u] u(2) by simp
    qed
    ultimately have "wp (andthen (update_subscribers os k False) (set_slot k (\<lambda>d. d\<lparr>d_flags := 0\<rparr>)))
        (\<lambda>_ u. cleared lab (Suc k) s u \<and> W (p_world u)) t"
      by (elim wp_mono) (use step c t in \<open>auto simp: cleared_def\<close>)
    with True show ?thesis by (simp add: delete_owned_def wp_bnd wp_gets kt lab)
  qed
qed

text \<open>What is left of a service whose label was deleted: nothing.\<close>

definition forgotten :: "byte list \<Rightarrow> 'w ds \<Rightarrow> bool" where
  "forgotten lab t \<longleftrightarrow> (\<forall>d \<in> set (ds_store t). in_use d \<longrightarrow> cstr (d_owner d) \<noteq> lab \<and> \<not> holds d DSF_TYPE_LABEL lab)
     \<and> (\<forall>u \<in> set (ds_subs t). has (sub_flags u) DSF_IN_USE \<longrightarrow> cstr (sub_owner u) \<noteq> lab)"

lemma delete_subs_wp:
  assumes "labelled s" and "tables_ok s"
  shows "wp (delete_subs lab) (\<lambda>_ t. tables t = tables s \<and> p_world t = p_world s \<and> labelled t \<and> tables_ok t
     \<and> (\<forall>u \<in> set (ds_subs t). has (sub_flags u) DSF_IN_USE \<longrightarrow> cstr (sub_owner u) \<noteq> cstr lab)) s"
  using assms by (auto simp: delete_subs_def wp_simps labelled_def tables_ok_def list_all_iff sub_ok_def)

lemma delete_label_value:
  fixes s :: "'w ds"
  assumes ok: "tables_ok s" "labelled s" and W: "stable os W" "W (p_world s)"
    and no: "owns_no_label (cstr (d_key d)) (ds_store s)"
  shows "wp (delete_value os DSF_TYPE_LABEL d) (\<lambda>r t. r = OK \<and> W (p_world t) \<and> labelled t \<and> tables_ok t
     \<and> ds_store t = map (clear_owned (cstr (d_key d))) (ds_store s) \<and> ds_heap t = ds_heap s
     \<and> (\<forall>u \<in> set (ds_subs t). has (sub_flags u) DSF_IN_USE \<longrightarrow> cstr (sub_owner u) \<noteq> cstr (d_key d))) s"
proof -
  let ?lab = "cstr (d_key d)"
  have lab: "cstr ?lab = ?lab" by (simp add: cstr_def)
  have same: "delete_owned os (d_key d) = delete_owned os ?lab" by (simp add: delete_owned_def fun_eq_iff lab)
  have len: "length (ds_store s) = NR_DS_KEYS" using ok(1) by (simp add: tables_ok_def)
  have loop: "wp (for_m [0..<NR_DS_KEYS] (delete_owned os ?lab)) (\<lambda>_ t. cleared ?lab NR_DS_KEYS u t \<and> W (p_world t)) u"
    if "tables u = tables s" "labelled u" "tables_ok u" "W (p_world u)" for u :: "'w ds"
  proof (rule wp_for [where I = "\<lambda>k t. cleared ?lab k u t \<and> W (p_world t)"])
    show "wp (delete_owned os ?lab k) (\<lambda>_ t. cleared ?lab (Suc k) u t \<and> W (p_world t)) t"
      if "k < NR_DS_KEYS" "cleared ?lab k u t \<and> W (p_world t)" for k t
      by (rule delete_owned_cleared) (use that no len W lab \<open>tables u = tables s\<close> in auto)
  qed (use that in \<open>simp add: cleared_def\<close>)
  have after: "wp (andthen (for_m [0..<NR_DS_KEYS] (delete_owned os ?lab)) (ret OK)) (\<lambda>r t. r = OK \<and> W (p_world t)
     \<and> labelled t \<and> tables_ok t \<and> ds_store t = map (clear_owned ?lab) (ds_store s) \<and> ds_heap t = ds_heap s
     \<and> (\<forall>u \<in> set (ds_subs t). has (sub_flags u) DSF_IN_USE \<longrightarrow> cstr (sub_owner u) \<noteq> ?lab)) u"
    if u: "tables u = tables s" "labelled u" "tables_ok u" "W (p_world u)"
      "\<forall>v \<in> set (ds_subs u). has (sub_flags v) DSF_IN_USE \<longrightarrow> cstr (sub_owner v) \<noteq> ?lab" for u
  proof -
    have "\<forall>v \<in> set (ds_subs t). has (sub_flags v) DSF_IN_USE \<longrightarrow> cstr (sub_owner v) \<noteq> ?lab"
      if "subscribers t = subscribers u" for t :: "'w ds"
    proof -
      have eq: "(\<forall>v \<in> set (ds_subs x). has (sub_flags v) DSF_IN_USE \<longrightarrow> cstr (sub_owner v) \<noteq> ?lab)
          = (\<forall>(f, ow) \<in> set (subscribers x). has f DSF_IN_USE \<longrightarrow> cstr ow \<noteq> ?lab)" for x :: "'w ds" by simp
      show ?thesis using u(5) unfolding eq that .
    qed
    then show ?thesis unfolding wp_andthen wp_ret
      by (intro wp_mono [OF loop [OF u(1-4)]]) (use u(1) len in \<open>auto simp: cleared_def\<close>)
  qed
  have "wp (andthen (delete_subs (d_key d)) (andthen (for_m [0..<NR_DS_KEYS] (delete_owned os ?lab)) (ret OK)))
     (\<lambda>r t. r = OK \<and> W (p_world t) \<and> labelled t \<and> tables_ok t
     \<and> ds_store t = map (clear_owned ?lab) (ds_store s) \<and> ds_heap t = ds_heap s
     \<and> (\<forall>u \<in> set (ds_subs t). has (sub_flags u) DSF_IN_USE \<longrightarrow> cstr (sub_owner u) \<noteq> ?lab)) s"
    unfolding wp_andthen [of "delete_subs l" for l]
    by (rule wp_mono [OF delete_subs_wp [OF ok(2,1)]]) (rule after, use W in auto)
  then show ?thesis by (simp add: delete_value_def same del: NR_DS_KEYS_def)
qed

lemma clear_owned_fields [simp]:
  "d_key (clear_owned lab d) = d_key d" "d_owner (clear_owned lab d) = d_owner d"
  by (simp_all add: clear_owned_def)

lemma clear_owned_in_use: "in_use (clear_owned lab d) \<longleftrightarrow> in_use d \<and> cstr (d_owner d) \<noteq> lab"
  by (auto simp: clear_owned_def)

lemma clear_owned_id: "in_use (clear_owned lab d) \<Longrightarrow> clear_owned lab d = d"
  by (auto simp: clear_owned_def)

text \<open>The label itself goes last; the other subscribers keep theirs.\<close>

lemma label_cleared:
  assumes t: "ds_store t = (map (clear_owned lab) (ds_store s))[i := d]" "\<not> in_use d"
    and i: "i < length (ds_store s)" "holds (ds_store s ! i) DSF_TYPE_LABEL lab" and u: "keys_unique (ds_store s)"
    and subs: "\<forall>u \<in> set (ds_subs t). has (sub_flags u) DSF_IN_USE \<longrightarrow> cstr (sub_owner u) \<noteq> lab"
  shows "forgotten lab t"
proof -
  have "cstr (d_owner e) \<noteq> lab \<and> \<not> holds e DSF_TYPE_LABEL lab" if e: "e \<in> set (ds_store t)" "in_use e" for e
  proof -
    obtain j where j: "j < length (ds_store s)" "e = ds_store t ! j" using e(1) t(1) by (auto simp: in_set_conv_nth)
    have ji: "j \<noteq> i" using e(2) t i(1) j by auto
    then have ej: "e = clear_owned lab (ds_store s ! j)" using j t(1) by simp
    with e(2) have "e = ds_store s ! j" "cstr (d_owner e) \<noteq> lab"
      using clear_owned_id clear_owned_in_use by auto
    with keys_unique_holds [OF u j(1) i(1) _ i(2)] ji show ?thesis by blast
  qed
  then show ?thesis using subs by (simp add: forgotten_def)
qed

lemma do_delete_label:
  fixes s :: "'w ds"
  assumes ok: "tables_ok s" "keys_unique (ds_store s)" "labelled s" and W: "stable os W" "W (p_world s)"
    and key: "request_key os m (stack_array os DS_MAX_KEYLEN) (p_world s) = Some key"
    and ty: "type_of (dm_flags m) = DSF_TYPE_LABEL"
    and abs: "abs_ds s (DSF_TYPE_LABEL, cstr key) = Some (owner, fl, v)"
    and own: "proc_name s (dm_source m) = Some owner" and no: "owns_no_label (cstr key) (ds_store s)"
  shows "wp (do_delete os m) (\<lambda>r t. r = OK \<and> forgotten (cstr key) t \<and> ds_heap t = ds_heap s) s"
proof -
  let ?lab = "cstr key"
  have all: "list_all entry_ok (ds_store s)" using ok(1) by (simp add: tables_ok_def)
  obtain i where i: "slot_of (ds_store s) DSF_TYPE_LABEL ?lab = Some i" and o: "owner = cstr (d_owner (ds_store s ! i))"
    using abs by (auto simp: abs_ds_def entry_of_def)
  obtain src where src: "ds_getprocname (ds_store s) (dm_source m) = Some src" "cstr (name_at (ds_store s) src) = owner"
    using own by (auto simp: proc_name_def)
  have hi: "i < length (ds_store s)" "holds (ds_store s ! i) DSF_TYPE_LABEL ?lab" using slot_of_holds [OF i] by simp_all
  have kl: "cstr (d_key (ds_store s ! i)) = ?lab" using hi(2) by (simp add: holds_def)
  have ft: "dm_flags m AND DSF_MASK_TYPE = DSF_TYPE_LABEL" using ty by (simp add: type_of_def)
  have look: "lookup_entry (ds_store s) key DSF_TYPE_LABEL = Some i"
    using lookup_slot_of [OF all, of DSF_TYPE_LABEL key] i by simp
  let ?Q = "\<lambda>r t. r = OK \<and> forgotten ?lab t \<and> ds_heap t = ds_heap s"
  have finish: "wp (andthen (update_subscribers os i False) (andthen (set_slot i (\<lambda>d. d\<lparr>d_flags := 0\<rparr>)) (ret OK))) ?Q u"
    if u: "W (p_world u)" "labelled u" "tables_ok u" "ds_store u = map (clear_owned ?lab) (ds_store s)" "ds_heap u = ds_heap s"
      "\<forall>v \<in> set (ds_subs u). has (sub_flags v) DSF_IN_USE \<longrightarrow> cstr (sub_owner v) \<noteq> ?lab" for u :: "'w ds"
  proof -
    have "wp (update_subscribers os i False) (\<lambda>_ t. tables t = tables u \<and> W (p_world t)
        \<and> ds_subs t = map (marked os (ds_store u) i False) (ds_subs u)) u"
      by (rule update_subscribers_wp [OF _ u(2) W(1) u(1)]) (use u(3) in \<open>simp add: tables_ok_def\<close>)
    then show ?thesis
      unfolding wp_andthen wp_set_slot wp_ret
    proof (rule wp_mono, goal_cases)
      case (1 x t)
      let ?t = "t\<lparr>ds_store := (ds_store t)[i := (ds_store t ! i)\<lparr>d_flags := 0\<rparr>]\<rparr>"
      have "forgotten ?lab ?t"
        by (rule label_cleared [OF _ _ hi ok(2)]) (use 1 u in auto)
      then show ?case using 1 u(5) by simp
    qed
  qed
  have deleted: "wp (bnd (delete_value os DSF_TYPE_LABEL (ds_store s ! i)) (\<lambda>r. if r \<noteq> OK then ret r
      else andthen (update_subscribers os i False) (andthen (set_slot i (\<lambda>d. d\<lparr>d_flags := 0\<rparr>)) (ret OK)))) ?Q u"
    if u: "tables u = tables s" "ds_subs u = ds_subs s" "W (p_world u)" for u :: "'w ds"
  proof -
    have tu: "tables_ok u" "labelled u" "owns_no_label (cstr (d_key (ds_store s ! i))) (ds_store u)"
      using ok u no kl by (simp_all add: tables_ok_def labelled_def)
    show ?thesis unfolding wp_bnd [of "delete_value os f d" for f d]
    proof (rule wp_mono [OF delete_label_value [OF tu(1,2) W(1) u(3) tu(3)]], goal_cases)
      case (1 r t)
      then show ?case using finish [of t] u(1) kl by simp
    qed
  qed
  have "wp (bnd (get_key_name os m (stack_array os DS_MAX_KEYLEN)) (\<lambda>k. if fst k \<noteq> OK then ret (fst k) else
      (case lookup_entry (ds_store s) (snd k) (dm_flags m AND DSF_MASK_TYPE) of None \<Rightarrow> ret ESRCH | Some i \<Rightarrow>
        if cstr (d_owner (ds_store s ! i)) \<noteq> cstr (name_at (ds_store s) src) then ret EPERM
        else bnd (delete_value os (dm_flags m AND DSF_MASK_TYPE) (ds_store s ! i)) (\<lambda>r. if r \<noteq> OK then ret r
        else andthen (update_subscribers os i False) (andthen (set_slot i (\<lambda>d. d\<lparr>d_flags := 0\<rparr>)) (ret OK)))))) ?Q s"
    unfolding wp_bnd [of "get_key_name os m b" for b] ft
  proof (rule wp_mono [OF get_key_name_key], goal_cases)
    case (1 k t)
    then have k: "k = (OK, key)" using key by simp
    have "W (p_world t)" using 1 W by (auto simp: stable_def)
    with 1 deleted [of t] show ?case unfolding k fst_conv snd_conv look using src(2) o by simp
  qed
  then show ?thesis unfolding do_delete_def Let_def using src(1) by (simp only: wp_bnd wp_gets option.case)
qed

end
