(* ===== verification/Ds_Example.thy ===== *)
theory Ds_Example
  imports Ds_Link Ds_Label
begin

text \<open>
  A data store with a few entries, on which the conditions of the lemmas are evaluated: the
  labels of the reincarnation server and of two services, a number, a private buffer, and a
  subscription of one of the services.
\<close>

section \<open>Conditions that can be evaluated\<close>

lemma distinct_filter_nth:
  assumes "distinct (map f (filter P xs))" and "i < length xs" "j < length xs" "P (xs ! i)" "P (xs ! j)"
    and "f (xs ! i) = f (xs ! j)"
  shows "i = j"
  using assms
proof (induction xs arbitrary: i j)
  case (Cons x xs)
  have new: "f x \<notin> f ` set (filter P xs)" if "P x" using Cons.prems(1) that by simp
  have "f (xs ! k) \<noteq> f x" if "P x" "k < length xs" "P (xs ! k)" for k
  proof -
    have "f (xs ! k) \<in> f ` set (filter P xs)" using that by (intro imageI) simp
    with new [OF that(1)] show ?thesis by metis
  qed
  with Cons show ?case by (cases i; cases j) (auto split: if_splits)
qed simp

lemma keys_unique_exec:
  "distinct (map (\<lambda>d. (type_of (d_flags d), cstr (d_key d))) (filter in_use store)) \<Longrightarrow> keys_unique store"
  unfolding keys_unique_def by (auto dest: distinct_filter_nth)

lemma heap_ok_exec:
  assumes "list_all (\<lambda>d. mem_entry d \<longrightarrow> buffer_ok (ds_heap s) d) (ds_store s)"
    and "distinct (map d_word (filter mem_entry (ds_store s)))"
  shows "heap_ok s"
  using assms distinct_filter_nth [OF assms(2)] unfolding heap_ok_def by (auto simp: list_all_length)

lemma first_slot_replicate [simp]: "first_slot P (replicate n x) = (if 0 < n \<and> P x then Some 0 else None)"
  by (induction n) auto

section \<open>The store\<close>

definition text_in :: "nat \<Rightarrow> string \<Rightarrow> byte list" where
  "text_in n t = map of_char t @ replicate (n - length t) 0"

definition ex_label :: "string \<Rightarrow> endpoint \<Rightarrow> data_store" where
  "ex_label name e = zero_entry\<lparr>d_flags := 0x101, d_key := text_in 80 name, d_owner := text_in 80 ''rs'', d_word := e\<rparr>"

definition ex_number :: data_store where
  "ex_number = zero_entry\<lparr>d_flags := 0x011, d_key := text_in 80 ''count'', d_owner := text_in 80 ''vfs'', d_word := 7\<rparr>"

definition ex_private :: data_store where
  "ex_private = zero_entry\<lparr>d_flags := 0x047, d_key := text_in 80 ''state'', d_owner := text_in 80 ''vfs'',
     d_word := 0x1000, d_length := 3, d_reallen := 4\<rparr>"

definition ex_entries :: "data_store list" where
  "ex_entries = [ex_label ''rs'' 2, ex_label ''vfs'' 1, ex_label ''pm'' 0, ex_number, ex_private]"

definition ex_sub :: subscription where
  "ex_sub = zero_sub\<lparr>sub_flags := 0xFF1, sub_owner := text_in 80 ''vfs'', old_subs := [8, 0, 0, 0]\<rparr>"

definition ex_ds :: "kernel \<Rightarrow> kernel ds" where
  "ex_ds k = \<lparr>p_world = k, p_out = [], ds_store = ex_entries @ replicate 123 zero_entry,
     ds_subs = ex_sub # replicate 255 zero_sub, ds_heap = [0x1000 \<mapsto> [1, 2, 3, 0]], ds_who_e = 0, ds_callnr = 0\<rparr>"

definition ex_regcomp :: "byte list \<Rightarrow> int \<times> byte list" where
  "ex_regcomp re = (0, re)"

text \<open>Every key matches.\<close>

definition ex_regexec :: "byte list \<Rightarrow> byte list \<Rightarrow> int" where
  "ex_regexec re key = 0"

definition ex_os :: "kernel ds_os" where
  "ex_os = kernel_os ex_regcomp ex_regexec"

lemma cstr_text_in [simp]: "length t < n \<Longrightarrow> 0 \<notin> set (map of_char t :: byte list) \<Longrightarrow> cstr (text_in n t) = map of_char t"
  by (cases "n - length t") (simp_all add: text_in_def)

lemma text_in_array [simp]: "length t < n \<Longrightarrow> length (text_in n t) = n \<and> terminated (text_in n t)"
  by (simp add: text_in_def)

lemmas ex_defs = ex_label_def ex_number_def ex_private_def ex_entries_def ex_sub_def ex_ds_def

lemma ex_tables_ok: "tables_ok (ex_ds k)"
  by (simp add: tables_ok_def ex_defs entry_ok_def sub_ok_def zero_entry_def zero_sub_def type_ok_def type_of_def
      BITMAP_CHUNKS_def list_all_iff)

lemma ex_keys_unique: "keys_unique (ds_store (ex_ds k))"
  by (rule keys_unique_exec) (simp add: ex_defs zero_entry_def type_of_def)

lemma ex_heap_ok: "heap_ok (ex_ds k)"
  by (rule heap_ok_exec) (simp_all add: ex_defs zero_entry_def type_of_def mem_entry_def buffer_ok_def list_all_iff)

lemma ex_labelled: "labelled (ex_ds k)"
  by (simp add: labelled_def ex_defs zero_entry_def zero_sub_def lookup_entry_def)

lemma ex_store_ok: "store_ok (ex_ds k)"
  by (simp add: store_ok_def ex_tables_ok ex_keys_unique ex_heap_ok ex_labelled)

section \<open>What it holds\<close>

definition ex_key :: "string \<Rightarrow> byte list" where
  "ex_key t = map of_char t"

lemma ex_proc_name:
  "ds_getprocname (ds_store (ex_ds k)) 0 = Some (Key_of 2)" "name_at (ds_store (ex_ds k)) (Key_of 2) = text_in 80 ''pm''"
  "ds_getprocname (ds_store (ex_ds k)) 1 = Some (Key_of (Suc 0))" "name_at (ds_store (ex_ds k)) (Key_of (Suc 0)) = text_in 80 ''vfs''"
  "ds_getprocname (ds_store (ex_ds k)) 2 = Some (Key_of 0)" "name_at (ds_store (ex_ds k)) (Key_of 0) = text_in 80 ''rs''"
  by (simp_all add: ds_getprocname_def lookup_label_entry_def name_at_def ex_defs)

lemma ex_abs:
  "abs_ds (ex_ds k) (DSF_TYPE_U32, ex_key ''count'') = Some (ex_key ''vfs'', 0x11, Number 7)"
  "abs_ds (ex_ds k) (DSF_TYPE_MEM, ex_key ''state'') = Some (ex_key ''vfs'', 0x47, Bytes [1, 2, 3])"
  "abs_ds (ex_ds k) (DSF_TYPE_LABEL, ex_key ''vfs'') = Some (ex_key ''rs'', 0x101, Number 1)"
  "abs_ds (ex_ds k) (DSF_TYPE_U32, ex_key ''n'') = None"
  "abs_ds (ex_ds k) (DSF_TYPE_STR, ex_key ''state'') = None"
  by (simp_all add: abs_ds_def slot_of_def holds_def ex_defs ex_key_def type_of_def entry_of_def value_of_def zero_entry_def)

lemma ex_free_slot: "alloc_data_slot (ds_store (ex_ds k)) = Some 5"
  by (simp add: alloc_data_slot_def ex_defs zero_entry_def)

lemma ex_cstr:
  "cstr (text_in 80 ''n'') = ex_key ''n''" "cstr (text_in 4 ''n'') = ex_key ''n''" "cstr (text_in 80 ''count'') = ex_key ''count''"
  "cstr (text_in 80 ''state'') = ex_key ''state''" "cstr (text_in 6 ''state'') = ex_key ''state''" "cstr (text_in 80 ''vfs'') = ex_key ''vfs''"
  "cstr (text_in 80 ''pm'') = ex_key ''pm''" "cstr (text_in 80 ''rs'') = ex_key ''rs''"
  by (simp_all add: ex_key_def)

declare cstr_text_in [simp del] ex_cstr [simp]

end
