(* ===== verification/Ds_Properties.thy ===== *)
theory Ds_Properties
  imports Ds_Service Ds_Example
begin

text \<open>
  The properties of the data store, each with an instance on the example store.
\<close>

section \<open>Examples of requests\<close>

definition ex_kernel :: "byte list \<Rightarrow> kernel" where
  "ex_kernel key = \<lparr>k_grants = [5 \<mapsto> (1, key @ [0])], k_next = 6, k_brk = 0x2000\<rparr>"

definition ex_request :: "endpoint \<Rightarrow> string \<Rightarrow> s32 \<Rightarrow> u32 \<Rightarrow> s32 \<Rightarrow> ds_msg" where
  "ex_request e key flags v n = zero_ds_msg\<lparr>dm_source := e, key_grant := 5, key_len := of_nat (length key + 1),
     dm_flags := flags, val_in := v, val_len := n\<rparr>"

abbreviation ex_at :: "string \<Rightarrow> kernel ds" where
  "ex_at t \<equiv> ex_ds (ex_kernel (ex_key t))"

lemma ex_granted: "granted 5 (key @ [0]) (ex_kernel key)" "p_world (ex_ds k) = k"
  by (simp_all add: granted_def ex_kernel_def ex_ds_def)

lemma ex_stable: "stable ex_os (granted g bs)"
  by (simp add: ex_os_def kernel_stable)

lemma ex_request_fields [simp]:
  "dm_source (ex_request e t fl v n) = e" "key_grant (ex_request e t fl v n) = 5"
  "dm_flags (ex_request e t fl v n) = fl" "val_in (ex_request e t fl v n) = v" "val_len (ex_request e t fl v n) = n"
  by (simp_all add: ex_request_def)

lemma ex_request_key:
  assumes "length t \<le> 78" and "t \<noteq> []" and "0 \<notin> set (ex_key t)"
  shows "request_key ex_os (ex_request e t fl v vn) (stack_array ex_os DS_MAX_KEYLEN) (ex_kernel (ex_key t)) = Some (text_in 80 t)"
proof -
  define n where "n = Suc (length t)"
  have n: "2 \<le> n" "n \<le> 80" using assms by (simp_all add: n_def Suc_le_eq)
  note w = small_word [OF n(2)]
  let ?bs = "ex_key t @ [0]"
  have kl: "key_len (ex_request e t fl v vn) = of_nat n" by (simp add: ex_request_def n_def ex_key_def)
  have c: "os_safecopyfrom ex_os (dm_source (ex_request e t fl v vn)) (key_grant (ex_request e t fl v vn)) n (ex_kernel (ex_key t))
      = ((OK, nth ?bs), ex_kernel (ex_key t))"
    by (simp add: ex_os_def kernel_os_def k_copyfrom_def ex_kernel_def ex_request_def n_def ex_key_def)
  have mp: "map (nth ?bs) [0..<n] = ?bs" using map_nth [of ?bs] by (simp add: n_def ex_key_def)
  have st: "stack_array ex_os DS_MAX_KEYLEN = replicate 80 0"
    by (rule nth_equalityI) (simp_all add: stack_array_def ex_os_def kernel_os_def)
  have "overwrite 0 ?bs (replicate 80 0) = text_in 80 t"
    using n by (simp add: overwrite_def text_in_def ex_key_def n_def replicate_Suc [symmetric] Suc_diff_Suc del: replicate_Suc)
  moreover have "(text_in 80 t)[79 := 0] = text_in 80 t"
    using assms by (simp add: text_in_def list_update_append list_update_same_conv nth_append)
  ultimately show ?thesis
    unfolding request_key_def kl w c Let_def fst_conv snd_conv mp st using n by simp
qed

lemma ex_keys_plain: "0 \<notin> set (ex_key ''n'')" "0 \<notin> set (ex_key ''count'')" "0 \<notin> set (ex_key ''state'')" "0 \<notin> set (ex_key ''vfs'')"
  by (simp_all add: ex_key_def)

section \<open>The server\<close>

text \<open>
  C14. Between requests the tables of the server are well formed: both have their size, keys,
  owners and bitmaps have the length of their arrays and are terminated, every entry in use has
  exactly one type, and, where the labels of the boot image differ, no two entries have the same
  type and key. The labels are the ones the reincarnation server hands out at the start.
\<close>

theorem ds_tables_between_requests:
  assumes "served (ds_start os) (ds_main_turn os) (\<lambda>_. True) s"
  shows "tables_ok s \<and> (distinct_boot os \<longrightarrow> keys_unique (ds_store s))"
  using dss.served_inv [OF assms] by (simp add: ds_inv_def)

theorem ds_tables_between_requests_witness:
  "\<exists>t. served (ds_start ex_os) (ds_main_turn ex_os) (\<lambda>_. True) t \<and> tables_ok t"
proof -
  have tab: "os_rproctab ex_os w = ((OK, \<lambda>_. \<lparr>rp_in_use = 0, rp_endpoint = 0, rp_label = []\<rparr>), w)" for w
    by (simp add: ex_os_def kernel_os_def)
  have "wp (for_m [0..<NR_BOOT_PROCS] (map_boot_service ex_os (\<lambda>_. \<lparr>rp_in_use = 0, rp_endpoint = 0, rp_label = []\<rparr>)))
      (\<lambda>_ _. True) s" for s
    by (rule wp_for [where I = "\<lambda>_ _. True"]) (simp_all add: map_boot_service_def wp_simps)
  then have "wp (ds_start ex_os) (\<lambda>_ _. True) (ex_at [])"
    unfolding ds_start_def sef_cb_init_fresh_def by (simp add: wp_simps tab del: NR_BOOT_PROCS_def)
  then obtain r t where "ds_start ex_os (ex_at []) = Some (Inr (r, t))" by (auto simp: wp_def)
  then have t: "served (ds_start ex_os) (ds_main_turn ex_os) (\<lambda>_. True) t" by (rule served.started)
  have "wp (ds_main_turn ex_os) (\<lambda>_ _. True) t"
    by (simp add: ds_main_turn_def ds_get_work_def ds_dispatch_def ds_reply_def wp_simps ex_os_def kernel_os_def
        zero_ds_msg_def is_notify_def)
  then obtain u where "ds_main_turn ex_os t = Some (Inr ((), u))" by (auto simp: wp_def)
  then have "served (ds_start ex_os) (ds_main_turn ex_os) (\<lambda>_. True) u" by (rule served.turned [OF t TrueI])
  then show ?thesis using ds_tables_between_requests by blast
qed

text \<open>
  C15. A publish request of a number, a string or a memory range is an update of the map from
  types and keys to owners, flags and values: it returns \<open>OK\<close>, exactly the entry of the request
  changes, the tables and the buffers stay well formed, the names of the processes stay, and
  exactly the subscriptions that the entry matches have it marked.
\<close>

theorem publish_updates_map:
  assumes "publishable os m s key src i" and "stable os W" and "W (p_world s)"
    and "keys_unique (ds_store s)" and "heap_ok s" and "storable os W m s v"
  shows "wp (do_publish os m) (\<lambda>r t. r = OK
    \<and> abs_ds t = (abs_ds s)((type_of (dm_flags m), cstr key)
         \<mapsto> (cstr (name_at (ds_store s) src), DSF_IN_USE OR (dm_flags m AND DSF_MASK_INTERNAL), v))
    \<and> tables_ok t \<and> keys_unique (ds_store t) \<and> heap_ok t \<and> labelled t \<and> proc_name t = proc_name s
    \<and> ds_subs t = map (marked os (ds_store t) i True) (ds_subs s)) s"
  by (rule wp_mono [OF do_publish_updates [OF assms]]) simp

abbreviation ex_publish :: ds_msg where
  "ex_publish \<equiv> ex_request 0 ''n'' DSF_TYPE_U32 9 0"

lemma ex_publishable: "publishable ex_os ex_publish (ex_at ''n'') (text_in 80 ''n'') (Key_of 2) 5"
proof -
  have "publish_slot (ds_store (ex_at ''n'')) ex_publish (text_in 80 ''n'') = Inr 5"
  proof -
    have "lookup_entry (ds_store (ex_at ''n'')) (text_in 80 ''n'') 0x10 = None"
      by (simp add: lookup_entry_def ex_defs ex_key_def zero_entry_def)
    then show ?thesis by (simp add: publish_slot_def Let_def ex_free_slot)
  qed
  then show ?thesis
    using ex_request_key [of "''n''" 0 DSF_TYPE_U32 9 0]
    by (simp add: publishable_def ex_tables_ok ex_labelled ex_granted ex_proc_name type_ok_def type_of_def ex_keys_plain)
qed

theorem publish_updates_map_witness:
  "wp (do_publish ex_os ex_publish) (\<lambda>r t. r = OK
    \<and> abs_ds t (DSF_TYPE_U32, ex_key ''n'') = Some (ex_key ''pm'', 0x11, Number 9)) (ex_at ''n'')"
proof (rule wp_mono [OF publish_updates_map [OF ex_publishable ex_stable [of 5 "ex_key ''n'' @ [0]"]]])
  show "storable ex_os (granted 5 (ex_key ''n'' @ [0])) ex_publish (ex_at ''n'') (Number 9)"
    by (simp add: storable_def type_of_def)
qed (simp_all add: ex_granted ex_keys_unique ex_heap_ok ex_proc_name type_of_def)

text \<open>
  C16. A retrieve request reads the map and changes no table. There is no such key: \<open>ESRCH\<close>.
  The entry is private and the caller is not its owner: \<open>EPERM\<close>. Otherwise a number is in the
  reply, and of a buffer as many bytes as the client asks for, no more than it has, are copied to
  the client.
\<close>

theorem retrieve_reads_map:
  assumes "tables_ok s" and "heap_ok s" and "stable os W" and "W (p_world s)" and "type_ok (dm_flags m)"
    and "request_key os m (stack_array os DS_MAX_KEYLEN) (p_world s) = Some key"
  shows "wp (do_retrieve os m) (\<lambda>r t. abs_ds t = abs_ds s \<and> ds_subs t = ds_subs s
     \<and> retrieved os W m s key r (p_world t)) s"
  by (rule wp_mono [OF do_retrieve_reads [OF assms]]) (metis same_tables(2))

lemma retrieved_number:
  assumes "abs_ds s (type_of (dm_flags m), cstr key) = Some (owner, fl, Number n)" and "\<not> has fl DSF_PRIV_RETRIEVE"
    and "retrieved os W m s key r w"
  shows "r = (OK, set_val_out n m)"
  using assms(3) unfolding retrieved_def assms(1) using assms(2) by simp

theorem retrieve_reads_map_witness:
  "wp (do_retrieve ex_os (ex_request 0 ''count'' DSF_TYPE_U32 0 0))
     (\<lambda>r t. fst r = OK \<and> key_grant (snd r) = 7) (ex_at ''count'')"
proof (rule wp_mono [OF retrieve_reads_map [where key = "text_in 80 ''count''" and W = "granted 5 (ex_key ''count'' @ [0])"]])
  let ?m = "ex_request 0 ''count'' DSF_TYPE_U32 0 0" and ?s = "ex_at ''count''"
  show "request_key ex_os ?m (stack_array ex_os DS_MAX_KEYLEN) (p_world ?s) = Some (text_in 80 ''count'')"
    using ex_request_key [of "''count''" 0 DSF_TYPE_U32 0 0] by (simp add: ex_granted ex_keys_plain)
  have "abs_ds ?s (type_of (dm_flags ?m), cstr (text_in 80 ''count'')) = Some (ex_key ''vfs'', 0x11, Number 7)"
    using ex_abs(1) [of "ex_kernel (ex_key ''count'')"] by (simp add: type_of_def)
  then show "fst r = OK \<and> key_grant (snd r) = 7"
    if "abs_ds t = abs_ds ?s \<and> ds_subs t = ds_subs ?s
      \<and> retrieved ex_os (granted 5 (ex_key ''count'' @ [0])) ?m ?s (text_in 80 ''count'') r (p_world t)" for r t
    using that retrieved_number by (fastforce simp: set_val_out_def)
qed (simp_all add: ex_tables_ok ex_heap_ok ex_stable ex_granted type_ok_def type_of_def)



section \<open>Permissions\<close>

text \<open>
  C18. An entry that only its owner may overwrite is safe from everybody else: a publish request
  for its key from another process is refused, and no entry, no buffer and no subscription
  changes.
\<close>

theorem private_entry_not_overwritten:
  assumes "tables_ok s" and "ds_getprocname (ds_store s) (dm_source m) = Some src"
    and "request_key os m (stack_array os DS_MAX_KEYLEN) (p_world s) = Some key"
    and "type_ok (dm_flags m)" and "type_of (dm_flags m) \<noteq> DSF_TYPE_LABEL"
    and "abs_ds s (type_of (dm_flags m), cstr key) = Some (owner, fl, v)"
    and "has fl DSF_PRIV_OVERWRITE" and "proc_name s (dm_source m) \<noteq> Some owner"
  shows "wp (do_publish os m) (\<lambda>r t. r \<in> {EPERM, EEXIST} \<and> abs_ds t = abs_ds s \<and> ds_heap t = ds_heap s
    \<and> ds_subs t = ds_subs s) s"
proof -
  have all: "list_all entry_ok (ds_store s)" using assms(1) by (simp add: tables_ok_def)
  obtain e where e: "publish_slot (ds_store s) m key = Inl e" "e \<in> {EPERM, EEXIST}"
    using publish_slot_private [OF all assms(4) assms(6-8)] by auto
  have nl: "\<not> has (dm_flags m) DSF_TYPE_LABEL" using has_type [OF assms(4), of DSF_TYPE_LABEL] assms(5) by simp
  show ?thesis
    by (rule wp_mono [OF do_publish_refused [OF assms(2) nl assms(3) e(1)]]) (use e(2) in \<open>auto simp: abs_ds_def [abs_def]\<close>)
qed

lemma ex_keys:
  "request_key ex_os (ex_request e ''state'' fl v n) (stack_array ex_os DS_MAX_KEYLEN) (p_world (ex_at ''state'')) = Some (text_in 80 ''state'')"
  "request_key ex_os (ex_request e ''count'' fl v n) (stack_array ex_os DS_MAX_KEYLEN) (p_world (ex_at ''count'')) = Some (text_in 80 ''count'')"
  "request_key ex_os (ex_request e ''vfs'' fl v n) (stack_array ex_os DS_MAX_KEYLEN) (p_world (ex_at ''vfs'')) = Some (text_in 80 ''vfs'')"
  using ex_request_key [of "''state''" e fl v n] ex_request_key [of "''count''" e fl v n] ex_request_key [of "''vfs''" e fl v n]
  by (simp_all add: ex_granted ex_keys_plain)

lemma ex_names_differ: "ex_key ''pm'' \<noteq> ex_key ''vfs''"
  by (simp add: ex_key_def)

theorem private_entry_not_overwritten_witness:
  "wp (do_publish ex_os (ex_request 0 ''state'' 0x1040 8 2)) (\<lambda>r t. r \<in> {EPERM, EEXIST}
    \<and> abs_ds t (DSF_TYPE_MEM, ex_key ''state'') = Some (ex_key ''vfs'', 0x47, Bytes [1, 2, 3])) (ex_at ''state'')"
proof (rule wp_mono [OF private_entry_not_overwritten [where key = "text_in 80 ''state''" and owner = "ex_key ''vfs''"
        and fl = 71 and v = "Bytes [1, 2, 3]" and src = "Key_of 2"]])
  let ?m = "ex_request 0 ''state'' 0x1040 8 2" and ?s = "ex_at ''state''"
  show "request_key ex_os ?m (stack_array ex_os DS_MAX_KEYLEN) (p_world ?s) = Some (text_in 80 ''state'')" by (rule ex_keys)
  show "abs_ds ?s (type_of (dm_flags ?m), cstr (text_in 80 ''state'')) = Some (ex_key ''vfs'', 0x47, Bytes [1, 2, 3])"
    using ex_abs(2) [of "ex_kernel (ex_key ''state'')"] by (simp add: type_of_def)
qed (use ex_abs(2) [of "ex_kernel (ex_key ''state'')"] in
  \<open>simp_all add: ex_tables_ok ex_proc_name type_ok_def type_of_def proc_name_def ex_names_differ\<close>)

section \<open>Deleting\<close>



text \<open>
  C21. When the reincarnation server deletes the label of a service, the service is forgotten:
  no entry that it owned, no subscription of it and no label for it is left. The buffers of its
  entries are not freed: the heap is unchanged.
\<close>

theorem delete_label_forgets_service:
  assumes "store_ok s" and "stable os W" and "W (p_world s)"
    and "request_key os m (stack_array os DS_MAX_KEYLEN) (p_world s) = Some key"
    and "type_of (dm_flags m) = DSF_TYPE_LABEL"
    and "abs_ds s (DSF_TYPE_LABEL, cstr key) = Some (owner, fl, v)"
    and "proc_name s (dm_source m) = Some owner" and "owns_no_label (cstr key) (ds_store s)"
  shows "wp (do_delete os m) (\<lambda>r t. r = OK \<and> forgotten (cstr key) t \<and> ds_heap t = ds_heap s) s"
  by (rule do_delete_label [where W = W and owner = owner and fl = fl and v = v]) (use assms in \<open>simp_all add: store_ok_def\<close>)

theorem delete_label_forgets_service_witness:
  "wp (do_delete ex_os (ex_request 2 ''vfs'' DSF_TYPE_LABEL 0 0)) (\<lambda>r t. r = OK \<and> forgotten (ex_key ''vfs'') t
    \<and> ds_heap t 0x1000 = Some [1, 2, 3, 0]) (ex_at ''vfs'')"
proof (rule wp_mono [OF delete_label_forgets_service [where key = "text_in 80 ''vfs''" and owner = "ex_key ''rs''"
        and fl = 257 and v = "Number 1" and W = "granted 5 (ex_key ''vfs'' @ [0])"]])
  let ?m = "ex_request 2 ''vfs'' DSF_TYPE_LABEL 0 0" and ?s = "ex_at ''vfs''"
  show "request_key ex_os ?m (stack_array ex_os DS_MAX_KEYLEN) (p_world ?s) = Some (text_in 80 ''vfs'')" by (rule ex_keys)
  show "abs_ds ?s (DSF_TYPE_LABEL, cstr (text_in 80 ''vfs'')) = Some (ex_key ''rs'', 257, Number 1)"
    using ex_abs(3) [of "ex_kernel (ex_key ''vfs'')"] by simp
  show "owns_no_label (cstr (text_in 80 ''vfs'')) (ds_store ?s)"
    by (simp add: owns_no_label_def ex_defs zero_entry_def type_of_def ex_key_def)
  show "r = OK \<and> forgotten (ex_key ''vfs'') t \<and> ds_heap t 0x1000 = Some [1, 2, 3, 0]"
    if "r = OK \<and> forgotten (cstr (text_in 80 ''vfs'')) t \<and> ds_heap t = ds_heap ?s" for r t
    using that by (simp add: ex_ds_def)
qed (simp_all add: ex_store_ok ex_stable ex_granted ex_proc_name type_of_def proc_name_def)

section \<open>Subscriptions\<close>

text \<open>
  C20. A check request delivers the first entry that is marked for the subscriber: its key goes
  to the client, its type and the endpoint of its owner are in the reply, and exactly this mark is
  taken away. When nothing is marked the answer is \<open>ENOENT\<close>, and when the copy fails the mark
  stays.
\<close>

theorem check_delivers_first_mark:
  assumes "tables_ok s" and "ds_getprocname (ds_store s) (dm_source m) = Some src"
    and "lookup_sub (ds_subs s) (name_at (ds_store s) src) = Some k"
    and "\<And>i. i \<in> marks (ds_subs s ! k)
      \<Longrightarrow> lookup_entry (ds_store s) (d_owner (ds_store s ! i)) DSF_TYPE_LABEL \<noteq> None"
  shows "wp (do_check os m) (\<lambda>r t. tables t = tables s \<and>
    (if marks (ds_subs s ! k) = {} then r = (ENOENT, m) \<and> ds_subs t = ds_subs s
     else let i = Min (marks (ds_subs s ! k));
              c = os_safecopyto os (dm_source m) (key_grant m) (cstr (d_key (ds_store s ! i)) @ [0]) (p_world s)
          in p_world t = snd c \<and>
             (if fst c = OK then
                r = (OK, m\<lparr>dm_flags := type_of (d_flags (ds_store s ! i)),
                     dm_owner := owner_ep (ds_store s) (d_owner (ds_store s ! i))\<rparr>)
                \<and> marks (ds_subs t ! k) = marks (ds_subs s ! k) - {i}
                \<and> (\<forall>j. j \<noteq> k \<longrightarrow> ds_subs t ! j = ds_subs s ! j)
              else r = (fst c, m) \<and> ds_subs t = ds_subs s))) s"
  by (rule do_check_delivers [OF assms])

lemma ex_marks: "marks (ds_subs (ex_ds k) ! 0) = {3}"
proof -
  have n: "BITMAP_CHUNKS NR_DS_KEYS = 4" by (simp add: BITMAP_CHUNKS_def)
  have "replicate 4 (0 :: u32) = [0, 0, 0, 0]" by (simp add: numeral_eq_Suc)
  then have "[8, 0, 0, 0] = SET_BIT (replicate (BITMAP_CHUNKS NR_DS_KEYS) 0) 3" unfolding n by (simp add: SET_BIT_def)
  then have "marks (ex_sub) = insert 3 {}"
    using chunks.members_set [of "replicate (BITMAP_CHUNKS NR_DS_KEYS) 0" NR_DS_KEYS 3] chunks.members_clear [of NR_DS_KEYS]
    by (simp add: ex_sub_def)
  then show ?thesis by (simp add: ex_ds_def)
qed

definition ex_array :: kernel where
  "ex_array = \<lparr>k_grants = [5 \<mapsto> (2, replicate 80 0)], k_next = 6, k_brk = 0x2000\<rparr>"

lemma ex_marked_entry:
  "ds_store (ex_ds k) ! 3 = ex_number"
  "lookup_entry (ds_store (ex_ds k)) (d_owner ex_number) 0x100 = Some 1" "owner_ep (ds_store (ex_ds k)) (d_owner ex_number) = 1"
  by (simp_all add: lookup_entry_def owner_ep_def ex_defs ex_key_def)

theorem check_delivers_first_mark_witness:
  "wp (do_check ex_os (ex_request 1 [] 0 0 0)) (\<lambda>r t. fst r = OK \<and> dm_flags (snd r) = DSF_TYPE_U32 \<and> dm_owner (snd r) = 1
    \<and> k_grants (p_world t) 5 = Some (2, text_in 80 ''count'')) (ex_ds ex_array)"
proof (rule wp_mono [OF check_delivers_first_mark [where src = "Key_of 1" and k = 0]])
  let ?s = "ex_ds ex_array" and ?m = "ex_request 1 [] 0 0 0"
  show "lookup_sub (ds_subs ?s) (name_at (ds_store ?s) (Key_of 1)) = Some 0"
    by (simp add: ex_proc_name) (simp add: lookup_sub_def ex_ds_def ex_sub_def)
  have k: "d_key ex_number = text_in 80 ''count''" "d_flags ex_number = 0x11" by (simp_all add: ex_number_def)
  have "os_safecopyto ex_os 1 5 (ex_key ''count'' @ [0]) ex_array
      = (OK, ex_array\<lparr>k_grants := [5 \<mapsto> (2, text_in 80 ''count'')]\<rparr>)"
    by (simp add: ex_os_def kernel_os_def k_copyto_def ex_array_def ex_key_def overwrite_def text_in_def
        replicate_Suc [of 74, symmetric] del: replicate_Suc)
  then show "fst r = OK \<and> dm_flags (snd r) = DSF_TYPE_U32 \<and> dm_owner (snd r) = 1
      \<and> k_grants (p_world t) 5 = Some (2, text_in 80 ''count'')"
    if "tables t = tables ?s \<and>
    (if marks (ds_subs ?s ! 0) = {} then r = (ENOENT, ?m) \<and> ds_subs t = ds_subs ?s
     else let i = Min (marks (ds_subs ?s ! 0));
              c = os_safecopyto ex_os (dm_source ?m) (key_grant ?m) (cstr (d_key (ds_store ?s ! i)) @ [0]) (p_world ?s)
          in p_world t = snd c \<and>
             (if fst c = OK then
                r = (OK, ?m\<lparr>dm_flags := type_of (d_flags (ds_store ?s ! i)),
                     dm_owner := owner_ep (ds_store ?s) (d_owner (ds_store ?s ! i))\<rparr>)
                \<and> marks (ds_subs t ! 0) = marks (ds_subs ?s ! 0) - {i}
                \<and> (\<forall>j. j \<noteq> 0 \<longrightarrow> ds_subs t ! j = ds_subs ?s ! j)
              else r = (fst c, ?m) \<and> ds_subs t = ds_subs ?s))" for r and t :: "kernel ds"
    using that unfolding ex_marks by (auto simp: ex_marked_entry k ex_granted type_of_def Let_def)
  show "lookup_entry (ds_store ?s) (d_owner (ds_store ?s ! i)) DSF_TYPE_LABEL \<noteq> None" if "i \<in> marks (ds_subs ?s ! 0)" for i
    using that unfolding ex_marks by (simp add: ex_marked_entry)
qed (simp_all add: ex_tables_ok ex_proc_name)

section \<open>Failures\<close>

lemma failed_copy:
  fixes s :: "'w ds"
  assumes i: "mem_entry (ds_store s ! i)" "buffer_ok (ds_heap s) (ds_store s ! i)"
    and m: "mem_type (dm_flags m)" "val_len m \<le> d_reallen (ds_store s ! i)"
    and fail: "fst (fst (os_safecopyfrom os (dm_source m) (val_in m) (unat (val_len m)) (p_world s))) = e" "e \<noteq> OK"
  shows "wp (publish_value os m i) (\<lambda>r t. r = e \<and> ds_store t = ds_store s
    \<and> ds_heap t (d_word (ds_store s ! i)) = None) s"
proof -
  have "wp (publish_mem os m i) (\<lambda>r t. r = e \<and> ds_store t = ds_store s \<and> ds_heap t (d_word (ds_store s ! i)) = None) s"
    using i m(2) fail
    by (auto simp: publish_mem_def publish_buffer_def publish_copy_def wp_simps mem_entry_def buffer_ok_def free_def not_less)
  with m(1) show ?thesis by (auto simp: publish_value_def type_of_def Let_def)
qed

text \<open>
  C22. A publish request that may overwrite a buffer and fails to copy the new value leaves a
  dangling pointer behind: the buffer is freed, and the entry stays in use with its address.
\<close>

theorem failed_overwrite_dangles:
  fixes s :: "'w ds"
  assumes "tables_ok s" and "heap_ok s" and "stable os W" and "W (p_world s)"
    and "ds_getprocname (ds_store s) (dm_source m) = Some src"
    and "request_key os m (stack_array os DS_MAX_KEYLEN) (p_world s) = Some key"
    and "mem_type (dm_flags m)" and "publish_slot (ds_store s) m key = Inr i" and "in_use (ds_store s ! i)"
    and "val_len m \<le> d_reallen (ds_store s ! i)"
    and "\<And>w. W w \<Longrightarrow> fst (fst (os_safecopyfrom os (dm_source m) (val_in m) (unat (val_len m)) w)) = e" and "e \<noteq> OK"
  shows "wp (do_publish os m) (\<lambda>r t. r = e \<and> in_use (ds_store t ! i)
    \<and> ds_heap t (d_word (ds_store t ! i)) = None) s"
proof -
  have ty: "type_ok (dm_flags m)" "type_of (dm_flags m) \<noteq> DSF_TYPE_LABEL" using assms(7) by (auto simp: type_ok_def)
  have nl: "\<not> has (dm_flags m) DSF_TYPE_LABEL" using has_type [OF ty(1), of DSF_TYPE_LABEL] ty(2) by simp
  have all: "list_all entry_ok (ds_store s)" using assms(1) by (simp add: tables_ok_def)
  have i: "i < length (ds_store s)" "mem_entry (ds_store s ! i)" "buffer_ok (ds_heap s) (ds_store s ! i)"
    using publish_slot_cases [OF assms(8) all ty(1)] assms(2,7,9) by (auto simp: mem_entry_def heap_ok_def)
  have val: "wp (publish_value os m i) (\<lambda>r t. r = e \<and> ds_store t = ds_store s
      \<and> ds_heap t (d_word (ds_store s ! i)) = None) t" if "tables t = tables s" "W (p_world t)" for t :: "'w ds"
    using failed_copy [of t i m os e] i assms(7,10) assms(11) [OF that(2)] assms(12) that(1) by simp
  have "wp (bnd (get_key_name os m (stack_array os DS_MAX_KEYLEN)) (\<lambda>k. if fst k \<noteq> OK then ret (fst k) else
      bnd (gets (\<lambda>s. publish_slot (ds_store s) m (snd k))) (\<lambda>slot. case slot of Inl e \<Rightarrow> ret e | Inr i \<Rightarrow>
        bnd (publish_value os m i) (\<lambda>r. if r \<noteq> OK then ret r
        else andthen (publish_attributes m (snd k) src i) (andthen (update_subscribers os i True) (ret OK))))))
      (\<lambda>r t. r = e \<and> in_use (ds_store t ! i) \<and> ds_heap t (d_word (ds_store t ! i)) = None) s"
    unfolding wp_bnd [of "get_key_name os m b" for b]
  proof (rule wp_mono [OF get_key_name_key])
    fix k and t :: "'w ds"
    assume *: "(case request_key os m (stack_array os DS_MAX_KEYLEN) (p_world s) of None \<Rightarrow> fst k \<noteq> OK
         | Some key \<Rightarrow> k = (OK, key))
       \<and> ds_store t = ds_store s \<and> ds_subs t = ds_subs s \<and> ds_heap t = ds_heap s
       \<and> (p_world t = p_world s
          \<or> p_world t = snd (os_safecopyfrom os (dm_source m) (key_grant m) (unat (key_len m)) (p_world s)))"
    then have k: "k = (OK, key)" and t: "tables t = tables s" "W (p_world t)"
      using assms(3,4,6) by (auto simp: stable_def)
    have "wp (publish_value os m i) (\<lambda>r u. r \<noteq> OK \<and> r = e \<and> in_use (ds_store u ! i) \<and> ds_heap u (d_word (ds_store u ! i)) = None) t"
      by (rule wp_mono [OF val [OF t]]) (use assms(9,12) in simp)
    then have "wp (publish_value os m i) (\<lambda>r. wp (if r \<noteq> OK then ret r
        else andthen (publish_attributes m key src i) (andthen (update_subscribers os i True) (ret OK)))
        (\<lambda>r t. r = e \<and> in_use (ds_store t ! i) \<and> ds_heap t (d_word (ds_store t ! i)) = None)) t"
      by (rule wp_mono) (simp add: wp_if wp_ret)
    then show "wp (if fst k \<noteq> OK then ret (fst k) else
      bnd (gets (\<lambda>s. publish_slot (ds_store s) m (snd k))) (\<lambda>slot. case slot of Inl e \<Rightarrow> ret e | Inr i \<Rightarrow>
        bnd (publish_value os m i) (\<lambda>r. if r \<noteq> OK then ret r
        else andthen (publish_attributes m (snd k) src i) (andthen (update_subscribers os i True) (ret OK)))))
      (\<lambda>r t. r = e \<and> in_use (ds_store t ! i) \<and> ds_heap t (d_word (ds_store t ! i)) = None) t"
      unfolding k fst_conv snd_conv using t(1) assms(8) by (simp add: wp_bnd wp_gets)
  qed
  with nl assms(5) show ?thesis unfolding do_publish_def by (simp only: wp_bnd wp_gets option.case if_False simp_thms)
qed

lemma ex_no_value_grant: "stable ex_os (\<lambda>k. granted g bs k \<and> k_grants k 8 = None)"
  by (auto simp: stable_def ex_os_def kernel_os_def granted_def k_copyfrom_def k_copyto_def k_malloc_def split: option.split)

theorem failed_overwrite_dangles_witness:
  "wp (do_publish ex_os (ex_request 1 ''state'' 0x1040 8 2)) (\<lambda>r t. r = EPERM \<and> in_use (ds_store t ! 4)
    \<and> ds_heap t (d_word (ds_store t ! 4)) = None) (ex_at ''state'')"
proof (rule failed_overwrite_dangles [where src = "Key_of 1" and key = "text_in 80 ''state''"
      and W = "\<lambda>k. granted 5 (ex_key ''state'' @ [0]) k \<and> k_grants k 8 = None", OF ex_tables_ok ex_heap_ok ex_no_value_grant])
  let ?m = "ex_request 1 ''state'' 0x1040 8 2" and ?s = "ex_at ''state''"
  show "request_key ex_os ?m (stack_array ex_os DS_MAX_KEYLEN) (p_world ?s) = Some (text_in 80 ''state'')" by (rule ex_keys)
  have e4: "ds_store ?s ! 4 = ex_private" by (simp add: ex_ds_def ex_entries_def)
  have "lookup_entry (ds_store ?s) (text_in 80 ''state'') 0x40 = Some 4"
    by (simp add: lookup_entry_def ex_defs)
  moreover have "check_auth (ds_store ?s) ex_private 1 4"
    by (simp add: check_auth_def ex_proc_name) (simp add: ex_private_def)
  ultimately show "publish_slot (ds_store ?s) ?m (text_in 80 ''state'') = Inr 4"
    by (simp add: publish_slot_def Let_def e4)
  show "in_use (ds_store ?s ! 4)" "val_len ?m \<le> d_reallen (ds_store ?s ! 4)" unfolding e4 by (simp_all add: ex_private_def)
qed (simp_all add: ex_proc_name ex_granted type_of_def, simp_all add: ex_os_def kernel_os_def k_copyfrom_def ex_kernel_def granted_def)

text \<open>
  C23. \<open>ds_retrieve_str\<close> on a key that is not in the store writes past the end of the client's
  array when the key is longer than the array: the length it reads from the reply is the length
  of the key in the request.
\<close>

theorem retrieve_str_writes_past_end:
  assumes "key_ok name" and "store_ok s"
    and "GRANT_VALID (k_next (p_world s))" and "GRANT_VALID (k_next (p_world s) + 1)"
    and "abs_ds s (DSF_TYPE_STR, cstr name) = None"
    and "length val = unat len_str + 1" and "unat len_str < length (cstr name)"
  shows "ds_retrieve_str (linked (kernel_os rc rx) e) name val len_str s = Some (Inl OutOfBounds)"
  by (rule retrieve_str_out_of_bounds [OF assms])

theorem retrieve_str_writes_past_end_witness:
  "ds_retrieve_str (linked ex_os 1) (text_in 6 ''state'') [0, 0, 0] 2 (ex_at []) = Some (Inl OutOfBounds)"
  unfolding ex_os_def
proof (rule retrieve_str_writes_past_end)
  show "abs_ds (ex_at []) (DSF_TYPE_STR, cstr (text_in 6 ''state'')) = None" using ex_abs(5) by simp
qed (simp_all add: key_ok_def ex_key_def ex_store_ok GRANT_VALID_def ex_granted ex_kernel_def)

section \<open>Bitmaps\<close>

text \<open>
  A bitmap of \<open>BITMAP_CHUNKS(n)\<close> words has room for the bits below \<open>n\<close>: the word of each is
  inside the array, setting and clearing a bit keeps the length, and changes this bit only.
\<close>

theorem bitmap_bits:
  assumes "length m = BITMAP_CHUNKS n" and "a < n" and "b < n"
  shows "a div BITCHUNK_BITS < length m \<and> length (SET_BIT m a) = length m \<and> length (UNSET_BIT m a) = length m
    \<and> GET_BIT (SET_BIT m a) b = (a = b \<or> GET_BIT m b) \<and> GET_BIT (UNSET_BIT m a) b = (a \<noteq> b \<and> GET_BIT m b)"
  using chunks.get_set [OF assms] chunks.get_unset [OF assms] chunks.wf_set [OF assms(1), of a] chunks.wf_unset [OF assms(1), of a]
    chunk_bound [OF assms(2)] assms(1) by simp

theorem bitmap_bits_witness:
  "GET_BIT (SET_BIT [0, 0, 0, 0] 127) 127 \<and> \<not> GET_BIT (UNSET_BIT [0, 0, 0, 1] 96) 96"
  using bitmap_bits [of "[0, 0, 0, 0]" 128 127 127] bitmap_bits [of "[0, 0, 0, 1]" 128 96 96]
  by (simp add: BITMAP_CHUNKS_def)

end
