(* ===== verification/Sched_Base.thy ===== *)
theory Sched_Base
  imports Minix_Base
begin

text \<open>
  What the scheduler, the kernel and their callers share: the priorities, the layout of
  endpoints, and the messages of the two kernel calls \<open>SYS_SCHEDULE\<close> and \<open>SYS_SCHEDCTL\<close>.
\<close>

section \<open>Configuration\<close>

definition NR_PROCS :: nat where [simp]: "NR_PROCS = 256"
definition NR_SCHED_QUEUES :: nat where [simp]: "NR_SCHED_QUEUES = 16"
definition TASK_Q :: int where [simp]: "TASK_Q = 0"
definition MAX_USER_Q :: nat where [simp]: "MAX_USER_Q = 0"
definition MIN_USER_Q :: nat where [simp]: "MIN_USER_Q = NR_SCHED_QUEUES - 1"
definition USER_Q :: nat where [simp]: "USER_Q = (MIN_USER_Q - MAX_USER_Q) div 2 + MAX_USER_Q"

definition PM_PROC_NR :: endpoint where [simp]: "PM_PROC_NR = 0"
definition SCHED_PROC_NR :: endpoint where [simp]: "SCHED_PROC_NR = 4"
definition CLOCK :: endpoint where [simp]: "CLOCK = - 3"
definition KERNEL :: endpoint where [simp]: "KERNEL = - 1"

section \<open>Endpoints\<close>

definition MAX_NR_TASKS :: int where [simp]: "MAX_NR_TASKS = 1023"
definition ENDPOINT_GENERATION_SIZE :: int where [simp]: "ENDPOINT_GENERATION_SIZE = 2 ^ 15"
definition NONE :: endpoint where [simp]: "NONE = of_int (ENDPOINT_GENERATION_SIZE - MAX_NR_TASKS - 2)"

text \<open>The slot of an endpoint; negative for the kernel tasks.\<close>

definition endpoint_p :: "endpoint \<Rightarrow> int" where
  "endpoint_p e = uint ((e + of_int MAX_NR_TASKS) AND of_int (ENDPOINT_GENERATION_SIZE - 1)) - MAX_NR_TASKS"

definition mk_endpoint :: "nat \<Rightarrow> nat \<Rightarrow> endpoint" where
  "mk_endpoint g p = push_bit 15 (of_nat g) + of_nat p"

section \<open>Kernel calls\<close>

record kmsg =
  km_flags :: u32
  km_endpoint :: endpoint
  km_priority :: s32
  km_quantum :: s32
  km_cpu :: s32

datatype kcall = SYS_SCHEDULE | SYS_SCHEDCTL

definition SCHEDCTL_FLAG_KERNEL :: u32 where [simp]: "SCHEDCTL_FLAG_KERNEL = 1"

text \<open>The stubs; \<open>call\<close> is the entry into the kernel.\<close>

definition sys_schedule :: "(kcall \<Rightarrow> kmsg \<Rightarrow> 'w \<Rightarrow> int \<times> 'w) \<Rightarrow> endpoint \<Rightarrow> s32 \<Rightarrow> s32 \<Rightarrow> s32 \<Rightarrow> 'w \<Rightarrow> int \<times> 'w" where
  "sys_schedule call ep prio quantum cpu =
     call SYS_SCHEDULE \<lparr>km_flags = 0, km_endpoint = ep, km_priority = prio, km_quantum = quantum, km_cpu = cpu\<rparr>"

definition sys_schedctl ::
  "(kcall \<Rightarrow> kmsg \<Rightarrow> 'w \<Rightarrow> int \<times> 'w) \<Rightarrow> u32 \<Rightarrow> endpoint \<Rightarrow> s32 \<Rightarrow> s32 \<Rightarrow> s32 \<Rightarrow> 'w \<Rightarrow> int \<times> 'w" where
  "sys_schedctl call flags ep prio quantum cpu =
     call SYS_SCHEDCTL \<lparr>km_flags = flags, km_endpoint = ep, km_priority = prio, km_quantum = quantum, km_cpu = cpu\<rparr>"

section \<open>Slots of endpoints\<close>

lemma endpoint_p_mod: "endpoint_p e = uint (e + 1023) mod 2 ^ 15 - 1023"
proof -
  have "(0x7FFF :: 32 word) = mask 15" by (simp add: mask_eq_exp_minus_1)
  then have "(e + 1023) AND 0x7FFF = take_bit 15 (e + 1023)" by (simp add: take_bit_eq_mask)
  moreover have "uint (take_bit 15 (e + 1023)) = uint (e + 1023) mod 2 ^ 15"
    by (simp only: unsigned_take_bit_eq take_bit_eq_mod [of 15 "uint (e + 1023)"])
  ultimately show ?thesis by (simp add: endpoint_p_def)
qed

lemma endpoint_p_range: "- 1023 \<le> endpoint_p e" "endpoint_p e < 2 ^ 15 - 1023"
  by (simp_all add: endpoint_p_mod)

lemma mod_mod_pow: "(a :: int) mod 2 ^ 32 mod 2 ^ 15 = a mod 2 ^ 15"
  by (rule mod_mod_cancel) simp

lemma endpoint_roundtrip:
  assumes "p < 2 ^ 15 - 1023"
  shows "endpoint_p (mk_endpoint g p) = int p"
proof -
  have "mk_endpoint g p + 1023 = of_int (int g * 2 ^ 15 + (int p + 1023))"
    by (simp add: mk_endpoint_def push_bit_eq_mult)
  then have "uint (mk_endpoint g p + 1023) mod 2 ^ 15 = (int g * 2 ^ 15 + (int p + 1023)) mod 2 ^ 32 mod 2 ^ 15"
    by (simp only: uint_word_of_int len_bit0 len_num1) simp
  also have "\<dots> = int p + 1023" unfolding mod_mod_pow using assms by simp
  finally show ?thesis by (simp add: endpoint_p_mod)
qed

end
