(* ===== verification/C_Chain.thy ===== *)
theory C_Chain
  imports C_Prelude
begin

text \<open>
  Singly linked lists: chains of objects, each with a pointer to the next one. The objects of a
  kind are numbered, a pointer is \<open>None\<close> (\<open>NULL\<close>) or the number of an object. The code walks
  such a list with a pointer to a pointer, a \<open>link\<close>: the variable that holds the head, or the
  next field of an object.
\<close>

type_synonym ptr = "nat option"

datatype link = Head | Next nat

text \<open>The list \<open>xs\<close> is stored in the cells \<open>c\<close>, from the link \<open>l\<close> on.\<close>

primrec path :: "(link \<Rightarrow> ptr) \<Rightarrow> link \<Rightarrow> nat list \<Rightarrow> bool" where
  "path c l [] = (c l = None)"
| "path c l (x # xs) = (c l = Some x \<and> path c (Next x) xs)"

definition chain :: "(link \<Rightarrow> ptr) \<Rightarrow> nat list \<Rightarrow> bool" where
  "chain c xs \<longleftrightarrow> path c Head xs \<and> distinct xs"

text \<open>The link behind the elements \<open>ys\<close>, and what a pointer to a list is.\<close>

definition link_at :: "nat list \<Rightarrow> link" where
  "link_at ys = (if ys = [] then Head else Next (last ys))"

definition first :: "nat list \<Rightarrow> ptr" where
  "first xs = (case xs of [] \<Rightarrow> None | x # _ \<Rightarrow> Some x)"

text \<open>
  The loop \<open>for (l = &head; *l != NULL; l = &(*l)->next) if (stop) break;\<close>: the link where it
  ends.
\<close>

definition walk :: "(link \<Rightarrow> 's \<Rightarrow> ptr) \<Rightarrow> (nat \<Rightarrow> 's \<Rightarrow> bool) \<Rightarrow> ('s, link) prog" where
  "walk cell stop = loop_m (\<lambda>l. bnd (gets (cell l)) (\<lambda>p. case p of
       None \<Rightarrow> ret (Inr l)
     | Some x \<Rightarrow> bnd (gets (stop x)) (\<lambda>b. if b then ret (Inr l) else ret (Inl (Next x))))) Head"

section \<open>Chains\<close>

lemma link_at_simps [simp]: "link_at [] = Head" "link_at (ys @ [y]) = Next y"
  by (simp_all add: link_at_def)

lemma first_simps [simp]: "first [] = None" "first (x # xs) = Some x"
  by (simp_all add: first_def)

lemma first_eq: "first xs = None \<longleftrightarrow> xs = []" "first xs = Some x \<longleftrightarrow> (\<exists>zs. xs = x # zs)"
  by (cases xs; auto)+


lemma all_splits:
  "(\<forall>ys zs. x # xs = ys @ zs \<longrightarrow> P ys zs) \<longleftrightarrow> P [] (x # xs) \<and> (\<forall>ys zs. xs = ys @ zs \<longrightarrow> P (x # ys) zs)"
  (is "?L \<longleftrightarrow> ?R")
proof
  assume R: ?R
  show ?L
  proof (intro allI impI)
    fix ys zs assume "x # xs = ys @ zs"
    with R show "P ys zs" by (cases ys) simp_all
  qed
qed simp

lemma path_at: "path c l xs \<longleftrightarrow> (\<forall>ys zs. xs = ys @ zs \<longrightarrow> c (if ys = [] then l else Next (last ys)) = first zs)"
proof (induction xs arbitrary: l)
  case (Cons x xs)
  have "(if ys = [] then Next x else Next (last ys)) = Next (last (x # ys))" for ys by simp
  then show ?case unfolding all_splits using Cons [of "Next x"] by simp
qed simp

lemma chain_at: "chain c xs \<longleftrightarrow> distinct xs \<and> (\<forall>ys zs. xs = ys @ zs \<longrightarrow> c (link_at ys) = first zs)"
  unfolding chain_def path_at link_at_def by metis

lemma chainD: "chain c (ys @ zs) \<Longrightarrow> c (link_at ys) = first zs"
  by (simp add: chain_at)

lemma chain_distinct: "chain c xs \<Longrightarrow> distinct xs"
  by (simp add: chain_def)

lemma chain_head: "chain c xs \<Longrightarrow> c Head = first xs"
  using chainD [of c "[]" xs] by simp

lemma chain_unique: "chain c xs \<Longrightarrow> chain c ys \<Longrightarrow> xs = ys"
proof -
  have "path c l xs \<Longrightarrow> path c l ys \<Longrightarrow> xs = ys" for l
  proof (induction xs arbitrary: l ys)
    case Nil then show ?case by (cases ys) simp_all
  next
    case (Cons x xs) then show ?case by (cases ys) auto
  qed
  then show "chain c xs \<Longrightarrow> chain c ys \<Longrightarrow> xs = ys" by (auto simp: chain_def)
qed

text \<open>Only the links of the list matter.\<close>

lemma path_cong: "(\<And>k. k = l \<or> k \<in> Next ` set xs \<Longrightarrow> d k = c k) \<Longrightarrow> path d l xs = path c l xs"
  by (induction xs arbitrary: l) simp_all

lemma chain_cong: "(\<And>k. k = Head \<or> k \<in> Next ` set xs \<Longrightarrow> d k = c k) \<Longrightarrow> chain d xs = chain c xs"
  unfolding chain_def using path_cong [of Head xs d c] by auto

text \<open>A new element at a place in the list, and an element taken out.\<close>

lemma link_at_append: "us \<noteq> [] \<Longrightarrow> link_at (ys @ us) = Next (last us)"
  by (simp add: link_at_def)

lemma link_at_differ: "distinct (ys @ us) \<Longrightarrow> us \<noteq> [] \<Longrightarrow> link_at ys \<noteq> link_at (ys @ us)"
  by (auto simp: link_at_def dest: last_in_set)

lemma link_at_fresh: "x \<notin> set ys \<Longrightarrow> link_at ys \<noteq> Next x"
  by (auto simp: link_at_def)

lemma first_append: "first (us @ zs) = (if us = [] then first zs else first us)"
  by (cases us) simp_all

lemma chain_insert:
  assumes c: "chain c (ys @ zs)" and x: "x \<notin> set (ys @ zs)"
  shows "chain (c(Next x := c (link_at ys), link_at ys := Some x)) (ys @ x # zs)"
  unfolding chain_at
proof (intro conjI allI impI)
  have d: "distinct (ys @ zs)" using c by (rule chain_distinct)
  then show "distinct (ys @ x # zs)" using x by auto
  fix as bs
  assume "ys @ x # zs = as @ bs"
  then consider (before) us where "ys = as @ us" "bs = us @ x # zs"
    | (behind) us where "as = ys @ x # us" "zs = us @ bs"
    by (auto simp: append_eq_append_conv2 Cons_eq_append_conv)
  then show "(c(Next x := c (link_at ys), link_at ys := Some x)) (link_at as) = first bs"
  proof cases
    case before
    show ?thesis
    proof (cases "us = []")
      case False
      have "link_at as \<noteq> link_at ys" unfolding before(1) by (rule link_at_differ) (use d before False in auto)
      moreover have "link_at as \<noteq> Next x" by (rule link_at_fresh) (use x before in auto)
      moreover have "c (link_at as) = first (us @ zs)" by (rule chainD) (use c before in simp)
      ultimately show ?thesis using False before by (simp add: first_append)
    qed (simp add: before)
  next
    case behind
    have l: "link_at as = (if us = [] then Next x else Next (last us))"
      unfolding behind(1) using link_at_append [of "x # us" ys] by simp
    have n: "Next x \<noteq> link_at ys" using link_at_fresh [of x ys] x by auto
    show ?thesis
    proof (cases "us = []")
      case True
      then show ?thesis using l n behind chainD [OF c] by simp
    next
      case False
      have "link_at (ys @ us) = Next (last us)" by (rule link_at_append [OF False])
      moreover have "link_at ys \<noteq> link_at (ys @ us)" by (rule link_at_differ [OF _ False]) (use d behind in auto)
      moreover have "last us \<noteq> x" using last_in_set [OF False] x behind by auto
      moreover have "c (link_at (ys @ us)) = first bs" by (rule chainD) (use c behind in simp)
      ultimately show ?thesis using l False by auto
    qed
  qed
qed

lemma chain_remove:
  assumes c: "chain c (ys @ x # zs)"
  shows "chain (c(link_at ys := c (Next x))) (ys @ zs)"
  unfolding chain_at
proof (intro conjI allI impI)
  have d: "distinct (ys @ x # zs)" using c by (rule chain_distinct)
  then show "distinct (ys @ zs)" by auto
  have cx: "c (Next x) = first zs" using chainD [of c "ys @ [x]" zs] c by simp
  fix as bs
  assume "ys @ zs = as @ bs"
  then consider (before) us where "ys = as @ us" "us \<noteq> []" "bs = us @ zs"
    | (behind) us where "as = ys @ us" "zs = us @ bs"
    by (cases "length as < length ys") (auto simp: append_eq_append_conv2)
  then show "(c(link_at ys := c (Next x))) (link_at as) = first bs"
  proof cases
    case before
    have "link_at as \<noteq> link_at ys" unfolding before(1) by (rule link_at_differ) (use d before in auto)
    moreover have "c (link_at as) = first (us @ x # zs)" by (rule chainD) (use c before in simp)
    ultimately show ?thesis using before by (simp add: first_append)
  next
    case behind
    show ?thesis
    proof (cases "us = []")
      case False
      have "link_at (ys @ x # us) = link_at as" unfolding behind(1)
        using link_at_append [of "x # us" ys] link_at_append [OF False, of ys] False by simp
      moreover have "c (link_at (ys @ x # us)) = first bs" by (rule chainD) (use c behind in simp)
      moreover have "link_at ys \<noteq> link_at as" unfolding behind(1) by (rule link_at_differ [OF _ False]) (use d behind in auto)
      ultimately show ?thesis by simp
    qed (simp add: behind cx)
  qed
qed

section \<open>Lists in memory\<close>

text \<open>What the code needs of the memory of a list: cells that can be read and written.\<close>

locale linked_list =
  fixes cell :: "link \<Rightarrow> 's \<Rightarrow> ptr"
    and set_cell :: "link \<Rightarrow> ptr \<Rightarrow> 's \<Rightarrow> 's"
  assumes cell_set: "cell l (set_cell k p s) = (if l = k then p else cell l s)"
begin

abbreviation stored :: "nat list \<Rightarrow> 's \<Rightarrow> bool" where
  "stored xs s \<equiv> chain (\<lambda>l. cell l s) xs"

lemma stored_insert:
  assumes "stored (ys @ zs) s" and "x \<notin> set (ys @ zs)"
  shows "stored (ys @ x # zs) (set_cell (link_at ys) (Some x) (set_cell (Next x) (cell (link_at ys) s) s))"
proof -
  have "(\<lambda>l. cell l (set_cell (link_at ys) (Some x) (set_cell (Next x) (cell (link_at ys) s) s)))
      = (\<lambda>l. cell l s)(Next x := cell (link_at ys) s, link_at ys := Some x)"
    by (simp add: fun_eq_iff cell_set)
  then show ?thesis using chain_insert [OF assms] by simp
qed

lemma stored_remove:
  assumes "stored (ys @ x # zs) s"
  shows "stored (ys @ zs) (set_cell (link_at ys) (cell (Next x) s) s)"
proof -
  have "(\<lambda>l. cell l (set_cell (link_at ys) (cell (Next x) s) s)) = (\<lambda>l. cell l s)(link_at ys := cell (Next x) s)"
    by (simp add: fun_eq_iff cell_set)
  then show ?thesis using chain_remove [OF assms] by simp
qed

lemma walk_from:
  assumes "stored (ys @ zs) s" and "\<And>y. y \<in> set ys \<Longrightarrow> \<not> stop y s"
  shows "wp (loop_m (\<lambda>l. bnd (gets (cell l)) (\<lambda>p. case p of
       None \<Rightarrow> ret (Inr l)
     | Some x \<Rightarrow> bnd (gets (stop x)) (\<lambda>b. if b then ret (Inr l) else ret (Inl (Next x))))) (link_at ys))
    (\<lambda>l t. t = s \<and> l = link_at (ys @ takeWhile (\<lambda>x. \<not> stop x s) zs)) s"
  using assms
proof (induction zs arbitrary: ys)
  case Nil
  then show ?case using chainD [of "\<lambda>l. cell l s" ys "[]"] by (subst wp_loop_unfold) (simp add: wp_simps)
next
  case (Cons z zs)
  have z: "cell (link_at ys) s = Some z" using chainD [of "\<lambda>l. cell l s" ys "z # zs"] Cons.prems by simp
  show ?case
  proof (cases "stop z s")
    case False
    then have "wp (loop_m (\<lambda>l. bnd (gets (cell l)) (\<lambda>p. case p of
       None \<Rightarrow> ret (Inr l)
     | Some x \<Rightarrow> bnd (gets (stop x)) (\<lambda>b. if b then ret (Inr l) else ret (Inl (Next x))))) (link_at (ys @ [z])))
      (\<lambda>l t. t = s \<and> l = link_at ((ys @ [z]) @ takeWhile (\<lambda>x. \<not> stop x s) zs)) s"
      by (intro Cons.IH) (use Cons.prems in auto)
    with False z show ?thesis by (subst wp_loop_unfold) (simp add: wp_simps)
  qed (subst wp_loop_unfold, use z in \<open>simp add: wp_simps\<close>)
qed

lemma walk_wp: "stored xs s \<Longrightarrow> wp (walk cell stop) (\<lambda>l t. t = s \<and> l = link_at (takeWhile (\<lambda>x. \<not> stop x s) xs)) s"
  using walk_from [where ys = "[]" and zs = xs and s = s and stop = stop] by (simp add: walk_def)

end

end
