(* ===== verification/Tmr_Lib.thy ===== *)
theory Tmr_Lib
  imports C_Chain Minix_Base
begin

text \<open>
  Watchdog timers: the queue of \<open>lib/libtimers\<close> and the alarms on top of it in
  \<open>lib/libsys/timers.c\<close>, on the state of the process that uses them.

  The timers a process declares are numbered; the code of a watchdog function is a number too.
  A time is an integer of the type \<open>clock_t\<close>; the conversion into that type, which the headers
  of the C library define, is the parameter \<open>tm_clock\<close>.
\<close>

section \<open>The timers\<close>

definition TMR_NEVER :: int where [simp]: "TMR_NEVER = 2 ^ 31 - 1"

record minix_timer =
  tmr_next :: ptr
  tmr_exp_time :: int
  tmr_func :: nat
  tmr_arg :: s32

record 'w timed = "'w process" +
  tmr_mem :: "nat \<Rightarrow> minix_timer"
  timers :: ptr
  expiring :: bool

record 'w timer_os =
  tm_getticks :: "'w \<Rightarrow> (int \<times> int) \<times> 'w"
  tm_setalarm :: "int \<Rightarrow> int \<Rightarrow> 'w \<Rightarrow> int \<times> 'w"
  tm_clock :: "int \<Rightarrow> int"

type_synonym ('w, 'z, 'a) tprog = "(('w, 'z) timed_scheme, 'a) prog"

definition tmr_cell :: "link \<Rightarrow> ('w, 'z) timed_scheme \<Rightarrow> ptr" where
  "tmr_cell l s = (case l of Head \<Rightarrow> timers s | Next a \<Rightarrow> tmr_next (tmr_mem s a))"

definition set_tmr_cell :: "link \<Rightarrow> ptr \<Rightarrow> ('w, 'z) timed_scheme \<Rightarrow> ('w, 'z) timed_scheme" where
  "set_tmr_cell l p s = (case l of
      Head \<Rightarrow> s\<lparr>timers := p\<rparr>
    | Next a \<Rightarrow> s\<lparr>tmr_mem := (tmr_mem s)(a := (tmr_mem s a)\<lparr>tmr_next := p\<rparr>)\<rparr>)"

definition set_tmr :: "nat \<Rightarrow> (minix_timer \<Rightarrow> minix_timer) \<Rightarrow> ('w, 'z, unit) tprog" where
  "set_tmr a f = modify (\<lambda>s. s\<lparr>tmr_mem := (tmr_mem s)(a := f (tmr_mem s a))\<rparr>)"

text \<open>The time of the first timer, 0 when there is none.\<close>

definition head_time :: "('w, 'z) timed_scheme \<Rightarrow> int" where
  "head_time s = (case timers s of None \<Rightarrow> 0 | Some a \<Rightarrow> tmr_exp_time (tmr_mem s a))"

definition tmr_inittimer :: "nat \<Rightarrow> ('w, 'z, unit) tprog" where
  "tmr_inittimer tp = set_tmr tp (\<lambda>t. t\<lparr>tmr_exp_time := TMR_NEVER, tmr_next := None\<rparr>)"

section \<open>The queue\<close>

text \<open>The results are the time of the first timer before and after.\<close>

definition tmrs_clrtimer :: "nat \<Rightarrow> ('w, 'z, int \<times> int) tprog" where
  "tmrs_clrtimer tp = bnd (gets head_time) (\<lambda>prev_time.
     andthen (set_tmr tp (\<lambda>t. t\<lparr>tmr_exp_time := TMR_NEVER\<rparr>)) (
     bnd (walk tmr_cell (\<lambda>x _. x = tp)) (\<lambda>atp.
     bnd (gets (tmr_cell atp)) (\<lambda>p.
     andthen (if p = None then ret () else modify (\<lambda>s. set_tmr_cell atp (tmr_next (tmr_mem s tp)) s)) (
     bnd (gets head_time) (\<lambda>next_time. ret (prev_time, next_time)))))))"

definition tmrs_settimer :: "nat \<Rightarrow> int \<Rightarrow> nat \<Rightarrow> ('w, 'z, int \<times> int) tprog" where
  "tmrs_settimer tp exp_time watchdog = bnd (gets head_time) (\<lambda>old_head.
     andthen (tmrs_clrtimer tp) (
     andthen (set_tmr tp (\<lambda>t. t\<lparr>tmr_exp_time := exp_time, tmr_func := watchdog\<rparr>)) (
     bnd (walk tmr_cell (\<lambda>x s. exp_time < tmr_exp_time (tmr_mem s x))) (\<lambda>atp.
     andthen (modify (\<lambda>s. set_tmr_cell (Next tp) (tmr_cell atp s) s)) (
     andthen (modify (set_tmr_cell atp (Some tp))) (
     bnd (gets head_time) (\<lambda>new_head. ret (old_head, new_head))))))))"

text \<open>\<open>call f tp\<close> runs the watchdog function \<open>f\<close>; the turn of the loop on the first timer.\<close>

definition expire_turn :: "(nat \<Rightarrow> nat \<Rightarrow> ('w, 'z, unit) tprog) \<Rightarrow> int \<Rightarrow> unit \<Rightarrow> ('w, 'z, unit + unit) tprog" where
  "expire_turn call now = (\<lambda>_. bnd (gets timers) (\<lambda>p. case p of
       None \<Rightarrow> ret (Inr ())
     | Some tp \<Rightarrow> bnd (gets (\<lambda>s. tmr_exp_time (tmr_mem s tp))) (\<lambda>e.
         if e \<le> now then
           andthen (modify (\<lambda>s. s\<lparr>timers := tmr_next (tmr_mem s tp)\<rparr>)) (
           andthen (set_tmr tp (\<lambda>t. t\<lparr>tmr_exp_time := TMR_NEVER\<rparr>)) (
           bnd (gets (\<lambda>s. tmr_func (tmr_mem s tp))) (\<lambda>f.
           andthen (call f tp) (ret (Inl ())))))
         else ret (Inr ()))))"

definition tmrs_exptimers :: "(nat \<Rightarrow> nat \<Rightarrow> ('w, 'z, unit) tprog) \<Rightarrow> int \<Rightarrow> ('w, 'z, int) tprog" where
  "tmrs_exptimers call now = andthen (loop_m (expire_turn call now) ()) (gets head_time)"

section \<open>The alarm of the process\<close>

definition init_timer :: "nat \<Rightarrow> ('w, 'z, unit) tprog" where
  "init_timer tp = tmr_inittimer tp"

definition reset_alarm :: "('w, 'o) timer_os_scheme \<Rightarrow> int \<Rightarrow> ('w, 'z, unit) tprog" where
  "reset_alarm os time = bnd (os_call (tm_setalarm os time 1)) (\<lambda>r. if r \<noteq> OK then raise Panic else ret ())"

definition set_timer :: "('w, 'o) timer_os_scheme \<Rightarrow> nat \<Rightarrow> s32 \<Rightarrow> nat \<Rightarrow> s32 \<Rightarrow> ('w, 'z, unit) tprog" where
  "set_timer os tp ticks watchdog arg = bnd (os_call (tm_getticks os)) (\<lambda>now.
     if fst now \<noteq> OK then raise Panic
     else
       andthen (set_tmr tp (\<lambda>t. t\<lparr>tmr_arg := arg\<rparr>)) (
       bnd (tmrs_settimer tp (tm_clock os (snd now + sint ticks)) watchdog) (\<lambda>(prev_time, next_time).
       bnd (gets expiring) (\<lambda>e.
       if \<not> e \<and> (prev_time = 0 \<or> prev_time > next_time) then reset_alarm os next_time else ret ()))))"

definition cancel_timer :: "('w, 'o) timer_os_scheme \<Rightarrow> nat \<Rightarrow> ('w, 'z, unit) tprog" where
  "cancel_timer os tp = bnd (tmrs_clrtimer tp) (\<lambda>(prev_time, next_time).
     bnd (gets expiring) (\<lambda>e.
     if \<not> e \<and> (prev_time < next_time \<or> next_time = 0) then reset_alarm os next_time else ret ()))"

definition expire_timers ::
  "('w, 'o) timer_os_scheme \<Rightarrow> (nat \<Rightarrow> nat \<Rightarrow> ('w, 'z, unit) tprog) \<Rightarrow> int \<Rightarrow> ('w, 'z, unit) tprog" where
  "expire_timers os call now =
     andthen (modify (\<lambda>s. s\<lparr>expiring := True\<rparr>)) (
     bnd (tmrs_exptimers call now) (\<lambda>next_time.
     andthen (modify (\<lambda>s. s\<lparr>expiring := False\<rparr>)) (
     if next_time > 0 then reset_alarm os next_time else ret ())))"

end
