(* ===== verification/Sched_Server.thy ===== *)
theory Sched_Server
  imports Sched_Base Tmr_Lib
begin

text \<open>
  The scheduling server \<open>servers/sched\<close>: the table of the processes it schedules, its policy,
  the requests, and the main loop. The table is an array, a pointer into it an index. Code under
  \<open>CONFIG_SMP\<close> is in the model: the option is a field of the interface. The numbers of the MINIX
  error codes, which the headers of the C library define, come from it too.
\<close>

section \<open>State\<close>

record schedproc =
  sp_endpoint :: endpoint
  sp_parent :: endpoint
  sp_flags :: u32
  sp_max_priority :: u32
  sp_priority :: u32
  sp_time_slice :: u32
  sp_cpu :: u32

record machine_info =
  processors_count :: u32
  bsp_id :: u32

record 'w sched = "'w timed" +
  schedprocs :: "schedproc list"
  balance_timeout :: u32
  cpu_proc :: "u32 list"
  hz :: u32
  machine :: machine_info

text \<open>
  A message: its sender, its type, and the first words of its union. \<open>endpoint\<close> is the first word
  of all the requests; then \<open>parent\<close>, \<open>maxprio\<close> and \<open>quantum\<close> follow to start a process, and
  \<open>maxprio\<close> is the second word of a nice request. The reply has the scheduler in the first word,
  a notification its 64-bit timestamp in the first two.
\<close>

record sched_msg =
  sm_source :: endpoint
  sm_type :: int
  sm_w0 :: u32
  sm_w1 :: u32
  sm_w2 :: u32
  sm_w3 :: u32

definition sm_timestamp :: "sched_msg \<Rightarrow> int" where
  "sm_timestamp m = uint (sm_w0 m) + 2 ^ 32 * uint (sm_w1 m)"

text \<open>The error codes of MINIX: distinct names, with numbers below zero.\<close>

datatype minix_errno = EBADEPT | EDEADEPT | EBADCPU | ENOSYS

record 'w sched_os = "'w timer_os" +
  sc_kernel_call :: "kcall \<Rightarrow> kmsg \<Rightarrow> 'w \<Rightarrow> int \<times> 'w"
  sc_getinfo_hz :: "'w \<Rightarrow> (int \<times> u32) \<times> 'w"
  sc_getmachine :: "'w \<Rightarrow> (int \<times> machine_info) \<times> 'w"
  sc_receive :: "'w \<Rightarrow> (int \<times> sched_msg \<times> u32) \<times> 'w"
  sc_send :: "endpoint \<Rightarrow> sched_msg \<Rightarrow> 'w \<Rightarrow> int \<times> 'w"
  CONFIG_SMP :: bool
  CONFIG_MAX_CPUS :: nat
  DEFAULT_HZ :: u32
  sc_errno :: "minix_errno \<Rightarrow> nat"

type_synonym ('w, 'a) sprog = "('w sched, 'a) prog"

definition err :: "'w sched_os \<Rightarrow> minix_errno \<Rightarrow> int" where
  "err os e = - 1 - int (sc_errno os e)"

definition IN_USE :: u32 where [simp]: "IN_USE = 1"
definition SCHEDULE_CHANGE_PRIO :: u32 where [simp]: "SCHEDULE_CHANGE_PRIO = 1"
definition SCHEDULE_CHANGE_QUANTUM :: u32 where [simp]: "SCHEDULE_CHANGE_QUANTUM = 2"
definition SCHEDULE_CHANGE_CPU :: u32 where [simp]: "SCHEDULE_CHANGE_CPU = 4"
definition SCHEDULE_CHANGE_ALL :: u32 where
  [simp]: "SCHEDULE_CHANGE_ALL = SCHEDULE_CHANGE_PRIO OR SCHEDULE_CHANGE_QUANTUM OR SCHEDULE_CHANGE_CPU"
definition CPU_DEAD :: u32 where [simp]: "CPU_DEAD = - 1"
definition DEFAULT_USER_TIME_SLICE :: u32 where [simp]: "DEFAULT_USER_TIME_SLICE = 200"
definition BALANCE_TIMEOUT :: u32 where [simp]: "BALANCE_TIMEOUT = 5"

definition SCHEDULING_NO_QUANTUM :: int where [simp]: "SCHEDULING_NO_QUANTUM = 0xF01"
definition SCHEDULING_START :: int where [simp]: "SCHEDULING_START = 0xF02"
definition SCHEDULING_STOP :: int where [simp]: "SCHEDULING_STOP = 0xF03"
definition SCHEDULING_SET_NICE :: int where [simp]: "SCHEDULING_SET_NICE = 0xF04"
definition SCHEDULING_INHERIT :: int where [simp]: "SCHEDULING_INHERIT = 0xF05"
definition SUSPEND :: int where [simp]: "SUSPEND = - 998"

text \<open>The number of the timer of the server and of its watchdog function.\<close>

definition sched_timer :: nat where [simp]: "sched_timer = 0"
definition BALANCE_QUEUES :: nat where [simp]: "BALANCE_QUEUES = 1"

definition set_proc :: "nat \<Rightarrow> (schedproc \<Rightarrow> schedproc) \<Rightarrow> ('w, unit) sprog" where
  "set_proc i f = modify (\<lambda>s. s\<lparr>schedprocs := (schedprocs s)[i := f (schedprocs s ! i)]\<rparr>)"

section \<open>Utilities\<close>

definition no_sys :: "'w sched_os \<Rightarrow> endpoint \<Rightarrow> int \<Rightarrow> ('w, int) sprog" where
  "no_sys os who_e call_nr =
     andthen (print (''SCHED: in no_sys, call nr '' @ fmt_d call_nr @ '' from '' @ fmt_d (sint who_e) @ ''\<newline>'')) (ret (err os ENOSYS))"

text \<open>The code and the slot, \<open>*proc\<close>.\<close>

definition sched_isokendpt :: "'w sched_os \<Rightarrow> schedproc list \<Rightarrow> endpoint \<Rightarrow> int \<times> int" where
  "sched_isokendpt os tab e =
     (let p = endpoint_p e in
      if p < 0 then (err os EBADEPT, p)
      else if p \<ge> int NR_PROCS then (EINVAL, p)
      else if e \<noteq> sp_endpoint (tab ! nat p) then (err os EDEADEPT, p)
      else if sp_flags (tab ! nat p) AND IN_USE = 0 then (err os EDEADEPT, p)
      else (OK, p))"

definition sched_isemtyendpt :: "'w sched_os \<Rightarrow> schedproc list \<Rightarrow> endpoint \<Rightarrow> int \<times> int" where
  "sched_isemtyendpt os tab e =
     (let p = endpoint_p e in
      if p < 0 then (err os EBADEPT, p)
      else if p \<ge> int NR_PROCS then (EINVAL, p)
      else if sp_flags (tab ! nat p) AND IN_USE \<noteq> 0 then (err os EDEADEPT, p)
      else (OK, p))"

definition accept_message :: "sched_msg \<Rightarrow> bool" where
  "accept_message m \<longleftrightarrow> sm_source m = PM_PROC_NR \<or> sm_source m = RS_PROC_NR"

section \<open>Processors\<close>

definition is_system_proc :: "schedproc \<Rightarrow> bool" where
  "is_system_proc p \<longleftrightarrow> sp_parent p = RS_PROC_NR"

text \<open>The load is unsigned: the test holds of every processor.\<close>

definition cpu_is_available :: "u32 list \<Rightarrow> nat \<Rightarrow> bool" where
  "cpu_is_available load c \<longleftrightarrow> load ! c \<ge> 0"

definition pick_turn :: "u32 list \<Rightarrow> u32 \<Rightarrow> nat \<Rightarrow> u32 \<times> u32 \<Rightarrow> u32 \<times> u32" where
  "pick_turn load bsp c best =
     (if \<not> cpu_is_available load c then best
      else if of_nat c \<noteq> bsp \<and> snd best > load ! c then (of_nat c, load ! c)
      else best)"

definition least_loaded :: "u32 list \<Rightarrow> machine_info \<Rightarrow> u32" where
  "least_loaded load mc = fst (fold (pick_turn load (bsp_id mc)) [0..<unat (processors_count mc)] (bsp_id mc, - 1))"

definition pick_cpu :: "'w sched_os \<Rightarrow> nat \<Rightarrow> ('w, unit) sprog" where
  "pick_cpu os i =
     (if \<not> CONFIG_SMP os then set_proc i (\<lambda>p. p\<lparr>sp_cpu := 0\<rparr>)
      else bnd (gets machine) (\<lambda>mc. bnd (gets (\<lambda>s. schedprocs s ! i)) (\<lambda>p.
        if processors_count mc = 1 then set_proc i (\<lambda>p. p\<lparr>sp_cpu := bsp_id mc\<rparr>)
        else if is_system_proc p then set_proc i (\<lambda>p. p\<lparr>sp_cpu := bsp_id mc\<rparr>)
        else
          bnd (gets cpu_proc) (\<lambda>load.
          andthen (check OutOfBounds (unat (processors_count mc) \<le> length load)) (
          let cpu = least_loaded load mc in
          andthen (set_proc i (\<lambda>p. p\<lparr>sp_cpu := cpu\<rparr>)) (
          andthen (check OutOfBounds (unat cpu < length load))
            (modify (\<lambda>s. s\<lparr>cpu_proc := load[unat cpu := load ! unat cpu + 1]\<rparr>))))))))"

section \<open>Scheduling\<close>

definition schedule_process :: "'w sched_os \<Rightarrow> nat \<Rightarrow> u32 \<Rightarrow> ('w, int) sprog" where
  "schedule_process os i flags = andthen (pick_cpu os i) (
     bnd (gets (\<lambda>s. schedprocs s ! i)) (\<lambda>rmp.
     let new_prio = (if flags AND SCHEDULE_CHANGE_PRIO \<noteq> 0 then sp_priority rmp else - 1);
         new_quantum = (if flags AND SCHEDULE_CHANGE_QUANTUM \<noteq> 0 then sp_time_slice rmp else - 1);
         new_cpu = (if flags AND SCHEDULE_CHANGE_CPU \<noteq> 0 then sp_cpu rmp else - 1) in
     bnd (os_call (sys_schedule (sc_kernel_call os) (sp_endpoint rmp) new_prio new_quantum new_cpu)) (\<lambda>err.
     andthen (if err \<noteq> OK then
         print (''PM: An error occurred when trying to schedule '' @ fmt_d (sint (sp_endpoint rmp)) @ '': '' @ fmt_d err @ ''\<newline>'')
       else ret ()) (ret err))))"

definition schedule_process_local :: "'w sched_os \<Rightarrow> nat \<Rightarrow> ('w, int) sprog" where
  "schedule_process_local os i = schedule_process os i (SCHEDULE_CHANGE_PRIO OR SCHEDULE_CHANGE_QUANTUM)"

definition do_noquantum :: "'w sched_os \<Rightarrow> sched_msg \<Rightarrow> ('w, int) sprog" where
  "do_noquantum os m = bnd (gets (\<lambda>s. sched_isokendpt os (schedprocs s) (sm_source m))) (\<lambda>r.
     if fst r \<noteq> OK then
       andthen (print (''SCHED: WARNING: got an invalid endpoint in OOQ msg '' @ fmt_d (uint (sm_source m)) @ ''.\<newline>''))
         (ret (err os EBADEPT))
     else
       let i = nat (snd r) in
       bnd (gets (\<lambda>s. sp_priority (schedprocs s ! i))) (\<lambda>prio.
       andthen (if prio < of_nat MIN_USER_Q then set_proc i (\<lambda>p. p\<lparr>sp_priority := sp_priority p + 1\<rparr>) else ret ()) (
       bnd (schedule_process_local os i) (\<lambda>rv. if rv \<noteq> OK then ret rv else ret OK))))"

definition do_stop_scheduling :: "'w sched_os \<Rightarrow> sched_msg \<Rightarrow> ('w, int) sprog" where
  "do_stop_scheduling os m =
     (if \<not> accept_message m then ret EPERM
      else bnd (gets (\<lambda>s. sched_isokendpt os (schedprocs s) (sm_w0 m))) (\<lambda>r.
        if fst r \<noteq> OK then
          andthen (print (''SCHED: WARNING: got an invalid endpoint in OOQ msg '' @ fmt_d (sint (sm_w0 m)) @ ''\<newline>''))
            (ret (err os EBADEPT))
        else
          let i = nat (snd r) in
          andthen (if CONFIG_SMP os then
              bnd (gets cpu_proc) (\<lambda>load. bnd (gets (\<lambda>s. unat (sp_cpu (schedprocs s ! i)))) (\<lambda>c.
              andthen (check OutOfBounds (c < length load))
                (modify (\<lambda>s. s\<lparr>cpu_proc := load[c := load ! c - 1]\<rparr>))))
            else ret ()) (
          andthen (set_proc i (\<lambda>p. p\<lparr>sp_flags := 0\<rparr>)) (ret OK))))"

text \<open>The slot of a new process: the values of the message, then those for \<open>init\<close>.\<close>

definition populate_slot :: "'w sched_os \<Rightarrow> sched_msg \<Rightarrow> nat \<Rightarrow> ('w, bool) sprog" where
  "populate_slot os m i =
     andthen (set_proc i (\<lambda>p. p\<lparr>sp_endpoint := sm_w0 m, sp_parent := sm_w1 m, sp_max_priority := sm_w2 m\<rparr>)) (
     if sm_w2 m \<ge> of_nat NR_SCHED_QUEUES then ret False
     else
       andthen (if sm_w0 m = sm_w1 m then
           bnd (gets machine) (\<lambda>mc. set_proc i (\<lambda>p. (p\<lparr>sp_priority := of_nat USER_Q, sp_time_slice := DEFAULT_USER_TIME_SLICE\<rparr>)
             \<lparr>sp_cpu := if CONFIG_SMP os then bsp_id mc else sp_cpu p\<rparr>))
         else ret ()) (ret True))"

text \<open>The priority and the time slice, from the message or from the parent; an error code.\<close>

definition first_priority :: "'w sched_os \<Rightarrow> sched_msg \<Rightarrow> nat \<Rightarrow> ('w, int) sprog" where
  "first_priority os m i =
     (if sm_type m = SCHEDULING_START then
        andthen (set_proc i (\<lambda>p. p\<lparr>sp_priority := sp_max_priority p, sp_time_slice := sm_w3 m\<rparr>)) (ret OK)
      else if sm_type m = SCHEDULING_INHERIT then
        bnd (gets (\<lambda>s. sched_isokendpt os (schedprocs s) (sm_w1 m))) (\<lambda>r.
        if fst r \<noteq> OK then ret (fst r)
        else
          bnd (gets (\<lambda>s. schedprocs s ! nat (snd r))) (\<lambda>parent.
          andthen (set_proc i (\<lambda>p. p\<lparr>sp_priority := sp_priority parent, sp_time_slice := sp_time_slice parent\<rparr>)) (ret OK)))
      else raise AssertFailed)"

text \<open>The loop over the processors the kernel does not have.\<close>

definition place_turn :: "'w sched_os \<Rightarrow> nat \<Rightarrow> unit \<Rightarrow> ('w, unit + int) sprog" where
  "place_turn os i = (\<lambda>_. bnd (schedule_process os i SCHEDULE_CHANGE_ALL) (\<lambda>rv.
     if rv = err os EBADCPU then
       bnd (gets (\<lambda>s. unat (sp_cpu (schedprocs s ! i)))) (\<lambda>c.
       bnd (gets cpu_proc) (\<lambda>load.
       andthen (check OutOfBounds (c < length load)) (
       andthen (modify (\<lambda>s. s\<lparr>cpu_proc := load[c := CPU_DEAD]\<rparr>)) (
       andthen (pick_cpu os i) (ret (Inl ()))))))
     else ret (Inr rv)))"

definition place_process :: "'w sched_os \<Rightarrow> nat \<Rightarrow> ('w, int) sprog" where
  "place_process os i = andthen (pick_cpu os i) (loop_m (place_turn os i) ())"

definition take_over :: "'w sched_os \<Rightarrow> sched_msg \<Rightarrow> nat \<Rightarrow> ('w, int \<times> sched_msg) sprog" where
  "take_over os m i = bnd (gets (\<lambda>s. sp_endpoint (schedprocs s ! i))) (\<lambda>e.
     bnd (os_call (sys_schedctl (sc_kernel_call os) 0 e 0 0 0)) (\<lambda>rv.
     if rv \<noteq> OK then
       andthen (print (''Sched: Error taking over scheduling for '' @ fmt_d (sint e) @ '', kernel said '' @ fmt_d rv @ ''\<newline>''))
         (ret (rv, m))
     else
       andthen (set_proc i (\<lambda>p. p\<lparr>sp_flags := IN_USE\<rparr>)) (
       bnd (place_process os i) (\<lambda>rv.
       if rv \<noteq> OK then
         andthen (print (''Sched: Error while scheduling process, kernel replied '' @ fmt_d rv @ ''\<newline>'')) (ret (rv, m))
       else ret (OK, m\<lparr>sm_w0 := SCHED_PROC_NR\<rparr>)))))"

definition do_start_scheduling :: "'w sched_os \<Rightarrow> sched_msg \<Rightarrow> ('w, int \<times> sched_msg) sprog" where
  "do_start_scheduling os m =
     andthen (check AssertFailed (sm_type m = SCHEDULING_START \<or> sm_type m = SCHEDULING_INHERIT)) (
     if \<not> accept_message m then ret (EPERM, m)
     else bnd (gets (\<lambda>s. sched_isemtyendpt os (schedprocs s) (sm_w0 m))) (\<lambda>r.
       if fst r \<noteq> OK then ret (fst r, m)
       else
         let i = nat (snd r) in
         bnd (populate_slot os m i) (\<lambda>valid.
         if \<not> valid then ret (EINVAL, m)
         else bnd (first_priority os m i) (\<lambda>rv. if rv \<noteq> OK then ret (rv, m) else take_over os m i))))"

definition do_nice :: "'w sched_os \<Rightarrow> sched_msg \<Rightarrow> ('w, int) sprog" where
  "do_nice os m =
     (if \<not> accept_message m then ret EPERM
      else bnd (gets (\<lambda>s. sched_isokendpt os (schedprocs s) (sm_w0 m))) (\<lambda>r.
        if fst r \<noteq> OK then
          andthen (print (''SCHED: WARNING: got an invalid endpoint in OoQ msg '' @ fmt_d (sint (sm_w0 m)) @ ''\<newline>''))
            (ret (err os EBADEPT))
        else
          let i = nat (snd r); new_q = sm_w1 m in
          if new_q \<ge> of_nat NR_SCHED_QUEUES then ret EINVAL
          else
            bnd (gets (\<lambda>s. schedprocs s ! i)) (\<lambda>old.
            andthen (set_proc i (\<lambda>p. p\<lparr>sp_max_priority := new_q, sp_priority := new_q\<rparr>)) (
            bnd (schedule_process_local os i) (\<lambda>rv.
            andthen (if rv \<noteq> OK then
                set_proc i (\<lambda>p. p\<lparr>sp_priority := sp_priority old, sp_max_priority := sp_max_priority old\<rparr>)
              else ret ()) (ret rv))))))"

section \<open>Balancing\<close>

definition balance_turn :: "'w sched_os \<Rightarrow> nat \<Rightarrow> ('w, unit) sprog" where
  "balance_turn os i = bnd (gets (\<lambda>s. schedprocs s ! i)) (\<lambda>rmp.
     if sp_flags rmp AND IN_USE \<noteq> 0 \<and> sp_priority rmp > sp_max_priority rmp then
       andthen (set_proc i (\<lambda>p. p\<lparr>sp_priority := sp_priority p - 1\<rparr>)) (
       andthen (schedule_process_local os i) (ret ()))
     else ret ())"

definition balance_queues :: "'w sched_os \<Rightarrow> ('w, unit) sprog" where
  "balance_queues os = andthen (for_m [0..<NR_PROCS] (balance_turn os)) (
     bnd (gets balance_timeout) (\<lambda>t. set_timer os sched_timer t BALANCE_QUEUES 0))"

text \<open>The call through the function pointer of a timer.\<close>

definition watchdog :: "'w sched_os \<Rightarrow> nat \<Rightarrow> nat \<Rightarrow> ('w, unit) sprog" where
  "watchdog os f tp = (if f = BALANCE_QUEUES then balance_queues os else raise NullPointer)"

definition sys_hz :: "'w sched_os \<Rightarrow> ('w, u32) sprog" where
  "sys_hz os = bnd (gets hz) (\<lambda>h.
     andthen (if h \<le> 0 then
         bnd (os_call (sc_getinfo_hz os)) (\<lambda>r.
         if fst r \<noteq> OK then
           andthen (modify (\<lambda>s. s\<lparr>hz := DEFAULT_HZ os\<rparr>))
             (print (''sys_hz: can not get HZ: error '' @ fmt_d (fst r) @ ''.\<newline>Using default HZ = ''
               @ fmt_d (uint (DEFAULT_HZ os)) @ ''\<newline>''))
         else modify (\<lambda>s. s\<lparr>hz := snd r\<rparr>))
       else ret ()) (gets hz))"

definition init_scheduling :: "'w sched_os \<Rightarrow> ('w, unit) sprog" where
  "init_scheduling os = bnd (sys_hz os) (\<lambda>h.
     andthen (modify (\<lambda>s. s\<lparr>balance_timeout := BALANCE_TIMEOUT * h\<rparr>)) (
     andthen (init_timer sched_timer) (
     set_timer os sched_timer (BALANCE_TIMEOUT * h) BALANCE_QUEUES 0)))"

section \<open>The main loop\<close>

definition sched_reply :: "'w sched_os \<Rightarrow> endpoint \<Rightarrow> sched_msg \<Rightarrow> ('w, unit) sprog" where
  "sched_reply os who_e m = bnd (os_call (sc_send os who_e m)) (\<lambda>s.
     if OK \<noteq> s then
       print (''SCHED: unable to send reply to '' @ fmt_d (sint who_e) @ '': '' @ fmt_d s @ ''\<newline>'')
     else ret ())"

definition is_ipc_notify :: "u32 \<Rightarrow> bool" where
  "is_ipc_notify status \<longleftrightarrow> status AND 0x3F = 4"

definition from_kernel :: "u32 \<Rightarrow> bool" where
  "from_kernel status \<longleftrightarrow> drop_bit 16 status AND 1 \<noteq> 0"

text \<open>What a message does: \<open>None\<close> where the loop continues without a reply.\<close>

definition sched_dispatch :: "'w sched_os \<Rightarrow> sched_msg \<Rightarrow> u32 \<Rightarrow> ('w, (int \<times> sched_msg) option) sprog" where
  "sched_dispatch os m status =
     (if is_ipc_notify status then
        if sm_source m = CLOCK then
          andthen (expire_timers os (watchdog os) (tm_clock os (sm_timestamp m))) (ret None)
        else ret (Some (err os ENOSYS, m))
      else if sm_type m = SCHEDULING_INHERIT \<or> sm_type m = SCHEDULING_START then
        bnd (do_start_scheduling os m) (\<lambda>r. ret (Some r))
      else if sm_type m = SCHEDULING_STOP then bnd (do_stop_scheduling os m) (\<lambda>r. ret (Some (r, m)))
      else if sm_type m = SCHEDULING_SET_NICE then bnd (do_nice os m) (\<lambda>r. ret (Some (r, m)))
      else if sm_type m = SCHEDULING_NO_QUANTUM then
        if from_kernel status then
          bnd (do_noquantum os m) (\<lambda>rv.
          andthen (if rv \<noteq> OK then print (''SCHED: Warning, do_noquantum failed with '' @ fmt_d rv @ ''\<newline>'') else ret ())
            (ret None))
        else
          andthen (print (''SCHED: process '' @ fmt_d (sint (sm_source m)) @ '' faked SCHEDULING_NO_QUANTUM message!\<newline>''))
            (ret (Some (EPERM, m)))
      else bnd (no_sys os (sm_source m) (sm_type m)) (\<lambda>r. ret (Some (r, m))))"

definition sched_main_turn :: "'w sched_os \<Rightarrow> ('w, unit) sprog" where
  "sched_main_turn os = bnd (os_call (sc_receive os)) (\<lambda>r.
     if fst r \<noteq> OK then raise Panic
     else
       bnd (sched_dispatch os (fst (snd r)) (snd (snd r))) (\<lambda>res. case res of
         None \<Rightarrow> ret ()
       | Some (result, m) \<Rightarrow>
           if result \<noteq> SUSPEND then sched_reply os (sm_source (fst (snd r))) (m\<lparr>sm_type := result\<rparr>)
           else ret ()))"

text \<open>The start: static data is zero.\<close>

definition zero_proc :: schedproc where
  "zero_proc = \<lparr>sp_endpoint = 0, sp_parent = 0, sp_flags = 0, sp_max_priority = 0, sp_priority = 0, sp_time_slice = 0, sp_cpu = 0\<rparr>"

definition zero_timer :: minix_timer where
  "zero_timer = \<lparr>tmr_next = None, tmr_exp_time = 0, tmr_func = 0, tmr_arg = 0\<rparr>"

definition sched_image :: "'w sched_os \<Rightarrow> 'w sched \<Rightarrow> 'w sched" where
  "sched_image os s = s\<lparr>tmr_mem := \<lambda>_. zero_timer, timers := None, expiring := False, schedprocs := replicate NR_PROCS zero_proc,
     balance_timeout := 0, cpu_proc := replicate (CONFIG_MAX_CPUS os) 0, hz := 0,
     machine := \<lparr>processors_count = 0, bsp_id = 0\<rparr>\<rparr>"

definition sched_start_up :: "'w sched_os \<Rightarrow> ('w, unit) sprog" where
  "sched_start_up os = andthen (modify (sched_image os)) (
     bnd (os_call (sc_getmachine os)) (\<lambda>r.
     if OK \<noteq> fst r then raise Panic
     else andthen (modify (\<lambda>s. s\<lparr>machine := snd r\<rparr>)) (init_scheduling os)))"

end
