(* ===== verification/Tmr_Queue.thy ===== *)
theory Tmr_Queue
  imports Tmr_Lib
begin

text \<open>
  The timer queue as a list: setting a timer puts it behind the timers that are not later,
  clearing it takes it out, and the expired timers are a prefix.
\<close>

interpretation tmrq: linked_list tmr_cell set_tmr_cell
  by unfold_locales (simp add: tmr_cell_def set_tmr_cell_def split: link.split)

abbreviation tmr_queue :: "nat list \<Rightarrow> ('w, 'z) timed_scheme \<Rightarrow> bool" where
  "tmr_queue xs s \<equiv> chain (\<lambda>l. tmr_cell l s) xs"

text \<open>What a timer holds besides its link, and what there is besides the timers.\<close>

definition tmr_body :: "('w, 'z) timed_scheme \<Rightarrow> nat \<Rightarrow> minix_timer" where
  "tmr_body s a = (tmr_mem s a)\<lparr>tmr_next := None\<rparr>"

definition tmr_rest :: "('w, 'z) timed_scheme \<Rightarrow> ('w, 'z) timed_scheme" where
  "tmr_rest s = s\<lparr>timers := None, tmr_mem := \<lambda>_. \<lparr>tmr_next = None, tmr_exp_time = 0, tmr_func = 0, tmr_arg = 0\<rparr>\<rparr>"

text \<open>The queue after a timer was set to the time \<open>e\<close>.\<close>

definition tmr_insert :: "(nat \<Rightarrow> int) \<Rightarrow> nat \<Rightarrow> int \<Rightarrow> nat list \<Rightarrow> nat list" where
  "tmr_insert time tp e xs = takeWhile (\<lambda>x. time x \<le> e) xs @ tp # dropWhile (\<lambda>x. time x \<le> e) xs"

abbreviation tmr_time :: "('w, 'z) timed_scheme \<Rightarrow> nat \<Rightarrow> int" where
  "tmr_time s x \<equiv> tmr_exp_time (tmr_mem s x)"

definition in_order :: "nat list \<Rightarrow> ('w, 'z) timed_scheme \<Rightarrow> bool" where
  "in_order xs s \<longleftrightarrow> sorted (map (tmr_time s) xs)"

section \<open>Clearing\<close>

lemma tmr_body_time: "tmr_time s x = tmr_exp_time (tmr_body s x)"
  by (simp add: tmr_body_def)

lemma tmr_body_func: "tmr_func (tmr_mem s x) = tmr_func (tmr_body s x)"
  by (simp add: tmr_body_def)

lemma set_tmr_cell_frame [simp]: "tmr_body (set_tmr_cell l p s) = tmr_body s" "tmr_rest (set_tmr_cell l p s) = tmr_rest s"
  by (auto simp: tmr_body_def tmr_rest_def set_tmr_cell_def fun_eq_iff split: link.split)

lemma set_tmr_wp:
  assumes "\<And>t. tmr_next (f t) = tmr_next t" and "\<And>t. f (t\<lparr>tmr_next := None\<rparr>) = (f t)\<lparr>tmr_next := None\<rparr>"
  shows "wp (set_tmr a f) (\<lambda>_ t. (\<forall>l. tmr_cell l t = tmr_cell l s) \<and> tmr_body t = (tmr_body s)(a := f (tmr_body s a))
    \<and> tmr_rest t = tmr_rest s) s"
  using assms by (auto simp: set_tmr_def wp_simps tmr_cell_def tmr_body_def tmr_rest_def fun_eq_iff split: link.split)

lemma takeWhile_remove1: "distinct xs \<Longrightarrow> x \<in> set xs \<Longrightarrow> \<exists>zs. xs = takeWhile (\<lambda>y. y \<noteq> x) xs @ x # zs \<and> remove1 x xs = takeWhile (\<lambda>y. y \<noteq> x) xs @ zs"
  by (induction xs) auto

lemma clrtimer_wp:
  assumes q: "tmr_queue xs s"
  shows "wp (tmrs_clrtimer tp) (\<lambda>r t. tmr_queue (remove1 tp xs) t
    \<and> tmr_body t = (tmr_body s)(tp := (tmr_body s tp)\<lparr>tmr_exp_time := TMR_NEVER\<rparr>) \<and> tmr_rest t = tmr_rest s
    \<and> r = (head_time s, head_time t)) s"
proof -
  let ?Q = "\<lambda>t. tmr_queue (remove1 tp xs) t
    \<and> tmr_body t = (tmr_body s)(tp := (tmr_body s tp)\<lparr>tmr_exp_time := TMR_NEVER\<rparr>) \<and> tmr_rest t = tmr_rest s"
  have "wp (set_tmr tp (\<lambda>t. t\<lparr>tmr_exp_time := TMR_NEVER\<rparr>)) (\<lambda>_.
      wp (walk tmr_cell (\<lambda>x _. x = tp)) (\<lambda>atp t. (if tmr_cell atp t = None then ?Q t
        else ?Q (set_tmr_cell atp (tmr_next (tmr_mem t tp)) t)))) s"
  proof (rule wp_mono [OF set_tmr_wp])
    fix t :: "('a, 'b) timed_scheme"
    assume t: "(\<forall>l. tmr_cell l t = tmr_cell l s) \<and> tmr_body t = (tmr_body s)(tp := (tmr_body s tp)\<lparr>tmr_exp_time := TMR_NEVER\<rparr>)
      \<and> tmr_rest t = tmr_rest s"
    with q have q': "tmr_queue xs t" by simp
    show "wp (walk tmr_cell (\<lambda>x _. x = tp)) (\<lambda>atp t. (if tmr_cell atp t = None then ?Q t
        else ?Q (set_tmr_cell atp (tmr_next (tmr_mem t tp)) t))) t"
    proof (rule wp_mono [OF tmrq.walk_wp [OF q']], elim conjE)
      fix atp and u :: "('a, 'b) timed_scheme"
      assume u: "u = t" and atp: "atp = link_at (takeWhile (\<lambda>x. x \<noteq> tp) xs)"
      show "if tmr_cell atp u = None then ?Q u else ?Q (set_tmr_cell atp (tmr_next (tmr_mem u tp)) u)"
      proof (cases "tp \<in> set xs")
        case True
        with takeWhile_remove1 [OF chain_distinct [OF q] True] obtain zs where
          z: "xs = takeWhile (\<lambda>y. y \<noteq> tp) xs @ tp # zs" "remove1 tp xs = takeWhile (\<lambda>y. y \<noteq> tp) xs @ zs" by blast
        have "tmr_cell atp t = Some tp"
          using chainD [of "\<lambda>l. tmr_cell l t" "takeWhile (\<lambda>y. y \<noteq> tp) xs" "tp # zs"] q' z(1) atp by simp
        moreover have "tmr_queue (remove1 tp xs) (set_tmr_cell atp (tmr_cell (Next tp) t) t)"
          unfolding z(2) atp by (rule tmrq.stored_remove) (use q' z(1) in simp)
        ultimately show ?thesis using t u by (simp add: tmr_cell_def)
      next
        case False
        then have all: "takeWhile (\<lambda>x. x \<noteq> tp) xs = xs" by (auto simp: takeWhile_eq_all_conv)
        have "atp = link_at xs" unfolding atp all ..
        moreover have "remove1 tp xs = xs" using False by (rule remove1_idem)
        moreover have "tmr_cell (link_at xs) t = None" using chainD [of "\<lambda>l. tmr_cell l t" xs "[]"] q' by simp
        ultimately show ?thesis using t u q' by simp
      qed
    qed
  qed simp_all
  then show ?thesis
    unfolding tmrs_clrtimer_def wp_bnd wp_andthen wp_gets
    by (elim wp_mono) (auto simp: wp_simps split: if_splits)
qed

section \<open>Setting\<close>

lemma takeWhile_body: "(\<And>x. x \<in> set xs \<Longrightarrow> f x = g x) \<Longrightarrow> takeWhile (\<lambda>x. P (f x)) xs = takeWhile (\<lambda>x. P (g x)) xs"
  by (induction xs) auto

lemma settimer_wp:
  fixes s :: "('w, 'z) timed_scheme"
  assumes q: "tmr_queue xs s"
  shows "wp (tmrs_settimer tp e w) (\<lambda>r t. tmr_queue (tmr_insert (tmr_time s) tp e (remove1 tp xs)) t
    \<and> tmr_body t = (tmr_body s)(tp := (tmr_body s tp)\<lparr>tmr_exp_time := e, tmr_func := w\<rparr>) \<and> tmr_rest t = tmr_rest s
    \<and> r = (head_time s, head_time t)) s"
proof -
  let ?ys = "remove1 tp xs"
  let ?B = "(tmr_body s)(tp := (tmr_body s tp)\<lparr>tmr_exp_time := e, tmr_func := w\<rparr>)"
  let ?Q = "\<lambda>t. tmr_queue (tmr_insert (tmr_time s) tp e ?ys) t \<and> tmr_body t = ?B \<and> tmr_rest t = tmr_rest s"
  have new: "tp \<notin> set ?ys" using chain_distinct [OF q] by simp
  have add: "?Q (set_tmr_cell (link_at (takeWhile (\<lambda>x. \<not> e < tmr_time t x) ?ys)) (Some tp)
      (set_tmr_cell (Next tp) (tmr_cell (link_at (takeWhile (\<lambda>x. \<not> e < tmr_time t x) ?ys)) t) t))"
    if t: "tmr_queue ?ys t" "tmr_body t = ?B" "tmr_rest t = tmr_rest s" for t
  proof -
    have same: "tmr_time t x = tmr_time s x" if "x \<in> set ?ys" for x
      using that new t(2) unfolding tmr_body_time by auto
    let ?P = "\<lambda>x. tmr_time s x \<le> e"
    have tw: "takeWhile (\<lambda>x. \<not> e < tmr_time t x) ?ys = takeWhile ?P ?ys"
      by (rule takeWhile_cong) (use same in auto)
    have "tmr_queue (takeWhile ?P ?ys @ tp # dropWhile ?P ?ys) (set_tmr_cell (link_at (takeWhile ?P ?ys)) (Some tp)
      (set_tmr_cell (Next tp) (tmr_cell (link_at (takeWhile ?P ?ys)) t) t))"
      by (rule tmrq.stored_insert) (use t(1) new in simp_all)
    with t show ?thesis unfolding tw tmr_insert_def by simp
  qed
  have "wp (tmrs_clrtimer tp) (\<lambda>_. wp (set_tmr tp (\<lambda>t. t\<lparr>tmr_exp_time := e, tmr_func := w\<rparr>)) (\<lambda>_.
      wp (walk tmr_cell (\<lambda>x s. e < tmr_exp_time (tmr_mem s x))) (\<lambda>atp t.
        ?Q (set_tmr_cell atp (Some tp) (set_tmr_cell (Next tp) (tmr_cell atp t) t))))) s"
  proof (rule wp_mono [OF clrtimer_wp [OF q]])
    fix r and t :: "('w, 'z) timed_scheme"
    assume t: "tmr_queue ?ys t
      \<and> tmr_body t = (tmr_body s)(tp := (tmr_body s tp)\<lparr>tmr_exp_time := TMR_NEVER\<rparr>) \<and> tmr_rest t = tmr_rest s
      \<and> r = (head_time s, head_time t)"
    show "wp (set_tmr tp (\<lambda>t. t\<lparr>tmr_exp_time := e, tmr_func := w\<rparr>)) (\<lambda>_.
      wp (walk tmr_cell (\<lambda>x s. e < tmr_exp_time (tmr_mem s x))) (\<lambda>atp t.
        ?Q (set_tmr_cell atp (Some tp) (set_tmr_cell (Next tp) (tmr_cell atp t) t)))) t"
    proof (rule wp_mono [OF set_tmr_wp])
      fix u :: "('w, 'z) timed_scheme"
      assume "(\<forall>l. tmr_cell l u = tmr_cell l t) \<and> tmr_body u = (tmr_body t)(tp := (tmr_body t tp)\<lparr>tmr_exp_time := e, tmr_func := w\<rparr>)
        \<and> tmr_rest u = tmr_rest t"
      with t have u: "tmr_queue ?ys u" "tmr_body u = ?B" "tmr_rest u = tmr_rest s" by (simp_all add: fun_upd_def fun_eq_iff)
      show "wp (walk tmr_cell (\<lambda>x s. e < tmr_exp_time (tmr_mem s x))) (\<lambda>atp t.
        ?Q (set_tmr_cell atp (Some tp) (set_tmr_cell (Next tp) (tmr_cell atp t) t))) u"
        by (rule wp_mono [OF tmrq.walk_wp [OF u(1)]]) (use add [OF u] in simp)
    qed simp_all
  qed
  then show ?thesis
    unfolding tmrs_settimer_def wp_bnd wp_andthen wp_gets by (elim wp_mono) (simp add: wp_simps)
qed

text \<open>The queue stays in order, and the first timer is the earliest.\<close>

lemma tmr_insert_set: "set (tmr_insert time tp e xs) = insert tp (set xs)"
proof -
  have "set (takeWhile (\<lambda>x. time x \<le> e) xs) \<union> set (dropWhile (\<lambda>x. time x \<le> e) xs) = set xs"
    by (metis set_append takeWhile_dropWhile_id)
  then show ?thesis by (auto simp: tmr_insert_def)
qed

lemma tmr_insert_order:
  assumes "sorted (map time xs)" and "time' tp = e" and "\<And>x. x \<in> set xs \<Longrightarrow> time' x = time x"
  shows "sorted (map time' (tmr_insert time tp e xs))"
proof -
  let ?l = "takeWhile (\<lambda>x. time x \<le> e) xs" and ?r = "dropWhile (\<lambda>x. time x \<le> e) xs"
  have "sorted (map time (?l @ ?r))" using assms(1) by simp
  then have s: "sorted (map time ?l)" "sorted (map time ?r)" "\<forall>x \<in> set ?l. \<forall>y \<in> set ?r. time x \<le> time y"
    unfolding map_append sorted_append by auto
  have r: "e \<le> time y" if "y \<in> set ?r" for y
  proof (cases "?r")
    case Nil
    with that show ?thesis by (simp only: list.set empty_iff)
  next
    case (Cons z zs)
    then have "\<not> time z \<le> e" using hd_dropWhile [of "\<lambda>x. time x \<le> e" xs] by simp
    moreover have "time z \<le> time y" using s(2) Cons that by auto
    ultimately show ?thesis by simp
  qed
  have l: "time x \<le> e" if "x \<in> set ?l" for x using that by (rule set_takeWhileD [THEN conjunct2])
  have same: "map time' ?l = map time ?l" "map time' ?r = map time ?r"
    using assms(3) by (auto dest: set_takeWhileD set_dropWhileD)
  show ?thesis unfolding tmr_insert_def map_append list.map same assms(2)
    using s l r by (auto simp: sorted_append intro: order_trans)
qed

section \<open>Expiring\<close>

text \<open>
  With watchdog functions that leave the timers alone, the expired timers are taken from the
  front, and each watchdog runs once, in the order of the queue. \<open>L\<close> is where they leave a trace.
\<close>

definition traced :: "(nat \<Rightarrow> nat \<Rightarrow> ('w, 'z, unit) tprog) \<Rightarrow> (('w, 'z) timed_scheme \<Rightarrow> 'l list) \<Rightarrow> (nat \<Rightarrow> nat \<Rightarrow> 'l list) \<Rightarrow> bool" where
  "traced call L entry \<longleftrightarrow> (\<forall>f tp s. wp (call f tp) (\<lambda>_ t. timers t = timers s \<and> tmr_mem t = tmr_mem s
     \<and> L t = L s @ entry f tp) s)
   \<and> (\<forall>s p m. L (s\<lparr>timers := p\<rparr>) = L s \<and> L (s\<lparr>tmr_mem := m\<rparr>) = L s)"

lemma chain_tl: "chain c (x # xs) \<Longrightarrow> chain (c(Head := c (Next x))) xs"
  using chain_remove [of c "[]" x xs] by simp

lemma expire_one:
  fixes s :: "('w, 'z) timed_scheme"
  assumes tr: "traced call L entry" and q: "tmr_queue (x # xs) s" and due: "tmr_time s x \<le> now"
  shows "wp (expire_turn call now ()) (\<lambda>y t. y = Inl () \<and> tmr_queue xs t
    \<and> tmr_body t = (tmr_body s)(x := (tmr_body s x)\<lparr>tmr_exp_time := TMR_NEVER\<rparr>)
    \<and> L t = L s @ entry (tmr_func (tmr_mem s x)) x) s"
proof -
  have h: "timers s = Some x" using chain_head [OF q] by (simp add: tmr_cell_def)
  let ?s = "s\<lparr>timers := tmr_next (tmr_mem s x), tmr_mem := (tmr_mem s)(x := (tmr_mem s x)\<lparr>tmr_exp_time := TMR_NEVER\<rparr>)\<rparr>"
  have cells: "(\<lambda>l. tmr_cell l t) = (\<lambda>l. tmr_cell l s)(Head := tmr_cell (Next x) s)"
    if "timers t = timers ?s" "tmr_mem t = tmr_mem ?s" for t :: "('w, 'z) timed_scheme"
    using that by (auto simp: fun_eq_iff tmr_cell_def split: link.split)
  have run: "wp (call f x) (\<lambda>_ t. timers t = timers ?s \<and> tmr_mem t = tmr_mem ?s \<and> L t = L ?s @ entry f x) ?s" for f
    by (rule tr [unfolded traced_def, THEN conjunct1, rule_format])
  have same: "L ?s = L s" using tr by (simp add: traced_def)
  have "wp (call f x) (\<lambda>_ t. tmr_queue xs t
      \<and> tmr_body t = (tmr_body s)(x := (tmr_body s x)\<lparr>tmr_exp_time := TMR_NEVER\<rparr>) \<and> L t = L s @ entry f x) ?s" for f
    by (rule wp_mono [OF run], elim conjE) (simp add: same [simplified] cells chain_tl [OF q] tmr_body_def fun_eq_iff)
  then show ?thesis using h due
    by (simp add: expire_turn_def wp_simps set_tmr_def)
qed

lemma exptimers_wp:
  fixes s :: "('w, 'z) timed_scheme"
  assumes tr: "traced call L entry" and "tmr_queue xs s"
  shows "wp (tmrs_exptimers call now) (\<lambda>r t. tmr_queue (dropWhile (\<lambda>x. tmr_time s x \<le> now) xs) t
    \<and> L t = L s @ concat (map (\<lambda>x. entry (tmr_func (tmr_mem s x)) x) (takeWhile (\<lambda>x. tmr_time s x \<le> now) xs))
    \<and> r = head_time t) s"
proof -
  have "wp (loop_m (expire_turn call now) ()) (\<lambda>_ t. tmr_queue (dropWhile (\<lambda>x. tmr_time s x \<le> now) xs) t
    \<and> L t = L s @ concat (map (\<lambda>x. entry (tmr_func (tmr_mem s x)) x) (takeWhile (\<lambda>x. tmr_time s x \<le> now) xs))) s"
    using assms(2)
  proof (induction xs arbitrary: s)
    case Nil
    then have "timers s = None" using chain_head [OF Nil] by (simp add: tmr_cell_def)
    with Nil show ?case by (subst wp_loop_unfold) (simp add: expire_turn_def wp_simps)
  next
    case (Cons x xs)
    have h: "timers s = Some x" using chain_head [OF Cons.prems] by (simp add: tmr_cell_def)
    have new: "x \<notin> set xs" using chain_distinct [OF Cons.prems] by simp
    show ?case
    proof (cases "tmr_time s x \<le> now")
      case True
      show ?thesis
      proof (subst wp_loop_unfold, rule wp_mono [OF expire_one [OF tr Cons.prems True]])
        fix y and t :: "('w, 'z) timed_scheme"
        assume t: "y = Inl () \<and> tmr_queue xs t
          \<and> tmr_body t = (tmr_body s)(x := (tmr_body s x)\<lparr>tmr_exp_time := TMR_NEVER\<rparr>)
          \<and> L t = L s @ entry (tmr_func (tmr_mem s x)) x"
        have same: "tmr_time t z = tmr_time s z" "tmr_func (tmr_mem t z) = tmr_func (tmr_mem s z)" if "z \<in> set xs" for z
        proof -
          have "tmr_body t z = tmr_body s z" using t that new by auto
          then show "tmr_time t z = tmr_time s z" "tmr_func (tmr_mem t z) = tmr_func (tmr_mem s z)"
            by (simp_all add: tmr_body_time tmr_body_func)
        qed
        have tw: "takeWhile (\<lambda>x. tmr_time t x \<le> now) xs = takeWhile (\<lambda>x. tmr_time s x \<le> now) xs"
          "dropWhile (\<lambda>x. tmr_time t x \<le> now) xs = dropWhile (\<lambda>x. tmr_time s x \<le> now) xs"
          by (rule takeWhile_cong dropWhile_cong; use same in simp)+
        have mp: "map (\<lambda>x. entry (tmr_func (tmr_mem t x)) x) (takeWhile (\<lambda>x. tmr_time s x \<le> now) xs)
          = map (\<lambda>x. entry (tmr_func (tmr_mem s x)) x) (takeWhile (\<lambda>x. tmr_time s x \<le> now) xs)"
          using same by (auto dest: set_takeWhileD)
        have "wp (loop_m (expire_turn call now) ()) (\<lambda>_ u. tmr_queue (dropWhile (\<lambda>x. tmr_time s x \<le> now) xs) u
          \<and> L u = L t @ concat (map (\<lambda>x. entry (tmr_func (tmr_mem s x)) x) (takeWhile (\<lambda>x. tmr_time s x \<le> now) xs))) t"
          using Cons.IH [of t] t unfolding tw mp by simp
        with t True show "case y of Inl x' \<Rightarrow> wp (loop_m (expire_turn call now) x')
            (\<lambda>_ t. tmr_queue (dropWhile (\<lambda>x. tmr_time s x \<le> now) (x # xs)) t
          \<and> L t = L s @ concat (map (\<lambda>x. entry (tmr_func (tmr_mem s x)) x) (takeWhile (\<lambda>x. tmr_time s x \<le> now) (x # xs)))) t
          | Inr r \<Rightarrow> tmr_queue (dropWhile (\<lambda>x. tmr_time s x \<le> now) (x # xs)) t
          \<and> L t = L s @ concat (map (\<lambda>x. entry (tmr_func (tmr_mem s x)) x) (takeWhile (\<lambda>x. tmr_time s x \<le> now) (x # xs)))"
          by simp
      qed
    next
      case False
      with h Cons.prems show ?thesis by (subst wp_loop_unfold) (simp add: expire_turn_def wp_simps)
    qed
  qed
  then show ?thesis by (simp add: tmrs_exptimers_def wp_simps)
qed

lemma sorted_prefix:
  assumes "sorted (map f xs)"
  shows "takeWhile (\<lambda>x. f x \<le> n) xs = filter (\<lambda>x. f x \<le> n) xs" and "dropWhile (\<lambda>x. f x \<le> n) xs = filter (\<lambda>x. \<not> f x \<le> n) xs"
proof -
  have "takeWhile (\<lambda>x. f x \<le> n) xs = filter (\<lambda>x. f x \<le> n) xs \<and> dropWhile (\<lambda>x. f x \<le> n) xs = filter (\<lambda>x. \<not> f x \<le> n) xs"
    using assms
  proof (induction xs)
    case (Cons x xs)
    then have "\<not> f y \<le> n" if "\<not> f x \<le> n" "y \<in> set xs" for y
      using that order_trans [of "f x" "f y" n] by auto
    with Cons show ?case by (auto simp: filter_empty_conv filter_id_conv)
  qed simp
  then show "takeWhile (\<lambda>x. f x \<le> n) xs = filter (\<lambda>x. f x \<le> n) xs"
    and "dropWhile (\<lambda>x. f x \<le> n) xs = filter (\<lambda>x. \<not> f x \<le> n) xs" by auto
qed

section \<open>The alarm\<close>

text \<open>
  The kernel has one alarm for the process. It is never later than the first timer: \<open>A\<close> is the
  time the alarm is set to.
\<close>

definition alarm_law :: "('w, 'o) timer_os_scheme \<Rightarrow> ('w \<Rightarrow> int) \<Rightarrow> bool" where
  "alarm_law os A \<longleftrightarrow> (\<forall>time w. fst (tm_setalarm os time 1 w) = OK \<and> A (snd (tm_setalarm os time 1 w)) = time)
     \<and> (\<forall>w. A (snd (tm_getticks os w)) = A w)"

definition armed :: "('w \<Rightarrow> int) \<Rightarrow> ('w, 'z) timed_scheme \<Rightarrow> bool" where
  "armed A s \<longleftrightarrow> (timers s \<noteq> None \<longrightarrow> 0 < A (p_world s) \<and> A (p_world s) \<le> head_time s)"

text \<open>The queue is a list in order, and its alarm is in time.\<close>

definition timers_ok :: "('w \<Rightarrow> int) \<Rightarrow> nat list \<Rightarrow> ('w, 'z) timed_scheme \<Rightarrow> bool" where
  "timers_ok A xs s \<longleftrightarrow> tmr_queue xs s \<and> in_order xs s \<and> armed A s"

lemma head_time_queue: "tmr_queue xs s \<Longrightarrow> head_time s = (case xs of [] \<Rightarrow> 0 | x # _ \<Rightarrow> tmr_time s x)"
  using chain_head [of "\<lambda>l. tmr_cell l s" xs] by (simp add: head_time_def tmr_cell_def split: list.split)

lemma timers_queue: "tmr_queue xs s \<Longrightarrow> timers s = first xs"
  using chain_head [of "\<lambda>l. tmr_cell l s" xs] by (simp add: tmr_cell_def)

lemma tmr_rest_sel: "p_world (tmr_rest s) = p_world s" "expiring (tmr_rest s) = expiring s" "p_out (tmr_rest s) = p_out s"
  by (simp_all add: tmr_rest_def)

lemma tmr_rest_fields:
  "tmr_rest t = tmr_rest s \<Longrightarrow> p_world t = p_world s \<and> expiring t = expiring s \<and> p_out t = p_out s"
  by (metis tmr_rest_sel)

lemma timers_world [simp]:
  "tmr_cell l (s\<lparr>p_world := w\<rparr>) = tmr_cell l s" "head_time (s\<lparr>p_world := w\<rparr>) = head_time s"
  "in_order xs (s\<lparr>p_world := w\<rparr>) = in_order xs s"
  by (simp_all add: tmr_cell_def head_time_def in_order_def cong: option.case_cong split: option.split link.split)

lemma wp_reset_alarm:
  "alarm_law os A \<Longrightarrow> wp (reset_alarm os time) Q s = Q () (s\<lparr>p_world := snd (tm_setalarm os time 1 (p_world s))\<rparr>)"
  by (simp add: reset_alarm_def wp_simps alarm_law_def)

lemma times_positive:
  assumes "timers_ok A xs s" and "x \<in> set xs"
  shows "0 < tmr_time s x" and "A (p_world s) \<le> tmr_time s x"
proof -
  obtain y ys where xs: "xs = y # ys" using assms(2) by (cases xs) auto
  then have "head_time s = tmr_time s y" "timers s = Some y" "\<forall>x \<in> set xs. tmr_time s y \<le> tmr_time s x"
    using assms(1) head_time_queue [where xs = xs and s = s] timers_queue [where xs = xs and s = s] by (auto simp: timers_ok_def in_order_def)
  then show "0 < tmr_time s x" "A (p_world s) \<le> tmr_time s x"
    using assms by (auto simp: timers_ok_def armed_def intro: order_less_le_trans order_trans)
qed

lemma sorted_remove1_key: "sorted (map f xs) \<Longrightarrow> sorted (map f (remove1 x xs))"
  by (induction xs) (auto dest: notin_set_remove1 [rotated] set_remove1_subset [THEN subsetD])

lemma insert_positive:
  assumes ok: "timers_ok A xs s" and e: "0 < e"
    and t: "tmr_queue (tmr_insert (tmr_time s) tp e (remove1 tp xs)) t"
      "tmr_body t = (tmr_body s)(tp := (tmr_body s tp)\<lparr>tmr_exp_time := e, tmr_func := f\<rparr>)"
  shows "in_order (tmr_insert (tmr_time s) tp e (remove1 tp xs)) t" and "0 < head_time t"
    and "timers t \<noteq> None"
proof -
  let ?ys = "remove1 tp xs" and ?zs = "tmr_insert (tmr_time s) tp e (remove1 tp xs)"
  have d: "tp \<notin> set ?ys" using ok chain_distinct by (auto simp: timers_ok_def)
  have tp: "tmr_time t tp = e" using t(2) by (simp add: tmr_body_time)
  have same: "tmr_time t x = tmr_time s x" if "x \<in> set ?ys" for x using that d t(2) by (auto simp: tmr_body_time)
  have "sorted (map (tmr_time s) ?ys)" using ok by (simp add: timers_ok_def in_order_def sorted_remove1_key)
  then show "in_order ?zs t" unfolding in_order_def
    by (rule tmr_insert_order [where time = "tmr_time s"]) (simp_all add: tp same)
  have pos: "0 < tmr_time t x" if "x \<in> set ?zs" for x
  proof (cases "x = tp")
    case False
    then have "x \<in> set ?ys" using that by (simp add: tmr_insert_set)
    moreover from this have "x \<in> set xs" by (rule set_remove1_subset [THEN subsetD])
    ultimately show ?thesis using same times_positive(1) [OF ok] by simp
  qed (use tp e in simp)
  obtain z zs where z: "?zs = z # zs" by (cases ?zs) (auto simp: tmr_insert_def)
  then show "timers t \<noteq> None" "0 < head_time t"
    using pos [of z] timers_queue [OF t(1)] head_time_queue [OF t(1)] by simp_all
qed

lemma set_timer_ok:
  fixes s :: "('w, 'z) timed_scheme"
  assumes law: "alarm_law os A" and ok: "timers_ok A xs s" and ne: "\<not> expiring s"
    and now: "tm_getticks os (p_world s) = ((OK, now), w')" and e: "0 < tm_clock os (now + sint ticks)"
  shows "wp (set_timer os tp ticks f arg) (\<lambda>_ t.
    timers_ok A (tmr_insert (tmr_time s) tp (tm_clock os (now + sint ticks)) (remove1 tp xs)) t) s"
proof -
  let ?e = "tm_clock os (now + sint ticks)" and ?s = "s\<lparr>p_world := w', tmr_mem := (tmr_mem s)(tp := (tmr_mem s tp)\<lparr>tmr_arg := arg\<rparr>)\<rparr>"
  let ?zs = "tmr_insert (tmr_time s) tp ?e (remove1 tp xs)"
  have Aw: "A w' = A (p_world s)" using law now by (simp add: alarm_law_def) (metis snd_conv)
  have cells: "(\<lambda>l. tmr_cell l ?s) = (\<lambda>l. tmr_cell l s)" by (auto simp: fun_eq_iff tmr_cell_def split: link.split)
  have time: "tmr_time ?s = tmr_time s" by auto
  have ok': "timers_ok A xs ?s"
    using ok Aw time cells by (auto simp: timers_ok_def in_order_def armed_def head_time_def split: option.split)
  have "wp (tmrs_settimer tp ?e f) (\<lambda>r t. tmr_queue ?zs t \<and> in_order ?zs t \<and> 0 < head_time t \<and> timers t \<noteq> None
      \<and> p_world t = w' \<and> \<not> expiring t \<and> r = (head_time ?s, head_time t)) ?s"
  proof (rule wp_mono [OF settimer_wp])
    show "tmr_queue xs ?s" using ok' by (simp add: timers_ok_def)
    fix r and t :: "('w, 'z) timed_scheme"
    assume t: "tmr_queue (tmr_insert (tmr_time ?s) tp ?e (remove1 tp xs)) t
      \<and> tmr_body t = (tmr_body ?s)(tp := (tmr_body ?s tp)\<lparr>tmr_exp_time := ?e, tmr_func := f\<rparr>) \<and> tmr_rest t = tmr_rest ?s
      \<and> r = (head_time ?s, head_time t)"
    with insert_positive [OF ok' e, where tp = tp and t = t and f = f] tmr_rest_fields [of t ?s] ne time
    show "tmr_queue ?zs t \<and> in_order ?zs t \<and> 0 < head_time t \<and> timers t \<noteq> None
      \<and> p_world t = w' \<and> \<not> expiring t \<and> r = (head_time ?s, head_time t)" by simp
  qed
  note set = this
  have early: "A w' \<le> head_time ?s" if "head_time ?s \<noteq> 0"
    using that ok' by (auto simp: timers_ok_def armed_def head_time_def split: option.splits)
  have "wp (tmrs_settimer tp ?e f) (\<lambda>r t. \<not> expiring t
      \<and> (if fst r = 0 \<or> fst r > snd r then timers_ok A ?zs (t\<lparr>p_world := snd (tm_setalarm os (snd r) 1 (p_world t))\<rparr>)
         else timers_ok A ?zs t)) ?s"
  proof (rule wp_mono [OF set], elim conjE)
    fix r and t :: "('w, 'z) timed_scheme"
    assume t: "tmr_queue ?zs t" "in_order ?zs t" "0 < head_time t" "timers t \<noteq> None" "p_world t = w'" "\<not> expiring t"
      and r: "r = (head_time ?s, head_time t)"
    have "timers_ok A ?zs (t\<lparr>p_world := w\<rparr>)" if "0 < A w" "A w \<le> head_time t" for w
      using that t by (simp add: timers_ok_def armed_def)
    moreover have "timers_ok A ?zs t" if "0 < A (p_world t)" "A (p_world t) \<le> head_time t"
      using that t by (simp add: timers_ok_def armed_def)
    moreover have "0 < A w'" if "head_time ?s \<noteq> 0"
      using that ok' by (auto simp: timers_ok_def armed_def head_time_def split: option.splits)
    ultimately show "\<not> expiring t
      \<and> (if fst r = 0 \<or> fst r > snd r then timers_ok A ?zs (t\<lparr>p_world := snd (tm_setalarm os (snd r) 1 (p_world t))\<rparr>)
         else timers_ok A ?zs t)"
      using t r early law by (auto simp: alarm_law_def)
  qed
  then show ?thesis
    unfolding set_timer_def wp_bnd wp_os_call now fst_conv snd_conv
    by (simp add: wp_simps set_tmr_def) (erule wp_mono, auto simp: wp_simps wp_reset_alarm [OF law] split: if_splits)
qed

lemma cancel_timer_ok:
  fixes s :: "('w, 'z) timed_scheme"
  assumes law: "alarm_law os A" and ok: "timers_ok A xs s" and ne: "\<not> expiring s"
  shows "wp (cancel_timer os tp) (\<lambda>_ t. timers_ok A (remove1 tp xs) t) s"
proof -
  let ?ys = "remove1 tp xs"
  have q: "tmr_queue xs s" using ok by (simp add: timers_ok_def)
  have "wp (tmrs_clrtimer tp) (\<lambda>r t. \<not> expiring t
      \<and> (if fst r < snd r \<or> snd r = 0 then timers_ok A ?ys (t\<lparr>p_world := snd (tm_setalarm os (snd r) 1 (p_world t))\<rparr>)
         else timers_ok A ?ys t)) s"
  proof (rule wp_mono [OF clrtimer_wp [OF q]], elim conjE)
    fix r and t :: "('w, 'z) timed_scheme"
    assume t: "tmr_queue ?ys t" "tmr_body t = (tmr_body s)(tp := (tmr_body s tp)\<lparr>tmr_exp_time := TMR_NEVER\<rparr>)"
      "tmr_rest t = tmr_rest s" and r: "r = (head_time s, head_time t)"
    note f = tmr_rest_fields [OF t(3)]
    have d: "tp \<notin> set ?ys" using chain_distinct [OF q] by simp
    have same: "tmr_time t x = tmr_time s x" if "x \<in> set ?ys" for x using that d t(2) by (auto simp: tmr_body_time)
    have m: "map (tmr_time t) ?ys = map (tmr_time s) ?ys" using same by simp
    have ord: "in_order ?ys t" unfolding in_order_def m using ok by (simp add: timers_ok_def in_order_def sorted_remove1_key)
    have pos: "0 < head_time t \<and> A (p_world s) \<le> head_time t \<and> 0 < A (p_world s)" if some: "timers t \<noteq> None"
    proof -
      obtain y ys where y: "?ys = y # ys" using some timers_queue [OF t(1)] by (cases ?ys) auto
      then have "y \<in> set xs" using set_remove1_subset [of tp xs] by auto
      moreover have "head_time t = tmr_time s y" using head_time_queue [OF t(1)] same [of y] y by simp
      moreover have "timers s \<noteq> None" using calculation timers_queue [OF q] by (cases xs) auto
      ultimately show ?thesis using times_positive [OF ok, of y] ok by (simp add: timers_ok_def armed_def)
    qed
    have "timers_ok A ?ys (t\<lparr>p_world := snd (tm_setalarm os (head_time t) 1 (p_world t))\<rparr>)"
      using t(1) ord pos law by (auto simp: timers_ok_def armed_def alarm_law_def)
    moreover have "timers_ok A ?ys t" using t(1) ord pos f by (auto simp: timers_ok_def armed_def)
    ultimately show "\<not> expiring t
      \<and> (if fst r < snd r \<or> snd r = 0 then timers_ok A ?ys (t\<lparr>p_world := snd (tm_setalarm os (snd r) 1 (p_world t))\<rparr>)
         else timers_ok A ?ys t)"
      using r ne f by simp
  qed
  then show ?thesis
    unfolding cancel_timer_def wp_bnd
    by (rule wp_mono) (auto simp: wp_simps wp_reset_alarm [OF law] split: if_splits)
qed

end
