(* ===== verification/Sched_Inv.thy ===== *)
theory Sched_Inv
  imports Sched_Server Tmr_Queue C_Service
begin

text \<open>
  What holds in the scheduler between requests: the slots of its table are valid, and its timer
  is set, so that the queues are balanced again and again.
\<close>

section \<open>Valid slots\<close>

abbreviation scheduled :: "schedproc \<Rightarrow> bool" where
  "scheduled p \<equiv> sp_flags p AND IN_USE \<noteq> 0"

definition slot_ok :: "nat \<Rightarrow> schedproc \<Rightarrow> bool" where
  "slot_ok i p \<longleftrightarrow> (scheduled p \<longrightarrow> endpoint_p (sp_endpoint p) = int i
     \<and> sp_priority p < of_nat NR_SCHED_QUEUES \<and> sp_max_priority p < of_nat NR_SCHED_QUEUES)"

definition procs_ok :: "'w sched \<Rightarrow> bool" where
  "procs_ok s \<longleftrightarrow> length (schedprocs s) = NR_PROCS \<and> (\<forall>i < NR_PROCS. slot_ok i (schedprocs s ! i))"

definition balancing :: "'w sched \<Rightarrow> bool" where
  "balancing s \<longleftrightarrow> tmr_queue [sched_timer] s \<and> tmr_func (tmr_mem s sched_timer) = BALANCE_QUEUES"

definition sched_inv :: "'w sched \<Rightarrow> bool" where
  "sched_inv s \<longleftrightarrow> procs_ok s \<and> balancing s \<and> \<not> expiring s"

text \<open>The part of the state that the timers are.\<close>

definition tmr_part :: "'w sched \<Rightarrow> (nat \<Rightarrow> minix_timer) \<times> ptr \<times> bool" where
  "tmr_part s = (tmr_mem s, timers s, expiring s)"

section \<open>Operations that leave the timers alone\<close>

lemma tmr_part_ops [keeps_ops]:
  "keeps tmr_part (os_call f)" "keeps tmr_part (print t)" "keeps tmr_part (set_proc i g)"
  "keeps tmr_part (modify (\<lambda>s. s\<lparr>cpu_proc := c s\<rparr>))"
  by (simp_all add: keeps_def wp_simps set_proc_def tmr_part_def)

lemma tmr_part_handlers [keeps_ops]:
  shows "keeps tmr_part (pick_cpu os i)" and "keeps tmr_part (schedule_process os i fl)"
    and "keeps tmr_part (schedule_process_local os i)" and "keeps tmr_part (do_noquantum os m)"
    and "keeps tmr_part (do_stop_scheduling os m)" and "keeps tmr_part (do_nice os m)"
    and "keeps tmr_part (place_process os i)" and "keeps tmr_part (do_start_scheduling os m)"
    and "keeps tmr_part (balance_turn os i)" and "keeps tmr_part (sched_reply os e m)" and "keeps tmr_part (no_sys os e nr)"
proof -
  show pick: "keeps tmr_part (pick_cpu os i)" for i
    unfolding pick_cpu_def Let_def by (intro keeps_intros keeps_ops)
  show sp: "keeps tmr_part (schedule_process os i fl)" for i fl
    unfolding schedule_process_def Let_def by (intro keeps_intros keeps_ops pick)
  show spl: "keeps tmr_part (schedule_process_local os i)" for i
    unfolding schedule_process_local_def by (rule sp)
  show "keeps tmr_part (do_noquantum os m)"
    unfolding do_noquantum_def Let_def by (intro keeps_intros keeps_ops spl)
  show "keeps tmr_part (do_stop_scheduling os m)"
    unfolding do_stop_scheduling_def Let_def by (intro keeps_intros keeps_ops)
  show "keeps tmr_part (do_nice os m)"
    unfolding do_nice_def Let_def by (intro keeps_intros keeps_ops spl)
  show pp: "keeps tmr_part (place_process os i)" for i
    unfolding place_process_def place_turn_def by (intro keeps_intros keeps_ops sp pick)
  show "keeps tmr_part (do_start_scheduling os m)"
    unfolding do_start_scheduling_def populate_slot_def first_priority_def take_over_def Let_def
    by (intro keeps_intros keeps_ops pp)
  show "keeps tmr_part (balance_turn os i)"
    unfolding balance_turn_def by (intro keeps_intros keeps_ops spl)
  show "keeps tmr_part (sched_reply os e m)" unfolding sched_reply_def by (intro keeps_intros keeps_ops)
  show "keeps tmr_part (no_sys os e nr)" unfolding no_sys_def by (intro keeps_intros keeps_ops)
qed

lemma tmr_part_cells: "tmr_part t = tmr_part s \<Longrightarrow> (\<lambda>l. tmr_cell l t) = (\<lambda>l. tmr_cell l s)"
  by (simp add: tmr_part_def tmr_cell_def fun_eq_iff split: link.split)

lemma preserves_sched_inv:
  assumes "preserves procs_ok p" and "keeps tmr_part p"
  shows "preserves sched_inv p"
  unfolding preserves_def
proof (intro allI impI)
  fix s :: "'a sched"
  assume s: "sched_inv s"
  have "wlp p (\<lambda>_ t. procs_ok t \<and> tmr_part t = tmr_part s) s"
    using preservesD [OF assms(1)] keepsD [OF assms(2)] s by (simp add: wlp_conj sched_inv_def)
  then show "wlp p (\<lambda>_. sched_inv) s"
  proof (rule wlp_mono)
    show "sched_inv t" if "procs_ok t \<and> tmr_part t = tmr_part s" for t
      using that s tmr_part_cells [of t s] by (simp add: sched_inv_def balancing_def tmr_part_def)
  qed
qed

section \<open>Slots stay valid\<close>

lemma procs_ok_ops [preserves_intros]:
  "preserves procs_ok (os_call f)" "preserves procs_ok (print t)" "preserves procs_ok (modify (\<lambda>s. s\<lparr>cpu_proc := c s\<rparr>))"
  by (simp_all add: preserves_def wp_simps procs_ok_def)

lemma procs_ok_set:
  assumes "procs_ok s" and "i < NR_PROCS \<Longrightarrow> slot_ok i p"
  shows "procs_ok (s\<lparr>schedprocs := (schedprocs s)[i := p]\<rparr>)"
  using assms by (cases "i < 256") (auto simp: procs_ok_def nth_list_update list_update_beyond)

lemma preserves_set_proc: "(\<And>p. slot_ok i p \<Longrightarrow> slot_ok i (f p)) \<Longrightarrow> preserves procs_ok (set_proc i f)"
  by (auto simp: preserves_def set_proc_def wp_simps intro!: procs_ok_set) (simp add: procs_ok_def)

lemma procs_ok_schedule [preserves_intros]:
  "preserves procs_ok (pick_cpu os i)" "preserves procs_ok (schedule_process os i fl)"
  "preserves procs_ok (schedule_process_local os i)" "preserves procs_ok (place_process os i)"
proof -
  show pick: "preserves procs_ok (pick_cpu os i)"
    unfolding pick_cpu_def Let_def by (intro preserves_intros preserves_set_proc) (simp_all add: slot_ok_def)
  show sp: "preserves procs_ok (schedule_process os i fl)" for fl
    unfolding schedule_process_def Let_def by (intro preserves_intros pick)
  show "preserves procs_ok (schedule_process_local os i)"
    unfolding schedule_process_local_def by (rule sp)
  show "preserves procs_ok (place_process os i)"
    unfolding place_process_def place_turn_def by (intro preserves_intros sp pick)
qed

lemma priority_step: "(p :: u32) < 15 \<Longrightarrow> p + 1 < 16"
  by (simp add: word_less_nat_alt unat_word_ariths)

lemma lower_priority:
  "preserves procs_ok (bnd (gets (\<lambda>s. sp_priority (schedprocs s ! i))) (\<lambda>prio.
     andthen (if prio < of_nat MIN_USER_Q then set_proc i (\<lambda>p. p\<lparr>sp_priority := sp_priority p + 1\<rparr>) else ret ()) rest))"
  if "preserves procs_ok rest"
  unfolding preserves_def
proof (intro allI impI)
  fix s :: "'a sched"
  assume s: "procs_ok s"
  have "slot_ok i ((schedprocs s ! i)\<lparr>sp_priority := sp_priority (schedprocs s ! i) + 1\<rparr>)"
    if "i < NR_PROCS" "sp_priority (schedprocs s ! i) < 15"
    using s that priority_step by (auto simp: procs_ok_def slot_ok_def)
  then have "wlp (if sp_priority (schedprocs s ! i) < of_nat MIN_USER_Q then set_proc i (\<lambda>p. p\<lparr>sp_priority := sp_priority p + 1\<rparr>) else ret ())
      (\<lambda>_. procs_ok) s"
    using s by (auto simp: wp_simps set_proc_def intro!: procs_ok_set)
  then have "wlp (if sp_priority (schedprocs s ! i) < of_nat MIN_USER_Q then set_proc i (\<lambda>p. p\<lparr>sp_priority := sp_priority p + 1\<rparr>) else ret ())
      (\<lambda>_. wlp rest (\<lambda>_. procs_ok)) s"
    by (rule wlp_mono) (rule preservesD [OF that])
  then show "wlp (bnd (gets (\<lambda>s. sp_priority (schedprocs s ! i))) (\<lambda>prio.
      andthen (if prio < of_nat MIN_USER_Q then set_proc i (\<lambda>p. p\<lparr>sp_priority := sp_priority p + 1\<rparr>) else ret ()) rest))
      (\<lambda>_. procs_ok) s"
    by (simp add: wlp_bnd wlp_gets wlp_andthen)
qed

lemma procs_ok_noquantum: "preserves procs_ok (do_noquantum os m)"
  unfolding do_noquantum_def Let_def
  by (rule preserves_bnd, rule preserves_gets, rule preserves_if) (intro preserves_intros lower_priority)+

lemma procs_ok_stop: "preserves procs_ok (do_stop_scheduling os m)"
  unfolding do_stop_scheduling_def Let_def
  by (intro preserves_intros preserves_set_proc) (simp_all add: slot_ok_def)

lemma priority_range: "procs_ok s \<Longrightarrow> i < NR_PROCS \<Longrightarrow> scheduled (schedprocs s ! i)
  \<Longrightarrow> sp_priority (schedprocs s ! i) < 16 \<and> sp_max_priority (schedprocs s ! i) < 16"
  by (simp add: procs_ok_def slot_ok_def)

lemma err_not_ok [simp]: "err os e \<noteq> OK" "OK \<noteq> err os e" "err os e \<noteq> 0" "0 \<noteq> err os e"
  by (simp_all add: err_def)

lemma isokendpt_slot:
  assumes "sched_isokendpt os tab e = (OK, p)"
  shows "p = endpoint_p e" and "0 \<le> p" and "nat p < NR_PROCS" and "scheduled (tab ! nat p)" and "sp_endpoint (tab ! nat p) = e"
  using assms by (auto simp: sched_isokendpt_def Let_def split: if_splits)

lemma isemtyendpt_slot:
  assumes "sched_isemtyendpt os tab e = (OK, p)"
  shows "p = endpoint_p e" and "0 \<le> p" and "nat p < NR_PROCS" and "\<not> scheduled (tab ! nat p)"
  using assms by (auto simp: sched_isemtyendpt_def Let_def split: if_splits)

lemma nice_body:
  assumes "new_q < 16" and "sp_priority old < 16" and "sp_max_priority old < 16"
  shows "preserves procs_ok (andthen (set_proc i (\<lambda>p. p\<lparr>sp_max_priority := new_q, sp_priority := new_q\<rparr>)) (
     bnd (schedule_process_local os i) (\<lambda>rv.
     andthen (if rv \<noteq> OK then
         set_proc i (\<lambda>p. p\<lparr>sp_priority := sp_priority old, sp_max_priority := sp_max_priority old\<rparr>)
       else ret ()) (ret rv))))"
  by (intro preserves_intros preserves_set_proc) (use assms in \<open>simp_all add: slot_ok_def\<close>)

lemma procs_ok_nice: "preserves procs_ok (do_nice os m)"
  unfolding preserves_def
proof (intro allI impI)
  fix s :: "'a sched"
  assume s: "procs_ok s"
  obtain r where r: "sched_isokendpt os (schedprocs s) (sm_w0 m) = r" by simp
  show "wlp (do_nice os m) (\<lambda>_. procs_ok) s"
  proof (cases "accept_message m \<and> fst r = OK \<and> sm_w1 m < 16")
    case True
    let ?i = "nat (snd r)" and ?old = "schedprocs s ! nat (snd r)"
    have "sched_isokendpt os (schedprocs s) (sm_w0 m) = (OK, snd r)" using True r by (cases r) simp
    from isokendpt_slot [OF this] priority_range [OF s] have "sp_priority ?old < 16" "sp_max_priority ?old < 16" by simp_all
    note body = preservesD [OF nice_body [OF _ this] s]
    have "\<not> 16 \<le> sm_w1 m" using True by (simp add: not_le)
    with body True r show ?thesis
      unfolding do_nice_def by (simp add: wlp_bnd wlp_gets Let_def)
  next
    case False
    then show ?thesis using s r unfolding do_nice_def by (auto simp: wp_simps Let_def not_le procs_ok_def)
  qed
qed

section \<open>Starting a process\<close>

definition filled :: "sched_msg \<Rightarrow> nat \<Rightarrow> 'w sched \<Rightarrow> bool" where
  "filled m i s \<longleftrightarrow> procs_ok s \<and> i < NR_PROCS \<and> \<not> scheduled (schedprocs s ! i)
     \<and> endpoint_p (sp_endpoint (schedprocs s ! i)) = int i \<and> sp_max_priority (schedprocs s ! i) < 16"

lemma populate_filled:
  assumes "procs_ok s" and "i < NR_PROCS" and "\<not> scheduled (schedprocs s ! i)" and "endpoint_p (sm_w0 m) = int i"
  shows "wlp (populate_slot os m i) (\<lambda>v t. procs_ok t \<and> (v \<longrightarrow> filled m i t)) s"
  using assms by (auto simp: populate_slot_def wp_simps set_proc_def filled_def slot_ok_def not_le procs_ok_def nth_list_update)

lemma first_priority_range:
  assumes "filled m i s"
  shows "wlp (first_priority os m i) (\<lambda>rv t. procs_ok t \<and> (rv = OK \<longrightarrow> filled m i t \<and> sp_priority (schedprocs t ! i) < 16)) s"
proof -
  have step: "procs_ok (s\<lparr>schedprocs := (schedprocs s)[i := (schedprocs s ! i)\<lparr>sp_priority := p, sp_time_slice := q\<rparr>]\<rparr>)
    \<and> filled m i (s\<lparr>schedprocs := (schedprocs s)[i := (schedprocs s ! i)\<lparr>sp_priority := p, sp_time_slice := q\<rparr>]\<rparr>)" for p q
    using assms by (auto simp: filled_def procs_ok_def slot_ok_def nth_list_update)
  have len: "i < length (schedprocs s)" "procs_ok s" "sp_max_priority (schedprocs s ! i) < 16"
    using assms by (simp_all add: filled_def procs_ok_def)
  obtain r where r: "sched_isokendpt os (schedprocs s) (sm_w1 m) = r" by simp
  have "sp_priority (schedprocs s ! nat (snd r)) < 16" if "fst r = OK"
  proof -
    have "sched_isokendpt os (schedprocs s) (sm_w1 m) = (OK, snd r)" using that r by (cases r) simp
    from isokendpt_slot [OF this] priority_range [OF len(2)] show ?thesis by simp
  qed
  then show ?thesis using step len r by (auto simp: first_priority_def wp_simps set_proc_def)
qed

lemma take_over_ok:
  assumes "filled m i s" and "sp_priority (schedprocs s ! i) < 16"
  shows "wlp (take_over os m i) (\<lambda>_. procs_ok) s"
proof -
  have "procs_ok (s\<lparr>p_world := w, schedprocs := (schedprocs s)[i := (schedprocs s ! i)\<lparr>sp_flags := IN_USE\<rparr>]\<rparr>)" for w
    using assms by (auto simp: filled_def procs_ok_def slot_ok_def nth_list_update)
  moreover have "preserves procs_ok (bnd (place_process os i) (\<lambda>rv.
       if rv \<noteq> OK then
         andthen (print (''Sched: Error while scheduling process, kernel replied '' @ fmt_d rv @ ''\<newline>'')) (ret (rv, m))
       else ret (OK, m\<lparr>sm_w0 := SCHED_PROC_NR\<rparr>)))"
    by (intro preserves_intros)
  ultimately have "wlp (bnd (place_process os i) (\<lambda>rv.
       if rv \<noteq> OK then
         andthen (print (''Sched: Error while scheduling process, kernel replied '' @ fmt_d rv @ ''\<newline>'')) (ret (rv, m))
       else ret (OK, m\<lparr>sm_w0 := SCHED_PROC_NR\<rparr>))) (\<lambda>_. procs_ok)
      (s\<lparr>p_world := w, schedprocs := (schedprocs s)[i := (schedprocs s ! i)\<lparr>sp_flags := IN_USE\<rparr>]\<rparr>)" for w
    by (rule preservesD [rotated])
  moreover have "procs_ok (s\<lparr>p_world := w, p_out := out\<rparr>)" for w out using assms by (simp add: filled_def procs_ok_def)
  ultimately show ?thesis
    unfolding take_over_def
    by (simp add: wlp_bnd [of "gets f" for f] wlp_bnd [of "os_call f" for f] wlp_gets wlp_os_call wlp_andthen wlp_print
        wlp_ret set_proc_def wlp_modify)
qed

lemma procs_ok_start: "preserves procs_ok (do_start_scheduling os m)"
  unfolding preserves_def
proof (intro allI impI)
  fix s :: "'a sched"
  assume s: "procs_ok s"
  obtain r where r: "sched_isemtyendpt os (schedprocs s) (sm_w0 m) = r" by simp
  show "wlp (do_start_scheduling os m) (\<lambda>_. procs_ok) s"
  proof (cases "accept_message m \<and> fst r = OK")
    case True
    let ?i = "nat (snd r)"
    have "sched_isemtyendpt os (schedprocs s) (sm_w0 m) = (OK, snd r)" using True r by (cases r) simp
    note slot = isemtyendpt_slot [OF this]
    have "wlp (populate_slot os m ?i) (\<lambda>v. wlp (if \<not> v then ret (EINVAL, m)
        else bnd (first_priority os m ?i) (\<lambda>rv. if rv \<noteq> OK then ret (rv, m) else take_over os m ?i)) (\<lambda>_. procs_ok)) s"
    proof (rule wlp_mono [OF populate_filled [OF s slot(3,4)]])
      show "endpoint_p (sm_w0 m) = int ?i" using slot by simp
      fix v and t :: "'a sched"
      assume t: "procs_ok t \<and> (v \<longrightarrow> filled m ?i t)"
      have "wlp (first_priority os m ?i) (\<lambda>rv. wlp (if rv \<noteq> OK then ret (rv, m) else take_over os m ?i) (\<lambda>_. procs_ok)) t" if v
        by (rule wlp_mono [OF first_priority_range]) (use t that take_over_ok in \<open>auto simp: wlp_ret\<close>)
      then show "wlp (if \<not> v then ret (EINVAL, m)
        else bnd (first_priority os m ?i) (\<lambda>rv. if rv \<noteq> OK then ret (rv, m) else take_over os m ?i)) (\<lambda>_. procs_ok) t"
        using t by (simp add: wlp_bnd wlp_ret)
    qed
    with True r show ?thesis
      unfolding do_start_scheduling_def
      by (simp add: wlp_andthen wlp_check wlp_bnd [of "gets f" for f] wlp_bnd [of "populate_slot a b c" for a b c] wlp_gets Let_def)
  next
    case False
    then show ?thesis using s r unfolding do_start_scheduling_def by (auto simp: wp_simps)
  qed
qed

section \<open>Balancing\<close>

lemma priority_down: "(q :: u32) < p \<Longrightarrow> p < 16 \<Longrightarrow> p - 1 < 16"
  by (auto simp: word_less_nat_alt word_le_nat_alt unat_sub_if' split: if_splits)

lemma procs_ok_balance_turn: "preserves procs_ok (balance_turn os i)"
  unfolding preserves_def
proof (intro allI impI)
  fix s :: "'a sched"
  assume s: "procs_ok s"
  let ?p = "schedprocs s ! i"
  have "slot_ok i (?p\<lparr>sp_priority := sp_priority ?p - 1\<rparr>)" if "i < NR_PROCS" "sp_max_priority ?p < sp_priority ?p"
    using s that priority_down by (auto simp: procs_ok_def slot_ok_def)
  then have "procs_ok (s\<lparr>schedprocs := (schedprocs s)[i := ?p\<lparr>sp_priority := sp_priority ?p - 1\<rparr>]\<rparr>)"
    if "sp_max_priority ?p < sp_priority ?p"
    using that by (intro procs_ok_set [OF s])
  then have "wlp (andthen (schedule_process_local os i) (ret ())) (\<lambda>_. procs_ok)
      (s\<lparr>schedprocs := (schedprocs s)[i := ?p\<lparr>sp_priority := sp_priority ?p - 1\<rparr>]\<rparr>)" if "sp_max_priority ?p < sp_priority ?p"
    by (rule preservesD [rotated]) (use that in \<open>auto intro: preserves_intros\<close>)
  then show "wlp (balance_turn os i) (\<lambda>_. procs_ok) s"
    unfolding balance_turn_def using s by (simp add: wlp_bnd wlp_gets wlp_andthen set_proc_def wlp_modify wlp_ret)
qed

text \<open>Setting the timer of the server.\<close>

lemma set_sched_timer:
  fixes s :: "'w sched"
  assumes q: "tmr_queue xs s" "set xs \<subseteq> {sched_timer}" and ok: "procs_ok s"
  shows "wlp (set_timer os sched_timer t BALANCE_QUEUES arg) (\<lambda>_ u. procs_ok u \<and> balancing u \<and> expiring u = expiring s) s"
proof -
  have xs: "remove1 sched_timer xs = []"
    using chain_distinct [OF q(1)] q(2) by (cases xs; cases "tl xs") auto
  have set: "wlp (tmrs_settimer sched_timer e BALANCE_QUEUES) (\<lambda>_ u. procs_ok u \<and> balancing u \<and> expiring u = expiring s) v"
    if "\<And>l. tmr_cell l v = tmr_cell l s" "procs_ok v" "expiring v = expiring s" for e and v :: "'w sched"
  proof (rule wlp_mono [OF wp_wlp [OF settimer_wp]])
    show "tmr_queue xs v" using q(1) that(1) by simp
    fix r and u :: "'w sched"
    assume u: "tmr_queue (tmr_insert (tmr_time v) sched_timer e (remove1 sched_timer xs)) u
      \<and> tmr_body u = (tmr_body v)(sched_timer := (tmr_body v sched_timer)\<lparr>tmr_exp_time := e, tmr_func := BALANCE_QUEUES\<rparr>)
      \<and> tmr_rest u = tmr_rest v \<and> r = (head_time v, head_time u)"
    have "schedprocs (tmr_rest w) = schedprocs w" for w :: "'w sched" by (simp add: tmr_rest_def)
    then have "schedprocs u = schedprocs v" using u by metis
    moreover have "tmr_func (tmr_mem u sched_timer) = BALANCE_QUEUES" using u by (simp add: tmr_body_func)
    moreover have "tmr_queue [sched_timer] u" using u unfolding xs by (simp add: tmr_insert_def)
    moreover have "expiring u = expiring v" using u tmr_rest_fields by blast
    ultimately show "procs_ok u \<and> balancing u \<and> expiring u = expiring s"
      using that by (simp add: procs_ok_def balancing_def)
  qed
  have alarm: "wlp (reset_alarm os time) (\<lambda>_ u. procs_ok u \<and> balancing u \<and> expiring u = expiring s) v"
    if "procs_ok v \<and> balancing v \<and> expiring v = expiring s" for time and v :: "'w sched"
    using that by (simp add: reset_alarm_def wp_simps procs_ok_def balancing_def)
  have cells: "tmr_cell l (s\<lparr>p_world := w, tmr_mem := (tmr_mem s)(a := (tmr_mem s a)\<lparr>tmr_arg := arg\<rparr>)\<rparr>) = tmr_cell l s" for l w a
    by (auto simp: tmr_cell_def split: link.split)
  have "wlp (tmrs_settimer sched_timer e BALANCE_QUEUES) (\<lambda>r. wlp (case r of (prev_time, next_time) \<Rightarrow>
       bnd (gets expiring) (\<lambda>e.
       if \<not> e \<and> (prev_time = 0 \<or> prev_time > next_time) then reset_alarm os next_time else ret ()))
         (\<lambda>_ u. procs_ok u \<and> balancing u \<and> expiring u = expiring s))
      (s\<lparr>p_world := w, tmr_mem := (tmr_mem s)(a := (tmr_mem s a)\<lparr>tmr_arg := arg\<rparr>)\<rparr>)" for e w a
    by (rule wlp_mono [OF set [OF cells]]) (use ok alarm in \<open>auto simp: wp_simps procs_ok_def\<close>)
  then show ?thesis
    unfolding set_timer_def by (simp add: wlp_bnd wlp_os_call wlp_raise wlp_andthen set_tmr_def wlp_modify split: prod.split)
qed

lemma balance_rearms:
  fixes s :: "'w sched"
  assumes "procs_ok s" and "timers s = None" and "expiring s"
  shows "wlp (balance_queues os) (\<lambda>_ t. procs_ok t \<and> balancing t \<and> expiring t) s"
  unfolding balance_queues_def wlp_andthen
proof (rule wlp_mono)
  let ?loop = "for_m [0..<NR_PROCS] (balance_turn os)"
  have "preserves procs_ok ?loop" by (intro preserves_intros procs_ok_balance_turn)
  moreover have "keeps tmr_part ?loop" by (intro keeps_intros keeps_ops)
  ultimately show "wlp ?loop (\<lambda>_ t. procs_ok t \<and> tmr_part t = tmr_part s) s"
    using assms(1) unfolding wlp_conj by (intro conjI preservesD keepsD)
  fix x and t :: "'w sched"
  assume t: "procs_ok t \<and> tmr_part t = tmr_part s"
  then have "timers t = None" "expiring t" using assms by (simp_all add: tmr_part_def)
  moreover from this have "tmr_queue [] t" by (simp add: chain_def tmr_cell_def)
  ultimately show "wlp (bnd (gets balance_timeout) (\<lambda>tm. set_timer os sched_timer tm BALANCE_QUEUES 0))
      (\<lambda>_ t. procs_ok t \<and> balancing t \<and> expiring t) t"
    using t set_sched_timer [where xs = "[]" and s = t] by (simp add: wlp_bnd wlp_gets del: sched_timer_def BALANCE_QUEUES_def)
qed

lemma expire_turn_balancing:
  fixes s :: "'w sched"
  assumes "procs_ok s \<and> balancing s \<and> expiring s"
  shows "wlp (expire_turn (watchdog os) now ()) (\<lambda>_ t. procs_ok t \<and> balancing t \<and> expiring t) s"
proof -
  have h: "timers s = Some sched_timer" "tmr_next (tmr_mem s sched_timer) = None" "tmr_func (tmr_mem s sched_timer) = BALANCE_QUEUES"
    using assms by (simp_all add: balancing_def chain_def tmr_cell_def)
  let ?s = "s\<lparr>timers := None, tmr_mem := (tmr_mem s)(sched_timer := (tmr_mem s sched_timer)\<lparr>tmr_exp_time := TMR_NEVER\<rparr>)\<rparr>"
  have "wlp (balance_queues os) (\<lambda>_ t. procs_ok t \<and> balancing t \<and> expiring t) ?s"
    by (rule balance_rearms) (use assms in \<open>simp_all add: procs_ok_def\<close>)
  then show ?thesis
    using h assms unfolding expire_turn_def
    by (simp add: wlp_bnd wlp_gets wlp_andthen wlp_modify set_tmr_def wlp_ret watchdog_def)
qed

lemma cell_expiring [simp]: "tmr_cell l (s\<lparr>expiring := b\<rparr>) = tmr_cell l s"
  by (simp add: tmr_cell_def split: link.split)

lemma expire_timers_inv: "preserves sched_inv (expire_timers os (watchdog os) now)"
  unfolding preserves_def
proof (intro allI impI)
  fix s :: "'a sched"
  assume s: "sched_inv s"
  have "wlp (loop_m (expire_turn (watchdog os) now) ()) (\<lambda>_ t. procs_ok t \<and> balancing t \<and> expiring t) (s\<lparr>expiring := True\<rparr>)"
  proof (rule wlp_loop [where I = "\<lambda>_ t. procs_ok t \<and> balancing t \<and> expiring t"])
    show "wlp (expire_turn (watchdog os) now x) (\<lambda>y t. case y of Inl x' \<Rightarrow> procs_ok t \<and> balancing t \<and> expiring t
        | Inr r \<Rightarrow> procs_ok t \<and> balancing t \<and> expiring t) u" if "procs_ok u \<and> balancing u \<and> expiring u" for x u
      using expire_turn_balancing [OF that, of os now] by (cases x, hypsubst) (erule wlp_mono, auto split: sum.split)
    show "procs_ok (s\<lparr>expiring := True\<rparr>) \<and> balancing (s\<lparr>expiring := True\<rparr>) \<and> expiring (s\<lparr>expiring := True\<rparr>)"
      using s by (simp add: sched_inv_def procs_ok_def balancing_def)
  qed
  then have "wlp (loop_m (expire_turn (watchdog os) now) ()) (\<lambda>_ t. sched_inv (t\<lparr>expiring := False\<rparr>)) (s\<lparr>expiring := True\<rparr>)"
    by (rule wlp_mono) (simp add: sched_inv_def procs_ok_def balancing_def)
  then show "wlp (expire_timers os (watchdog os) now) (\<lambda>_. sched_inv) s"
    unfolding expire_timers_def tmrs_exptimers_def
    by (simp add: wlp_andthen wlp_bnd wlp_gets wlp_modify)
      (erule wlp_mono, simp add: wp_simps reset_alarm_def sched_inv_def procs_ok_def balancing_def)
qed

section \<open>The service\<close>

lemma preserves_prod [preserves_intros]:
  "(\<And>a b. preserves I (f a b)) \<Longrightarrow> preserves I (case y of (a, b) \<Rightarrow> f a b)"
  by (cases y) simp

lemma sched_inv_ops [preserves_intros]:
  "preserves sched_inv (os_call f)" "preserves sched_inv (print t)"
  by (intro preserves_sched_inv preserves_intros keeps_ops)+

lemma sched_inv_handlers [preserves_intros]:
  "preserves sched_inv (do_start_scheduling os m)" "preserves sched_inv (do_stop_scheduling os m)"
  "preserves sched_inv (do_nice os m)" "preserves sched_inv (do_noquantum os m)"
  "preserves sched_inv (no_sys os e nr)" "preserves sched_inv (sched_reply os e m)"
proof -
  show "preserves sched_inv (no_sys os e nr)" unfolding no_sys_def by (intro preserves_intros)
  show "preserves sched_inv (sched_reply os e m)" unfolding sched_reply_def by (intro preserves_intros)
qed (intro preserves_sched_inv procs_ok_start procs_ok_stop procs_ok_nice procs_ok_noquantum keeps_ops)+

lemma sched_turn_inv: "preserves sched_inv (sched_main_turn os)"
  unfolding sched_main_turn_def sched_dispatch_def
  by (intro preserves_intros expire_timers_inv)

lemma init_scheduling_inv:
  assumes "procs_ok s" and "timers s = None" and "\<not> expiring s"
  shows "wlp (init_scheduling os) (\<lambda>_. sched_inv) s"
proof -
  have set: "wlp (andthen (modify (\<lambda>s. s\<lparr>balance_timeout := BALANCE_TIMEOUT * h\<rparr>)) (
     andthen (init_timer sched_timer) (
     set_timer os sched_timer (BALANCE_TIMEOUT * h) BALANCE_QUEUES 0))) (\<lambda>_. sched_inv) t"
    if t: "procs_ok t" "timers t = None" "\<not> expiring t" for h and t :: "'a sched"
  proof -
    let ?t = "t\<lparr>balance_timeout := BALANCE_TIMEOUT * h,
      tmr_mem := (tmr_mem t)(sched_timer := (tmr_mem t sched_timer)\<lparr>tmr_exp_time := TMR_NEVER, tmr_next := None\<rparr>)\<rparr>"
    have "tmr_queue [] ?t" using t(2) by (simp add: chain_def tmr_cell_def)
    moreover have "procs_ok ?t" using t(1) by (simp add: procs_ok_def)
    ultimately have "wlp (set_timer os sched_timer (BALANCE_TIMEOUT * h) BALANCE_QUEUES 0)
        (\<lambda>_ u. procs_ok u \<and> balancing u \<and> expiring u = expiring ?t) ?t"
      by (intro set_sched_timer [where xs = "[]"]) simp_all
    then have "wlp (set_timer os sched_timer (BALANCE_TIMEOUT * h) BALANCE_QUEUES 0) (\<lambda>_. sched_inv) ?t"
      by (rule wlp_mono) (use t(3) in \<open>simp add: sched_inv_def\<close>)
    then show ?thesis
      by (simp add: wlp_andthen wlp_modify init_timer_def tmr_inittimer_def set_tmr_def
          del: sched_timer_def BALANCE_QUEUES_def BALANCE_TIMEOUT_def)
  qed
  have "wlp (sys_hz os) (\<lambda>_ t. procs_ok t \<and> timers t = None \<and> \<not> expiring t) s"
    using assms by (simp add: sys_hz_def wp_simps procs_ok_def)
  then show ?thesis
    unfolding init_scheduling_def wlp_bnd by (rule wlp_mono) (use set in blast)
qed

lemma sched_start_inv: "wlp (sched_start_up os) (\<lambda>_. sched_inv) s"
proof -
  have "procs_ok (sched_image os s\<lparr>p_world := w, machine := mc\<rparr>)" for w mc
    by (simp add: procs_ok_def sched_image_def slot_ok_def zero_proc_def)
  then have "wlp (init_scheduling os) (\<lambda>_. sched_inv) (sched_image os s\<lparr>p_world := w, machine := mc\<rparr>)" for w mc
    by (intro init_scheduling_inv) (simp_all add: sched_image_def)
  then show ?thesis
    unfolding sched_start_up_def by (simp add: wlp_andthen wlp_modify wlp_bnd wlp_os_call wlp_raise)
qed

interpretation scheds: service "sched_start_up os" "sched_main_turn os" "\<lambda>_. True" sched_inv for os
  by unfold_locales (rule sched_start_inv, rule preservesD [OF sched_turn_inv])

end
