(* ===== verification/Sched_Policy.thy ===== *)
theory Sched_Policy
  imports Sched_Inv
begin

text \<open>
  What the handlers of the scheduler do, on a machine with one processor: the priority of a
  process falls with each quantum it uses up and rises again when the queues are balanced, the
  kernel hears of both, and requests of strangers change nothing.
\<close>

section \<open>Telling the kernel\<close>

text \<open>The call for a new priority and quantum: what the kernel answers, and the world after it.\<close>

definition told :: "'w sched_os \<Rightarrow> schedproc \<Rightarrow> 'w \<Rightarrow> int \<times> 'w" where
  "told os p = sys_schedule (sc_kernel_call os) (sp_endpoint p) (sp_priority p) (sp_time_slice p) (- 1)"

definition sched_vars :: "'w sched \<Rightarrow> u32 \<times> u32 list \<times> u32 \<times> machine_info" where
  "sched_vars s = (balance_timeout s, cpu_proc s, hz s, machine s)"

lemma told_cpu [simp]: "told os (p\<lparr>sp_cpu := c\<rparr>) = told os p"
  by (simp add: told_def)

lemma schedule_local_wp:
  assumes "\<not> CONFIG_SMP os" and i: "i < length (schedprocs s)"
  shows "wp (schedule_process_local os i) (\<lambda>r t. schedprocs t = (schedprocs s)[i := (schedprocs s ! i)\<lparr>sp_cpu := 0\<rparr>]
    \<and> (r, p_world t) = told os (schedprocs s ! i) (p_world s) \<and> tmr_part t = tmr_part s \<and> sched_vars t = sched_vars s) s"
  using assms
  by (simp add: schedule_process_local_def schedule_process_def pick_cpu_def set_proc_def wp_simps told_def tmr_part_def
      sched_vars_def Let_def prod_eq_iff)

section \<open>A quantum used up\<close>

definition lowered :: "schedproc \<Rightarrow> schedproc" where
  "lowered p = p\<lparr>sp_priority := (if sp_priority p < 15 then sp_priority p + 1 else sp_priority p), sp_cpu := 0\<rparr>"

lemma lowered_priority:
  assumes "sp_priority p < 16"
  shows "unat (sp_priority (lowered p)) = min 15 (unat (sp_priority p) + 1)"
proof (cases "sp_priority p < 15")
  case True
  then have "unat (sp_priority p + 1) = unat (sp_priority p) + 1" "unat (sp_priority p) < 15"
    by (simp_all add: word_less_nat_alt unat_word_ariths)
  with True show ?thesis by (simp add: lowered_def)
next
  case False
  then have "unat (sp_priority p) = 15" using assms by (simp add: word_less_nat_alt)
  with False show ?thesis by (simp add: lowered_def)
qed

lemma noquantum_wp:
  assumes "\<not> CONFIG_SMP os" and ok: "sched_isokendpt os (schedprocs s) (sm_source m) = (OK, int i)" and len: "length (schedprocs s) = NR_PROCS"
  shows "wp (do_noquantum os m) (\<lambda>r t. schedprocs t = (schedprocs s)[i := lowered (schedprocs s ! i)]
    \<and> (r, p_world t) = told os (lowered (schedprocs s ! i)) (p_world s) \<and> tmr_part t = tmr_part s \<and> sched_vars t = sched_vars s) s"
proof -
  have i: "i < NR_PROCS" using isokendpt_slot(3) [OF ok] by simp
  let ?p = "schedprocs s ! i"
  define t where "t = (if sp_priority ?p < 15 then s\<lparr>schedprocs := (schedprocs s)[i := ?p\<lparr>sp_priority := sp_priority ?p + 1\<rparr>]\<rparr> else s)"
  have t: "length (schedprocs t) = NR_PROCS" "(schedprocs t)[i := (schedprocs t ! i)\<lparr>sp_cpu := 0\<rparr>] = (schedprocs s)[i := lowered ?p]"
    "told os (schedprocs t ! i) = told os (lowered ?p)" "p_world t = p_world s" "tmr_part t = tmr_part s" "sched_vars t = sched_vars s"
    using i len by (simp_all add: t_def lowered_def tmr_part_def sched_vars_def told_def)
  have "wp (schedule_process_local os i) (\<lambda>r u. schedprocs u = (schedprocs s)[i := lowered ?p]
    \<and> (r, p_world u) = told os (lowered ?p) (p_world s) \<and> tmr_part u = tmr_part s \<and> sched_vars u = sched_vars s) t"
    by (rule wp_mono [OF schedule_local_wp]) (use assms i t in auto)
  then have "wp (bnd (schedule_process_local os i) (\<lambda>rv. if rv \<noteq> OK then ret rv else ret OK)) (\<lambda>r u. schedprocs u = (schedprocs s)[i := lowered ?p]
    \<and> (r, p_world u) = told os (lowered ?p) (p_world s) \<and> tmr_part u = tmr_part s \<and> sched_vars u = sched_vars s) t"
    unfolding wp_bnd by (rule wp_mono) (auto simp: wp_simps)
  moreover have "wp (if sp_priority ?p < of_nat MIN_USER_Q then set_proc i (\<lambda>p. p\<lparr>sp_priority := sp_priority p + 1\<rparr>) else ret ()) (\<lambda>_. P) s = P t" for P
    by (simp add: t_def set_proc_def wp_simps)
  ultimately show ?thesis
    unfolding do_noquantum_def wp_bnd [of "gets f" for f] wp_gets ok by (simp add: wp_bnd [of "gets f" for f] wp_gets wp_andthen)
qed

section \<open>Balancing\<close>

definition raised :: "schedproc \<Rightarrow> schedproc" where
  "raised p = (if scheduled p \<and> sp_priority p > sp_max_priority p then p\<lparr>sp_priority := sp_priority p - 1, sp_cpu := 0\<rparr> else p)"

lemma balance_turn_wp:
  fixes s :: "'w sched"
  assumes "\<not> CONFIG_SMP os" and i: "i < length (schedprocs s)"
  shows "wp (balance_turn os i) (\<lambda>_ t. schedprocs t = (schedprocs s)[i := raised (schedprocs s ! i)] \<and> tmr_part t = tmr_part s
    \<and> sched_vars t = sched_vars s) s"
proof -
  let ?p = "schedprocs s ! i" and ?t = "s\<lparr>schedprocs := (schedprocs s)[i := (schedprocs s ! i)\<lparr>sp_priority := sp_priority (schedprocs s ! i) - 1\<rparr>]\<rparr>"
  have "wp (schedule_process_local os i) (\<lambda>_ t. schedprocs t = (schedprocs s)[i := ?p\<lparr>sp_priority := sp_priority ?p - 1, sp_cpu := 0\<rparr>]
      \<and> tmr_part t = tmr_part s \<and> sched_vars t = sched_vars s) ?t"
    by (rule wp_mono [OF schedule_local_wp]) (use assms in \<open>auto simp: tmr_part_def sched_vars_def\<close>)
  then show ?thesis by (simp add: balance_turn_def set_proc_def wp_simps raised_def)
qed

lemma balance_loop:
  fixes s :: "'w sched"
  assumes "\<not> CONFIG_SMP os" and len: "length (schedprocs s) = NR_PROCS"
  shows "wp (for_m [0..<NR_PROCS] (balance_turn os)) (\<lambda>_ t. schedprocs t = map raised (schedprocs s) \<and> tmr_part t = tmr_part s
    \<and> sched_vars t = sched_vars s) s"
proof -
  let ?I = "\<lambda>k t. schedprocs t = map raised (take k (schedprocs s)) @ drop k (schedprocs s) \<and> tmr_part t = tmr_part s \<and> sched_vars t = sched_vars s"
  have "wp (for_m [0..<NR_PROCS] (balance_turn os)) (\<lambda>_. ?I NR_PROCS) s"
  proof (rule wp_for)
    fix k and t :: "'w sched" assume k: "k < NR_PROCS" and t: "?I k t"
    show "wp (balance_turn os k) (\<lambda>_. ?I (Suc k)) t"
    proof (rule wp_mono [OF balance_turn_wp [OF assms(1)]])
      show "k < length (schedprocs t)" using k len t by simp
      fix u :: "'w sched" assume u: "schedprocs u = (schedprocs t)[k := raised (schedprocs t ! k)] \<and> tmr_part u = tmr_part t \<and> sched_vars u = sched_vars t"
      have "drop k (schedprocs s) = schedprocs s ! k # drop (Suc k) (schedprocs s)" using k len by (simp add: Cons_nth_drop_Suc)
      then have "(schedprocs t)[k := raised (schedprocs t ! k)] = map raised (take (Suc k) (schedprocs s)) @ drop (Suc k) (schedprocs s)"
        using t k len by (simp add: list_update_append nth_append take_Suc_conv_app_nth)
      with t u show "?I (Suc k) u" by simp
    qed
  qed simp
  with len show ?thesis by simp
qed

text \<open>The clock answers and takes alarms.\<close>

definition clock_law :: "'w sched_os \<Rightarrow> bool" where
  "clock_law os \<longleftrightarrow> (\<forall>w. fst (fst (tm_getticks os w)) = OK) \<and> (\<forall>time w. fst (tm_setalarm os time 1 w) = OK)"

definition one_timer :: "'w sched \<Rightarrow> bool" where
  "one_timer s \<longleftrightarrow> (\<exists>xs. tmr_queue xs s \<and> set xs \<subseteq> {sched_timer})"

lemma balancing_one_timer: "balancing s \<Longrightarrow> one_timer s"
  unfolding balancing_def one_timer_def by (intro exI [of _ "[sched_timer]"]) simp

lemma set_timer_returns:
  assumes "clock_law os" and "one_timer s"
  shows "wp (set_timer os sched_timer t BALANCE_QUEUES arg) (\<lambda>_ u. schedprocs u = schedprocs s) s"
proof -
  from assms(2) obtain xs where q: "tmr_queue xs s" by (auto simp: one_timer_def)
  have "wp (tmrs_settimer sched_timer e BALANCE_QUEUES) (\<lambda>_ u. schedprocs u = schedprocs s) (s\<lparr>p_world := w, tmr_mem := (tmr_mem s)(a := (tmr_mem s a)\<lparr>tmr_arg := arg\<rparr>)\<rparr>)"
    for e w a
  proof (rule wp_mono [OF settimer_wp [where xs = xs]], goal_cases)
    case 1
    have "tmr_cell l (s\<lparr>p_world := w, tmr_mem := (tmr_mem s)(a := (tmr_mem s a)\<lparr>tmr_arg := arg\<rparr>)\<rparr>) = tmr_cell l s" for l
      by (auto simp: tmr_cell_def split: link.split)
    with q show ?case by simp
  next
    case (2 r u)
    have r: "schedprocs (tmr_rest v) = schedprocs v" for v :: "'a sched" by (simp add: tmr_rest_def)
    from 2 have "schedprocs (tmr_rest u) = schedprocs (tmr_rest (s\<lparr>p_world := w, tmr_mem := (tmr_mem s)(a := (tmr_mem s a)\<lparr>tmr_arg := arg\<rparr>)\<rparr>))"
      by presburger
    then show ?case by (simp add: r)
  qed
  note set = this
  have alarm: "wp (case r of (prev_time, next_time) \<Rightarrow> bnd (gets expiring) (\<lambda>e.
       if \<not> e \<and> (prev_time = 0 \<or> prev_time > next_time) then reset_alarm os next_time else ret ())) (\<lambda>_ u. schedprocs u = schedprocs s) v"
    if "schedprocs v = schedprocs s" for r v
    using that assms(1) by (cases r) (simp add: wp_simps reset_alarm_def clock_law_def)
  have "fst (fst (tm_getticks os (p_world s))) = OK" using assms(1) by (simp add: clock_law_def)
  then show ?thesis unfolding set_timer_def wp_bnd [of "os_call f" for f] wp_os_call
    by (simp add: wp_andthen set_tmr_def wp_modify del: sched_timer_def BALANCE_QUEUES_def)
      (unfold wp_bnd, rule wp_mono [OF set], erule alarm)
qed

text \<open>Balancing returns, and raises every process that is below its own priority by one.\<close>

lemma balance_wp:
  fixes s :: "'w sched"
  assumes "\<not> CONFIG_SMP os" and "clock_law os" and ok: "procs_ok s" and one: "one_timer s"
  shows "wp (balance_queues os) (\<lambda>_ t. schedprocs t = map raised (schedprocs s) \<and> procs_ok t \<and> balancing t \<and> expiring t = expiring s) s"
proof -
  have len: "length (schedprocs s) = NR_PROCS" using ok by (simp add: procs_ok_def)
  from one obtain xs where q: "tmr_queue xs s" "set xs \<subseteq> {sched_timer}" by (auto simp: one_timer_def)
  let ?loop = "for_m [0..<NR_PROCS] (balance_turn os)"
  have "preserves procs_ok ?loop" by (intro preserves_intros procs_ok_balance_turn)
  from wp_conj_wlp [OF balance_loop [OF assms(1) len] preservesD [OF this ok]]
  show ?thesis unfolding balance_queues_def wp_andthen
  proof (rule wp_mono)
    fix t :: "'w sched"
    assume t: "(schedprocs t = map raised (schedprocs s) \<and> tmr_part t = tmr_part s \<and> sched_vars t = sched_vars s) \<and> procs_ok t"
    then have qt: "tmr_queue xs t" and e: "expiring t = expiring s" using q(1) tmr_part_cells [of t s] by (simp_all add: tmr_part_def)
    have o: "one_timer t" using qt q(2) by (auto simp: one_timer_def)
    from wp_conj_wlp [OF set_timer_returns [OF assms(2) o] set_sched_timer [OF qt q(2)]] t
    have "wp (set_timer os sched_timer tm BALANCE_QUEUES 0)
      (\<lambda>_ u. schedprocs u = schedprocs t \<and> procs_ok u \<and> balancing u \<and> expiring u = expiring t) t" for tm by blast
    then show "wp (bnd (gets balance_timeout) (\<lambda>tm. set_timer os sched_timer tm BALANCE_QUEUES 0))
      (\<lambda>_ t. schedprocs t = map raised (schedprocs s) \<and> procs_ok t \<and> balancing t \<and> expiring t = expiring s) t"
      unfolding wp_bnd wp_gets by (rule wp_mono) (use t e in simp)
  qed
qed

text \<open>How far a process is below its own priority.\<close>

definition behind_max :: "schedproc \<Rightarrow> nat" where
  "behind_max p = (if scheduled p then unat (sp_priority p) - unat (sp_max_priority p) else 0)"

lemma raised_behind: "behind_max (raised p) = behind_max p - 1"
proof (cases "scheduled p \<and> sp_priority p > sp_max_priority p")
  case True
  then have "unat (sp_max_priority p) < unat (sp_priority p)" by (simp add: word_less_nat_alt)
  moreover from this have "1 \<le> unat (sp_priority p)" by linarith
  then have "unat (sp_priority p - 1) = unat (sp_priority p) - 1" by (simp add: unat_sub word_le_nat_alt)
  ultimately show ?thesis using True by (simp add: raised_def behind_max_def)
next
  case False
  then have "behind_max p = 0" by (auto simp: behind_max_def not_less word_le_nat_alt)
  with False show ?thesis by (auto simp: raised_def)
qed

lemma raised_times: "behind_max ((raised ^^ n) p) = behind_max p - n"
  by (induction n) (simp_all add: raised_behind)

lemma raised_same [simp]: "sp_flags (raised p) = sp_flags p" "sp_max_priority (raised p) = sp_max_priority p" "sp_endpoint (raised p) = sp_endpoint p"
  by (simp_all add: raised_def)

lemma repeat_balance_wp:
  fixes s :: "'w sched"
  assumes "\<not> CONFIG_SMP os" and "clock_law os" and "procs_ok s" and "one_timer s"
  shows "wp (repeat_m n (balance_queues os)) (\<lambda>_ t. schedprocs t = map (raised ^^ n) (schedprocs s) \<and> procs_ok t \<and> one_timer t) s"
  using assms(3,4)
proof (induction n arbitrary: s)
  case (Suc n)
  show ?case unfolding repeat_m.simps wp_andthen
  proof (rule wp_mono [OF balance_wp [OF assms(1,2) Suc.prems]])
    fix t :: "'w sched"
    assume t: "schedprocs t = map raised (schedprocs s) \<and> procs_ok t \<and> balancing t \<and> expiring t = expiring s"
    then have "wp (repeat_m n (balance_queues os)) (\<lambda>_ u. schedprocs u = map (raised ^^ n) (schedprocs t) \<and> procs_ok u \<and> one_timer u) t"
      using Suc.IH [of t] balancing_one_timer by blast
    then show "wp (repeat_m n (balance_queues os)) (\<lambda>_ u. schedprocs u = map (raised ^^ Suc n) (schedprocs s) \<and> procs_ok u \<and> one_timer u) t"
      by (rule wp_mono) (use t in \<open>simp add: funpow_Suc_right del: funpow.simps\<close>)
  qed
qed (simp add: wp_simps)

lemma behind_max_bound: "procs_ok s \<Longrightarrow> i < NR_PROCS \<Longrightarrow> behind_max (schedprocs s ! i) \<le> 15"
  using priority_range [of s i] by (auto simp: behind_max_def word_less_nat_alt)

section \<open>Strangers\<close>

lemma stranger_wp:
  assumes "\<not> accept_message m" and "\<not> is_ipc_notify status" and "\<not> from_kernel status"
  shows "wp (sched_dispatch os m status) (\<lambda>r t. \<exists>e. r = Some (e, m) \<and> e \<noteq> OK \<and> t = s\<lparr>p_out := p_out t\<rparr>) s"
  using assms by (auto simp: sched_dispatch_def do_start_scheduling_def do_stop_scheduling_def do_nice_def no_sys_def wp_simps)

section \<open>Starting\<close>

text \<open>The slot of a process that a start request has put under the scheduler.\<close>

definition started_proc :: "sched_msg \<Rightarrow> schedproc" where
  "started_proc m = \<lparr>sp_endpoint = sm_w0 m, sp_parent = sm_w1 m, sp_flags = IN_USE, sp_max_priority = sm_w2 m,
     sp_priority = sm_w2 m, sp_time_slice = sm_w3 m, sp_cpu = 0\<rparr>"

lemma place_process_wp:
  assumes smp: "\<not> CONFIG_SMP os" and i: "i < length (schedprocs s)"
    and kern: "sys_schedule (sc_kernel_call os) (sp_endpoint (schedprocs s ! i)) (sp_priority (schedprocs s ! i))
      (sp_time_slice (schedprocs s ! i)) 0 (p_world s) = (rv, w)" and rv: "rv \<noteq> err os EBADCPU"
  shows "wp (place_process os i) (\<lambda>r t. r = rv \<and> schedprocs t = (schedprocs s)[i := (schedprocs s ! i)\<lparr>sp_cpu := 0\<rparr>] \<and> p_world t = w) s"
  unfolding place_process_def wp_andthen
  using assms
  by (simp add: pick_cpu_def set_proc_def wp_modify, subst wp_loop_unfold)
    (simp add: place_turn_def schedule_process_def pick_cpu_def set_proc_def wp_simps Let_def)

lemma take_over_wp:
  assumes smp: "\<not> CONFIG_SMP os" and i: "i < length (schedprocs s)" and p: "schedprocs s ! i = p"
    and ctl: "sys_schedctl (sc_kernel_call os) 0 (sp_endpoint p) 0 0 0 (p_world s) = (OK, w1)"
    and kern: "sys_schedule (sc_kernel_call os) (sp_endpoint p) (sp_priority p) (sp_time_slice p) 0 w1 = (rv, w2)"
    and rv: "rv \<noteq> err os EBADCPU"
  shows "wp (take_over os m i) (\<lambda>r t. fst r = rv \<and> schedprocs t = (schedprocs s)[i := p\<lparr>sp_flags := IN_USE, sp_cpu := 0\<rparr>] \<and> p_world t = w2) s"
proof -
  let ?t = "s\<lparr>p_world := w1, schedprocs := (schedprocs s)[i := p\<lparr>sp_flags := IN_USE\<rparr>]\<rparr>"
  have "wp (place_process os i) (\<lambda>r t. r = rv \<and> schedprocs t = (schedprocs s)[i := p\<lparr>sp_flags := IN_USE, sp_cpu := 0\<rparr>] \<and> p_world t = w2) ?t"
    by (rule wp_mono [OF place_process_wp [OF smp _ _ rv, where w = w2]]) (use i kern in simp_all)
  then have "wp (bnd (place_process os i) (\<lambda>rv.
       if rv \<noteq> OK then
         andthen (print (''Sched: Error while scheduling process, kernel replied '' @ fmt_d rv @ ''\<newline>'')) (ret (rv, m))
       else ret (OK, m\<lparr>sm_w0 := SCHED_PROC_NR\<rparr>)))
    (\<lambda>r t. fst r = rv \<and> schedprocs t = (schedprocs s)[i := p\<lparr>sp_flags := IN_USE, sp_cpu := 0\<rparr>] \<and> p_world t = w2) ?t"
    unfolding wp_bnd by (rule wp_mono) (auto simp: wp_simps)
  then show ?thesis using ctl p
    by (simp add: take_over_def wp_bnd [of "gets f" for f] wp_bnd [of "os_call f" for f] wp_gets wp_os_call wp_andthen set_proc_def wp_modify)
qed

lemma start_wp:
  assumes smp: "\<not> CONFIG_SMP os" and len: "length (schedprocs s) = NR_PROCS" and m: "accept_message m" "sm_type m = SCHEDULING_START" "sm_w2 m < 16"
    and slot: "sched_isemtyendpt os (schedprocs s) (sm_w0 m) = (OK, int i)"
    and ctl: "sys_schedctl (sc_kernel_call os) 0 (sm_w0 m) 0 0 0 (p_world s) = (OK, w1)"
    and kern: "sys_schedule (sc_kernel_call os) (sm_w0 m) (sm_w2 m) (sm_w3 m) 0 w1 = (rv, w2)" and rv: "rv \<noteq> err os EBADCPU"
  shows "wp (do_start_scheduling os m) (\<lambda>r t. fst r = rv \<and> schedprocs t = (schedprocs s)[i := started_proc m] \<and> p_world t = w2) s"
proof -
  have i: "i < NR_PROCS" using isemtyendpt_slot(3) [OF slot] by simp
  have g: "\<not> 16 \<le> sm_w2 m" using m(3) by (simp add: not_le)
  have take: "wp (take_over os m i) (\<lambda>r t. fst r = rv \<and> schedprocs t = (schedprocs s)[i := started_proc m] \<and> p_world t = w2) t"
    if t: "schedprocs t = (schedprocs s)[i := schedprocs t ! i]" "(schedprocs t ! i)\<lparr>sp_flags := IN_USE, sp_cpu := 0\<rparr> = started_proc m"
      "p_world t = p_world s" for t :: "'a sched"
  proof -
    define p where "p = schedprocs t ! i"
    note t = t [folded p_def]
    have e: "sp_endpoint p = sm_w0 m" "sp_priority p = sm_w2 m" "sp_time_slice p = sm_w3 m"
      using arg_cong [OF t(2), of sp_endpoint] arg_cong [OF t(2), of sp_priority] arg_cong [OF t(2), of sp_time_slice]
      by (simp_all add: started_proc_def)
    show ?thesis
      by (rule wp_mono [OF take_over_wp [OF smp _ _ _ _ rv, where p = p and ?w1.0 = w1 and ?w2.0 = w2]])
        (use i len t ctl kern e in \<open>simp_all\<close>)
  qed
  show ?thesis
    using m g slot i len
    by (simp add: do_start_scheduling_def populate_slot_def first_priority_def wp_andthen wp_check wp_bnd wp_gets wp_if wp_ret
        set_proc_def wp_modify) (intro conjI impI; rule take; simp add: started_proc_def)
qed

end
