(* ===== verification/Krn_Queue.thy ===== *)
theory Krn_Queue
  imports Sched_Base C_Chain
begin

text \<open>
  The run queues of the kernel, \<open>kernel/proc.c\<close>, and the calls that put a process into them,
  \<open>kernel/system.c\<close>, \<open>do_schedule.c\<close> and \<open>do_schedctl.c\<close>, on one processor.

  The process table is a function from slots (counted from the first task) to entries; a pointer
  to an entry is its slot, and the entry of the idle process is slot \<open>IDLE_SLOT\<close>, behind the
  table. The sixteen queues are linked through \<open>p_nextready\<close>. The privileges of a process that are
  used here, \<open>priv(p)->s_flags\<close>, are a field of its entry. The assertions on \<open>p_magic\<close> and on the
  guard of the kernel stack, values that are written once at boot, are left out, and so are the
  parts under \<open>CONFIG_SMP\<close> and the debugging options.
\<close>

section \<open>State\<close>

type_synonym u64 = "64 word"

record kproc =
  kp_endpoint :: endpoint
  kp_rts_flags :: u32
  kp_priority :: byte
  kp_cpu_time_left :: u64
  kp_quantum_size_ms :: u32
  kp_scheduler :: ptr
  kp_nextready :: ptr
  kp_s_flags :: u32
  kp_enter_queue :: u64
  kp_time_in_queue :: u64
  kp_dequeues :: u32
  kp_ipc_sync :: u32
  kp_ipc_async :: u32
  kp_preempted :: u32
  kp_found :: bool
  kp_name :: string

record loadinfo =
  proc_load_history :: "u16 list"
  proc_last_slot :: u16
  last_clock :: u32

record 'w krn = "'w process" +
  kprocs :: "nat \<Rightarrow> kproc"
  run_q_head :: "nat \<Rightarrow> ptr"
  run_q_tail :: "nat \<Rightarrow> ptr"
  proc_ptr :: ptr
  bill_ptr :: ptr
  monotonic :: u32
  system_hz :: u32
  kloadinfo :: loadinfo

text \<open>What the kernel takes from the machine: the cycle counter and the length of a tick.\<close>

record 'w krn_os =
  kr_read_tsc :: "'w \<Rightarrow> u64 \<times> 'w"
  kr_ms_2_cpu_time :: "u32 \<Rightarrow> u64"
  kr_cpu_time_2_ms :: "u64 \<Rightarrow> u32"
  kr_cpu_load :: "'w \<Rightarrow> u32 \<times> 'w"

type_synonym ('w, 'a) kprog = "('w krn, 'a) prog"

definition NR_TASKS :: nat where [simp]: "NR_TASKS = 5"
definition RTS_SLOT_FREE :: u32 where [simp]: "RTS_SLOT_FREE = 0x01"
definition RTS_PROC_STOP :: u32 where [simp]: "RTS_PROC_STOP = 0x02"
definition RTS_PREEMPTED :: u32 where [simp]: "RTS_PREEMPTED = 0x4000"
definition RTS_NO_QUANTUM :: u32 where [simp]: "RTS_NO_QUANTUM = 0x8000"
definition PREEMPTIBLE :: u32 where [simp]: "PREEMPTIBLE = 0x002"
definition BILLABLE :: u32 where [simp]: "BILLABLE = 0x004"

definition IDLE_SLOT :: nat where [simp]: "IDLE_SLOT = NR_TASKS + NR_PROCS"
definition IDLE :: endpoint where [simp]: "IDLE = - 4"

definition set_kproc :: "nat \<Rightarrow> (kproc \<Rightarrow> kproc) \<Rightarrow> ('w, unit) kprog" where
  "set_kproc i f = modify (\<lambda>s. s\<lparr>kprocs := (kprocs s)(i := f (kprocs s i))\<rparr>)"

definition proc_is_runnable :: "kproc \<Rightarrow> bool" where
  "proc_is_runnable p \<longleftrightarrow> kp_rts_flags p = 0"

definition proc_is_preempted :: "kproc \<Rightarrow> bool" where
  "proc_is_preempted p \<longleftrightarrow> kp_rts_flags p AND RTS_PREEMPTED \<noteq> 0"

definition proc_kernel_scheduler :: "kproc \<Rightarrow> nat \<Rightarrow> bool" where
  "proc_kernel_scheduler p i \<longleftrightarrow> kp_scheduler p = None \<or> kp_scheduler p = Some i"

text \<open>\<open>int q = rp->p_priority\<close>: a plain \<open>char\<close> is signed.\<close>

definition queue_of :: "kproc \<Rightarrow> int" where
  "queue_of p = sint (kp_priority p)"

text \<open>The cells of queue \<open>q\<close>.\<close>

definition run_cell :: "nat \<Rightarrow> link \<Rightarrow> 'w krn \<Rightarrow> ptr" where
  "run_cell q l s = (case l of Head \<Rightarrow> run_q_head s q | Next a \<Rightarrow> kp_nextready (kprocs s a))"

definition set_run_cell :: "nat \<Rightarrow> link \<Rightarrow> ptr \<Rightarrow> 'w krn \<Rightarrow> 'w krn" where
  "set_run_cell q l p s = (case l of
      Head \<Rightarrow> s\<lparr>run_q_head := (run_q_head s)(q := p)\<rparr>
    | Next a \<Rightarrow> s\<lparr>kprocs := (kprocs s)(a := (kprocs s a)\<lparr>kp_nextready := p\<rparr>)\<rparr>)"

section \<open>The process table at boot\<close>

definition init_kproc :: "nat \<Rightarrow> kproc \<Rightarrow> kproc" where
  "init_kproc i p = p\<lparr>kp_rts_flags := RTS_SLOT_FREE, kp_endpoint := of_int (int i - int NR_TASKS), kp_scheduler := None,
     kp_priority := 0, kp_quantum_size_ms := 0\<rparr>"

text \<open>The name of the idle process of a processor, without leading zeros.\<close>

fun idle_digits :: "nat list \<Rightarrow> bool \<Rightarrow> nat \<Rightarrow> string" where
  "idle_digits [] p_z n = []"
| "idle_digits (c # cs) p_z n =
     (let digit = n div c; n = n - digit * c in
      if p_z \<or> digit \<noteq> 0 \<or> c = 1 then char_of (48 + digit) # idle_digits cs True n else idle_digits cs p_z n)"

definition set_idle_name :: "nat \<Rightarrow> string" where
  "set_idle_name n = ''idle'' @ idle_digits [100, 10, 1] False (if n > 999 then 999 else n)"

definition proc_init :: "('w, unit) kprog" where
  "proc_init = andthen (for_m [0..<NR_TASKS + NR_PROCS] (\<lambda>i. set_kproc i (init_kproc i)))
     (set_kproc IDLE_SLOT (\<lambda>p. p\<lparr>kp_endpoint := IDLE, kp_rts_flags := kp_rts_flags p OR RTS_PROC_STOP, kp_name := set_idle_name 0\<rparr>))"

section \<open>Taking a process out of its queue\<close>

text \<open>The loop variables are \<open>xpp\<close>, the link, and \<open>prev_xp\<close>, the entry it belongs to.\<close>

definition dequeue_turn :: "nat \<Rightarrow> nat \<Rightarrow> link \<times> ptr \<Rightarrow> ('w, link \<times> ptr + unit) kprog" where
  "dequeue_turn q rp x = bnd (gets (run_cell q (fst x))) (\<lambda>xp. case xp of
       None \<Rightarrow> ret (Inr ())
     | Some p \<Rightarrow>
         if p = rp then
           andthen (modify (\<lambda>s. set_run_cell q (fst x) (kp_nextready (kprocs s p)) s)) (
           bnd (gets (\<lambda>s. run_q_tail s q)) (\<lambda>tail.
           andthen (if Some rp = tail then modify (\<lambda>s. s\<lparr>run_q_tail := (run_q_tail s)(q := snd x)\<rparr>) else ret ())
             (ret (Inr ()))))
         else ret (Inl (Next p, Some p)))"

definition leave_accounting :: "'w krn_os \<Rightarrow> nat \<Rightarrow> ('w, unit) kprog" where
  "leave_accounting os rp = andthen (set_kproc rp (\<lambda>p. p\<lparr>kp_dequeues := kp_dequeues p + 1\<rparr>)) (
     bnd (gets (\<lambda>s. kp_enter_queue (kprocs s rp))) (\<lambda>enter.
     if enter \<noteq> 0 then
       bnd (os_call (kr_read_tsc os)) (\<lambda>tsc.
       set_kproc rp (\<lambda>p. p\<lparr>kp_time_in_queue := kp_time_in_queue p + (tsc - enter), kp_enter_queue := 0\<rparr>))
     else ret ()))"

definition dequeue :: "'w krn_os \<Rightarrow> nat \<Rightarrow> ('w, unit) kprog" where
  "dequeue os rp = bnd (gets (\<lambda>s. kprocs s rp)) (\<lambda>p.
     andthen (check AssertFailed (\<not> proc_is_runnable p)) (
     andthen (check OutOfBounds (0 \<le> queue_of p \<and> queue_of p < int NR_SCHED_QUEUES)) (
     andthen (loop_m (dequeue_turn (nat (queue_of p)) rp) (Head, None)) (leave_accounting os rp))))"

definition RTS_SET :: "'w krn_os \<Rightarrow> nat \<Rightarrow> u32 \<Rightarrow> ('w, unit) kprog" where
  "RTS_SET os rp f = bnd (gets (\<lambda>s. kp_rts_flags (kprocs s rp))) (\<lambda>rts.
     andthen (set_kproc rp (\<lambda>p. p\<lparr>kp_rts_flags := kp_rts_flags p OR f\<rparr>)) (
     bnd (gets (\<lambda>s. kprocs s rp)) (\<lambda>p.
     if rts = 0 \<and> \<not> proc_is_runnable p then dequeue os rp else ret ())))"

section \<open>Putting a process into its queue\<close>

definition append_proc :: "nat \<Rightarrow> nat \<Rightarrow> ('w, unit) kprog" where
  "append_proc q rp = bnd (gets (\<lambda>s. run_q_head s q)) (\<lambda>head.
     if head = None then
       andthen (modify (\<lambda>s. s\<lparr>run_q_head := (run_q_head s)(q := Some rp), run_q_tail := (run_q_tail s)(q := Some rp)\<rparr>))
         (set_kproc rp (\<lambda>p. p\<lparr>kp_nextready := None\<rparr>))
     else
       bnd (gets (\<lambda>s. run_q_tail s q)) (\<lambda>tail. case tail of
         None \<Rightarrow> raise NullPointer
       | Some t \<Rightarrow>
           andthen (set_kproc t (\<lambda>p. p\<lparr>kp_nextready := Some rp\<rparr>)) (
           andthen (modify (\<lambda>s. s\<lparr>run_q_tail := (run_q_tail s)(q := Some rp)\<rparr>))
             (set_kproc rp (\<lambda>p. p\<lparr>kp_nextready := None\<rparr>)))))"

text \<open>A process that is more urgent than the current one preempts it.\<close>

definition preempt_current :: "'w krn_os \<Rightarrow> nat \<Rightarrow> ('w, nat) kprog" where
  "preempt_current os rp = bnd (gets proc_ptr) (\<lambda>cur. case cur of
       None \<Rightarrow> raise AssertFailed
     | Some c \<Rightarrow>
         bnd (gets (\<lambda>s. (kprocs s c, kprocs s rp))) (\<lambda>(p, r).
         andthen (if queue_of p > queue_of r \<and> kp_s_flags p AND PREEMPTIBLE \<noteq> 0
           then RTS_SET os c RTS_PREEMPTED else ret ()) (ret c)))"

text \<open>The time stamp goes to the entry of the current process.\<close>

definition stamp_current :: "'w krn_os \<Rightarrow> ('w, unit) kprog" where
  "stamp_current os = bnd (gets proc_ptr) (\<lambda>cur. case cur of
       None \<Rightarrow> raise NullPointer
     | Some c \<Rightarrow> bnd (os_call (kr_read_tsc os)) (\<lambda>tsc. set_kproc c (\<lambda>p. p\<lparr>kp_enter_queue := tsc\<rparr>)))"

definition enqueue :: "'w krn_os \<Rightarrow> nat \<Rightarrow> ('w, unit) kprog" where
  "enqueue os rp = bnd (gets (\<lambda>s. kprocs s rp)) (\<lambda>p.
     andthen (check AssertFailed (proc_is_runnable p)) (
     andthen (check AssertFailed (queue_of p \<ge> 0)) (
     andthen (check OutOfBounds (queue_of p < int NR_SCHED_QUEUES)) (
     andthen (append_proc (nat (queue_of p)) rp) (
     andthen (preempt_current os rp) (stamp_current os))))))"

definition push_proc :: "nat \<Rightarrow> nat \<Rightarrow> ('w, unit) kprog" where
  "push_proc q rp = bnd (gets (\<lambda>s. run_q_head s q)) (\<lambda>head.
     if head = None then
       andthen (modify (\<lambda>s. s\<lparr>run_q_head := (run_q_head s)(q := Some rp), run_q_tail := (run_q_tail s)(q := Some rp)\<rparr>))
         (set_kproc rp (\<lambda>p. p\<lparr>kp_nextready := None\<rparr>))
     else
       andthen (set_kproc rp (\<lambda>p. p\<lparr>kp_nextready := head\<rparr>))
         (modify (\<lambda>s. s\<lparr>run_q_head := (run_q_head s)(q := Some rp)\<rparr>)))"

definition enqueue_head :: "'w krn_os \<Rightarrow> nat \<Rightarrow> ('w, unit) kprog" where
  "enqueue_head os rp = bnd (gets (\<lambda>s. kprocs s rp)) (\<lambda>p.
     andthen (check AssertFailed (proc_is_runnable p)) (
     andthen (check AssertFailed (kp_cpu_time_left p \<noteq> 0)) (
     andthen (check AssertFailed (queue_of p \<ge> 0)) (
     andthen (check OutOfBounds (queue_of p < int NR_SCHED_QUEUES)) (
     andthen (push_proc (nat (queue_of p)) rp) (
     andthen (stamp_current os)
       (set_kproc rp (\<lambda>p. p\<lparr>kp_dequeues := kp_dequeues p - 1, kp_preempted := kp_preempted p + 1\<rparr>))))))))"

definition RTS_UNSET :: "'w krn_os \<Rightarrow> nat \<Rightarrow> u32 \<Rightarrow> ('w, unit) kprog" where
  "RTS_UNSET os rp f = bnd (gets (\<lambda>s. kp_rts_flags (kprocs s rp))) (\<lambda>rts.
     andthen (set_kproc rp (\<lambda>p. p\<lparr>kp_rts_flags := kp_rts_flags p AND NOT f\<rparr>)) (
     bnd (gets (\<lambda>s. kprocs s rp)) (\<lambda>p.
     if rts \<noteq> 0 \<and> proc_is_runnable p then enqueue os rp else ret ())))"

section \<open>Picking a process\<close>

definition pick_queue :: "(nat \<Rightarrow> ptr) \<Rightarrow> ptr" where
  "pick_queue head = (case first_slot (\<lambda>q. head q \<noteq> None) [0..<NR_SCHED_QUEUES] of None \<Rightarrow> None | Some q \<Rightarrow> head q)"

definition pick_proc :: "('w, ptr) kprog" where
  "pick_proc = bnd (gets (\<lambda>s. pick_queue (run_q_head s))) (\<lambda>r. case r of
       None \<Rightarrow> ret None
     | Some rp \<Rightarrow> bnd (gets (\<lambda>s. kprocs s rp)) (\<lambda>p.
         andthen (check AssertFailed (proc_is_runnable p)) (
         andthen (if kp_s_flags p AND BILLABLE \<noteq> 0 then modify (\<lambda>s. s\<lparr>bill_ptr := Some rp\<rparr>) else ret ())
           (ret (Some rp)))))"

text \<open>The way back from the kernel, up to the choice of the process; \<open>idle\<close> waits for an interrupt.\<close>

definition pick_new :: "'w krn_os \<Rightarrow> ('w, unit) kprog \<Rightarrow> ('w, nat) kprog" where
  "pick_new os idle = bnd (gets proc_ptr) (\<lambda>cur. case cur of
       None \<Rightarrow> raise NullPointer
     | Some c \<Rightarrow>
         bnd (gets (\<lambda>s. kprocs s c)) (\<lambda>p.
         if proc_is_runnable p then ret c
         else
           andthen (if proc_is_preempted p then
               andthen (set_kproc c (\<lambda>p. p\<lparr>kp_rts_flags := kp_rts_flags p AND NOT RTS_PREEMPTED\<rparr>)) (
               bnd (gets (\<lambda>s. kprocs s c)) (\<lambda>p.
               if proc_is_runnable p then
                 if kp_cpu_time_left p \<noteq> 0 then enqueue_head os c else enqueue os c
               else ret ()))
             else ret ()) (
           bnd (loop_m (\<lambda>_. bnd pick_proc (\<lambda>r. case r of
               None \<Rightarrow> andthen idle (ret (Inl ()))
             | Some p \<Rightarrow> ret (Inr p))) ()) (\<lambda>p.
           andthen (modify (\<lambda>s. s\<lparr>proc_ptr := Some p\<rparr>)) (ret p)))))"

section \<open>Endpoints\<close>

definition isokprocn :: "int \<Rightarrow> bool" where
  "isokprocn n \<longleftrightarrow> 0 \<le> n + int NR_TASKS \<and> n + int NR_TASKS < int (NR_PROCS + NR_TASKS)"

definition proc_addr :: "int \<Rightarrow> nat" where
  "proc_addr n = nat (int NR_TASKS + n)"

definition isemptyp :: "kproc \<Rightarrow> bool" where
  "isemptyp p \<longleftrightarrow> kp_rts_flags p = RTS_SLOT_FREE"

text \<open>The slot of a live process, \<open>None\<close> where the test fails.\<close>

definition isokendpt :: "(nat \<Rightarrow> kproc) \<Rightarrow> endpoint \<Rightarrow> nat option" where
  "isokendpt tab e =
     (let n = endpoint_p e in
      if isokprocn n \<and> \<not> isemptyp (tab (proc_addr n)) \<and> kp_endpoint (tab (proc_addr n)) = e
      then Some (proc_addr n) else None)"

definition isokendpt_f :: "endpoint \<Rightarrow> bool \<Rightarrow> ('w, nat option) kprog" where
  "isokendpt_f e fatalflag = bnd (gets (\<lambda>s. isokendpt (kprocs s) e)) (\<lambda>r.
     if r = None \<and> fatalflag then raise Panic else ret r)"

definition endpoint_lookup :: "endpoint \<Rightarrow> ('w, ptr) kprog" where
  "endpoint_lookup e = isokendpt_f e False"

section \<open>Kernel calls\<close>

definition sched_proc :: "'w krn_os \<Rightarrow> nat \<Rightarrow> s32 \<Rightarrow> s32 \<Rightarrow> s32 \<Rightarrow> ('w, int) kprog" where
  "sched_proc os p prio quantum cpu =
     (if (sint prio < TASK_Q \<and> prio \<noteq> - 1) \<or> sint prio > int NR_SCHED_QUEUES then ret EINVAL
      else if sint quantum < 1 \<and> quantum \<noteq> - 1 then ret EINVAL
      else
        bnd (gets (\<lambda>s. proc_is_runnable (kprocs s p))) (\<lambda>run.
        andthen (if run then RTS_SET os p RTS_NO_QUANTUM else ret ()) (
        bnd (gets (\<lambda>s. proc_is_runnable (kprocs s p))) (\<lambda>run.
        andthen (if run then RTS_SET os p RTS_NO_QUANTUM else ret ()) (
        andthen (if prio \<noteq> - 1 then set_kproc p (\<lambda>r. r\<lparr>kp_priority := ucast prio\<rparr>) else ret ()) (
        andthen (if quantum \<noteq> - 1 then
            set_kproc p (\<lambda>r. r\<lparr>kp_quantum_size_ms := quantum, kp_cpu_time_left := kr_ms_2_cpu_time os quantum\<rparr>)
          else ret ()) (
        andthen (RTS_UNSET os p RTS_NO_QUANTUM) (ret OK))))))))"

definition do_schedule :: "'w krn_os \<Rightarrow> nat \<Rightarrow> kmsg \<Rightarrow> ('w, int) kprog" where
  "do_schedule os caller m = bnd (isokendpt_f (km_endpoint m) False) (\<lambda>r. case r of
       None \<Rightarrow> ret EINVAL
     | Some p \<Rightarrow>
         bnd (gets (\<lambda>s. kp_scheduler (kprocs s p))) (\<lambda>sched.
         if Some caller \<noteq> sched then ret EPERM
         else sched_proc os p (km_priority m) (km_quantum m) (km_cpu m)))"

text \<open>\<open>r = sched_proc(...) != OK\<close>: the result is the value of the comparison.\<close>

definition do_schedctl :: "'w krn_os \<Rightarrow> nat \<Rightarrow> kmsg \<Rightarrow> ('w, int) kprog" where
  "do_schedctl os caller m =
     (if km_flags m AND NOT SCHEDCTL_FLAG_KERNEL \<noteq> 0 then
        andthen (print (''do_schedctl: flags 0x'' @ digits 16 (unat (km_flags m)) @ '' invalid, caller='' @ fmt_d (int caller) @ ''\<newline>''))
          (ret EINVAL)
      else
        bnd (isokendpt_f (km_endpoint m) False) (\<lambda>r. case r of
          None \<Rightarrow> ret EINVAL
        | Some p \<Rightarrow>
            if km_flags m AND SCHEDCTL_FLAG_KERNEL = SCHEDCTL_FLAG_KERNEL then
              bnd (sched_proc os p (km_priority m) (km_quantum m) (km_cpu m)) (\<lambda>x.
              let r = (if x \<noteq> OK then 1 else 0) in
              if r \<noteq> 0 then ret r
              else andthen (set_kproc p (\<lambda>q. q\<lparr>kp_scheduler := None\<rparr>)) (ret OK))
            else andthen (set_kproc p (\<lambda>q. q\<lparr>kp_scheduler := Some caller\<rparr>)) (ret OK)))"

definition reset_proc_accounting :: "nat \<Rightarrow> ('w, unit) kprog" where
  "reset_proc_accounting p = set_kproc p (\<lambda>r. r\<lparr>kp_preempted := 0, kp_ipc_sync := 0, kp_ipc_async := 0, kp_dequeues := 0,
     kp_time_in_queue := 0, kp_enter_queue := 0\<rparr>)"

section \<open>Out of quantum\<close>

text \<open>The message to the scheduler, sent with \<open>mini_send\<close>.\<close>

record nq_msg =
  nq_source :: endpoint
  nq_queue :: u32
  nq_deqs :: u32
  nq_ipc_sync :: u32
  nq_ipc_async :: u32
  nq_preempt :: u32
  nq_cpu :: u32
  nq_cpu_load :: u32

definition notify_scheduler :: "'w krn_os \<Rightarrow> (nat \<Rightarrow> endpoint \<Rightarrow> nq_msg \<Rightarrow> ('w, int) kprog) \<Rightarrow> nat \<Rightarrow> ('w, unit) kprog" where
  "notify_scheduler os mini_send p = bnd (gets (\<lambda>s. kprocs s p)) (\<lambda>r.
     andthen (check AssertFailed (\<not> proc_kernel_scheduler r p)) (
     andthen (RTS_SET os p RTS_NO_QUANTUM) (
     bnd (os_call (kr_cpu_load os)) (\<lambda>load.
     bnd (gets (\<lambda>s. kprocs s p)) (\<lambda>r.
     andthen (reset_proc_accounting p) (
     case kp_scheduler r of None \<Rightarrow> raise NullPointer | Some sch \<Rightarrow>
       bnd (gets (\<lambda>s. kp_endpoint (kprocs s sch))) (\<lambda>e.
       bnd (mini_send p e \<lparr>nq_source = kp_endpoint r, nq_queue = kr_cpu_time_2_ms os (kp_time_in_queue r),
           nq_deqs = kp_dequeues r, nq_ipc_sync = kp_ipc_sync r, nq_ipc_async = kp_ipc_async r,
           nq_preempt = kp_preempted r, nq_cpu = 0, nq_cpu_load = load\<rparr>) (\<lambda>err.
       if err \<noteq> 0 then raise Panic else ret ()))))))))"

definition proc_no_time :: "'w krn_os \<Rightarrow> (nat \<Rightarrow> endpoint \<Rightarrow> nq_msg \<Rightarrow> ('w, int) kprog) \<Rightarrow> nat \<Rightarrow> ('w, unit) kprog" where
  "proc_no_time os mini_send p = bnd (gets (\<lambda>s. kprocs s p)) (\<lambda>r.
     if \<not> proc_kernel_scheduler r p \<and> kp_s_flags r AND PREEMPTIBLE \<noteq> 0 then notify_scheduler os mini_send p
     else set_kproc p (\<lambda>r. r\<lparr>kp_cpu_time_left := kr_ms_2_cpu_time os (kp_quantum_size_ms r)\<rparr>))"

end
