(* ===== verification/Krn_Ready.thy ===== *)
theory Krn_Ready
  imports Krn_Queue
begin

text \<open>
  The run queues as lists: \<open>queues Q s\<close> when queue \<open>q\<close> holds the processes \<open>Q q\<close> in this order,
  and \<open>ready Q s\<close> when, besides, the queues hold exactly the runnable processes, each in the
  queue of its priority. The operations of the kernel are list operations on \<open>Q\<close>.
\<close>

interpretation runq: linked_list "run_cell q" "set_run_cell q" for q
  by unfold_locales (simp add: run_cell_def set_run_cell_def split: link.split)

abbreviation run_queue :: "nat \<Rightarrow> nat list \<Rightarrow> 'w krn \<Rightarrow> bool" where
  "run_queue q xs s \<equiv> chain (\<lambda>l. run_cell q l s) xs"

definition last_of :: "nat list \<Rightarrow> ptr" where
  "last_of xs = (if xs = [] then None else Some (last xs))"

definition queues :: "(nat \<Rightarrow> nat list) \<Rightarrow> 'w krn \<Rightarrow> bool" where
  "queues Q s \<longleftrightarrow> (\<forall>q < NR_SCHED_QUEUES. run_queue q (Q q) s \<and> run_q_tail s q = last_of (Q q)
     \<and> (\<forall>x \<in> set (Q q). queue_of (kprocs s x) = int q))"

text \<open>\<open>R\<close> are processes on the way into a queue.\<close>

definition ready_but :: "nat set \<Rightarrow> (nat \<Rightarrow> nat list) \<Rightarrow> 'w krn \<Rightarrow> bool" where
  "ready_but R Q s \<longleftrightarrow> queues Q s
     \<and> (\<forall>x. proc_is_runnable (kprocs s x) \<and> x \<notin> R \<longrightarrow>
          (\<exists>q < NR_SCHED_QUEUES. queue_of (kprocs s x) = int q \<and> x \<in> set (Q q)))
     \<and> (\<forall>q < NR_SCHED_QUEUES. \<forall>x \<in> set (Q q). proc_is_runnable (kprocs s x) \<and> x \<notin> R)"

abbreviation ready :: "(nat \<Rightarrow> nat list) \<Rightarrow> 'w krn \<Rightarrow> bool" where
  "ready \<equiv> ready_but {}"

text \<open>What of an entry the queues do not change: all but the link, the accounting and the mark of the check.\<close>

definition kcore :: "kproc \<Rightarrow> kproc" where
  "kcore p = p\<lparr>kp_nextready := None, kp_enter_queue := 0, kp_time_in_queue := 0, kp_dequeues := 0, kp_preempted := 0,
     kp_found := False\<rparr>"

definition kcores :: "'w krn \<Rightarrow> nat \<Rightarrow> kproc" where
  "kcores s x = kcore (kprocs s x)"

definition kvars :: "'w krn \<Rightarrow> ptr \<times> ptr \<times> string" where
  "kvars s = (proc_ptr s, bill_ptr s, p_out s)"

lemma kcore_simps [simp]:
  "kp_rts_flags (kcore p) = kp_rts_flags p" "queue_of (kcore p) = queue_of p" "proc_is_runnable (kcore p) = proc_is_runnable p"
  "kp_s_flags (kcore p) = kp_s_flags p" "kp_cpu_time_left (kcore p) = kp_cpu_time_left p"
  "kp_scheduler (kcore p) = kp_scheduler p" "kp_endpoint (kcore p) = kp_endpoint p" "kp_priority (kcore p) = kp_priority p"
  by (simp_all add: kcore_def queue_of_def proc_is_runnable_def)

lemma queue_of_flags [simp]: "queue_of (p\<lparr>kp_rts_flags := v\<rparr>) = queue_of p"
  by (simp add: queue_of_def)

lemma kcores_eq:
  assumes "kcores t = kcores s"
  shows "kp_rts_flags (kprocs t x) = kp_rts_flags (kprocs s x)" "queue_of (kprocs t x) = queue_of (kprocs s x)"
    "proc_is_runnable (kprocs t x) = proc_is_runnable (kprocs s x)" "kp_s_flags (kprocs t x) = kp_s_flags (kprocs s x)"
proof -
  have "kcore (kprocs t x) = kcore (kprocs s x)" using assms by (simp add: fun_eq_iff kcores_def)
  then show "kp_rts_flags (kprocs t x) = kp_rts_flags (kprocs s x)" "queue_of (kprocs t x) = queue_of (kprocs s x)"
    "proc_is_runnable (kprocs t x) = proc_is_runnable (kprocs s x)" "kp_s_flags (kprocs t x) = kp_s_flags (kprocs s x)"
    by (metis kcore_simps)+
qed

section \<open>Queues that stay\<close>

lemma queuesD:
  assumes "queues Q s" and "q < NR_SCHED_QUEUES"
  shows "run_queue q (Q q) s" "run_q_tail s q = last_of (Q q)" "x \<in> set (Q q) \<Longrightarrow> queue_of (kprocs s x) = int q"
  using assms by (simp_all add: queues_def)

lemma queues_disjoint: "queues Q s \<Longrightarrow> q < NR_SCHED_QUEUES \<Longrightarrow> k < NR_SCHED_QUEUES \<Longrightarrow> x \<in> set (Q q) \<Longrightarrow> x \<in> set (Q k) \<Longrightarrow> q = k"
  using queuesD(3) [of Q s q x] queuesD(3) [of Q s k x] by simp

lemma queues_cong:
  assumes "queues Q s" and "\<And>q l. run_cell q l t = run_cell q l s" and "run_q_tail t = run_q_tail s"
    and "\<And>q x. q < NR_SCHED_QUEUES \<Longrightarrow> x \<in> set (Q q) \<Longrightarrow> queue_of (kprocs t x) = queue_of (kprocs s x)"
  shows "queues Q t"
  using assms by (auto simp: queues_def)

text \<open>An operation on queue \<open>q\<close> that touches only the members of this queue.\<close>

definition only_queue :: "nat \<Rightarrow> nat set \<Rightarrow> 'w krn \<Rightarrow> 'w krn \<Rightarrow> bool" where
  "only_queue q xs s t \<longleftrightarrow> (\<forall>k. k \<noteq> q \<longrightarrow> run_q_head t k = run_q_head s k \<and> run_q_tail t k = run_q_tail s k)
     \<and> (\<forall>x. x \<notin> xs \<longrightarrow> kp_nextready (kprocs t x) = kp_nextready (kprocs s x)) \<and> kcores t = kcores s \<and> kvars t = kvars s"

lemma queues_update:
  assumes Q: "queues Q s" and q: "q < NR_SCHED_QUEUES" and o: "only_queue q xs s t"
    and new: "run_queue q ys t" "run_q_tail t q = last_of ys" "\<And>x. x \<in> set ys \<Longrightarrow> queue_of (kprocs s x) = int q"
    and xs: "\<And>x. x \<in> xs \<Longrightarrow> queue_of (kprocs s x) = int q"
  shows "queues (Q(q := ys)) t"
  unfolding queues_def
proof (intro allI impI conjI ballI)
  have c: "kcores t = kcores s" using o by (simp add: only_queue_def)
  fix k assume k: "k < NR_SCHED_QUEUES"
  have out: "x \<notin> xs" if "x \<in> set (Q k)" "k \<noteq> q" for x using xs queuesD(3) [OF Q k that(1)] that(2) by force
  show "run_queue k ((Q(q := ys)) k) t"
  proof (cases "k = q")
    case False
    have "run_queue k (Q k) t = run_queue k (Q k) s"
      by (rule chain_cong) (use o False out in \<open>auto simp: only_queue_def run_cell_def\<close>)
    with False queuesD(1) [OF Q k] show ?thesis by simp
  qed (use new in simp)
  show "run_q_tail t k = last_of ((Q(q := ys)) k)"
    using new(2) queuesD(2) [OF Q k] o by (auto simp: only_queue_def)
  fix x assume "x \<in> set ((Q(q := ys)) k)"
  then show "queue_of (kprocs t x) = int k"
    using new(3) queuesD(3) [OF Q k] kcores_eq(2) [OF c, of x] by (auto split: if_splits)
qed

section \<open>Taking a process out\<close>

lemma last_of_simps [simp]: "last_of [] = None" "last_of (xs @ [x]) = Some x"
  by (simp_all add: last_of_def)

lemma last_of_eq: "last_of xs = Some x \<longleftrightarrow> (\<exists>ys. xs = ys @ [x])"
  by (cases xs rule: rev_cases) (simp_all add: last_of_def)

definition unlinked :: "nat \<Rightarrow> nat \<Rightarrow> nat list \<Rightarrow> 'w krn \<Rightarrow> 'w krn \<Rightarrow> bool" where
  "unlinked q rp xs s t \<longleftrightarrow> run_queue q (remove1 rp xs) t \<and> run_q_tail t q = last_of (remove1 rp xs) \<and> only_queue q (set xs) s t"

lemma set_run_cell_frame [simp]:
  "kcores (set_run_cell q l p s) = kcores s" "kvars (set_run_cell q l p s) = kvars s" "run_q_tail (set_run_cell q l p s) = run_q_tail s"
  by (auto simp: kcores_def kcore_def kvars_def set_run_cell_def fun_eq_iff split: link.split)

lemma set_run_cell_only: "only_queue q xs s (set_run_cell q l p s)" if "l \<in> insert Head (Next ` xs)"
  using that by (auto simp: only_queue_def kcores_def kcore_def kvars_def set_run_cell_def fun_eq_iff split: link.split)

lemma run_tail_only [simp]: "only_queue q xs s t \<Longrightarrow> only_queue q xs s (t\<lparr>run_q_tail := (run_q_tail t)(q := p)\<rparr>)"
  by (simp add: only_queue_def kcores_def kvars_def fun_eq_iff)

lemma run_tail_queue [simp]: "run_cell q l (s\<lparr>run_q_tail := h\<rparr>) = run_cell q l s"
  by (simp add: run_cell_def split: link.split)

lemma link_at_in: "link_at ys \<in> insert Head (Next ` set (ys @ zs))"
  by (auto simp: link_at_def)

lemma unlink_found:
  assumes q: "run_queue q (ys @ rp # zs) s" and tl: "run_q_tail s q = last_of (ys @ rp # zs)"
  defines "t \<equiv> set_run_cell q (link_at ys) (kp_nextready (kprocs s rp)) s"
  shows "unlinked q rp (ys @ rp # zs) s (if run_q_tail t q = Some rp then t\<lparr>run_q_tail := (run_q_tail t)(q := last_of ys)\<rparr> else t)"
proof -
  have d: "distinct (ys @ rp # zs)" using q by (rule chain_distinct)
  then have r: "remove1 rp (ys @ rp # zs) = ys @ zs" by (simp add: remove1_append)
  have n: "kp_nextready (kprocs s rp) = run_cell q (Next rp) s" by (simp add: run_cell_def)
  have c: "run_queue q (ys @ zs) t" unfolding t_def n by (rule runq.stored_remove [OF q])
  have o: "only_queue q (set (ys @ rp # zs)) s t" unfolding t_def by (rule set_run_cell_only [OF link_at_in])
  have tt: "run_q_tail t q = last_of (ys @ rp # zs)" using tl by (simp add: t_def)
  show ?thesis
  proof (cases "zs = []")
    case True
    then show ?thesis using c o tt r by (simp add: unlinked_def)
  next
    case False
    then have "last_of (ys @ rp # zs) = last_of (ys @ zs)" "last_of (ys @ zs) = Some (last zs)" "last zs \<noteq> rp"
      using d last_in_set [OF False] by (auto simp: last_of_def)
    then show ?thesis using c o tt r by (simp add: unlinked_def)
  qed
qed

lemma unlink_absent: "run_queue q xs s \<Longrightarrow> run_q_tail s q = last_of xs \<Longrightarrow> rp \<notin> set xs \<Longrightarrow> unlinked q rp xs s s"
  by (simp add: unlinked_def only_queue_def remove1_idem)

lemma dequeue_loop:
  fixes s :: "'w krn"
  assumes "run_queue q (ys @ zs) s" and "run_q_tail s q = last_of (ys @ zs)" and "rp \<notin> set ys"
  shows "wp (loop_m (dequeue_turn q rp) (link_at ys, last_of ys)) (\<lambda>_. unlinked q rp (ys @ zs) s) s"
  using assms
proof (induction zs arbitrary: ys)
  case Nil
  have "run_cell q (link_at ys) s = None" using chainD [of "\<lambda>l. run_cell q l s" ys "[]"] Nil by simp
  with Nil show ?case by (subst wp_loop_unfold) (simp add: dequeue_turn_def wp_simps unlink_absent)
next
  case (Cons z zs)
  have z: "run_cell q (link_at ys) s = Some z" using chainD [of "\<lambda>l. run_cell q l s" ys "z # zs"] Cons.prems by simp
  show ?case
  proof (cases "z = rp")
    case True
    have "unlinked q rp (ys @ rp # zs) s (let t = set_run_cell q (link_at ys) (kp_nextready (kprocs s rp)) s in
       if run_q_tail t q = Some rp then t\<lparr>run_q_tail := (run_q_tail t)(q := last_of ys)\<rparr> else t)"
      unfolding Let_def by (rule unlink_found) (use Cons.prems True in auto)
    then show ?thesis using z True
      by (subst wp_loop_unfold) (auto simp: dequeue_turn_def wp_simps Let_def split: if_splits)
  next
    case False
    have "wp (loop_m (dequeue_turn q rp) (link_at (ys @ [z]), last_of (ys @ [z]))) (\<lambda>_. unlinked q rp ((ys @ [z]) @ zs) s) s"
      by (rule Cons.IH) (use Cons.prems False in auto)
    then show ?thesis using z False by (subst wp_loop_unfold) (simp add: dequeue_turn_def wp_simps)
  qed
qed

text \<open>A change of an entry that the queues do not see.\<close>

lemma set_kproc_same:
  assumes "\<And>p. kp_nextready (f p) = kp_nextready p" and "\<And>p. kcore (f p) = kcore p" and "queues Q s"
  shows "wp (set_kproc i f) (\<lambda>_ t. queues Q t \<and> kcores t = kcores s \<and> kvars t = kvars s) s"
proof -
  let ?t = "s\<lparr>kprocs := (kprocs s)(i := f (kprocs s i))\<rparr>"
  have c: "kcores ?t = kcores s" using assms(2) by (auto simp: kcores_def fun_eq_iff)
  have "queues Q ?t"
    by (rule queues_cong [OF assms(3)]) (use assms(1) kcores_eq(2) [OF c] in \<open>auto simp: run_cell_def split: link.split\<close>)
  with c show ?thesis by (simp add: set_kproc_def wp_simps kvars_def)
qed

lemma run_cell_world [simp]: "run_cell q l (s\<lparr>p_world := w\<rparr>) = run_cell q l s"
  by (cases l) (simp_all add: run_cell_def)

lemma queues_world [simp]: "queues Q (s\<lparr>p_world := w\<rparr>) = queues Q s"
  by (simp add: queues_def)

lemma kcores_world [simp]: "kcores (s\<lparr>p_world := w\<rparr>) = kcores s" "kvars (s\<lparr>p_world := w\<rparr>) = kvars s"
  by (simp_all add: kcores_def kvars_def fun_eq_iff)

lemma leave_accounting_wp:
  assumes "queues Q s"
  shows "wp (leave_accounting os rp) (\<lambda>_ t. queues Q t \<and> kcores t = kcores s \<and> kvars t = kvars s) s"
  unfolding leave_accounting_def wp_andthen wp_bnd wp_gets
proof (rule wp_mono [OF set_kproc_same])
  fix t :: "'a krn"
  assume t: "queues Q t \<and> kcores t = kcores s \<and> kvars t = kvars s"
  let ?u = "t\<lparr>p_world := snd (kr_read_tsc os (p_world t))\<rparr>"
  have "wp (set_kproc rp (\<lambda>p. p\<lparr>kp_time_in_queue := kp_time_in_queue p + d, kp_enter_queue := 0\<rparr>))
    (\<lambda>_ u. queues Q u \<and> kcores u = kcores ?u \<and> kvars u = kvars ?u) ?u" for d
    by (rule set_kproc_same) (use t in \<open>simp_all add: kcore_def\<close>)
  with t show "wp (if kp_enter_queue (kprocs t rp) \<noteq> 0
       then bnd (os_call (kr_read_tsc os)) (\<lambda>tsc. set_kproc rp (\<lambda>p. p
            \<lparr>kp_time_in_queue := kp_time_in_queue p + (tsc - kp_enter_queue (kprocs t rp)), kp_enter_queue := 0\<rparr>))
       else ret ())
    (\<lambda>_ t. queues Q t \<and> kcores t = kcores s \<and> kvars t = kvars s) t"
    by (simp add: wp_simps)
qed (use assms in \<open>simp_all add: kcore_def\<close>)

lemma dequeue_wp:
  fixes s :: "'w krn"
  assumes Q: "queues Q s" and n: "\<not> proc_is_runnable (kprocs s rp)" and q: "queue_of (kprocs s rp) = int q" "q < NR_SCHED_QUEUES"
  shows "wp (dequeue os rp) (\<lambda>_ t. queues (Q(q := remove1 rp (Q q))) t \<and> kcores t = kcores s \<and> kvars t = kvars s) s"
proof -
  let ?Q = "Q(q := remove1 rp (Q q))"
  have "wp (loop_m (dequeue_turn q rp) (Head, None)) (\<lambda>_.
      wp (leave_accounting os rp) (\<lambda>_ t. queues ?Q t \<and> kcores t = kcores s \<and> kvars t = kvars s)) s"
  proof (rule wp_mono [OF dequeue_loop [where q = q and ys = "[]" and zs = "Q q" and s = s and rp = rp, simplified]])
    fix t :: "'w krn" assume u: "unlinked q rp (Q q) s t"
    then have o: "only_queue q (set (Q q)) s t" by (simp add: unlinked_def)
    have "queues ?Q t"
      by (rule queues_update [OF Q q(2) o]) (use u queuesD(3) [OF Q q(2)] in \<open>auto simp: unlinked_def dest: subsetD [OF set_remove1_subset]\<close>)
    from leave_accounting_wp [OF this] show "wp (leave_accounting os rp) (\<lambda>_ t. queues ?Q t \<and> kcores t = kcores s \<and> kvars t = kvars s) t"
      by (rule wp_mono) (use o in \<open>simp add: only_queue_def\<close>)
  qed (use queuesD [OF Q q(2)] in simp_all)
  with n q show ?thesis by (simp add: dequeue_def wp_simps)
qed

text \<open>The queues without a process, and with a process at the end or at the head of a queue.\<close>

definition drop_proc :: "nat \<Rightarrow> (nat \<Rightarrow> nat list) \<Rightarrow> nat \<Rightarrow> nat list" where
  "drop_proc rp Q = (\<lambda>q. remove1 rp (Q q))"

definition put_last :: "nat \<Rightarrow> nat \<Rightarrow> (nat \<Rightarrow> nat list) \<Rightarrow> nat \<Rightarrow> nat list" where
  "put_last rp q Q = Q(q := Q q @ [rp])"

definition put_first :: "nat \<Rightarrow> nat \<Rightarrow> (nat \<Rightarrow> nat list) \<Rightarrow> nat \<Rightarrow> nat list" where
  "put_first rp q Q = Q(q := rp # Q q)"

lemma queues_same: "queues Q s \<Longrightarrow> (\<And>q. q < NR_SCHED_QUEUES \<Longrightarrow> P q = Q q) \<Longrightarrow> queues P s"
  by (simp add: queues_def)

lemma readyD:
  assumes "ready_but R Q s"
  shows "queues Q s" "q < NR_SCHED_QUEUES \<Longrightarrow> x \<in> set (Q q) \<Longrightarrow> proc_is_runnable (kprocs s x) \<and> x \<notin> R"
    "q < NR_SCHED_QUEUES \<Longrightarrow> x \<in> set (Q q) \<Longrightarrow> queue_of (kprocs s x) = int q"
    "q < NR_SCHED_QUEUES \<Longrightarrow> distinct (Q q)"
  using assms chain_distinct by (auto simp: ready_but_def queues_def)

lemma ready_queue:
  assumes "ready_but R Q s" and "proc_is_runnable (kprocs s x)" and "x \<notin> R"
  obtains q where "q < NR_SCHED_QUEUES" "queue_of (kprocs s x) = int q" "x \<in> set (Q q)"
  using assms by (auto simp: ready_but_def)

lemma ready_cong:
  assumes "ready_but R Q s" and "queues Q t" and "kcores t = kcores s"
  shows "ready_but R Q t"
  using assms kcores_eq [OF assms(3)] by (simp add: ready_but_def)

text \<open>A process that stops being runnable leaves the queues, one that was not runnable is in none.\<close>

lemma ready_stop:
  assumes r: "ready_but R Q s" and x: "x \<notin> R" and q: "queues (drop_proc x Q) t"
    and c: "kcores t = (kcores s)(x := p)" and p: "\<not> proc_is_runnable p"
  shows "ready_but R (drop_proc x Q) t"
proof -
  have y: "proc_is_runnable (kprocs t y) = proc_is_runnable (kprocs s y)" "queue_of (kprocs t y) = queue_of (kprocs s y)"
    if "y \<noteq> x" for y
    using fun_cong [OF c, of y] that unfolding kcores_def fun_upd_other [OF that] by (metis kcore_simps)+
  have tx: "\<not> proc_is_runnable (kprocs t x)" using fun_cong [OF c, of x] p unfolding kcores_def by (metis kcore_simps(3) fun_upd_same)
  have m: "y \<in> set (drop_proc x Q k) \<longleftrightarrow> y \<in> set (Q k) \<and> y \<noteq> x" if "k < NR_SCHED_QUEUES" for y k
    using readyD(4) [OF r that] by (simp add: drop_proc_def)
  show ?thesis unfolding ready_but_def
  proof (intro conjI allI impI ballI q; (elim conjE)?)
    fix y assume ry: "proc_is_runnable (kprocs t y)" "y \<notin> R"
    with tx have "y \<noteq> x" by blast
    with ry y obtain k where "k < NR_SCHED_QUEUES" "queue_of (kprocs s y) = int k" "y \<in> set (Q k)" by (metis ready_queue [OF r])
    with m y \<open>y \<noteq> x\<close> show "\<exists>q<NR_SCHED_QUEUES. queue_of (kprocs t y) = int q \<and> y \<in> set (drop_proc x Q q)" by auto
  next
    fix k y assume k: "k < NR_SCHED_QUEUES" "y \<in> set (drop_proc x Q k)"
    with m y readyD(2) [OF r] show "proc_is_runnable (kprocs t y)" "y \<notin> R" by auto
  qed
qed

lemma drop_absent: "(\<And>q. q < NR_SCHED_QUEUES \<Longrightarrow> x \<notin> set (Q q)) \<Longrightarrow> queues Q s \<Longrightarrow> queues (drop_proc x Q) s"
  by (erule queues_same) (simp add: drop_proc_def remove1_idem)

lemma drop_one:
  assumes "queues Q s" and "queues (Q(q := remove1 x (Q q))) t" and "queue_of (kprocs s x) = int q" and "q < NR_SCHED_QUEUES"
  shows "queues (drop_proc x Q) t"
proof (rule queues_same [OF assms(2)])
  fix k assume k: "k < NR_SCHED_QUEUES"
  have "x \<notin> set (Q k)" if "k \<noteq> q" using queuesD(3) [OF assms(1) k, of x] assms(3) that by auto
  then show "drop_proc x Q k = (Q(q := remove1 x (Q q))) k" by (auto simp: drop_proc_def remove1_idem)
qed

abbreviation set_flag :: "u32 \<Rightarrow> kproc \<Rightarrow> kproc" where
  "set_flag f p \<equiv> p\<lparr>kp_rts_flags := kp_rts_flags p OR f\<rparr>"

abbreviation clear_flag :: "u32 \<Rightarrow> kproc \<Rightarrow> kproc" where
  "clear_flag f p \<equiv> p\<lparr>kp_rts_flags := kp_rts_flags p AND NOT f\<rparr>"

lemma set_kproc_wp:
  assumes "\<And>p. kp_nextready (f p) = kp_nextready p" and "\<And>p. kcore (f p) = f (kcore p)"
    and "queues Q s" and "\<And>p q. i \<in> set (Q q) \<Longrightarrow> q < NR_SCHED_QUEUES \<Longrightarrow> queue_of (f p) = queue_of p"
  shows "wp (set_kproc i f) (\<lambda>_ t. queues Q t \<and> kcores t = (kcores s)(i := f (kcores s i)) \<and> kvars t = kvars s) s"
proof -
  let ?t = "s\<lparr>kprocs := (kprocs s)(i := f (kprocs s i))\<rparr>"
  have c: "kcores ?t = (kcores s)(i := f (kcores s i))" using assms(2) by (auto simp: kcores_def fun_eq_iff)
  have "queues Q ?t"
    by (rule queues_cong [OF assms(3)]) (use assms(1,4) in \<open>auto simp: run_cell_def split: link.split\<close>)
  with c show ?thesis by (simp add: set_kproc_def wp_simps kvars_def)
qed

lemma set_flag_wp:
  "queues Q s \<Longrightarrow> wp (set_kproc i (set_flag f)) (\<lambda>_ t. queues Q t \<and> kcores t = (kcores s)(i := set_flag f (kcores s i)) \<and> kvars t = kvars s) s"
  by (rule set_kproc_wp) (simp_all add: kcore_def queue_of_def)

lemma clear_flag_wp:
  "queues Q s \<Longrightarrow> wp (set_kproc i (clear_flag f)) (\<lambda>_ t. queues Q t \<and> kcores t = (kcores s)(i := clear_flag f (kcores s i)) \<and> kvars t = kvars s) s"
  by (rule set_kproc_wp) (simp_all add: kcore_def queue_of_def)

lemma or_nonzero: "(f :: 'a :: len word) \<noteq> 0 \<Longrightarrow> g OR f \<noteq> 0"
  by (simp add: or_eq_0_iff)

lemma RTS_SET_wp:
  fixes s :: "'w krn"
  assumes r: "ready_but R Q s" and f: "f \<noteq> 0" and x: "rp \<notin> R"
  shows "wp (RTS_SET os rp f) (\<lambda>_ t. ready_but R (drop_proc rp Q) t \<and> kcores t = (kcores s)(rp := set_flag f (kcores s rp))
    \<and> kvars t = kvars s) s"
  unfolding RTS_SET_def wp_bnd wp_andthen wp_gets
proof (rule wp_mono [OF set_flag_wp [OF readyD(1) [OF r]]])
  fix t :: "'w krn"
  assume t: "queues Q t \<and> kcores t = (kcores s)(rp := set_flag f (kcores s rp)) \<and> kvars t = kvars s"
  let ?p = "set_flag f (kcores s rp)"
  have n: "\<not> proc_is_runnable ?p" using or_nonzero [OF f] by (simp add: proc_is_runnable_def)
  have "kcores t rp = ?p" using t by simp
  then have k: "kcore (kprocs t rp) = ?p" by (simp add: kcores_def)
  have tn: "\<not> proc_is_runnable (kprocs t rp)" and tq: "queue_of (kprocs t rp) = queue_of (kprocs s rp)"
    using n arg_cong [OF k, of proc_is_runnable] arg_cong [OF k, of queue_of] by (simp_all add: kcores_def)
  let ?P = "\<lambda>_ t. ready_but R (drop_proc rp Q) t \<and> kcores t = (kcores s)(rp := ?p) \<and> kvars t = kvars s"
  show "wp (if kp_rts_flags (kprocs s rp) = 0 \<and> \<not> proc_is_runnable (kprocs t rp) then dequeue os rp else ret ()) ?P t"
  proof (cases "proc_is_runnable (kprocs s rp)")
    case True
    then obtain q where q: "q < NR_SCHED_QUEUES" "queue_of (kprocs s rp) = int q" by (rule ready_queue [OF r _ x])
    have "wp (dequeue os rp) ?P t"
    proof (rule wp_mono [OF dequeue_wp [of Q t rp q]])
      fix u :: "'w krn" assume u: "queues (Q(q := remove1 rp (Q q))) u \<and> kcores u = kcores t \<and> kvars u = kvars t"
      have "queues (drop_proc rp Q) u" by (rule drop_one [of Q t q]) (use t u q tq in auto)
      then have "ready_but R (drop_proc rp Q) u" by (rule ready_stop [OF r x _ _ n]) (use t u in simp)
      then show "?P () u" using t u by simp
    qed (use t tn tq q in auto)
    with True tn show ?thesis by (simp add: proc_is_runnable_def)
  next
    case False
    have "rp \<notin> set (Q q)" if "q < NR_SCHED_QUEUES" for q using readyD(2) [OF r that] False by blast
    then have "queues (drop_proc rp Q) t" using t by (intro drop_absent) auto
    then have "ready_but R (drop_proc rp Q) t" by (rule ready_stop [OF r x _ _ n]) (use t in simp)
    then have "?P () t" using t by simp
    with False show ?thesis by (simp add: proc_is_runnable_def wp_simps)
  qed
qed

end
