(* ===== verification/Krn_Enqueue.thy ===== *)
theory Krn_Enqueue
  imports Krn_Ready
begin

text \<open>
  Putting a process into its queue, at the end or at the head, and preempting the current
  process; the macros \<open>RTS_UNSET\<close> and \<open>RTS_SET\<close> on queues that hold the runnable processes.
\<close>

section \<open>Linking\<close>

lemma only_queue_member: "queue_of (kprocs s rp) = int q \<Longrightarrow> x \<in> {rp} \<Longrightarrow> queue_of (kprocs s x) = int q"
  by simp

lemma link_last:
  fixes s :: "'w krn"
  assumes Q: "queues Q s" and q: "q < NR_SCHED_QUEUES" "queue_of (kprocs s rp) = int q" and new: "rp \<notin> set (Q q)"
    and cell: "\<And>l. run_cell q l t = ((\<lambda>l. run_cell q l s)(Next rp := None, link_at (Q q) := Some rp)) l"
    and tail: "run_q_tail t q = Some rp" and o: "only_queue q (insert rp (set (Q q))) s t"
  shows "queues (put_last rp q Q) t"
  unfolding put_last_def
proof (rule queues_update [OF Q q(1) o])
  have c: "run_queue q (Q q @ []) s" using queuesD(1) [OF Q q(1)] by simp
  have "run_cell q (link_at (Q q)) s = None" using chainD [OF c] by simp
  with chain_insert [OF c, of rp] new have "chain ((\<lambda>l. run_cell q l s)(Next rp := None, link_at (Q q) := Some rp)) (Q q @ [rp])" by simp
  with cell show "run_queue q (Q q @ [rp]) t" by presburger
qed (use queuesD(3) [OF Q q(1)] q tail in auto)

lemma link_first:
  fixes s :: "'w krn"
  assumes Q: "queues Q s" and q: "q < NR_SCHED_QUEUES" "queue_of (kprocs s rp) = int q" and new: "rp \<notin> set (Q q)"
    and cell: "\<And>l. run_cell q l t = ((\<lambda>l. run_cell q l s)(Next rp := run_cell q Head s, Head := Some rp)) l"
    and tail: "run_q_tail t q = last_of (rp # Q q)" and o: "only_queue q (insert rp (set (Q q))) s t"
  shows "queues (put_first rp q Q) t"
  unfolding put_first_def
proof (rule queues_update [OF Q q(1) o])
  have c: "run_queue q ([] @ Q q) s" using queuesD(1) [OF Q q(1)] by simp
  with chain_insert [OF c, of rp] new
  have "chain ((\<lambda>l. run_cell q l s)(Next rp := run_cell q Head s, Head := Some rp)) (rp # Q q)" by simp
  with cell show "run_queue q (rp # Q q) t" by presburger
qed (use queuesD(3) [OF Q q(1)] q tail in auto)

text \<open>Writing links and tails leaves the rest of the entries alone.\<close>

lemma only_queueI:
  assumes "\<And>k. k \<noteq> q \<Longrightarrow> run_q_head t k = run_q_head s k" "\<And>k. k \<noteq> q \<Longrightarrow> run_q_tail t k = run_q_tail s k"
    and "\<And>x. kcore (kprocs t x) = kcore (kprocs s x)" "\<And>x. x \<notin> xs \<Longrightarrow> kp_nextready (kprocs t x) = kp_nextready (kprocs s x)"
    and "kvars t = kvars s"
  shows "only_queue q xs s t"
  using assms by (simp add: only_queue_def kcores_def fun_eq_iff)

lemma kcore_next [simp]: "kcore (p\<lparr>kp_nextready := n\<rparr>) = kcore p"
  by (simp add: kcore_def)

lemma append_proc_wp:
  fixes s :: "'w krn"
  assumes Q: "queues Q s" and q: "q < NR_SCHED_QUEUES" "queue_of (kprocs s rp) = int q" and new: "rp \<notin> set (Q q)"
  shows "wp (append_proc q rp) (\<lambda>_ t. queues (put_last rp q Q) t \<and> kcores t = kcores s \<and> kvars t = kvars s) s"
proof (cases "Q q" rule: rev_cases)
  case Nil
  let ?t = "s\<lparr>run_q_head := (run_q_head s)(q := Some rp), run_q_tail := (run_q_tail s)(q := Some rp),
    kprocs := (kprocs s)(rp := (kprocs s rp)\<lparr>kp_nextready := None\<rparr>)\<rparr>"
  have h: "run_q_head s q = None" using chain_head [OF queuesD(1) [OF Q q(1)]] Nil by (simp add: run_cell_def)
  have o: "only_queue q (insert rp (set (Q q))) s ?t" by (rule only_queueI) (simp_all add: kvars_def)
  have "queues (put_last rp q Q) ?t"
    by (rule link_last [OF Q q new _ _ o]) (simp_all add: Nil run_cell_def split: link.split)
  with h o show ?thesis by (simp add: append_proc_def set_kproc_def wp_simps only_queue_def)
next
  case (snoc ys z)
  let ?t = "s\<lparr>run_q_tail := (run_q_tail s)(q := Some rp),
    kprocs := (kprocs s)(z := (kprocs s z)\<lparr>kp_nextready := Some rp\<rparr>, rp := (kprocs s rp)\<lparr>kp_nextready := None\<rparr>)\<rparr>"
  have z: "z \<noteq> rp" using new snoc by auto
  have "run_q_head s q \<noteq> None" using chain_head [OF queuesD(1) [OF Q q(1)]] snoc by (simp add: run_cell_def first_eq(1))
  then obtain a where h: "run_q_head s q = Some a" by blast
  have tl: "run_q_tail s q = Some z" using queuesD(2) [OF Q q(1)] snoc by simp
  have o: "only_queue q (insert rp (set (Q q))) s ?t" by (rule only_queueI) (simp_all add: kvars_def snoc)
  have "queues (put_last rp q Q) ?t"
    by (rule link_last [OF Q q new _ _ o]) (use z in \<open>simp_all add: snoc run_cell_def split: link.split\<close>)
  with h o tl z show ?thesis by (simp add: append_proc_def set_kproc_def wp_simps only_queue_def)
qed

lemma push_proc_wp:
  fixes s :: "'w krn"
  assumes Q: "queues Q s" and q: "q < NR_SCHED_QUEUES" "queue_of (kprocs s rp) = int q" and new: "rp \<notin> set (Q q)"
  shows "wp (push_proc q rp) (\<lambda>_ t. queues (put_first rp q Q) t \<and> kcores t = kcores s \<and> kvars t = kvars s) s"
proof (cases "Q q = []")
  case True
  let ?t = "s\<lparr>run_q_head := (run_q_head s)(q := Some rp), run_q_tail := (run_q_tail s)(q := Some rp),
    kprocs := (kprocs s)(rp := (kprocs s rp)\<lparr>kp_nextready := None\<rparr>)\<rparr>"
  have h: "run_q_head s q = None" using chain_head [OF queuesD(1) [OF Q q(1)]] True by (simp add: run_cell_def)
  have o: "only_queue q (insert rp (set (Q q))) s ?t" by (rule only_queueI) (simp_all add: kvars_def)
  have "queues (put_first rp q Q) ?t"
    by (rule link_first [OF Q q new _ _ o]) (simp_all add: True h last_of_def run_cell_def split: link.split)
  with h o show ?thesis by (simp add: push_proc_def set_kproc_def wp_simps only_queue_def)
next
  case False
  have "run_q_head s q \<noteq> None" using chain_head [OF queuesD(1) [OF Q q(1)]] False by (simp add: run_cell_def first_eq(1))
  then obtain a where h: "run_q_head s q = Some a" by blast
  let ?t = "s\<lparr>kprocs := (kprocs s)(rp := (kprocs s rp)\<lparr>kp_nextready := Some a\<rparr>), run_q_head := (run_q_head s)(q := Some rp)\<rparr>"
  have tl: "run_q_tail s q = last_of (rp # Q q)" using queuesD(2) [OF Q q(1)] False by (simp add: last_of_def)
  have o: "only_queue q (insert rp (set (Q q))) s ?t" by (rule only_queueI) (simp_all add: kvars_def)
  have "queues (put_first rp q Q) ?t"
    by (rule link_first [OF Q q new _ _ o]) (use tl in \<open>simp_all add: h run_cell_def split: link.split\<close>)
  with h o show ?thesis by (simp add: push_proc_def set_kproc_def wp_simps only_queue_def)
qed

section \<open>Making a process ready\<close>

lemma ready_start:
  assumes r: "ready_but {rp} Q s" and q: "queues P t" and c: "kcores t = kcores s"
    and rp: "proc_is_runnable (kprocs s rp)" "queue_of (kprocs s rp) = int k" "k < NR_SCHED_QUEUES"
    and P: "set (P k) = insert rp (set (Q k))" "\<And>j. j \<noteq> k \<Longrightarrow> P j = Q j"
  shows "ready P t"
  unfolding ready_but_def
proof (intro conjI allI impI ballI q; (elim conjE)?)
  fix x assume x: "proc_is_runnable (kprocs t x)"
  show "\<exists>q<NR_SCHED_QUEUES. queue_of (kprocs t x) = int q \<and> x \<in> set (P q)"
  proof (cases "x = rp")
    case True
    with rp P(1) show ?thesis using kcores_eq(2) [OF c, of rp] by auto
  next
    case False
    with x obtain j where j: "j < NR_SCHED_QUEUES" "queue_of (kprocs s x) = int j" "x \<in> set (Q j)"
      using ready_queue [OF r, of x] kcores_eq(3) [OF c] by auto
    then have "x \<in> set (P j)" using P by (cases "j = k") auto
    with j show ?thesis using kcores_eq(2) [OF c, of x] by auto
  qed
next
  fix j x assume j: "j < NR_SCHED_QUEUES" "x \<in> set (P j)"
  then have "x = rp \<or> x \<in> set (Q j)" using P by (cases "j = k") auto
  then show "proc_is_runnable (kprocs t x)" using rp(1) readyD(2) [OF r j(1)] kcores_eq(3) [OF c, of x] by auto
qed simp

text \<open>The current process \<open>c\<close> gives way to \<open>rp\<close>.\<close>

definition preempts :: "(nat \<Rightarrow> kproc) \<Rightarrow> nat \<Rightarrow> nat \<Rightarrow> bool" where
  "preempts tab c rp \<longleftrightarrow> queue_of (tab c) > queue_of (tab rp) \<and> kp_s_flags (tab c) AND PREEMPTIBLE \<noteq> 0"

definition preempt_queues :: "(nat \<Rightarrow> kproc) \<Rightarrow> nat \<Rightarrow> nat \<Rightarrow> (nat \<Rightarrow> nat list) \<Rightarrow> nat \<Rightarrow> nat list" where
  "preempt_queues tab c rp Q = (if preempts tab c rp then drop_proc c Q else Q)"

definition preempt_procs :: "(nat \<Rightarrow> kproc) \<Rightarrow> nat \<Rightarrow> nat \<Rightarrow> nat \<Rightarrow> kproc" where
  "preempt_procs tab c rp = (if preempts tab c rp then tab(c := set_flag RTS_PREEMPTED (tab c)) else tab)"

lemma preempts_kcores [simp]: "preempts (kcores s) = preempts (kprocs s)"
  by (simp add: preempts_def kcores_def fun_eq_iff)

lemma kvars_proc: "kvars t = kvars s \<Longrightarrow> proc_ptr t = proc_ptr s"
  by (simp add: kvars_def)

lemma preempt_current_wp:
  fixes s :: "'w krn"
  assumes "ready Q s" and "proc_ptr s = Some c"
  shows "wp (preempt_current os rp) (\<lambda>r t. r = c \<and> ready (preempt_queues (kcores s) c rp Q) t
    \<and> kcores t = preempt_procs (kcores s) c rp \<and> kvars t = kvars s) s"
proof -
  have "wp (RTS_SET os c RTS_PREEMPTED) (\<lambda>_ t. ready (drop_proc c Q) t \<and> kcores t = (kcores s)(c := set_flag RTS_PREEMPTED (kcores s c))
    \<and> kvars t = kvars s) s"
    by (rule RTS_SET_wp [OF assms(1)]) simp_all
  with assms show ?thesis
    by (simp add: preempt_current_def preempt_queues_def preempt_procs_def preempts_def wp_simps)
qed

lemma stamp_current_wp:
  assumes "queues Q s" and "proc_ptr s = Some c"
  shows "wp (stamp_current os) (\<lambda>_ t. queues Q t \<and> kcores t = kcores s \<and> kvars t = kvars s) s"
proof -
  let ?u = "s\<lparr>p_world := snd (kr_read_tsc os (p_world s))\<rparr>"
  have "wp (set_kproc c (\<lambda>p. p\<lparr>kp_enter_queue := v\<rparr>)) (\<lambda>_ t. queues Q t \<and> kcores t = kcores ?u \<and> kvars t = kvars ?u) ?u" for v
    by (rule set_kproc_same) (use assms in \<open>simp_all add: kcore_def\<close>)
  with assms show ?thesis by (simp add: stamp_current_def wp_simps)
qed

lemma ready_absent: "ready_but {rp} Q s \<Longrightarrow> q < NR_SCHED_QUEUES \<Longrightarrow> rp \<notin> set (Q q)"
  using readyD(2) by blast

lemma enqueue_wp:
  fixes s :: "'w krn"
  assumes r: "ready_but {rp} Q s" and run: "proc_is_runnable (kprocs s rp)"
    and q: "q < NR_SCHED_QUEUES" "queue_of (kprocs s rp) = int q" and c: "proc_ptr s = Some c"
  shows "wp (enqueue os rp) (\<lambda>_ t. ready (preempt_queues (kcores s) c rp (put_last rp q Q)) t
    \<and> kcores t = preempt_procs (kcores s) c rp \<and> kvars t = kvars s) s"
proof -
  let ?P = "\<lambda>_ t. ready (preempt_queues (kcores s) c rp (put_last rp q Q)) t
    \<and> kcores t = preempt_procs (kcores s) c rp \<and> kvars t = kvars s"
  have "wp (append_proc q rp) (\<lambda>_. wp (preempt_current os rp) (\<lambda>_. wp (stamp_current os) ?P)) s"
  proof (rule wp_mono [OF append_proc_wp [OF readyD(1) [OF r] q ready_absent [OF r q(1)]]])
    fix t :: "'w krn" assume t: "queues (put_last rp q Q) t \<and> kcores t = kcores s \<and> kvars t = kvars s"
    have rt: "ready (put_last rp q Q) t"
      by (rule ready_start [OF r _ _ run q(2,1)]) (use t in \<open>auto simp: put_last_def\<close>)
    have ct: "proc_ptr t = Some c" using t c kvars_proc by metis
    show "wp (preempt_current os rp) (\<lambda>_. wp (stamp_current os) ?P) t"
    proof (rule wp_mono [OF preempt_current_wp [OF rt ct]])
      fix x and u :: "'w krn"
      assume u: "x = c \<and> ready (preempt_queues (kcores t) c rp (put_last rp q Q)) u
        \<and> kcores u = preempt_procs (kcores t) c rp \<and> kvars u = kvars t"
      then have r: "ready (preempt_queues (kcores t) c rp (put_last rp q Q)) u" by simp
      show "wp (stamp_current os) ?P u"
      proof (rule wp_mono [OF stamp_current_wp [OF readyD(1) [OF r]]])
        show "proc_ptr u = Some c" using u ct kvars_proc by metis
        fix v :: "'w krn" assume v: "queues (preempt_queues (kcores t) c rp (put_last rp q Q)) v \<and> kcores v = kcores u \<and> kvars v = kvars u"
        then have "ready (preempt_queues (kcores t) c rp (put_last rp q Q)) v" using ready_cong [OF r] by blast
        then show "?P () v" using t u v by simp
      qed
    qed
  qed
  with run q show ?thesis by (simp add: enqueue_def wp_simps)
qed

end
