(* ===== verification/Krn_Calls.thy ===== *)
theory Krn_Calls
  imports Krn_Enqueue
begin

text \<open>
  Waking and rescheduling a process: \<open>RTS_UNSET\<close>, \<open>enqueue_head\<close>, \<open>pick_proc\<close>,
  \<open>sched_proc\<close> and the two kernel calls, as operations on the lists of runnable processes.
\<close>

section \<open>Waking\<close>

lemma ready_change:
  assumes r: "ready Q s" and n: "\<not> proc_is_runnable (kprocs s rp)" and q: "queues Q t"
    and c: "\<And>y. y \<noteq> rp \<Longrightarrow> kcores t y = kcores s y"
  shows "ready_but {rp} Q t"
proof -
  have y: "proc_is_runnable (kprocs t y) = proc_is_runnable (kprocs s y)" "queue_of (kprocs t y) = queue_of (kprocs s y)"
    if "y \<noteq> rp" for y
    using c [OF that] unfolding kcores_def by (metis kcore_simps)+
  have a: "y \<noteq> rp" if "k < NR_SCHED_QUEUES" "y \<in> set (Q k)" for k y using readyD(2) [OF r that] n by auto
  show ?thesis unfolding ready_but_def
  proof (intro conjI allI impI ballI q; (elim conjE)?)
    fix x assume x: "proc_is_runnable (kprocs t x)" "x \<notin> {rp}"
    with y r show "\<exists>q<NR_SCHED_QUEUES. queue_of (kprocs t x) = int q \<and> x \<in> set (Q q)" by (simp add: ready_but_def)
  next
    fix k x assume k: "k < NR_SCHED_QUEUES" "x \<in> set (Q k)"
    then show "proc_is_runnable (kprocs t x)" "x \<notin> {rp}" using y readyD(2) [OF r k] a by auto
  qed
qed

lemma ready_asleep: "ready_but {rp} Q t \<Longrightarrow> \<not> proc_is_runnable (kprocs t rp) \<Longrightarrow> ready Q t"
  by (auto simp: ready_but_def)

lemma kcores_at: "kcores t = (kcores s)(rp := p) \<Longrightarrow> kcore (kprocs t rp) = p"
  by (metis fun_upd_same kcores_def)

text \<open>What is left of the queues and the table when \<open>rp\<close> has become what it is in \<open>tab\<close>.\<close>

definition wake_queues :: "(nat \<Rightarrow> kproc) \<Rightarrow> nat \<Rightarrow> nat \<Rightarrow> (nat \<Rightarrow> nat list) \<Rightarrow> nat \<Rightarrow> nat list" where
  "wake_queues tab c rp Q =
     (if proc_is_runnable (tab rp) then preempt_queues tab c rp (put_last rp (nat (queue_of (tab rp))) Q) else Q)"

definition wake_procs :: "(nat \<Rightarrow> kproc) \<Rightarrow> nat \<Rightarrow> nat \<Rightarrow> nat \<Rightarrow> kproc" where
  "wake_procs tab c rp = (if proc_is_runnable (tab rp) then preempt_procs tab c rp else tab)"

definition in_range :: "kproc \<Rightarrow> bool" where
  "in_range p \<longleftrightarrow> 0 \<le> queue_of p \<and> queue_of p < int NR_SCHED_QUEUES"

lemma RTS_UNSET_wp:
  fixes s :: "'w krn" and f :: u32
  assumes r: "ready Q s" and n: "\<not> proc_is_runnable (kprocs s rp)" and c: "proc_ptr s = Some c"
  defines "tab \<equiv> (kcores s)(rp := clear_flag f (kcores s rp))"
  assumes q: "proc_is_runnable (tab rp) \<Longrightarrow> in_range (tab rp)"
  shows "wp (RTS_UNSET os rp f) (\<lambda>_ t. ready (wake_queues tab c rp Q) t \<and> kcores t = wake_procs tab c rp \<and> kvars t = kvars s) s"
  unfolding RTS_UNSET_def wp_bnd wp_andthen wp_gets
proof (rule wp_mono [OF clear_flag_wp [OF readyD(1) [OF r]]], fold tab_def)
  fix t :: "'w krn"
  assume t: "queues Q t \<and> kcores t = tab \<and> kvars t = kvars s"
  have b: "ready_but {rp} Q t" by (rule ready_change [OF r n]) (use t in \<open>auto simp: tab_def\<close>)
  have k: "kcore (kprocs t rp) = tab rp" using t by (auto simp: tab_def intro: kcores_at)
  have run: "proc_is_runnable (kprocs t rp) = proc_is_runnable (tab rp)" and qu: "queue_of (kprocs t rp) = queue_of (tab rp)"
    using arg_cong [OF k, of proc_is_runnable] arg_cong [OF k, of queue_of] by simp_all
  have z: "kp_rts_flags (kprocs s rp) \<noteq> 0" using n by (simp add: proc_is_runnable_def)
  let ?P = "\<lambda>_ t. ready (wake_queues tab c rp Q) t \<and> kcores t = wake_procs tab c rp \<and> kvars t = kvars s"
  show "wp (if kp_rts_flags (kprocs s rp) \<noteq> 0 \<and> proc_is_runnable (kprocs t rp) then enqueue os rp else ret ()) ?P t"
  proof (cases "proc_is_runnable (tab rp)")
    case True
    define k where "k = nat (queue_of (tab rp))"
    have k: "k < NR_SCHED_QUEUES" "queue_of (kprocs t rp) = int k" using q [OF True] qu by (auto simp: in_range_def k_def)
    have "proc_ptr t = Some c" using t c kvars_proc by metis
    then have "wp (enqueue os rp) ?P t"
      by (intro wp_mono [OF enqueue_wp [OF b _ k]])
        (use t run True in \<open>auto simp: wake_queues_def wake_procs_def k_def\<close>)
    with z True run show ?thesis by simp
  next
    case False
    then have "ready Q t" using ready_asleep [OF b] run by blast
    then show ?thesis using t run False by (simp add: wp_simps wake_queues_def wake_procs_def)
  qed
qed

section \<open>Back to the head of the queue\<close>

lemma enqueue_head_wp:
  fixes s :: "'w krn"
  assumes r: "ready_but {rp} Q s" and run: "proc_is_runnable (kprocs s rp)" and time: "kp_cpu_time_left (kprocs s rp) \<noteq> 0"
    and q: "q < NR_SCHED_QUEUES" "queue_of (kprocs s rp) = int q" and c: "proc_ptr s = Some c"
  shows "wp (enqueue_head os rp) (\<lambda>_ t. ready (put_first rp q Q) t \<and> kcores t = kcores s \<and> kvars t = kvars s) s"
proof -
  let ?P = "\<lambda>_ t. ready (put_first rp q Q) t \<and> kcores t = kcores s \<and> kvars t = kvars s"
  have "wp (push_proc q rp) (\<lambda>_. wp (stamp_current os) (\<lambda>_. wp (set_kproc rp (\<lambda>p. p\<lparr>kp_dequeues := kp_dequeues p - 1, kp_preempted := kp_preempted p + 1\<rparr>)) ?P)) s"
  proof (rule wp_mono [OF push_proc_wp [OF readyD(1) [OF r] q ready_absent [OF r q(1)]]])
    fix t :: "'w krn" assume t: "queues (put_first rp q Q) t \<and> kcores t = kcores s \<and> kvars t = kvars s"
    have rt: "ready (put_first rp q Q) t"
      by (rule ready_start [OF r _ _ run q(2,1)]) (use t in \<open>auto simp: put_first_def\<close>)
    show "wp (stamp_current os) (\<lambda>_. wp (set_kproc rp (\<lambda>p. p\<lparr>kp_dequeues := kp_dequeues p - 1, kp_preempted := kp_preempted p + 1\<rparr>)) ?P) t"
    proof (rule wp_mono [OF stamp_current_wp [OF readyD(1) [OF rt]]])
      show "proc_ptr t = Some c" using t c kvars_proc by metis
      fix u :: "'w krn" assume u: "queues (put_first rp q Q) u \<and> kcores u = kcores t \<and> kvars u = kvars t"
      have "wp (set_kproc rp (\<lambda>p. p\<lparr>kp_dequeues := kp_dequeues p - 1, kp_preempted := kp_preempted p + 1\<rparr>))
        (\<lambda>_ v. queues (put_first rp q Q) v \<and> kcores v = kcores u \<and> kvars v = kvars u) u"
        by (rule set_kproc_same) (use u in \<open>simp_all add: kcore_def\<close>)
      then show "wp (set_kproc rp (\<lambda>p. p\<lparr>kp_dequeues := kp_dequeues p - 1, kp_preempted := kp_preempted p + 1\<rparr>)) ?P u"
        by (rule wp_mono) (use t u ready_cong [OF rt] in auto)
    qed
  qed
  with run time q show ?thesis by (simp add: enqueue_head_def wp_simps)
qed

section \<open>The next process\<close>

definition next_proc :: "(nat \<Rightarrow> nat list) \<Rightarrow> ptr" where
  "next_proc Q = (case first_slot (\<lambda>q. Q q \<noteq> []) [0..<NR_SCHED_QUEUES] of None \<Rightarrow> None | Some q \<Rightarrow> Some (hd (Q q)))"

lemma pick_queue_ready:
  assumes "queues Q s"
  shows "pick_queue (run_q_head s) = next_proc Q"
proof -
  have h: "run_q_head s q = first (Q q)" if "q < NR_SCHED_QUEUES" for q
    using chain_head [OF queuesD(1) [OF assms that]] by (simp add: run_cell_def)
  have "first_slot (\<lambda>q. run_q_head s q \<noteq> None) [0..<NR_SCHED_QUEUES] = first_slot (\<lambda>q. Q q \<noteq> []) [0..<NR_SCHED_QUEUES]"
    by (rule first_slot_cong) (use h first_eq(1) in \<open>auto simp: list_all2_same\<close>)
  moreover have "run_q_head s q = Some (hd (Q q))" if "first_slot (\<lambda>q. Q q \<noteq> []) [0..<NR_SCHED_QUEUES] = Some q" for q
    using that h [of q] by (cases "Q q") (auto simp: first_slot_Some)
  ultimately show ?thesis by (auto simp: pick_queue_def next_proc_def split: option.split)
qed

lemma next_proc_Some: "next_proc Q = Some p \<longleftrightarrow> (\<exists>q < NR_SCHED_QUEUES. \<exists>xs. Q q = p # xs \<and> (\<forall>k < q. Q k = []))"
proof
  assume "next_proc Q = Some p"
  then obtain q where "first_slot (\<lambda>q. Q q \<noteq> []) [0..<NR_SCHED_QUEUES] = Some q" "p = hd (Q q)"
    by (auto simp: next_proc_def split: option.splits)
  then show "\<exists>q < NR_SCHED_QUEUES. \<exists>xs. Q q = p # xs \<and> (\<forall>k < q. Q k = [])"
    by (intro exI [of _ q] conjI exI [of _ "tl (Q q)"]) (auto simp: first_slot_Some)
next
  assume "\<exists>q < NR_SCHED_QUEUES. \<exists>xs. Q q = p # xs \<and> (\<forall>k < q. Q k = [])"
  then obtain q xs where q: "q < NR_SCHED_QUEUES" "Q q = p # xs" "\<forall>k < q. Q k = []" by blast
  then have "first_slot (\<lambda>q. Q q \<noteq> []) [0..<NR_SCHED_QUEUES] = Some q" by (auto simp: first_slot_Some)
  with q show "next_proc Q = Some p" by (simp add: next_proc_def)
qed

lemma next_proc_None: "next_proc Q = None \<longleftrightarrow> (\<forall>q < NR_SCHED_QUEUES. Q q = [])"
proof -
  have "next_proc Q = None \<longleftrightarrow> first_slot (\<lambda>q. Q q \<noteq> []) [0..<NR_SCHED_QUEUES] = None"
    by (simp add: next_proc_def split: option.split)
  then show ?thesis by (auto simp: first_slot_None)
qed

text \<open>It is runnable, and no runnable process is more urgent.\<close>

lemma next_proc_urgent:
  assumes r: "ready Q s" and p: "next_proc Q = Some p" and x: "proc_is_runnable (kprocs s x)"
  shows "proc_is_runnable (kprocs s p)" "queue_of (kprocs s p) \<le> queue_of (kprocs s x)"
proof -
  from p obtain q xs where q: "q < NR_SCHED_QUEUES" "Q q = p # xs" "\<forall>k < q. Q k = []" by (auto simp: next_proc_Some)
  then show "proc_is_runnable (kprocs s p)" using readyD(2) [OF r q(1)] by simp
  from x obtain k where k: "k < NR_SCHED_QUEUES" "queue_of (kprocs s x) = int k" "x \<in> set (Q k)" by (rule ready_queue [OF r]) simp
  have "q \<le> k" using q(3) k(3) by (metis linorder_not_less empty_iff list.set(1))
  then show "queue_of (kprocs s p) \<le> queue_of (kprocs s x)" using readyD(3) [OF r q(1)] q(2) k(2) by simp
qed

lemma next_proc_idle:
  assumes r: "ready Q s"
  shows "next_proc Q = None \<longleftrightarrow> (\<forall>x. \<not> proc_is_runnable (kprocs s x))"
  unfolding next_proc_None
proof
  assume a: "\<forall>q < NR_SCHED_QUEUES. Q q = []"
  show "\<forall>x. \<not> proc_is_runnable (kprocs s x)"
  proof (intro allI notI)
    fix x assume "proc_is_runnable (kprocs s x)"
    then obtain q where "q < NR_SCHED_QUEUES" "x \<in> set (Q q)" by (rule ready_queue [OF r]) auto
    with a show False by simp
  qed
next
  assume n: "\<forall>x. \<not> proc_is_runnable (kprocs s x)"
  have "x \<notin> set (Q q)" if "q < NR_SCHED_QUEUES" for q x using readyD(2) [OF r that] n by blast
  then show "\<forall>q < NR_SCHED_QUEUES. Q q = []" by (metis hd_in_set)
qed

definition billed :: "'w krn \<Rightarrow> ptr \<Rightarrow> 'w krn" where
  "billed s r = (case r of None \<Rightarrow> s | Some p \<Rightarrow> if kp_s_flags (kprocs s p) AND BILLABLE \<noteq> 0 then s\<lparr>bill_ptr := r\<rparr> else s)"

lemma pick_proc_wp:
  assumes r: "ready Q s"
  shows "wp pick_proc (\<lambda>r t. r = next_proc Q \<and> t = billed s r) s"
proof (cases "next_proc Q")
  case None
  then show ?thesis using pick_queue_ready [OF readyD(1) [OF r]] by (simp add: pick_proc_def wp_simps billed_def)
next
  case (Some p)
  then obtain q xs where q: "q < NR_SCHED_QUEUES" "Q q = p # xs" by (auto simp: next_proc_Some)
  then have "proc_is_runnable (kprocs s p)" using readyD(2) [OF r q(1)] by simp
  then show ?thesis using pick_queue_ready [OF readyD(1) [OF r]] Some by (simp add: pick_proc_def wp_simps billed_def)
qed

section \<open>Rescheduling\<close>

text \<open>The entry of a process with a new priority and a new quantum.\<close>

definition given :: "'w krn_os \<Rightarrow> s32 \<Rightarrow> s32 \<Rightarrow> kproc \<Rightarrow> kproc" where
  "given os prio quantum p =
     (let p = (if prio \<noteq> - 1 then p\<lparr>kp_priority := ucast prio\<rparr> else p) in
      if quantum \<noteq> - 1 then p\<lparr>kp_quantum_size_ms := quantum, kp_cpu_time_left := kr_ms_2_cpu_time os quantum\<rparr> else p)"

lemma given_simps [simp]:
  "kp_rts_flags (given os prio quantum p) = kp_rts_flags p" "kp_nextready (given os prio quantum p) = kp_nextready p"
  "kcore (given os prio quantum p) = given os prio quantum (kcore p)"
  "given os prio quantum (p\<lparr>kp_rts_flags := v\<rparr>) = (given os prio quantum p)\<lparr>kp_rts_flags := v\<rparr>"
  by (simp_all add: given_def kcore_def Let_def)

lemma given_priority: "prio \<noteq> - 1 \<Longrightarrow> kp_priority (given os prio quantum p) = ucast prio"
  by (simp add: given_def Let_def)

lemma given_queue:
  assumes "0 \<le> sint prio" and "sint prio < 128"
  shows "queue_of (given os prio quantum p) = sint prio"
proof -
  have n: "prio \<noteq> - 1" using assms(1) by auto
  have "sint (ucast prio :: 8 word) = signed_take_bit 7 (take_bit 8 (uint prio))"
    by (simp add: sint_uint unsigned_ucast_eq)
  also have "\<dots> = signed_take_bit 7 (signed_take_bit 31 (uint prio))"
    by (simp add: signed_take_bit_take_bit signed_take_bit_signed_take_bit)
  also have "signed_take_bit 31 (uint prio) = sint prio" by (simp add: sint_uint)
  also have "signed_take_bit 7 (sint prio) = sint prio" by (rule signed_take_bit_int_eq_self) (use assms in auto)
  finally have "sint (ucast prio :: 8 word) = sint prio" .
  with n show ?thesis by (simp add: queue_of_def given_priority)
qed

end
