(* ===== verification/Krn_Resched.thy ===== *)
theory Krn_Resched
  imports Krn_Calls
begin

text \<open>
  The kernel calls of the scheduler: a rescheduled process leaves its queue and goes to the end
  of the queue of its new priority.
\<close>

section \<open>Out of the queue\<close>

lemma ready_same: "ready_but R Q s \<Longrightarrow> (\<And>q. q < NR_SCHED_QUEUES \<Longrightarrow> P q = Q q) \<Longrightarrow> ready_but R P s"
  by (simp add: ready_but_def queues_def cong: conj_cong)

text \<open>The first half of \<open>sched_proc\<close>: the process is in no queue, with the flag set if it was in one.\<close>

definition halted :: "nat \<Rightarrow> (nat \<Rightarrow> nat list) \<Rightarrow> 'w krn \<Rightarrow> 'w krn \<Rightarrow> bool" where
  "halted p Q s t \<longleftrightarrow> ready (drop_proc p Q) t \<and> \<not> proc_is_runnable (kprocs t p)
     \<and> clear_flag RTS_NO_QUANTUM (kcores t p) = clear_flag RTS_NO_QUANTUM (kcores s p)
     \<and> (\<forall>x. x \<noteq> p \<longrightarrow> kcores t x = kcores s x) \<and> kvars t = kvars s"

lemma drop_ready: "ready Q s \<Longrightarrow> \<not> proc_is_runnable (kprocs s p) \<Longrightarrow> ready (drop_proc p Q) s"
proof (rule ready_same)
  fix q assume "ready Q s" "\<not> proc_is_runnable (kprocs s p)" "q < NR_SCHED_QUEUES"
  then have "p \<notin> set (Q q)" using readyD(2) by blast
  then show "drop_proc p Q q = Q q" by (simp add: drop_proc_def remove1_idem)
qed

lemma halt_wp:
  fixes s :: "'w krn"
  assumes r: "ready Q s"
  shows "wp (bnd (gets (\<lambda>s. proc_is_runnable (kprocs s p))) (\<lambda>run. if run then RTS_SET os p RTS_NO_QUANTUM else ret ()))
    (\<lambda>_. halted p Q s) s"
proof (cases "proc_is_runnable (kprocs s p)")
  case True
  have "wp (RTS_SET os p RTS_NO_QUANTUM) (\<lambda>_. halted p Q s) s"
  proof (rule wp_mono [OF RTS_SET_wp [OF r]])
    fix t :: "'w krn"
    assume t: "ready (drop_proc p Q) t \<and> kcores t = (kcores s)(p := set_flag RTS_NO_QUANTUM (kcores s p)) \<and> kvars t = kvars s"
    then have k: "kcore (kprocs t p) = set_flag RTS_NO_QUANTUM (kcores s p)" by (intro kcores_at) simp
    have f: "kp_rts_flags (kcores s p) = 0" using True by (simp add: kcores_def proc_is_runnable_def)
    have "\<not> proc_is_runnable (kcore (kprocs t p))" unfolding k by (simp add: proc_is_runnable_def f)
    moreover have "clear_flag RTS_NO_QUANTUM (kcores t p) = clear_flag RTS_NO_QUANTUM (kcores s p)"
      using f t by simp
    ultimately show "halted p Q s t" using t by (simp add: halted_def)
  qed simp_all
  with True show ?thesis by (simp add: wp_simps)
next
  case False
  then show ?thesis using drop_ready [OF r False] by (simp add: wp_simps halted_def)
qed

lemma set_given_wp:
  fixes s :: "'w krn"
  assumes h: "halted p Q s t"
    and f: "\<And>r. kp_nextready (f r) = kp_nextready r" "\<And>r. kcore (f r) = f (kcore r)" "\<And>r. kp_rts_flags (f r) = kp_rts_flags r"
  shows "wp (set_kproc p f) (\<lambda>_ u. ready (drop_proc p Q) u \<and> kcores u = (kcores t)(p := f (kcores t p)) \<and> kvars u = kvars t) t"
proof -
  have r: "ready (drop_proc p Q) t" and n: "\<not> proc_is_runnable (kprocs t p)" using h by (simp_all add: halted_def)
  have a: "p \<notin> set (drop_proc p Q k)" if "k < NR_SCHED_QUEUES" for k using readyD(2) [OF r that] n by blast
  show ?thesis
  proof (rule wp_mono [OF set_kproc_wp [of f "drop_proc p Q" t p]])
    fix u :: "'w krn"
    assume u: "queues (drop_proc p Q) u \<and> kcores u = (kcores t)(p := f (kcores t p)) \<and> kvars u = kvars t"
    have b: "ready_but {p} (drop_proc p Q) u" by (rule ready_change [OF r n]) (use u in auto)
    have "kcore (kprocs u p) = f (kcores t p)" using u by (intro kcores_at) simp
    then have "proc_is_runnable (kprocs u p) = proc_is_runnable (f (kcores t p))" by (metis kcore_simps(3))
    also have "\<dots> = proc_is_runnable (kprocs t p)" using f(3) by (simp add: proc_is_runnable_def kcores_def)
    finally have "ready (drop_proc p Q) u" using ready_asleep [OF b] n by blast
    with u show "ready (drop_proc p Q) u \<and> kcores u = (kcores t)(p := f (kcores t p)) \<and> kvars u = kvars t" by blast
  qed (use f a readyD(1) [OF r] in auto)
qed

definition rescheduled :: "'w krn_os \<Rightarrow> nat \<Rightarrow> s32 \<Rightarrow> s32 \<Rightarrow> (nat \<Rightarrow> kproc) \<Rightarrow> nat \<Rightarrow> kproc" where
  "rescheduled os p prio quantum tab = tab(p := clear_flag RTS_NO_QUANTUM (given os prio quantum (tab p)))"

definition accepted :: "s32 \<Rightarrow> s32 \<Rightarrow> bool" where
  "accepted prio quantum \<longleftrightarrow> (prio = - 1 \<or> 0 \<le> sint prio \<and> sint prio < int NR_SCHED_QUEUES) \<and> (quantum = - 1 \<or> 1 \<le> sint quantum)"

definition set_given :: "'w krn_os \<Rightarrow> nat \<Rightarrow> s32 \<Rightarrow> s32 \<Rightarrow> ('w, unit) kprog" where
  "set_given os p prio quantum =
     andthen (if prio \<noteq> - 1 then set_kproc p (\<lambda>r. r\<lparr>kp_priority := ucast prio\<rparr>) else ret ())
       (if quantum \<noteq> - 1 then
          set_kproc p (\<lambda>r. r\<lparr>kp_quantum_size_ms := quantum, kp_cpu_time_left := kr_ms_2_cpu_time os quantum\<rparr>)
        else ret ())"

lemma set_given_eq: "set_given os p prio quantum = set_kproc p (given os prio quantum)"
  by (rule ext) (auto simp: set_given_def set_kproc_def given_def prog_defs Let_def)

lemma bnd_assoc: "bnd (bnd m f) g = bnd m (\<lambda>x. bnd (f x) g)"
  by (rule ext) (simp add: bnd_def split: option.split sum.split)

text \<open>\<open>sched_proc\<close> on accepted values, cut where the process is halted and where it is woken.\<close>

lemma sched_proc_cut:
  assumes "accepted prio quantum \<or> prio = 16 \<and> 1 \<le> sint quantum"
  shows "sched_proc os p prio quantum cpu =
    bnd (bnd (gets (\<lambda>s. proc_is_runnable (kprocs s p))) (\<lambda>run. if run then RTS_SET os p RTS_NO_QUANTUM else ret ())) (\<lambda>_.
    bnd (bnd (gets (\<lambda>s. proc_is_runnable (kprocs s p))) (\<lambda>run. if run then RTS_SET os p RTS_NO_QUANTUM else ret ())) (\<lambda>_.
    bnd (set_given os p prio quantum) (\<lambda>_. andthen (RTS_UNSET os p RTS_NO_QUANTUM) (ret OK))))"
proof -
  have g: "\<not> ((sint prio < TASK_Q \<and> prio \<noteq> - 1) \<or> sint prio > int NR_SCHED_QUEUES)" "\<not> (sint quantum < 1 \<and> quantum \<noteq> - 1)"
    using assms by (auto simp: accepted_def)
  show ?thesis unfolding sched_proc_def if_not_P [OF g(1)] if_not_P [OF g(2)]
    by (simp only: set_given_def andthen_def bnd_assoc)
qed

section \<open>Into the queue\<close>

lemma halted_again: "halted p Q s t \<Longrightarrow> bnd (gets (\<lambda>s. proc_is_runnable (kprocs s p))) (\<lambda>run. if run then RTS_SET os p RTS_NO_QUANTUM else ret ()) t = Some (Inr ((), t))"
  by (simp add: halted_def prog_defs)

text \<open>The state before the process is woken.\<close>

definition prepared :: "'w krn_os \<Rightarrow> nat \<Rightarrow> s32 \<Rightarrow> s32 \<Rightarrow> (nat \<Rightarrow> nat list) \<Rightarrow> 'w krn \<Rightarrow> 'w krn \<Rightarrow> bool" where
  "prepared os p prio quantum Q s u \<longleftrightarrow> ready (drop_proc p Q) u \<and> \<not> proc_is_runnable (kprocs u p)
     \<and> (kcores u)(p := clear_flag RTS_NO_QUANTUM (kcores u p)) = rescheduled os p prio quantum (kcores s) \<and> kvars u = kvars s"

lemma prepare_wp:
  fixes t :: "'w krn"
  assumes h: "halted p Q s t"
  shows "wp (set_given os p prio quantum) (\<lambda>_. prepared os p prio quantum Q s) t"
  unfolding set_given_eq
proof (rule wp_mono [OF set_given_wp [OF h]])
  fix u :: "'w krn"
  assume u: "ready (drop_proc p Q) u \<and> kcores u = (kcores t)(p := given os prio quantum (kcores t p)) \<and> kvars u = kvars t"
  have k: "kcore (kprocs u p) = given os prio quantum (kcores t p)" using u by (intro kcores_at) simp
  have "proc_is_runnable (kprocs u p) = proc_is_runnable (kcores t p)"
    using arg_cong [OF k, of kp_rts_flags] by (simp add: proc_is_runnable_def)
  then have n: "\<not> proc_is_runnable (kprocs u p)" using h by (simp add: halted_def kcores_def)
  have "clear_flag RTS_NO_QUANTUM (given os prio quantum (kcores t p)) = given os prio quantum (clear_flag RTS_NO_QUANTUM (kcores t p))" by simp
  also have "\<dots> = given os prio quantum (clear_flag RTS_NO_QUANTUM (kcores s p))" using h by (simp only: halted_def)
  also have "\<dots> = clear_flag RTS_NO_QUANTUM (given os prio quantum (kcores s p))" by simp
  finally have c: "clear_flag RTS_NO_QUANTUM (given os prio quantum (kcores t p)) = clear_flag RTS_NO_QUANTUM (given os prio quantum (kcores s p))" .
  have "(kcores u)(p := clear_flag RTS_NO_QUANTUM (kcores u p)) = rescheduled os p prio quantum (kcores s)"
    using u c h by (auto simp: rescheduled_def halted_def fun_eq_iff)
  then show "prepared os p prio quantum Q s u" using u n h by (simp add: prepared_def halted_def)
qed simp_all

lemma sched_proc_prepared:
  fixes s :: "'w krn"
  assumes r: "ready Q s" and a: "accepted prio quantum \<or> prio = 16 \<and> 1 \<le> sint quantum"
  obtains u where "prepared os p prio quantum Q s u"
    "sched_proc os p prio quantum cpu s = andthen (RTS_UNSET os p RTS_NO_QUANTUM) (ret OK) u"
proof -
  from halt_wp [OF r, of p os] obtain t where
    t: "bnd (gets (\<lambda>s. proc_is_runnable (kprocs s p))) (\<lambda>run. if run then RTS_SET os p RTS_NO_QUANTUM else ret ()) s = Some (Inr ((), t))"
    and h: "halted p Q s t" by (auto simp: wp_def)
  from prepare_wp [OF h, of os prio quantum] obtain u where
    u: "set_given os p prio quantum t = Some (Inr ((), u))" and b: "prepared os p prio quantum Q s u" by (auto simp: wp_def)
  have "sched_proc os p prio quantum cpu s = andthen (RTS_UNSET os p RTS_NO_QUANTUM) (ret OK) u"
    unfolding sched_proc_cut [OF a] bnd_def [of "bnd m k" for m k] t option.case sum.case fst_conv snd_conv
      halted_again [OF h] bnd_def [of "set_given os p prio quantum"] u ..
  with b show ?thesis by (rule that)
qed

lemma sched_proc_wp:
  fixes s :: "'w krn" and os :: "'w krn_os" and p :: nat
  assumes r: "ready Q s" and c: "proc_ptr s = Some c" and a: "accepted prio quantum"
  defines "tab \<equiv> rescheduled os p prio quantum (kcores s)"
  assumes q: "proc_is_runnable (tab p) \<Longrightarrow> in_range (tab p)"
  shows "wp (sched_proc os p prio quantum cpu) (\<lambda>r t. r = OK \<and> ready (wake_queues tab c p (drop_proc p Q)) t
    \<and> kcores t = wake_procs tab c p \<and> kvars t = kvars s) s"
proof -
  from a have "accepted prio quantum \<or> prio = 16 \<and> 1 \<le> sint quantum" by simp
  from sched_proc_prepared [OF r this, of os p cpu] obtain u where u: "prepared os p prio quantum Q s u"
    and e: "sched_proc os p prio quantum cpu s = andthen (RTS_UNSET os p RTS_NO_QUANTUM) (ret OK) u" by blast
  have p: "ready (drop_proc p Q) u" "\<not> proc_is_runnable (kprocs u p)"
    and t: "(kcores u)(p := clear_flag RTS_NO_QUANTUM (kcores u p)) = tab" and v: "kvars u = kvars s"
    using u unfolding prepared_def tab_def by blast+
  have cu: "proc_ptr u = Some c" using c kvars_proc [OF v] by simp
  have "wp (RTS_UNSET os p RTS_NO_QUANTUM) (\<lambda>_ t. ready (wake_queues tab c p (drop_proc p Q)) t \<and> kcores t = wake_procs tab c p \<and> kvars t = kvars u) u"
    unfolding t [symmetric] by (rule RTS_UNSET_wp [OF p cu]) (use q in \<open>simp only: t\<close>)
  then have "wp (andthen (RTS_UNSET os p RTS_NO_QUANTUM) (ret OK)) (\<lambda>r t. r = OK \<and> ready (wake_queues tab c p (drop_proc p Q)) t
    \<and> kcores t = wake_procs tab c p \<and> kvars t = kvars s) u"
    unfolding wp_andthen wp_ret by (rule wp_mono) (simp add: v)
  then show ?thesis unfolding wp_def e .
qed

text \<open>Priority sixteen is let through, and indexes the arrays behind their end.\<close>

lemma RTS_UNSET_sixteen:
  assumes "\<not> proc_is_runnable (kprocs u p)" and "kp_rts_flags (kprocs u p) AND NOT f = 0" and "queue_of (kprocs u p) = 16"
  shows "RTS_UNSET os p f u = Some (Inl OutOfBounds)"
  using assms by (simp add: RTS_UNSET_def enqueue_def set_kproc_def prog_defs proc_is_runnable_def)

lemma sched_proc_sixteen:
  fixes s :: "'w krn"
  assumes r: "ready Q s" and f: "kp_rts_flags (kprocs s p) AND NOT RTS_NO_QUANTUM = 0" and q: "1 \<le> sint quantum"
  shows "sched_proc os p 16 quantum cpu s = Some (Inl OutOfBounds)"
proof -
  have "accepted 16 quantum \<or> (16 :: s32) = 16 \<and> 1 \<le> sint quantum" using q by simp
  from sched_proc_prepared [OF r this, of os p cpu] obtain u where u: "prepared os p 16 quantum Q s u"
    and e: "sched_proc os p 16 quantum cpu s = andthen (RTS_UNSET os p RTS_NO_QUANTUM) (ret OK) u" by blast
  have p: "\<not> proc_is_runnable (kprocs u p)"
    and t: "(kcores u)(p := clear_flag RTS_NO_QUANTUM (kcores u p)) = rescheduled os p 16 quantum (kcores s)"
    using u unfolding prepared_def by blast+
  have k: "clear_flag RTS_NO_QUANTUM (kcores u p) = clear_flag RTS_NO_QUANTUM (given os 16 quantum (kcores s p))"
    using fun_cong [OF t, of p] by (simp only: rescheduled_def fun_upd_same)
  have "kp_rts_flags (kprocs u p) AND NOT RTS_NO_QUANTUM = 0"
    using arg_cong [OF k, of kp_rts_flags] f by (simp add: kcores_def)
  moreover have "queue_of (kprocs u p) = 16"
    using arg_cong [OF k, of queue_of] given_queue [of 16 os quantum "kcores s p"] by (simp add: kcores_def)
  ultimately have "RTS_UNSET os p RTS_NO_QUANTUM u = Some (Inl OutOfBounds)" using p by (intro RTS_UNSET_sixteen)
  then show ?thesis by (simp add: e andthen_def bnd_def)
qed

end
