(* ===== verification/Krn_Check.thy ===== *)
theory Krn_Check
  imports Krn_Resched
begin

text \<open>
  The kernel's own check of its run queues, \<open>runqueues_ok_cpu\<close> of \<open>kernel/debug.c\<close>, and the
  count of ready processes for the load average, \<open>load_update\<close> of \<open>kernel/clock.c\<close>.
\<close>

section \<open>The check\<close>

definition MAX_LOOP :: nat where [simp]: "MAX_LOOP = NR_PROCS + NR_TASKS"

definition RTS_ISSET :: "kproc \<Rightarrow> u32 \<Rightarrow> bool" where
  "RTS_ISSET p f \<longleftrightarrow> kp_rts_flags p AND f = f"

text \<open>A complaint ends the check.\<close>

definition complain :: "string \<Rightarrow> ('w, 'a + 'b option) kprog" where
  "complain msg = andthen (print msg) (ret (Inr None))"

definition p_nr :: "nat \<Rightarrow> int" where
  "p_nr x = int x - int NR_TASKS"

definition queue_turn :: "nat \<Rightarrow> ptr \<times> nat \<Rightarrow> ('w, ptr \<times> nat + nat option) kprog" where
  "queue_turn q v = (case fst v of
       None \<Rightarrow> ret (Inr (Some (snd v)))
     | Some x \<Rightarrow>
         bnd (gets (\<lambda>s. kprocs s x)) (\<lambda>p. bnd (gets (\<lambda>s. run_q_tail s q)) (\<lambda>tail.
         if x \<ge> NR_TASKS + NR_PROCS then complain ''xp out of range\<newline>''
         else if RTS_ISSET p RTS_SLOT_FREE then
           complain (''scheduling error: dead proc q '' @ fmt_d (int q) @ '' '' @ fmt_d (sint (kp_endpoint p)) @ ''\<newline>'')
         else if \<not> proc_is_runnable p then
           complain (''scheduling error: unready on runq '' @ fmt_d (int q) @ '' proc '' @ fmt_d (p_nr x) @ ''\<newline>'')
         else if queue_of p \<noteq> int q then
           complain (''scheduling error: wrong priority q '' @ fmt_d (int q) @ '' proc '' @ fmt_d (p_nr x) @ '' ep ''
             @ fmt_d (sint (kp_endpoint p)) @ '' name '' @ kp_name p @ ''\<newline>'')
         else if kp_found p then
           complain (''scheduling error: double sched q '' @ fmt_d (int q) @ '' proc '' @ fmt_d (p_nr x) @ ''\<newline>'')
         else
           andthen (set_kproc x (\<lambda>p. p\<lparr>kp_found := True\<rparr>)) (
           if kp_nextready p = None \<and> tail \<noteq> Some x then
             complain (''sched err: last element not tail q '' @ fmt_d (int q) @ '' proc '' @ fmt_d (p_nr x) @ ''\<newline>'')
           else if snd v > MAX_LOOP then complain ''loop in schedule queue?''
           else ret (Inl (kp_nextready p, snd v + 1))))))"

definition queue_check :: "nat \<Rightarrow> nat \<Rightarrow> ('w, nat option) kprog" where
  "queue_check q l = bnd (gets (\<lambda>s. run_q_head s q)) (\<lambda>head. bnd (gets (\<lambda>s. run_q_tail s q)) (\<lambda>tail.
     bnd (gets (\<lambda>s. case tail of None \<Rightarrow> None | Some t \<Rightarrow> kp_nextready (kprocs s t))) (\<lambda>behind.
     if head \<noteq> None \<and> tail = None then andthen (print (''head but no tail in '' @ fmt_d (int q) @ ''\<newline>'')) (ret None)
     else if head = None \<and> tail \<noteq> None then andthen (print (''tail but no head in '' @ fmt_d (int q) @ ''\<newline>'')) (ret None)
     else if behind \<noteq> None then andthen (print (''tail and tail->next not null in '' @ fmt_d (int q) @ ''\<newline>'')) (ret None)
     else loop_m (queue_turn q) (head, l))))"

primrec check_queues :: "nat list \<Rightarrow> nat \<Rightarrow> ('w, nat option) kprog" where
  "check_queues [] l = ret (Some l)"
| "check_queues (q # qs) l = bnd (queue_check q l) (\<lambda>r. case r of None \<Rightarrow> ret None | Some l \<Rightarrow> check_queues qs l)"

primrec check_procs :: "nat list \<Rightarrow> ('w, bool) kprog" where
  "check_procs [] = ret True"
| "check_procs (x # xs) = bnd (gets (\<lambda>s. kprocs s x)) (\<lambda>p.
     if isemptyp p then check_procs xs
     else if proc_is_runnable p \<and> \<not> kp_found p then
       andthen (print (''sched error: ready proc '' @ fmt_d (p_nr x) @ '' not on queue\<newline>'')) (ret False)
     else check_procs xs)"

definition runqueues_ok_cpu :: "('w, int) kprog" where
  "runqueues_ok_cpu =
     andthen (for_m [0..<NR_TASKS + NR_PROCS] (\<lambda>x.
       andthen (set_kproc x (\<lambda>p. p\<lparr>kp_found := False\<rparr>)) (check Panic (\<not> x > MAX_LOOP)))) (
     bnd (check_queues [0..<NR_SCHED_QUEUES] 0) (\<lambda>r. case r of
       None \<Rightarrow> ret 0
     | Some _ \<Rightarrow> bnd (check_procs [0..<NR_TASKS + NR_PROCS]) (\<lambda>ok. ret (if ok then 1 else 0))))"

section \<open>The load\<close>

definition LOAD_UNIT_SECS :: u32 where [simp]: "LOAD_UNIT_SECS = 6"
definition LOAD_HISTORY :: nat where [simp]: "LOAD_HISTORY = 60 * 15 div 6"

definition count_turn :: "ptr \<times> nat \<Rightarrow> ('w, ptr \<times> nat + nat) kprog" where
  "count_turn v = (case fst v of
       None \<Rightarrow> ret (Inr (snd v))
     | Some p \<Rightarrow> bnd (gets (\<lambda>s. kp_nextready (kprocs s p))) (\<lambda>next. ret (Inl (next, snd v + 1))))"

primrec count_queues :: "nat list \<Rightarrow> nat \<Rightarrow> ('w, nat) kprog" where
  "count_queues [] n = ret n"
| "count_queues (q # qs) n = bnd (gets (\<lambda>s. run_q_head s q)) (\<lambda>head. bnd (loop_m count_turn (head, n)) (count_queues qs))"

definition set_load :: "(loadinfo \<Rightarrow> loadinfo) \<Rightarrow> ('w, unit) kprog" where
  "set_load f = modify (\<lambda>s. s\<lparr>kloadinfo := f (kloadinfo s)\<rparr>)"

definition load_update :: "('w, unit) kprog" where
  "load_update = bnd (gets monotonic) (\<lambda>now. bnd (gets system_hz) (\<lambda>hz.
     andthen (check DivByZero (hz \<noteq> 0)) (
     let slot = unat (now div hz div LOAD_UNIT_SECS) mod LOAD_HISTORY in
     bnd (gets (\<lambda>s. proc_last_slot (kloadinfo s))) (\<lambda>last.
     andthen (if of_nat slot \<noteq> last then set_load (\<lambda>l. l\<lparr>proc_load_history := (proc_load_history l)[slot := 0], proc_last_slot := of_nat slot\<rparr>)
       else ret ()) (
     bnd (count_queues [0..<NR_SCHED_QUEUES] 0) (\<lambda>enqueued.
     set_load (\<lambda>l. l\<lparr>proc_load_history := (proc_load_history l)[slot := proc_load_history l ! slot + of_nat enqueued],
       last_clock := now\<rparr>)))))))"

end
