(* ===== verification/Krn_Sane.thy ===== *)
theory Krn_Sane
  imports Krn_Check
begin

text \<open>
  The check of the run queues returns one exactly when the queues hold the runnable processes;
  and the count for the load average is the number of these processes.
\<close>

section \<open>What the check writes\<close>

definition unmarked :: "'w krn \<Rightarrow> 'w krn" where
  "unmarked s = s\<lparr>kprocs := \<lambda>x. (kprocs s x)\<lparr>kp_found := False\<rparr>, p_out := []\<rparr>"

definition found :: "'w krn \<Rightarrow> nat set" where
  "found s = {x. x < NR_TASKS + NR_PROCS \<and> kp_found (kprocs s x)}"

lemma found_finite [simp]: "finite (found s)" and found_card: "card (found s) \<le> NR_TASKS + NR_PROCS"
proof -
  have s: "found s \<subseteq> {..<NR_TASKS + NR_PROCS}" by (auto simp: found_def)
  then show "finite (found s)" by (rule finite_subset) simp
  show "card (found s) \<le> NR_TASKS + NR_PROCS" using card_mono [OF _ s] by simp
qed

lemma unmarkedD:
  assumes "unmarked t = unmarked s"
  shows "kp_nextready (kprocs t x) = kp_nextready (kprocs s x)" "queue_of (kprocs t x) = queue_of (kprocs s x)"
    "proc_is_runnable (kprocs t x) = proc_is_runnable (kprocs s x)" "run_q_head t = run_q_head s" "run_q_tail t = run_q_tail s"
    "kp_rts_flags (kprocs t x) = kp_rts_flags (kprocs s x)"
proof -
  have "(kprocs t x)\<lparr>kp_found := False\<rparr> = (kprocs s x)\<lparr>kp_found := False\<rparr>"
    using fun_cong [OF arg_cong [OF assms, of kprocs], of x] by (simp add: unmarked_def)
  from arg_cong [OF this, of kp_nextready] arg_cong [OF this, of kp_rts_flags] arg_cong [OF this, of kp_priority]
  show "kp_nextready (kprocs t x) = kp_nextready (kprocs s x)" "queue_of (kprocs t x) = queue_of (kprocs s x)"
    "proc_is_runnable (kprocs t x) = proc_is_runnable (kprocs s x)" "kp_rts_flags (kprocs t x) = kp_rts_flags (kprocs s x)"
    by (simp_all add: queue_of_def proc_is_runnable_def)
  show "run_q_head t = run_q_head s" "run_q_tail t = run_q_tail s"
    using arg_cong [OF assms, of run_q_head] arg_cong [OF assms, of run_q_tail] by (simp_all add: unmarked_def)
qed

text \<open>The list behind a pointer, and what the check asks of the list of queue \<open>q\<close>.\<close>

primrec behind :: "'w krn \<Rightarrow> ptr \<Rightarrow> nat list \<Rightarrow> bool" where
  "behind s p [] = (p = None)"
| "behind s p (x # xs) = (p = Some x \<and> behind s (kp_nextready (kprocs s x)) xs)"

definition sound :: "'w krn \<Rightarrow> nat \<Rightarrow> nat set \<Rightarrow> nat list \<Rightarrow> bool" where
  "sound s q F xs \<longleftrightarrow> distinct xs \<and> set xs \<inter> F = {} \<and> (xs \<noteq> [] \<longrightarrow> run_q_tail s q = Some (last xs))
     \<and> (\<forall>x \<in> set xs. x < NR_TASKS + NR_PROCS \<and> proc_is_runnable (kprocs s x) \<and> queue_of (kprocs s x) = int q)"

lemma behind_None [simp]: "behind s None xs \<longleftrightarrow> xs = []"
  by (cases xs) simp_all

lemma behind_cong: "unmarked t = unmarked s \<Longrightarrow> behind t p xs = behind s p xs"
  using unmarkedD(1) [of t s] by (induction xs arbitrary: p) auto

lemma sound_cong: "unmarked t = unmarked s \<Longrightarrow> sound t q F xs = sound s q F xs"
  using unmarkedD [of t s] by (simp add: sound_def)

lemma sound_Cons:
  "sound s q F (x # xs) \<longleftrightarrow> x < NR_TASKS + NR_PROCS \<and> proc_is_runnable (kprocs s x) \<and> queue_of (kprocs s x) = int q \<and> x \<notin> F
     \<and> (xs = [] \<longrightarrow> run_q_tail s q = Some x) \<and> sound s q (insert x F) xs"
  by (auto simp: sound_def)

section \<open>One queue\<close>

text \<open>What the walk from the pointer \<open>p\<close> has shown when it returns.\<close>

definition walked :: "nat \<Rightarrow> ptr \<Rightarrow> 'w krn \<Rightarrow> nat option \<Rightarrow> 'w krn \<Rightarrow> bool" where
  "walked q p s r t \<longleftrightarrow> unmarked t = unmarked s \<and> (case r of
       None \<Rightarrow> \<not> (\<exists>xs. behind s p xs \<and> sound s q (found s) xs)
     | Some l \<Rightarrow> \<exists>xs. behind s p xs \<and> sound s q (found s) xs \<and> found t = found s \<union> set xs \<and> l = card (found t))"

lemma walked_Cons:
  assumes w: "walked q (kp_nextready (kprocs s x)) u r t" and u: "unmarked u = unmarked s" "found u = insert x (found s)"
    and x: "x < NR_TASKS + NR_PROCS" "proc_is_runnable (kprocs s x)" "queue_of (kprocs s x) = int q" "x \<notin> found s"
    and tail: "kp_nextready (kprocs s x) = None \<longrightarrow> run_q_tail s q = Some x"
  shows "walked q (Some x) s r t"
proof -
  have b: "behind u p xs = behind s p xs" for p xs using behind_cong u(1) by blast
  have c: "sound u q F xs = sound s q F xs" for F xs using sound_cong u(1) by blast
  have s: "behind s (Some x) xs \<and> sound s q (found s) xs \<longleftrightarrow>
      (\<exists>ys. xs = x # ys \<and> behind u (kp_nextready (kprocs s x)) ys \<and> sound u q (found u) ys)" for xs
    unfolding b c u(2) using x tail by (cases xs) (auto simp: sound_Cons)
  have "unmarked t = unmarked s" using w u(1) by (simp add: walked_def)
  moreover have "\<exists>xs. behind s (Some x) xs \<and> sound s q (found s) xs \<and> found t = found s \<union> set xs \<and> l = card (found t)"
    if l: "r = Some l" for l
  proof -
    from w l obtain ys where "behind u (kp_nextready (kprocs s x)) ys" "sound u q (found u) ys" "found t = found u \<union> set ys" "l = card (found t)"
      by (auto simp: walked_def)
    with s [of "x # ys"] u(2) show ?thesis by (intro exI [of _ "x # ys"]) auto
  qed
  moreover have "\<not> (\<exists>xs. behind s (Some x) xs \<and> sound s q (found s) xs)" if "r = None"
    using w that s by (auto simp: walked_def)
  ultimately show ?thesis by (cases r) (simp_all add: walked_def)
qed

lemma unmarked_print [simp]: "unmarked (s\<lparr>p_out := out\<rparr>) = unmarked s"
  by (simp add: unmarked_def)

lemma complain_walked: "\<not> (\<exists>xs. behind s p xs \<and> sound s q (found s) xs) \<Longrightarrow> unmarked u = unmarked s \<Longrightarrow>
  wp (complain msg) (\<lambda>r t. case r of Inl _ \<Rightarrow> False | Inr r \<Rightarrow> walked q p s r t) u"
  by (simp add: complain_def wp_simps walked_def)

lemma mark_state:
  fixes s :: "'w krn"
  assumes "x < NR_TASKS + NR_PROCS"
  defines "u \<equiv> s\<lparr>kprocs := (kprocs s)(x := (kprocs s x)\<lparr>kp_found := True\<rparr>)\<rparr>"
  shows "unmarked u = unmarked s" "found u = insert x (found s)"
  using assms(1) by (auto simp: u_def unmarked_def found_def fun_eq_iff)

lemma queue_turn_wp:
  fixes s :: "'w krn"
  assumes l: "l = card (found s)"
  shows "wp (queue_turn q (Some x, l)) (\<lambda>r t. case r of
      Inr r \<Rightarrow> walked q (Some x) s r t
    | Inl v \<Rightarrow> v = (kp_nextready (kprocs s x), l + 1) \<and> unmarked t = unmarked s \<and> found t = insert x (found s)
        \<and> x < NR_TASKS + NR_PROCS \<and> proc_is_runnable (kprocs s x) \<and> queue_of (kprocs s x) = int q \<and> x \<notin> found s
        \<and> (kp_nextready (kprocs s x) = None \<longrightarrow> run_q_tail s q = Some x)) s"
    (is "wp _ ?P s")
proof (cases "x < NR_TASKS + NR_PROCS \<and> proc_is_runnable (kprocs s x) \<and> queue_of (kprocs s x) = int q \<and> x \<notin> found s")
  case True
  define u where "u = s\<lparr>kprocs := (kprocs s)(x := (kprocs s x)\<lparr>kp_found := True\<rparr>)\<rparr>"
  have u: "unmarked u = unmarked s" "found u = insert x (found s)" using mark_state [of x s] True by (auto simp: u_def)
  have ll: "\<not> MAX_LOOP < l" using found_card [of s] l by simp
  have nf: "\<not> kp_found (kprocs s x)" using True by (simp add: found_def)
  have rs: "\<not> RTS_ISSET (kprocs s x) RTS_SLOT_FREE" using True by (simp add: RTS_ISSET_def proc_is_runnable_def)
  have e: "wp (queue_turn q (Some x, l)) ?P s = wp (if kp_nextready (kprocs s x) = None \<and> run_q_tail s q \<noteq> Some x then
             complain (''sched err: last element not tail q '' @ fmt_d (int q) @ '' proc '' @ fmt_d (p_nr x) @ ''\<newline>'')
           else ret (Inl (kp_nextready (kprocs s x), l + 1))) ?P u"
    unfolding queue_turn_def set_kproc_def fst_conv snd_conv option.case wp_simps u_def [symmetric]
    using True nf rs ll by simp
  show ?thesis
  proof (cases "kp_nextready (kprocs s x) = None \<and> run_q_tail s q \<noteq> Some x")
    case bad: True
    have "\<not> (behind s (Some x) xs \<and> sound s q (found s) xs)" for xs
      using bad by (cases xs) (auto simp: sound_Cons)
    then show ?thesis unfolding e using bad u(1)
      by (simp add: complain_def wp_simps walked_def)
  qed (use True u in \<open>auto simp: e wp_simps\<close>)
next
  case False
  have n: "\<not> (\<exists>xs. behind s (Some x) xs \<and> sound s q (found s) xs)"
  proof
    assume "\<exists>xs. behind s (Some x) xs \<and> sound s q (found s) xs"
    then obtain xs where "behind s (Some x) xs" "sound s q (found s) xs" by blast
    with False show False by (cases xs) (auto simp: sound_Cons)
  qed
  have c: "wp (complain msg) ?P s" for msg using n by (simp add: complain_def wp_simps walked_def)
  have "RTS_ISSET (kprocs s x) RTS_SLOT_FREE \<or> \<not> proc_is_runnable (kprocs s x) \<or> queue_of (kprocs s x) \<noteq> int q \<or> kp_found (kprocs s x)
    \<or> NR_TASKS + NR_PROCS \<le> x"
    using False by (auto simp: found_def)
  then show ?thesis unfolding queue_turn_def fst_conv snd_conv option.case wp_bnd wp_gets using c by (auto simp: wp_if)
qed

lemma walk_check:
  fixes s :: "'w krn"
  assumes "l = card (found s)"
  shows "wp (loop_m (queue_turn q) (p, l)) (walked q p s) s"
  using assms
proof (induction "NR_TASKS + NR_PROCS - card (found s)" arbitrary: s l p rule: less_induct)
  case less
  show ?case
  proof (cases p)
    case None
    then show ?thesis using less.prems
      by (subst wp_loop_unfold) (simp add: queue_turn_def wp_simps walked_def sound_def)
  next
    case (Some x)
    show ?thesis unfolding Some
    proof (subst wp_loop_unfold, rule wp_mono [OF queue_turn_wp [OF less.prems]], goal_cases)
      case (1 r u)
      show ?case
      proof (cases r)
        case (Inl v)
        with 1 have v: "v = (kp_nextready (kprocs s x), l + 1)" and u: "unmarked u = unmarked s" "found u = insert x (found s)"
          and x: "x < NR_TASKS + NR_PROCS" "proc_is_runnable (kprocs s x)" "queue_of (kprocs s x) = int q" "x \<notin> found s"
          and tail: "kp_nextready (kprocs s x) = None \<longrightarrow> run_q_tail s q = Some x" by simp_all
        have c: "card (found u) = l + 1" using u(2) x(4) less.prems by simp
        have "card (found u) \<le> NR_TASKS + NR_PROCS" by (rule found_card)
        then have m: "NR_TASKS + NR_PROCS - card (found u) < NR_TASKS + NR_PROCS - card (found s)" using c less.prems by simp
        have "wp (loop_m (queue_turn q) v) (walked q (kp_nextready (kprocs s x)) u) u"
          unfolding v by (rule less.hyps [OF m]) (simp add: c)
        then have "wp (loop_m (queue_turn q) v) (walked q (Some x) s) u"
          by (rule wp_mono) (rule walked_Cons [OF _ u x tail])
        with Inl show ?thesis by simp
      qed (use 1 in simp)
    qed
  qed
qed

text \<open>A list that is stored in queue \<open>q\<close> and passes.\<close>

definition queue_ok :: "'w krn \<Rightarrow> nat \<Rightarrow> nat list \<Rightarrow> bool" where
  "queue_ok s q xs \<longleftrightarrow> run_queue q xs s \<and> run_q_tail s q = last_of xs
     \<and> (\<forall>x \<in> set xs. x < NR_TASKS + NR_PROCS \<and> proc_is_runnable (kprocs s x) \<and> queue_of (kprocs s x) = int q)"

lemma behind_path: "behind s (run_cell q l s) xs = path (\<lambda>l. run_cell q l s) l xs"
proof (induction xs arbitrary: l)
  case (Cons x xs)
  from Cons [of "Next x"] show ?case by (simp add: run_cell_def)
qed simp

lemma queue_ok_cong: "unmarked t = unmarked s \<Longrightarrow> queue_ok t q xs = queue_ok s q xs"
proof -
  assume a: "unmarked t = unmarked s"
  have "run_cell q l t = run_cell q l s" for l using unmarkedD [OF a] by (cases l) (simp_all add: run_cell_def)
  then show ?thesis using unmarkedD [OF a] by (simp add: queue_ok_def)
qed

lemma path_last: "path c l xs \<Longrightarrow> xs \<noteq> [] \<Longrightarrow> c (Next (last xs)) = None"
  by (induction xs arbitrary: l) auto

lemma queue_ok_sound:
  "queue_ok s q xs \<longleftrightarrow> behind s (run_q_head s q) xs \<and> sound s q {} xs \<and> (xs = [] \<longrightarrow> run_q_tail s q = None)"
proof -
  have "run_q_head s q = run_cell q Head s" by (simp add: run_cell_def)
  then show ?thesis using behind_path [of s q Head xs] by (auto simp: queue_ok_def sound_def chain_def last_of_def)
qed

lemma queue_ok_next: "queue_ok s q xs \<Longrightarrow> run_q_tail s q = Some t \<Longrightarrow> kp_nextready (kprocs s t) = None"
  using path_last [of "\<lambda>l. run_cell q l s" Head xs]
  by (auto simp: queue_ok_def chain_def last_of_def run_cell_def split: if_splits)

definition checked :: "nat \<Rightarrow> 'w krn \<Rightarrow> nat option \<Rightarrow> 'w krn \<Rightarrow> bool" where
  "checked q s r t \<longleftrightarrow> unmarked t = unmarked s \<and> (case r of
       None \<Rightarrow> \<not> (\<exists>xs. queue_ok s q xs)
     | Some l \<Rightarrow> \<exists>xs. queue_ok s q xs \<and> found t = found s \<union> set xs \<and> l = card (found t))"

lemma queue_check_wp:
  fixes s :: "'w krn"
  assumes l: "l = card (found s)" and f: "\<And>x. x \<in> found s \<Longrightarrow> queue_of (kprocs s x) \<noteq> int q"
  shows "wp (queue_check q l) (checked q s) s"
proof -
  have F: "sound s q (found s) xs = sound s q {} xs" for xs using f by (auto simp: sound_def)
  have walk: "wp (loop_m (queue_turn q) (run_q_head s q, l)) (checked q s) s" if "run_q_head s q = None \<longleftrightarrow> run_q_tail s q = None"
  proof (rule wp_mono [OF walk_check [OF l]])
    fix r and t :: "'w krn" assume w: "walked q (run_q_head s q) s r t"
    have "queue_ok s q xs \<longleftrightarrow> behind s (run_q_head s q) xs \<and> sound s q (found s) xs" for xs
      unfolding queue_ok_sound F using that by (cases xs) auto
    with w show "checked q s r t" by (simp add: walked_def checked_def cong: option.case_cong)
  qed
  have bad: "\<not> queue_ok s q xs" if "(run_q_head s q = None) \<noteq> (run_q_tail s q = None)" for xs
    unfolding queue_ok_sound using that by (cases xs) (auto simp: sound_def)
  show ?thesis
  proof (cases "(run_q_head s q = None) \<noteq> (run_q_tail s q = None)")
    case True
    then show ?thesis using bad [OF True] by (auto simp: queue_check_def wp_simps checked_def)
  next
    case False
    show ?thesis
    proof (cases "\<exists>t. run_q_tail s q = Some t \<and> kp_nextready (kprocs s t) \<noteq> None")
      case True
      then have "\<not> queue_ok s q xs" for xs using queue_ok_next [of s q xs] by auto
      with True False show ?thesis by (auto simp: queue_check_def wp_simps checked_def)
    next
      case 2: False
      then have b: "(case run_q_tail s q of None \<Rightarrow> None | Some t \<Rightarrow> kp_nextready (kprocs s t)) = None"
        by (auto split: option.split)
      have h: "run_q_head s q = None \<longleftrightarrow> run_q_tail s q = None" using False by blast
      have g: "\<not> (run_q_head s q \<noteq> None \<and> run_q_tail s q = None)" "\<not> (run_q_head s q = None \<and> run_q_tail s q \<noteq> None)"
        using h by (cases "run_q_tail s q"; simp)+
      show ?thesis unfolding queue_check_def wp_bnd wp_gets b if_not_P [OF g(1)] if_not_P [OF g(2)]
        using walk [OF h] by simp
    qed
  qed
qed

section \<open>All queues\<close>

lemma check_queues_wp:
  fixes s :: "'w krn"
  assumes "l = card (found s)" and "distinct qs" and "\<And>x q. x \<in> found s \<Longrightarrow> q \<in> set qs \<Longrightarrow> queue_of (kprocs s x) \<noteq> int q"
  shows "wp (check_queues qs l) (\<lambda>r t. unmarked t = unmarked s \<and> (case r of
      None \<Rightarrow> \<not> (\<forall>q \<in> set qs. \<exists>xs. queue_ok s q xs)
    | Some _ \<Rightarrow> \<exists>Q. (\<forall>q \<in> set qs. queue_ok s q (Q q)) \<and> found t = found s \<union> (\<Union>q \<in> set qs. set (Q q)))) s"
  using assms
proof (induction qs arbitrary: s l)
  case (Cons q qs)
  let ?P = "\<lambda>qs s r t. unmarked t = unmarked s \<and> (case r of
      None \<Rightarrow> \<not> (\<forall>q \<in> set qs. \<exists>xs. queue_ok s q xs)
    | Some _ \<Rightarrow> \<exists>Q. (\<forall>q \<in> set qs. queue_ok s q (Q q)) \<and> found t = found s \<union> (\<Union>q \<in> set qs. set (Q q)))"
  show ?case unfolding check_queues.simps wp_bnd
  proof (rule wp_mono [OF queue_check_wp [OF Cons.prems(1)]])
    fix r and u :: "'w krn" assume c: "checked q s r u"
    show "wp (case r of None \<Rightarrow> ret None | Some l \<Rightarrow> check_queues qs l) (?P (q # qs) s) u"
    proof (cases r)
      case None
      then show ?thesis using c by (auto simp: checked_def wp_simps)
    next
      case (Some l')
      with c obtain xs where u: "unmarked u = unmarked s" and xs: "queue_ok s q xs"
        and f: "found u = found s \<union> set xs" "l' = card (found u)" by (auto simp: checked_def)
      have same: "queue_ok u k ys = queue_ok s k ys" for k ys using queue_ok_cong [OF u] .
      have "wp (check_queues qs l') (?P qs u) u"
      proof (rule Cons.IH [OF f(2)])
        fix x k assume x: "x \<in> found u" "k \<in> set qs"
        then have "queue_of (kprocs s x) \<noteq> int k" using f(1) xs Cons.prems(2,3) by (auto simp: queue_ok_def)
        then show "queue_of (kprocs u x) \<noteq> int k" by (simp add: unmarkedD(2) [OF u])
      qed (use Cons.prems(2) in simp)
      then have "wp (check_queues qs l') (?P (q # qs) s) u"
      proof (rule wp_mono)
        fix r and t :: "'w krn" assume t: "?P qs u r t"
        show "?P (q # qs) s r t"
        proof (cases r)
          case None
          then show ?thesis using t u same by auto
        next
          case (Some l'')
          with t obtain Q where Q: "\<forall>k \<in> set qs. queue_ok s k (Q k)" "found t = found u \<union> (\<Union>k \<in> set qs. set (Q k))"
            using same by auto
          have "\<forall>k \<in> set (q # qs). queue_ok s k ((Q(q := xs)) k)" using Q(1) xs by simp
          moreover have "(\<Union>k \<in> set qs. set ((Q(q := xs)) k)) = (\<Union>k \<in> set qs. set (Q k))" using Cons.prems(2) by (intro SUP_cong) auto
          then have "found t = found s \<union> (\<Union>k \<in> set (q # qs). set ((Q(q := xs)) k))" using Q(2) f(1) by auto
          ultimately have "\<exists>Q. (\<forall>k \<in> set (q # qs). queue_ok s k (Q k)) \<and> found t = found s \<union> (\<Union>k \<in> set (q # qs). set (Q k))"
            by blast
          then show ?thesis using t u Some by simp
        qed
      qed
      with Some show ?thesis by simp
    qed
  qed (use Cons.prems(3) in auto)
qed (simp add: wp_simps)

lemma check_procs_wp:
  "wp (check_procs xs) (\<lambda>r t. unmarked t = unmarked s \<and> (r \<longleftrightarrow> (\<forall>x \<in> set xs. proc_is_runnable (kprocs s x) \<longrightarrow> kp_found (kprocs s x)))) s"
proof (induction xs)
  case (Cons x xs)
  have "isemptyp (kprocs s x) \<Longrightarrow> \<not> proc_is_runnable (kprocs s x)" by (simp add: isemptyp_def proc_is_runnable_def)
  with Cons show ?case unfolding check_procs.simps wp_bnd wp_gets wp_if wp_andthen wp_print wp_ret
    by (auto elim: wp_mono)
qed (simp add: wp_simps)

definition in_table :: "'w krn \<Rightarrow> bool" where
  "in_table s \<longleftrightarrow> (\<forall>x. proc_is_runnable (kprocs s x) \<longrightarrow> x < NR_TASKS + NR_PROCS)"

lemma ready_queue_ok:
  assumes "in_table s"
  shows "ready Q s \<longleftrightarrow> (\<forall>q < NR_SCHED_QUEUES. queue_ok s q (Q q))
    \<and> (\<forall>x < NR_TASKS + NR_PROCS. proc_is_runnable (kprocs s x) \<longrightarrow> (\<exists>q < NR_SCHED_QUEUES. x \<in> set (Q q)))" (is "_ \<longleftrightarrow> ?R")
proof
  assume r: "ready Q s"
  then have "queue_ok s q (Q q)" if "q < NR_SCHED_QUEUES" for q
    using that readyD(2) [OF r that] queuesD [OF readyD(1) [OF r] that] assms by (auto simp: queue_ok_def in_table_def)
  moreover have "\<exists>q < NR_SCHED_QUEUES. x \<in> set (Q q)" if "proc_is_runnable (kprocs s x)" for x
    using that r by (auto simp: ready_but_def)
  ultimately show ?R by blast
next
  assume r: ?R
  show "ready Q s" unfolding ready_but_def queues_def
  proof (intro conjI allI impI ballI; (elim conjE)?)
    fix x assume "proc_is_runnable (kprocs s x)"
    then show "\<exists>q<NR_SCHED_QUEUES. queue_of (kprocs s x) = int q \<and> x \<in> set (Q q)"
      using r assms unfolding in_table_def queue_ok_def by blast
  qed (use r in \<open>auto simp: queue_ok_def\<close>)
qed

lemma unmark_one: "unmarked (s\<lparr>kprocs := (kprocs s)(x := (kprocs s x)\<lparr>kp_found := b\<rparr>)\<rparr>) = unmarked s"
proof -
  have "(\<lambda>y. (((kprocs s)(x := (kprocs s x)\<lparr>kp_found := b\<rparr>)) y)\<lparr>kp_found := False\<rparr>) = (\<lambda>y. (kprocs s y)\<lparr>kp_found := False\<rparr>)"
    by (simp add: fun_eq_iff)
  then show ?thesis by (simp add: unmarked_def)
qed

lemma unmark_all:
  fixes s :: "'w krn"
  shows "wp (for_m [0..<NR_TASKS + NR_PROCS] (\<lambda>x. andthen (set_kproc x (\<lambda>p. p\<lparr>kp_found := False\<rparr>)) (check Panic (\<not> x > MAX_LOOP))))
    (\<lambda>_ t. unmarked t = unmarked s \<and> found t = {}) s"
proof -
  let ?I = "\<lambda>n t. unmarked t = unmarked s \<and> (\<forall>x < n. \<not> kp_found (kprocs t x))"
  have "wp (for_m [0..<NR_TASKS + NR_PROCS] (\<lambda>x. andthen (set_kproc x (\<lambda>p. p\<lparr>kp_found := False\<rparr>)) (check Panic (\<not> x > MAX_LOOP))))
    (\<lambda>_. ?I (NR_TASKS + NR_PROCS)) s"
  proof (rule wp_for)
    fix k and t :: "'w krn" assume k: "k < NR_TASKS + NR_PROCS" and t: "?I k t"
    show "wp (andthen (set_kproc k (\<lambda>p. p\<lparr>kp_found := False\<rparr>)) (check Panic (\<not> k > MAX_LOOP))) (\<lambda>_. ?I (Suc k)) t"
      using k t unmark_one [of t k] by (simp add: set_kproc_def wp_simps less_Suc_eq)
  qed simp
  then show ?thesis by (rule wp_mono) (auto simp: found_def)
qed

lemma runqueues_ok_wp:
  fixes s :: "'w krn"
  assumes i: "in_table s"
  shows "wp runqueues_ok_cpu (\<lambda>r t. unmarked t = unmarked s \<and> r = (if \<exists>Q. ready Q s then 1 else 0)) s"
  unfolding runqueues_ok_cpu_def wp_andthen wp_bnd
proof (rule wp_mono [OF unmark_all], elim conjE)
  fix u :: "'w krn" assume u: "unmarked u = unmarked s" "found u = {}"
  let ?P = "\<lambda>r t. unmarked t = unmarked s \<and> r = (if \<exists>Q. ready Q s then 1 else (0 :: int))"
  have l: "0 = card (found u)" using u(2) by simp
  show "wp (check_queues [0..<NR_SCHED_QUEUES] 0) (\<lambda>r. wp (case r of None \<Rightarrow> ret 0
      | Some _ \<Rightarrow> bnd (check_procs [0..<NR_TASKS + NR_PROCS]) (\<lambda>ok. ret (if ok then 1 else 0))) ?P) u"
  proof (rule wp_mono [OF check_queues_wp [OF l]])
    fix r and t :: "'w krn"
    assume t: "unmarked t = unmarked u \<and> (case r of
      None \<Rightarrow> \<not> (\<forall>q \<in> set [0..<NR_SCHED_QUEUES]. \<exists>xs. queue_ok u q xs)
    | Some _ \<Rightarrow> \<exists>Q. (\<forall>q \<in> set [0..<NR_SCHED_QUEUES]. queue_ok u q (Q q)) \<and> found t = found u \<union> (\<Union>q \<in> set [0..<NR_SCHED_QUEUES]. set (Q q)))"
    then have ts: "unmarked t = unmarked s" using u(1) by simp
    show "wp (case r of None \<Rightarrow> ret 0
      | Some _ \<Rightarrow> bnd (check_procs [0..<NR_TASKS + NR_PROCS]) (\<lambda>ok. ret (if ok then 1 else 0))) ?P t"
    proof (cases r)
      case None
      with t queue_ok_cong [OF u(1)] have "\<not> (\<exists>Q. ready Q s)" unfolding ready_queue_ok [OF i] by auto
      with None ts show ?thesis by (simp add: wp_simps)
    next
      case (Some l)
      with t obtain Q where "\<forall>q \<in> {..<NR_SCHED_QUEUES}. queue_ok u q (Q q)" and f: "found t = (\<Union>q < NR_SCHED_QUEUES. set (Q q))"
        using u(2) unfolding set_upt atLeast0LessThan by auto
      then have Q: "\<forall>q < NR_SCHED_QUEUES. queue_ok s q (Q q)" using queue_ok_cong [OF u(1)] by auto
      have "(\<forall>x \<in> set [0..<NR_TASKS + NR_PROCS]. proc_is_runnable (kprocs t x) \<longrightarrow> kp_found (kprocs t x)) \<longleftrightarrow>
          (\<forall>x < NR_TASKS + NR_PROCS. proc_is_runnable (kprocs s x) \<longrightarrow> x \<in> found t)"
        using unmarkedD(3) [OF ts] by (auto simp: found_def)
      also have "\<dots> \<longleftrightarrow> ready Q s" using Q f ready_queue_ok [OF i, of Q] by auto
      also have "\<dots> \<longleftrightarrow> (\<exists>P. ready P s)"
      proof
        assume "\<exists>P. ready P s"
        then obtain P where P: "ready P s" by blast
        then have "queue_ok s q (P q)" if "q < NR_SCHED_QUEUES" for q using ready_queue_ok [OF i] that by blast
        with Q have "P q = Q q" if "q < NR_SCHED_QUEUES" for q
          using chain_unique [of "\<lambda>l. run_cell q l s" "P q" "Q q"] that by (auto simp: queue_ok_def)
        then show "ready Q s" using ready_same [OF P, of Q] by simp
      qed blast
      finally have e: "(\<forall>x \<in> set [0..<NR_TASKS + NR_PROCS]. proc_is_runnable (kprocs t x) \<longrightarrow> kp_found (kprocs t x)) \<longleftrightarrow> (\<exists>P. ready P s)" .
      show ?thesis unfolding Some option.case wp_bnd wp_ret
        by (rule wp_mono [OF check_procs_wp]) (use ts e in simp)
    qed
  qed (use u(2) in auto)
qed

section \<open>The number of ready processes\<close>

lemma count_wp: "behind s p xs \<Longrightarrow> wp (loop_m count_turn (p, n)) (\<lambda>r t. r = n + length xs \<and> t = s) s"
proof (induction xs arbitrary: p n)
  case (Cons x xs)
  then have "wp (loop_m count_turn (kp_nextready (kprocs s x), n + 1)) (\<lambda>r t. r = (n + 1) + length xs \<and> t = s) s"
    by (intro Cons.IH) simp
  with Cons.prems show ?case by (subst wp_loop_unfold) (simp add: count_turn_def wp_simps)
qed (subst wp_loop_unfold, simp add: count_turn_def wp_simps)

lemma count_queues_wp:
  assumes "queues Q s" and "set qs \<subseteq> {..<NR_SCHED_QUEUES}"
  shows "wp (count_queues qs n) (\<lambda>r t. r = n + (\<Sum>q \<leftarrow> qs. length (Q q)) \<and> t = s) s"
  using assms(2)
proof (induction qs arbitrary: n)
  case (Cons q qs)
  have q: "q < NR_SCHED_QUEUES" using Cons.prems by simp
  have "run_q_head s q = run_cell q Head s" by (simp add: run_cell_def)
  then have "behind s (run_q_head s q) (Q q)" using queuesD(1) [OF assms(1) q] behind_path [of s q Head "Q q"] by (simp add: chain_def)
  from count_wp [OF this] show ?case unfolding count_queues.simps wp_bnd wp_gets
  proof (rule wp_mono, goal_cases)
    case (1 k t)
    with Cons.IH [of k] Cons.prems show ?case by (auto elim!: wp_mono)
  qed
qed (simp add: wp_simps)

lemma ready_number:
  assumes r: "ready Q s"
  shows "(\<Sum>q \<leftarrow> [0..<NR_SCHED_QUEUES]. length (Q q)) = card {x. proc_is_runnable (kprocs s x)}"
proof -
  have "{x. proc_is_runnable (kprocs s x)} = (\<Union>q < NR_SCHED_QUEUES. set (Q q))"
    using readyD(2) [OF r] ready_queue [OF r] by auto blast
  moreover have "card (\<Union>q < NR_SCHED_QUEUES. set (Q q)) = (\<Sum>q < NR_SCHED_QUEUES. card (set (Q q)))"
    by (rule card_UN_disjoint) (use queues_disjoint [OF readyD(1) [OF r]] in auto)
  moreover have "(\<Sum>q < NR_SCHED_QUEUES. card (set (Q q))) = (\<Sum>q < NR_SCHED_QUEUES. length (Q q))"
    by (rule sum.cong) (use readyD(4) [OF r] in \<open>auto simp: distinct_card\<close>)
  ultimately show ?thesis by (simp add: interv_sum_list_conv_sum_set_nat atLeast0LessThan)
qed

lemma load_update_wp:
  fixes s :: "'w krn"
  assumes r: "ready Q s" and hz: "system_hz s \<noteq> 0"
  defines "slot \<equiv> unat (monotonic s div system_hz s div LOAD_UNIT_SECS) mod LOAD_HISTORY"
    and "l \<equiv> kloadinfo s"
  shows "wp load_update (\<lambda>_ t. t = s\<lparr>kloadinfo := l\<lparr>proc_last_slot := of_nat slot, last_clock := monotonic s,
      proc_load_history := (let h = (if of_nat slot \<noteq> proc_last_slot l then (proc_load_history l)[slot := 0] else proc_load_history l) in
        h[slot := h ! slot + of_nat (card {x. proc_is_runnable (kprocs s x)})])\<rparr>\<rparr>) s"
proof -
  define h where "h = (if of_nat slot \<noteq> proc_last_slot l then (proc_load_history l)[slot := 0] else proc_load_history l)"
  define u where "u = s\<lparr>kloadinfo := l\<lparr>proc_last_slot := of_nat slot, proc_load_history := h\<rparr>\<rparr>"
  have "queues Q u" using readyD(1) [OF r] by (rule queues_cong) (simp_all add: u_def run_cell_def split: link.split)
  then have "wp (count_queues [0..<NR_SCHED_QUEUES] 0) (\<lambda>n t. n = 0 + (\<Sum>q \<leftarrow> [0..<NR_SCHED_QUEUES]. length (Q q)) \<and> t = u) u"
    by (rule count_queues_wp) auto
  then have c: "wp (count_queues [0..<NR_SCHED_QUEUES] 0) (\<lambda>n t. n = card {x. proc_is_runnable (kprocs s x)} \<and> t = u) u"
    unfolding ready_number [OF r] by simp
  have "(if of_nat slot \<noteq> proc_last_slot l then s\<lparr>kloadinfo := l\<lparr>proc_load_history := (proc_load_history l)[slot := 0], proc_last_slot := of_nat slot\<rparr>\<rparr> else s) = u"
    by (simp add: u_def h_def l_def)
  then have e: "wp (if of_nat slot \<noteq> proc_last_slot l then set_load (\<lambda>l. l\<lparr>proc_load_history := (proc_load_history l)[slot := 0], proc_last_slot := of_nat slot\<rparr>)
       else ret ()) P s = P () u" for P
    by (auto simp: set_load_def wp_simps l_def split: if_splits)
  have "wp (count_queues [0..<NR_SCHED_QUEUES] 0) (\<lambda>n. wp (set_load (\<lambda>l. l\<lparr>proc_load_history := (proc_load_history l)[slot := proc_load_history l ! slot + of_nat n],
       last_clock := monotonic s\<rparr>)) (\<lambda>_ t. t = s\<lparr>kloadinfo := l\<lparr>proc_last_slot := of_nat slot, last_clock := monotonic s,
      proc_load_history := h[slot := h ! slot + of_nat (card {x. proc_is_runnable (kprocs s x)})]\<rparr>\<rparr>)) u"
    by (rule wp_mono [OF c]) (auto simp: set_load_def wp_simps u_def)
  with hz show ?thesis
    unfolding load_update_def wp_bnd wp_gets wp_andthen wp_check Let_def slot_def [symmetric] l_def [symmetric] e h_def [symmetric]
    by blast
qed

end
