(* ===== verification/Krn_Run.thy ===== *)
theory Krn_Run
  imports Krn_Sane
begin

text \<open>
  The kernel as it runs: processes block and wake, the scheduler's calls come in, the processor is
  given to the next process. In all the states this leads to, the run queues hold the runnable
  processes.
\<close>

section \<open>The invariant\<close>

text \<open>
  Priorities are in range, and what lies behind the table, the entry of the idle process, is
  never made runnable.
\<close>

definition stopped :: "kproc \<Rightarrow> bool" where
  "stopped p \<longleftrightarrow> kp_rts_flags p AND (RTS_SLOT_FREE OR RTS_PROC_STOP) \<noteq> 0"

definition fine :: "nat \<Rightarrow> kproc \<Rightarrow> bool" where
  "fine x p \<longleftrightarrow> in_range p \<and> (NR_TASKS + NR_PROCS \<le> x \<longrightarrow> stopped p)"

definition krn_inv :: "'w krn \<Rightarrow> bool" where
  "krn_inv s \<longleftrightarrow> (\<exists>Q. ready Q s) \<and> (\<forall>x. fine x (kcores s x)) \<and> proc_ptr s \<noteq> None"

lemma krn_invI: "ready Q s \<Longrightarrow> (\<And>x. fine x (kcores s x)) \<Longrightarrow> proc_ptr s = Some c \<Longrightarrow> krn_inv s"
  by (auto simp: krn_inv_def)

lemma krn_invE:
  assumes "krn_inv s"
  obtains Q c where "ready Q s" "\<forall>x. fine x (kcores s x)" "proc_ptr s = Some c"
  using assms by (auto simp: krn_inv_def)

lemma in_range_flags [simp]: "in_range (p\<lparr>kp_rts_flags := v\<rparr>) = in_range p"
  by (simp add: in_range_def)

lemma fine_kcore: "fine x (kcores s x) = fine x (kprocs s x)"
  by (simp add: fine_def stopped_def in_range_def kcores_def)

lemma fine_range: "fine x p \<Longrightarrow> in_range p"
  by (simp add: fine_def)

lemma fine_set_flag: "fine x p \<Longrightarrow> fine x (set_flag f p)"
  by (auto simp: fine_def stopped_def bit.conj_disj_distrib2 or_eq_0_iff)

lemma fine_clear_flag: "fine x p \<Longrightarrow> x < NR_TASKS + NR_PROCS \<or> f AND 3 = 0 \<Longrightarrow> fine x (clear_flag f p)"
proof -
  have "f AND 3 = 0 \<Longrightarrow> (g AND NOT f) AND 3 = g AND 3" for g :: u32
  proof -
    assume f: "f AND 3 = 0"
    have "g AND 3 = (g AND NOT f) AND 3 OR (g AND (f AND 3))"
      by (rule bit_word_eqI) (auto simp: bit_simps)
    with f show ?thesis by simp
  qed
  then show "fine x p \<Longrightarrow> x < NR_TASKS + NR_PROCS \<or> f AND 3 = 0 \<Longrightarrow> fine x (clear_flag f p)"
    by (auto simp: fine_def stopped_def)
qed

lemma fine_preempt: "(\<And>x. fine x (tab x)) \<Longrightarrow> fine x (preempt_procs tab c p x)" "(\<And>x. fine x (tab x)) \<Longrightarrow> fine x (wake_procs tab c p x)"
  by (simp_all add: preempt_procs_def wake_procs_def fine_set_flag del: RTS_PREEMPTED_def)

lemma fine_given:
  assumes "fine x p" and "accepted prio quantum"
  shows "fine x (given os prio quantum p)"
proof (cases "prio = - 1")
  case True
  then show ?thesis using assms(1) by (simp add: given_def fine_def stopped_def in_range_def queue_of_def)
next
  case False
  then show ?thesis using assms given_queue [of prio os quantum p] by (auto simp: accepted_def fine_def stopped_def in_range_def)
qed

lemma krn_inv_in_table: "krn_inv s \<Longrightarrow> in_table s"
proof -
  assume "krn_inv s"
  then have f: "fine x (kprocs s x)" for x by (simp add: krn_inv_def fine_kcore)
  have "NR_TASKS + NR_PROCS \<le> x \<Longrightarrow> \<not> proc_is_runnable (kprocs s x)" for x
    using f [of x] by (auto simp: fine_def stopped_def proc_is_runnable_def)
  then show "in_table s" by (meson in_table_def not_le)
qed

section \<open>Blocking and waking\<close>

lemma RTS_SET_inv:
  fixes s :: "'w krn"
  assumes "krn_inv s" and "f \<noteq> 0"
  shows "wp (RTS_SET os p f) (\<lambda>_. krn_inv) s"
proof -
  from assms(1) obtain Q c where r: "ready Q s" "\<forall>x. fine x (kcores s x)" "proc_ptr s = Some c" by (rule krn_invE)
  show ?thesis
  proof (rule wp_mono [OF RTS_SET_wp [OF r(1) assms(2)]])
    fix t :: "'w krn"
    assume t: "ready (drop_proc p Q) t \<and> kcores t = (kcores s)(p := set_flag f (kcores s p)) \<and> kvars t = kvars s"
    then have "proc_ptr t = Some c" using kvars_proc [of t s] r(3) by simp
    with t r(2) show "krn_inv t" by (auto intro!: krn_invI fine_set_flag)
  qed simp
qed

lemma RTS_UNSET_inv:
  fixes s :: "'w krn"
  assumes "krn_inv s" and p: "p < NR_TASKS + NR_PROCS"
  shows "wp (RTS_UNSET os p f) (\<lambda>_. krn_inv) s"
proof -
  from assms(1) obtain Q c where r: "ready Q s" "\<forall>x. fine x (kcores s x)" "proc_ptr s = Some c" by (rule krn_invE)
  show ?thesis
  proof (cases "proc_is_runnable (kprocs s p)")
    case True
    then have z: "kp_rts_flags (kprocs s p) = 0" by (simp add: proc_is_runnable_def)
    have "wp (set_kproc p (clear_flag f)) (\<lambda>_. krn_inv) s"
    proof (rule wp_mono [OF clear_flag_wp [OF readyD(1) [OF r(1)]]])
      fix t :: "'w krn" assume t: "queues Q t \<and> kcores t = (kcores s)(p := clear_flag f (kcores s p)) \<and> kvars t = kvars s"
      have "clear_flag f (kcores s p) = kcores s p" using z by (simp add: kcores_def kcore_def)
      then have c: "kcores t = kcores s" using t by simp
      have "ready Q t" by (rule ready_cong [OF r(1) _ c]) (use t in simp)
      then show "krn_inv t" by (rule krn_invI) (use c r t kvars_proc [of t s] in auto)
    qed
    then show ?thesis unfolding RTS_UNSET_def wp_bnd wp_andthen wp_gets by (rule wp_mono) (simp add: z wp_simps)
  next
    case False
    show ?thesis
    proof (rule wp_mono [OF RTS_UNSET_wp [OF r(1) False r(3)]])
      show "in_range (((kcores s)(p := clear_flag f (kcores s p))) p)" using r(2) fine_range [of p "kcores s p"] by simp
      fix t :: "'w krn"
      let ?tab = "(kcores s)(p := clear_flag f (kcores s p))"
      assume t: "ready (wake_queues ?tab c p Q) t \<and> kcores t = wake_procs ?tab c p \<and> kvars t = kvars s"
      have "fine x (?tab x)" for x using r(2) p by (auto intro: fine_clear_flag)
      then have "fine x (kcores t x)" for x using t fine_preempt(2) [of ?tab x c p] by simp
      with t show "krn_inv t" using r(3) kvars_proc [of t s] by (auto intro: krn_invI)
    qed
  qed
qed

section \<open>The kernel calls\<close>

lemma sched_proc_refuse:
  assumes "\<not> accepted prio quantum" and "prio \<noteq> 16"
  shows "sched_proc os p prio quantum cpu = ret EINVAL"
proof -
  have "sint prio \<noteq> 16" using assms(2) signed_word_eqI [of prio 16] by auto
  then show ?thesis using assms(1) by (auto simp: sched_proc_def accepted_def)
qed

lemma sched_proc_inv:
  fixes s :: "'w krn"
  assumes i: "krn_inv s" and p: "prio \<noteq> 16" "p < NR_TASKS + NR_PROCS"
  shows "wp (sched_proc os p prio quantum cpu) (\<lambda>_. krn_inv) s"
proof (cases "accepted prio quantum")
  case True
  from i obtain Q c where r: "ready Q s" "\<forall>x. fine x (kcores s x)" "proc_ptr s = Some c" by (rule krn_invE)
  let ?tab = "rescheduled os p prio quantum (kcores s)"
  have g: "fine x (?tab x)" for x
  proof (cases "x = p")
    case True
    have "fine p (given os prio quantum (kcores s p))" by (rule fine_given [OF _ \<open>accepted prio quantum\<close>]) (use r(2) in simp)
    from fine_clear_flag [OF this, of RTS_NO_QUANTUM] p(2) True show ?thesis by (simp add: rescheduled_def)
  qed (use r(2) in \<open>simp add: rescheduled_def\<close>)
  show ?thesis
  proof (rule wp_mono [OF sched_proc_wp [OF r(1,3) True fine_range [OF g]]])
    fix res and t :: "'w krn"
    assume t: "res = OK \<and> ready (wake_queues ?tab c p (drop_proc p Q)) t \<and> kcores t = wake_procs ?tab c p \<and> kvars t = kvars s"
    have "fine x (kcores t x)" for x using t fine_preempt(2) [of ?tab x c p] g by simp
    with t show "krn_inv t" using r(3) kvars_proc [of t s] by (auto intro: krn_invI)
  qed
qed (use i p in \<open>simp add: sched_proc_refuse wp_simps\<close>)

lemma isokendpt_bound: "isokendpt tab e = Some p \<Longrightarrow> p < NR_TASKS + NR_PROCS"
  by (auto simp: isokendpt_def isokprocn_def proc_addr_def Let_def split: if_splits)

lemma do_schedule_inv:
  assumes i: "krn_inv s" and "km_priority m \<noteq> 16"
  shows "wp (do_schedule os caller m) (\<lambda>_. krn_inv) s"
  using assms isokendpt_bound by (auto simp: do_schedule_def isokendpt_f_def wp_simps sched_proc_inv split: option.split)

lemma set_scheduler_inv:
  assumes "krn_inv s"
  shows "wp (set_kproc p (\<lambda>q. q\<lparr>kp_scheduler := v\<rparr>)) (\<lambda>_. krn_inv) s"
proof -
  from assms obtain Q c where r: "ready Q s" "\<forall>x. fine x (kcores s x)" "proc_ptr s = Some c" by (rule krn_invE)
  let ?t = "s\<lparr>kprocs := (kprocs s)(p := (kprocs s p)\<lparr>kp_scheduler := v\<rparr>)\<rparr>"
  have "run_cell q l ?t = run_cell q l s" for q l by (cases l) (simp_all add: run_cell_def)
  then have "ready Q ?t" using r(1) by (simp add: ready_but_def queues_def queue_of_def proc_is_runnable_def)
  moreover have "fine x (kcores ?t x)" for x using r(2) by (simp add: kcores_def kcore_def fine_def stopped_def in_range_def queue_of_def)
  ultimately show ?thesis using r(3) by (auto simp: set_kproc_def wp_simps intro: krn_invI)
qed

lemma krn_inv_print [simp]: "krn_inv (s\<lparr>p_out := out\<rparr>) = krn_inv s"
proof -
  have "run_cell q l (s\<lparr>p_out := out\<rparr>) = run_cell q l s" for q l by (cases l) (simp_all add: run_cell_def)
  then show ?thesis by (simp add: krn_inv_def ready_but_def queues_def kcores_def)
qed

lemma do_schedctl_inv:
  fixes s :: "'w krn"
  assumes i: "krn_inv s" and p: "km_priority m \<noteq> 16"
  shows "wp (do_schedctl os caller m) (\<lambda>_. krn_inv) s"
proof -
  have "wp (bnd (sched_proc os q (km_priority m) (km_quantum m) (km_cpu m)) (\<lambda>x.
              let r = (if x \<noteq> OK then 1 else 0) in
              if r \<noteq> 0 then ret r
              else andthen (set_kproc q (\<lambda>q. q\<lparr>kp_scheduler := None\<rparr>)) (ret OK))) (\<lambda>_. krn_inv) s" if "q < NR_TASKS + NR_PROCS" for q
    unfolding wp_bnd by (rule wp_mono [OF sched_proc_inv [OF i p that]]) (auto simp: wp_simps Let_def set_scheduler_inv)
  then show ?thesis using i isokendpt_bound
    by (auto simp: do_schedctl_def isokendpt_f_def wp_simps set_scheduler_inv split: option.split)
qed

section \<open>The way back to user mode\<close>

lemma ready_bill [simp]: "ready_but R Q (s\<lparr>bill_ptr := b, proc_ptr := c\<rparr>) = ready_but R Q s" "ready_but R Q (s\<lparr>proc_ptr := c\<rparr>) = ready_but R Q s"
  "ready_but R Q (s\<lparr>bill_ptr := b\<rparr>) = ready_but R Q s"
proof -
  have "run_cell q l (s\<lparr>bill_ptr := b, proc_ptr := c\<rparr>) = run_cell q l s" "run_cell q l (s\<lparr>proc_ptr := c\<rparr>) = run_cell q l s"
    "run_cell q l (s\<lparr>bill_ptr := b\<rparr>) = run_cell q l s" for q l
    by (cases l; simp add: run_cell_def)+
  then show "ready_but R Q (s\<lparr>bill_ptr := b, proc_ptr := c\<rparr>) = ready_but R Q s" "ready_but R Q (s\<lparr>proc_ptr := c\<rparr>) = ready_but R Q s"
    "ready_but R Q (s\<lparr>bill_ptr := b\<rparr>) = ready_but R Q s"
    by (simp_all add: ready_but_def queues_def)
qed

lemma kcores_bill [simp]: "kcores (s\<lparr>bill_ptr := b\<rparr>) = kcores s" "kcores (s\<lparr>proc_ptr := c\<rparr>) = kcores s"
  by (simp_all add: kcores_def fun_eq_iff)

lemma billed_simps [simp]: "ready_but R Q (billed s r) = ready_but R Q s" "kcores (billed s r) = kcores s" "proc_ptr (billed s r) = proc_ptr s"
  by (simp_all add: billed_def split: option.split)

text \<open>The choice ends where a process is ready.\<close>

abbreviation elect :: "('w, unit) kprog \<Rightarrow> ('w, nat) kprog" where
  "elect idle \<equiv> loop_m (\<lambda>_. bnd pick_proc (\<lambda>r. case r of None \<Rightarrow> andthen idle (ret (Inl ())) | Some p \<Rightarrow> ret (Inr p))) ()"

lemma elect_wp:
  assumes "ready Q s" and "next_proc Q = Some p"
  shows "wp (elect idle) (\<lambda>r t. r = p \<and> t = billed s (Some p)) s"
  by (subst wp_loop_unfold, unfold wp_bnd, rule wp_mono [OF pick_proc_wp [OF assms(1)]]) (use assms(2) in \<open>simp add: wp_simps\<close>)

text \<open>The current process, if only preempted, goes back to the head of its queue.\<close>

definition requeue :: "'w krn_os \<Rightarrow> nat \<Rightarrow> ('w, unit) kprog" where
  "requeue os c = bnd (gets (\<lambda>s. kprocs s c)) (\<lambda>p.
     if proc_is_preempted p then
       andthen (set_kproc c (\<lambda>p. p\<lparr>kp_rts_flags := kp_rts_flags p AND NOT RTS_PREEMPTED\<rparr>)) (
       bnd (gets (\<lambda>s. kprocs s c)) (\<lambda>p.
       if proc_is_runnable p then if kp_cpu_time_left p \<noteq> 0 then enqueue_head os c else enqueue os c
       else ret ()))
     else ret ())"

lemma pick_new_cut:
  assumes "proc_ptr s = Some c" and "\<not> proc_is_runnable (kprocs s c)"
  shows "wp (pick_new os idle) P s =
    wp (requeue os c) (\<lambda>_. wp (elect idle) (\<lambda>p t. P p (t\<lparr>proc_ptr := Some p\<rparr>))) s"
  using assms by (simp add: pick_new_def requeue_def wp_simps)

lemma pick_new_running: "proc_ptr s = Some c \<Longrightarrow> proc_is_runnable (kprocs s c) \<Longrightarrow> wp (pick_new os idle) P s = P c s"
  by (simp add: pick_new_def wp_simps)

lemma preempted_flags: "kp_rts_flags p = RTS_PREEMPTED \<Longrightarrow> \<not> proc_is_runnable p \<and> proc_is_preempted p"
  by (simp add: proc_is_runnable_def proc_is_preempted_def)

lemma requeue_preempted:
  fixes s :: "'w krn"
  assumes r: "ready Q s" and c: "proc_ptr s = Some c" and f: "kp_rts_flags (kprocs s c) = RTS_PREEMPTED"
    and time: "kp_cpu_time_left (kprocs s c) \<noteq> 0" and q: "q < NR_SCHED_QUEUES" "queue_of (kprocs s c) = int q"
  shows "wp (requeue os c) (\<lambda>_ t. ready (put_first c q Q) t \<and> kcores t = (kcores s)(c := (kcores s c)\<lparr>kp_rts_flags := 0\<rparr>) \<and> kvars t = kvars s) s"
proof -
  let ?P = "\<lambda>_ t. ready (put_first c q Q) t \<and> kcores t = (kcores s)(c := (kcores s c)\<lparr>kp_rts_flags := 0\<rparr>) \<and> kvars t = kvars s"
  have z: "clear_flag RTS_PREEMPTED (kcores s c) = (kcores s c)\<lparr>kp_rts_flags := 0\<rparr>" using f by (simp add: kcores_def)
  have "wp (set_kproc c (clear_flag RTS_PREEMPTED)) (\<lambda>_ t. wp (if proc_is_runnable (kprocs t c) then
      if kp_cpu_time_left (kprocs t c) \<noteq> 0 then enqueue_head os c else enqueue os c else ret ()) ?P t) s"
  proof (rule wp_mono [OF clear_flag_wp [OF readyD(1) [OF r]]])
    fix t :: "'w krn"
    assume t: "queues Q t \<and> kcores t = (kcores s)(c := clear_flag RTS_PREEMPTED (kcores s c)) \<and> kvars t = kvars s"
    have b: "ready_but {c} Q t" by (rule ready_change [OF r]) (use t preempted_flags [OF f] in auto)
    have k: "kcore (kprocs t c) = (kcores s c)\<lparr>kp_rts_flags := 0\<rparr>" using t z by (intro kcores_at) simp
    have run: "proc_is_runnable (kprocs t c)" using arg_cong [OF k, of kp_rts_flags] by (simp add: proc_is_runnable_def)
    have tm: "kp_cpu_time_left (kprocs t c) \<noteq> 0" using arg_cong [OF k, of kp_cpu_time_left] time by (simp add: kcores_def)
    have qt: "queue_of (kprocs t c) = int q" using arg_cong [OF k, of queue_of] q(2) by (simp add: kcores_def)
    have ct: "proc_ptr t = Some c" using t c kvars_proc [of t s] by simp
    have "wp (enqueue_head os c) ?P t"
      by (rule wp_mono [OF enqueue_head_wp [OF b run tm q(1) qt ct]]) (use t z in simp)
    with run tm show "wp (if proc_is_runnable (kprocs t c) then
      if kp_cpu_time_left (kprocs t c) \<noteq> 0 then enqueue_head os c else enqueue os c else ret ()) ?P t" by simp
  qed
  then show ?thesis using preempted_flags [OF f] by (simp add: requeue_def wp_simps)
qed

lemma put_first_next: "q < NR_SCHED_QUEUES \<Longrightarrow> \<exists>p. next_proc (put_first c q Q) = Some p"
  using next_proc_None [of "put_first c q Q"] by (auto simp: put_first_def)

lemma pick_new_preempted:
  fixes s :: "'w krn"
  assumes r: "ready Q s" and c: "proc_ptr s = Some c" and f: "kp_rts_flags (kprocs s c) = RTS_PREEMPTED"
    and time: "kp_cpu_time_left (kprocs s c) \<noteq> 0" and q: "q < NR_SCHED_QUEUES" "queue_of (kprocs s c) = int q"
  shows "wp (pick_new os idle) (\<lambda>p t. ready (put_first c q Q) t \<and> next_proc (put_first c q Q) = Some p
    \<and> kcores t = (kcores s)(c := (kcores s c)\<lparr>kp_rts_flags := 0\<rparr>) \<and> proc_ptr t = Some p) s"
proof -
  have n: "\<not> proc_is_runnable (kprocs s c)" using preempted_flags [OF f] by blast
  from put_first_next [OF q(1)] obtain p where p: "next_proc (put_first c q Q) = Some p" by blast
  show ?thesis unfolding pick_new_cut [OF c n]
  proof (rule wp_mono [OF requeue_preempted [OF assms]])
    fix t :: "'w krn"
    assume t: "ready (put_first c q Q) t \<and> kcores t = (kcores s)(c := (kcores s c)\<lparr>kp_rts_flags := 0\<rparr>) \<and> kvars t = kvars s"
    then have "ready (put_first c q Q) t" by blast
    from elect_wp [OF this p] show "wp (elect idle) (\<lambda>p t. ready (put_first c q Q) (t\<lparr>proc_ptr := Some p\<rparr>) \<and> next_proc (put_first c q Q) = Some p
      \<and> kcores (t\<lparr>proc_ptr := Some p\<rparr>) = (kcores s)(c := (kcores s c)\<lparr>kp_rts_flags := 0\<rparr>) \<and> proc_ptr (t\<lparr>proc_ptr := Some p\<rparr>) = Some p) t"
      by (rule wp_mono) (use t p in simp)
  qed
qed

text \<open>A process that wakes and is more urgent than all others gets the processor.\<close>

lemma woken_runs:
  fixes s :: "'w krn"
  assumes r: "ready Q s" and c: "proc_ptr s = Some c" "proc_is_runnable (kprocs s c)" "kp_s_flags (kprocs s c) AND PREEMPTIBLE \<noteq> 0"
      "kp_cpu_time_left (kprocs s c) \<noteq> 0"
    and n: "\<not> proc_is_runnable (kprocs s rp)" and f: "kp_rts_flags (kprocs s rp) AND NOT f = 0" and rng: "in_range (kprocs s rp)"
    and urgent: "\<forall>x. proc_is_runnable (kprocs s x) \<longrightarrow> queue_of (kprocs s rp) < queue_of (kprocs s x)"
  defines "q \<equiv> nat (queue_of (kprocs s rp))" and "k \<equiv> nat (queue_of (kprocs s c))"
  shows "wp (andthen (RTS_UNSET os rp f) (pick_new os idle)) (\<lambda>p t. p = rp \<and> proc_ptr t = Some rp
    \<and> ready (put_first c k (drop_proc c (put_last rp q Q))) t) s"
proof -
  let ?tab = "(kcores s)(rp := clear_flag f (kcores s rp))" and ?P = "drop_proc c (put_last rp q Q)"
  have cr: "c \<noteq> rp" using c(2) n by blast
  have q: "queue_of (kprocs s rp) = int q" "q < NR_SCHED_QUEUES" using rng by (auto simp: q_def in_range_def)
  obtain k' where k': "k' < NR_SCHED_QUEUES" "queue_of (kprocs s c) = int k'" by (rule ready_queue [OF r c(2)]) simp
  then have k: "k < NR_SCHED_QUEUES" "queue_of (kprocs s c) = int k" by (simp_all add: k_def)
  have empty: "Q j = []" if "j \<le> q" for j
  proof (rule ccontr)
    assume "Q j \<noteq> []"
    then obtain x where x: "x \<in> set (Q j)" by (cases "Q j") auto
    have j: "j < NR_SCHED_QUEUES" using that q(2) by simp
    have "queue_of (kprocs s x) = int j" "proc_is_runnable (kprocs s x)" using readyD(2,3) [OF r j x] by auto
    with urgent q(1) that show False by force
  qed
  have qk: "q < k" using urgent c(2) q(1) k(2) by force
  have run: "proc_is_runnable (?tab rp)" using f by (simp add: proc_is_runnable_def kcores_def)
  have qt: "queue_of (?tab rp) = int q" "queue_of (?tab c) = int k" using q k cr by (simp_all add: kcores_def)
  have pre: "preempts ?tab c rp" using qt qk c(3) cr by (simp add: preempts_def kcores_def)
  have nx: "next_proc (put_first c k ?P) = Some rp"
    unfolding next_proc_Some
    by (intro exI [of _ q] exI [of _ "[]"]) (use q(2) qk cr empty in \<open>auto simp: put_first_def drop_proc_def put_last_def\<close>)
  have tab: "in_range (?tab rp)" using qt(1) q(2) by (simp add: in_range_def)
  show ?thesis unfolding wp_andthen
  proof (rule wp_mono [OF RTS_UNSET_wp [OF r n c(1) tab]])
    fix t :: "'w krn"
    assume t: "ready (wake_queues ?tab c rp Q) t \<and> kcores t = wake_procs ?tab c rp \<and> kvars t = kvars s"
    have rt: "ready ?P t" using t run pre qt(1) by (simp add: wake_queues_def preempt_queues_def)
    have kt: "kcore (kprocs t c) = set_flag RTS_PREEMPTED (kcores s c)"
      using t run pre cr by (simp add: wake_procs_def preempt_procs_def) (metis fun_upd_same kcores_def)
    have "kp_rts_flags (kcore (kprocs t c)) = RTS_PREEMPTED" unfolding kt using c(2) by (simp add: kcores_def proc_is_runnable_def)
    then have fl: "kp_rts_flags (kprocs t c) = RTS_PREEMPTED" by simp
    have tm: "kp_cpu_time_left (kprocs t c) \<noteq> 0" using arg_cong [OF kt, of kp_cpu_time_left] c(4) by (simp add: kcores_def)
    have kq: "queue_of (kprocs t c) = int k" using arg_cong [OF kt, of queue_of] k(2) by (simp add: kcores_def)
    have ct: "proc_ptr t = Some c" using t c(1) kvars_proc [of t s] by simp
    show "wp (pick_new os idle) (\<lambda>p t. p = rp \<and> proc_ptr t = Some rp \<and> ready (put_first c k ?P) t) t"
      by (rule wp_mono [OF pick_new_preempted [OF rt ct fl tm k(1) kq]]) (use nx in auto)
  qed
qed

lemma requeue_inv:
  fixes s :: "'w krn"
  assumes i: "krn_inv s" and c: "proc_ptr s = Some c" and n: "\<not> proc_is_runnable (kprocs s c)"
  shows "wp (requeue os c) (\<lambda>_. krn_inv) s"
proof -
  from i obtain Q c' where r: "ready Q s" "\<forall>x. fine x (kcores s x)" by (rule krn_invE)
  let ?tab = "(kcores s)(c := clear_flag RTS_PREEMPTED (kcores s c))"
  have tab: "fine x (?tab x)" for x using r(2) fine_clear_flag [of c "kcores s c" RTS_PREEMPTED] by simp
  have "wp (set_kproc c (clear_flag RTS_PREEMPTED)) (\<lambda>_ t. wp (if proc_is_runnable (kprocs t c) then
      if kp_cpu_time_left (kprocs t c) \<noteq> 0 then enqueue_head os c else enqueue os c else ret ()) (\<lambda>_. krn_inv) t) s"
  proof (rule wp_mono [OF clear_flag_wp [OF readyD(1) [OF r(1)]]])
    fix t :: "'w krn"
    assume t: "queues Q t \<and> kcores t = ?tab \<and> kvars t = kvars s"
    have b: "ready_but {c} Q t" by (rule ready_change [OF r(1) n]) (use t in auto)
    have ct: "proc_ptr t = Some c" using t c kvars_proc [of t s] by simp
    have ft: "fine x (kcores t x)" for x using t tab by simp
    have inv: "krn_inv u" if "ready P u" "kcores u = kcores t \<or> kcores u = preempt_procs (kcores t) c c" "kvars u = kvars t" for P and u :: "'w krn"
    proof (rule krn_invI [OF that(1)])
      show "proc_ptr u = Some c" using that(3) ct kvars_proc [of u t] by simp
      show "fine x (kcores u x)" for x using that(2) ft fine_preempt(1) [of "kcores t" x c c] by auto
    qed
    define q where "q = nat (queue_of (kprocs t c))"
    have q: "q < NR_SCHED_QUEUES" "queue_of (kprocs t c) = int q" using fine_range [OF ft, of c] by (auto simp: q_def in_range_def kcores_def)
    show "wp (if proc_is_runnable (kprocs t c) then
      if kp_cpu_time_left (kprocs t c) \<noteq> 0 then enqueue_head os c else enqueue os c else ret ()) (\<lambda>_. krn_inv) t"
    proof (cases "proc_is_runnable (kprocs t c)")
      case True
      have "wp (enqueue_head os c) (\<lambda>_. krn_inv) t" if "kp_cpu_time_left (kprocs t c) \<noteq> 0"
        by (rule wp_mono [OF enqueue_head_wp [OF b True that q ct]]) (use inv in blast)
      moreover have "wp (enqueue os c) (\<lambda>_. krn_inv) t"
        by (rule wp_mono [OF enqueue_wp [OF b True q ct]]) (use inv in blast)
      ultimately show ?thesis using True by simp
    next
      case False
      then show ?thesis using inv [OF ready_asleep [OF b False]] by (simp add: wp_simps)
    qed
  qed
  then show ?thesis using i by (simp add: requeue_def wp_simps)
qed

lemma krn_inv_next: "krn_inv s \<Longrightarrow> krn_inv (billed s r)" "krn_inv s \<Longrightarrow> krn_inv (s\<lparr>proc_ptr := Some p\<rparr>)"
  by (simp_all add: krn_inv_def)

lemma pick_new_inv:
  fixes s :: "'w krn"
  assumes i: "krn_inv s" and idle: "\<And>t. krn_inv t \<Longrightarrow> wlp idle (\<lambda>_. krn_inv) t"
  shows "wlp (pick_new os idle) (\<lambda>_. krn_inv) s"
proof -
  from i obtain c where c: "proc_ptr s = Some c" by (rule krn_invE)
  have pick: "wp pick_proc (\<lambda>_. krn_inv) t" if t: "krn_inv t" for t :: "'w krn"
  proof -
    from t obtain Q where "ready Q t" by (rule krn_invE)
    from pick_proc_wp [OF this] show ?thesis by (rule wp_mono) (use t krn_inv_next(1) in auto)
  qed
  have elect: "wlp (elect idle) (\<lambda>_. krn_inv) t" if "krn_inv t" for t :: "'w krn"
  proof (rule wlp_loop [where I = "\<lambda>_. krn_inv"])
    fix x :: unit and u :: "'w krn" assume u: "krn_inv u"
    show "wlp (bnd pick_proc (\<lambda>r. case r of None \<Rightarrow> andthen idle (ret (Inl ())) | Some p \<Rightarrow> ret (Inr p)))
      (\<lambda>y t. case y of Inl _ \<Rightarrow> krn_inv t | Inr _ \<Rightarrow> krn_inv t) u"
      unfolding wlp_bnd
      by (rule wlp_mono [OF wp_wlp [OF pick [OF u]]]) (auto simp: wlp_andthen wlp_ret split: option.split intro: idle)
  qed (use that in simp)
  show ?thesis
  proof (cases "proc_is_runnable (kprocs s c)")
    case True
    then show ?thesis using c i by (simp add: pick_new_def wp_simps)
  next
    case False
    have "wlp (requeue os c) (\<lambda>_. wlp (elect idle) (\<lambda>p t. krn_inv (t\<lparr>proc_ptr := Some p\<rparr>))) s"
      by (rule wlp_mono [OF wp_wlp [OF requeue_inv [OF i c False]]])
        (rule wlp_mono [OF elect], assumption, erule krn_inv_next(2))
    with c False show ?thesis by (simp add: pick_new_def requeue_def wp_simps)
  qed
qed

section \<open>Boot\<close>

text \<open>
  The data of the kernel is zero when it is loaded. Slots behind the entry of the idle process do
  not exist; they are free entries here.
\<close>

definition zero_kproc :: kproc where
  "zero_kproc = \<lparr>kp_endpoint = 0, kp_rts_flags = 0, kp_priority = 0, kp_cpu_time_left = 0, kp_quantum_size_ms = 0,
     kp_scheduler = None, kp_nextready = None, kp_s_flags = 0, kp_enter_queue = 0, kp_time_in_queue = 0, kp_dequeues = 0,
     kp_ipc_sync = 0, kp_ipc_async = 0, kp_preempted = 0, kp_found = False, kp_name = []\<rparr>"

definition krn_image :: "'w krn \<Rightarrow> 'w krn" where
  "krn_image s = s\<lparr>kprocs := \<lambda>x. if x \<le> IDLE_SLOT then zero_kproc else zero_kproc\<lparr>kp_rts_flags := RTS_SLOT_FREE\<rparr>,
     run_q_head := \<lambda>_. None, run_q_tail := \<lambda>_. None, proc_ptr := None, bill_ptr := None\<rparr>"

text \<open>The start of \<open>kmain\<close> and of \<open>bsp_finish_booting\<close>, as far as they concern the queues.\<close>

definition krn_boot :: "('w, unit) kprog" where
  "krn_boot = andthen (modify krn_image) (
     andthen proc_init (modify (\<lambda>s. s\<lparr>bill_ptr := Some IDLE_SLOT, proc_ptr := Some IDLE_SLOT\<rparr>)))"

lemma krn_boot_inv:
  fixes s :: "'w krn"
  shows "wp krn_boot (\<lambda>_. krn_inv) s"
proof -
  let ?I = "\<lambda>k t. run_q_head t = (\<lambda>_. None) \<and> run_q_tail t = (\<lambda>_. None) \<and> (\<forall>x. kp_priority (kprocs t x) = 0)
    \<and> (\<forall>x. x < k \<or> IDLE_SLOT < x \<longrightarrow> stopped (kprocs t x))"
  let ?f = "\<lambda>p. p\<lparr>kp_endpoint := IDLE, kp_rts_flags := kp_rts_flags p OR RTS_PROC_STOP, kp_name := set_idle_name 0\<rparr>"
  have "wp (for_m [0..<NR_TASKS + NR_PROCS] (\<lambda>i. set_kproc i (init_kproc i))) (\<lambda>_. ?I (NR_TASKS + NR_PROCS)) (krn_image s)"
  proof (rule wp_for)
    show "wp (set_kproc k (init_kproc k)) (\<lambda>_. ?I (Suc k)) t" if "?I k t" for k and t :: "'w krn"
      using that by (auto simp: set_kproc_def init_kproc_def wp_simps stopped_def less_Suc_eq)
    show "?I 0 (krn_image s)" by (simp add: krn_image_def zero_kproc_def stopped_def)
  qed
  moreover have "krn_inv (t\<lparr>kprocs := (kprocs t)(IDLE_SLOT := ?f (kprocs t IDLE_SLOT)), bill_ptr := Some IDLE_SLOT, proc_ptr := Some IDLE_SLOT\<rparr>)"
    (is "krn_inv ?t") if t: "?I (NR_TASKS + NR_PROCS) t" for t :: "'w krn"
  proof (rule krn_invI)
    have st: "stopped (kprocs ?t x)" for x
    proof (cases "x = IDLE_SLOT")
      case True
      then show ?thesis by (simp add: stopped_def bit.conj_disj_distrib2 or_eq_0_iff)
    next
      case False
      then have "x < NR_TASKS + NR_PROCS \<or> IDLE_SLOT < x" by auto
      with t False show ?thesis by auto
    qed
    have pr: "kp_priority (kprocs ?t x) = 0" for x using t by simp
    show "fine x (kcores ?t x)" for x
      unfolding fine_kcore using st [of x] pr [of x] by (simp add: fine_def in_range_def queue_of_def del: IDLE_SLOT_def)
    have "\<not> proc_is_runnable (kprocs ?t x)" for x using st [of x] by (auto simp: stopped_def proc_is_runnable_def)
    then show "ready (\<lambda>_. []) ?t"
      using t by (simp add: ready_but_def queues_def chain_def run_cell_def del: IDLE_SLOT_def)
    show "proc_ptr ?t = Some IDLE_SLOT" by simp
  qed
  ultimately have "wp (for_m [0..<NR_TASKS + NR_PROCS] (\<lambda>i. set_kproc i (init_kproc i))) (\<lambda>_ t. krn_inv (t\<lparr>kprocs := (kprocs t)(IDLE_SLOT := ?f (kprocs t IDLE_SLOT)), bill_ptr := Some IDLE_SLOT, proc_ptr := Some IDLE_SLOT\<rparr>)) (krn_image s)"
    by (rule wp_mono)
  then show ?thesis
    unfolding krn_boot_def proc_init_def set_kproc_def [of IDLE_SLOT] wp_andthen wp_modify .
qed

section \<open>Runs\<close>

datatype kevent =
    Block nat u32
  | Wake nat u32
  | Schedule nat kmsg
  | Schedctl nat kmsg
  | Update_Load
  | Switch

definition kernel_do :: "'w krn_os \<Rightarrow> ('w, unit) kprog \<Rightarrow> kevent \<Rightarrow> ('w, unit) kprog" where
  "kernel_do os idle e = (case e of
       Block p f \<Rightarrow> RTS_SET os p f
     | Wake p f \<Rightarrow> RTS_UNSET os p f
     | Schedule caller m \<Rightarrow> andthen (do_schedule os caller m) (ret ())
     | Schedctl caller m \<Rightarrow> andthen (do_schedctl os caller m) (ret ())
     | Update_Load \<Rightarrow> load_update
     | Switch \<Rightarrow> andthen (pick_new os idle) (ret ()))"

text \<open>Flags are cleared of processes of the table, and no call asks for priority sixteen.\<close>

definition event_ok :: "kevent \<Rightarrow> bool" where
  "event_ok e = (case e of
       Block p f \<Rightarrow> f \<noteq> 0
     | Wake p f \<Rightarrow> p < NR_TASKS + NR_PROCS
     | Schedule caller m \<Rightarrow> km_priority m \<noteq> 16
     | Schedctl caller m \<Rightarrow> km_priority m \<noteq> 16
     | Update_Load \<Rightarrow> True
     | Switch \<Rightarrow> True)"

inductive kernel_run :: "'w krn_os \<Rightarrow> ('w, unit) kprog \<Rightarrow> 'w krn \<Rightarrow> bool" for os idle where
  booted: "krn_boot s = Some (Inr ((), t)) \<Longrightarrow> kernel_run os idle t"
| stepped: "kernel_run os idle s \<Longrightarrow> event_ok e \<Longrightarrow> kernel_do os idle e s = Some (Inr ((), t)) \<Longrightarrow> kernel_run os idle t"

lemma load_update_inv:
  assumes "krn_inv s"
  shows "wlp load_update (\<lambda>_. krn_inv) s"
proof (cases "system_hz s = 0")
  case True
  then show ?thesis by (simp add: load_update_def wp_simps)
next
  case False
  from assms obtain Q where r: "ready Q s" by (rule krn_invE)
  have "krn_inv (s\<lparr>kloadinfo := l\<rparr>)" for l
  proof -
    have "run_cell q x (s\<lparr>kloadinfo := l\<rparr>) = run_cell q x s" for q x by (cases x) (simp_all add: run_cell_def)
    with assms show ?thesis by (simp add: krn_inv_def ready_but_def queues_def kcores_def)
  qed
  then show ?thesis by (intro wp_wlp [OF wp_mono [OF load_update_wp [OF r False]]]) simp
qed

lemma kernel_do_inv:
  assumes i: "krn_inv s" and e: "event_ok e" and idle: "\<And>t. krn_inv t \<Longrightarrow> wlp idle (\<lambda>_. krn_inv) t"
  shows "wlp (kernel_do os idle e) (\<lambda>_. krn_inv) s"
proof (cases e)
  case (Block p f)
  with i e show ?thesis by (simp add: kernel_do_def event_ok_def wp_wlp [OF RTS_SET_inv])
next
  case (Wake p f)
  with i e show ?thesis by (simp add: kernel_do_def event_ok_def wp_wlp [OF RTS_UNSET_inv])
next
  case (Schedule caller m)
  with i e show ?thesis by (simp add: kernel_do_def event_ok_def wlp_andthen wlp_ret wp_wlp [OF do_schedule_inv])
next
  case (Schedctl caller m)
  with i e show ?thesis by (simp add: kernel_do_def event_ok_def wlp_andthen wlp_ret wp_wlp [OF do_schedctl_inv])
next
  case Update_Load
  with i show ?thesis by (simp add: kernel_do_def load_update_inv)
next
  case Switch
  with i idle show ?thesis by (simp add: kernel_do_def wlp_andthen wlp_ret pick_new_inv)
qed

lemma kernel_run_inv:
  assumes "kernel_run os idle s" and idle: "\<And>t. krn_inv t \<Longrightarrow> wlp idle (\<lambda>_. krn_inv) t"
  shows "krn_inv s"
  using assms(1)
proof (induction rule: kernel_run.induct)
  case (booted s t)
  then show ?case using krn_boot_inv [of s] by (simp add: wp_def)
next
  case (stepped s e t)
  then show ?case using kernel_do_inv [OF stepped.IH stepped.hyps(2) idle, of os] by (simp add: wlp_def)
qed

end
