(* ===== verification/Sched_Kernel.thy ===== *)
theory Sched_Kernel
  imports Sched_Policy Krn_Run
begin

text \<open>
  The scheduler and the kernel together: the world of the scheduler is the state of the kernel,
  and its kernel calls are the handlers of the kernel.
\<close>

text \<open>The scheduler runs in slot \<open>caller\<close> of the kernel's table.\<close>

definition kernel_link :: "'w krn_os \<Rightarrow> nat \<Rightarrow> 'w krn sched_os \<Rightarrow> bool" where
  "kernel_link kos caller os \<longleftrightarrow>
     (\<forall>m w r v. do_schedule kos caller m w = Some (Inr (r, v)) \<longrightarrow> sc_kernel_call os SYS_SCHEDULE m w = (r, v))
   \<and> (\<forall>m w r v. do_schedctl kos caller m w = Some (Inr (r, v)) \<longrightarrow> sc_kernel_call os SYS_SCHEDCTL m w = (r, v))"

lemma sint_small: "unat (x :: 32 word) < 128 \<Longrightarrow> sint x = int (unat x)"
proof -
  assume "unat x < 128"
  then have "int (unat x) < 128" by linarith
  then have "uint x < 2 ^ (LENGTH(32) - 1)" unfolding uint_nat by simp
  then have "sint x = uint x" unfolding sint_uint by (intro signed_take_bit_int_eq_self) (simp_all add: order_trans [OF _ unsigned_greater_eq])
  then show "sint x = int (unat x)" by (simp only: uint_nat)
qed

text \<open>A call of the scheduler of a process moves it to the end of the queue of its new priority.\<close>

lemma do_schedule_wp:
  fixes w :: "'w krn" and os :: "'w krn_os"
  assumes r: "ready Q w" and c: "proc_ptr w = Some c" and e: "isokendpt (kprocs w) (km_endpoint m) = Some p"
    and own: "kp_scheduler (kprocs w p) = Some caller" and a: "accepted (km_priority m) (km_quantum m)" "0 \<le> sint (km_priority m)"
    and f: "kp_rts_flags (kprocs w p) AND NOT RTS_NO_QUANTUM = 0"
  defines "tab \<equiv> rescheduled os p (km_priority m) (km_quantum m) (kcores w)"
  shows "wp (do_schedule os caller m) (\<lambda>r t. r = OK \<and> ready (preempt_queues tab c p (put_last p (nat (sint (km_priority m))) (drop_proc p Q))) t
    \<and> kcores t = preempt_procs tab c p \<and> kvars t = kvars w) w"
proof -
  have b: "sint (km_priority m) < 16" using a by (auto simp: accepted_def)
  have run: "proc_is_runnable (tab p)" using f by (simp add: tab_def rescheduled_def proc_is_runnable_def kcores_def)
  have q: "queue_of (tab p) = sint (km_priority m)"
    unfolding tab_def rescheduled_def using given_queue [of "km_priority m" os "km_quantum m" "kcores w p"] a(2) b by simp
  have rng: "in_range (tab p)" using q a(2) b by (simp add: in_range_def)
  have "wp (sched_proc os p (km_priority m) (km_quantum m) (km_cpu m)) (\<lambda>r t. r = OK
      \<and> ready (wake_queues tab c p (drop_proc p Q)) t \<and> kcores t = wake_procs tab c p \<and> kvars t = kvars w) w"
    unfolding tab_def by (rule sched_proc_wp [OF r c a(1)]) (use rng in \<open>simp add: tab_def\<close>)
  then show ?thesis using e own run q
    by (simp add: do_schedule_def isokendpt_f_def wp_simps wake_queues_def wake_procs_def)
qed

lemma told_kernel:
  fixes w :: "'w krn"
  assumes link: "kernel_link kos caller os" and r: "ready Q w" and c: "proc_ptr w = Some c"
    and e: "isokendpt (kprocs w) (sp_endpoint x) = Some p" and own: "kp_scheduler (kprocs w p) = Some caller"
    and f: "kp_rts_flags (kprocs w p) AND NOT RTS_NO_QUANTUM = 0" and x: "unat (sp_priority x) < 16" "1 \<le> sint (sp_time_slice x)"
  defines "tab \<equiv> rescheduled kos p (sp_priority x) (sp_time_slice x) (kcores w)"
  shows "\<exists>v. told os x w = (OK, v) \<and> ready (preempt_queues tab c p (put_last p (unat (sp_priority x)) (drop_proc p Q))) v
    \<and> kcores v = preempt_procs tab c p \<and> kvars v = kvars w"
proof -
  let ?m = "\<lparr>km_flags = 0, km_endpoint = sp_endpoint x, km_priority = sp_priority x, km_quantum = sp_time_slice x, km_cpu = - 1\<rparr>"
  have s: "sint (sp_priority x) = int (unat (sp_priority x))" by (rule sint_small) (use x in simp)
  then have "0 \<le> sint (sp_priority x)" "sint (sp_priority x) < 16" using x(1) by linarith+
  then have a: "accepted (km_priority ?m) (km_quantum ?m)" "0 \<le> sint (km_priority ?m)" using x(2) by (simp_all add: accepted_def)
  have "wp (do_schedule kos caller ?m) (\<lambda>r t. r = OK \<and> ready (preempt_queues tab c p (put_last p (unat (sp_priority x)) (drop_proc p Q))) t
    \<and> kcores t = preempt_procs tab c p \<and> kvars t = kvars w) w"
    using do_schedule_wp [OF r c _ own a f, where os = kos] e s by (simp add: tab_def)
  then obtain v where v: "do_schedule kos caller ?m w = Some (Inr (OK, v))"
    "ready (preempt_queues tab c p (put_last p (unat (sp_priority x)) (drop_proc p Q))) v" "kcores v = preempt_procs tab c p" "kvars v = kvars w"
    by (auto simp: wp_def)
  moreover have "told os x w = (OK, v)" using link v(1) by (simp add: kernel_link_def told_def sys_schedule_def)
  ultimately show ?thesis by blast
qed

text \<open>The kernel's message that a quantum is used up, and what the scheduler makes of it.\<close>

lemma quantum_wp:
  fixes s :: "'w krn sched"
  assumes smp: "\<not> CONFIG_SMP os" and link: "kernel_link kos caller os" and ok: "procs_ok s"
    and i: "sched_isokendpt os (schedprocs s) (sm_source m) = (OK, int i)"
    and k: "ready Q (p_world s)" "proc_ptr (p_world s) = Some c" "isokendpt (kprocs (p_world s)) (sm_source m) = Some p"
      "kp_scheduler (kprocs (p_world s) p) = Some caller" "kp_rts_flags (kprocs (p_world s) p) AND NOT RTS_NO_QUANTUM = 0"
    and slice: "1 \<le> sint (sp_time_slice (schedprocs s ! i))"
  defines "q \<equiv> min 15 (unat (sp_priority (schedprocs s ! i)) + 1)"
  defines "tab \<equiv> rescheduled kos p (of_nat q) (sp_time_slice (schedprocs s ! i)) (kcores (p_world s))"
  shows "wp (do_noquantum os m) (\<lambda>r t. r = OK \<and> unat (sp_priority (schedprocs t ! i)) = q
    \<and> ready (preempt_queues tab c p (put_last p q (drop_proc p Q))) (p_world t)
    \<and> kcores (p_world t) = preempt_procs tab c p) s"
proof -
  have len: "length (schedprocs s) = NR_PROCS" using ok by (simp add: procs_ok_def)
  note slot = isokendpt_slot [OF i]
  have iN: "i < NR_PROCS" using slot(3) by simp
  have pr: "sp_priority (schedprocs s ! i) < 16" using priority_range [OF ok iN] slot(4) by simp
  let ?x = "lowered (schedprocs s ! i)"
  have x: "unat (sp_priority ?x) = q" "sp_endpoint ?x = sm_source m" "sp_time_slice ?x = sp_time_slice (schedprocs s ! i)"
    using lowered_priority [OF pr] slot(5) by (simp_all add: q_def) (simp_all add: lowered_def)
  have w: "sp_priority ?x = of_nat q" unfolding x(1) [symmetric] by simp
  have "\<exists>v. told os ?x (p_world s) = (OK, v) \<and> ready (preempt_queues tab c p (put_last p q (drop_proc p Q))) v
    \<and> kcores v = preempt_procs tab c p \<and> kvars v = kvars (p_world s)"
    using told_kernel [OF link k(1,2) _ k(4,5), where x = ?x] k(3) slice x w unfolding tab_def q_def by simp
  then obtain v where v: "told os ?x (p_world s) = (OK, v)" "ready (preempt_queues tab c p (put_last p q (drop_proc p Q))) v"
    "kcores v = preempt_procs tab c p" by blast
  show ?thesis
    by (rule wp_mono [OF noquantum_wp [OF smp i len]]) (use v x(1) iN len in auto)
qed

end
