(* ===== verification/Sched_Properties.thy ===== *)
theory Sched_Properties
  imports Sched_Kernel
begin

text \<open>
  The properties of the timers and of the scheduler, each with an instance on a small example.
\<close>

section \<open>Examples\<close>

text \<open>
  A process with two timers, the first due at 120; the world is the time its alarm is set to.
  The kernel of the example takes over processes and refuses to schedule them.
\<close>

definition ex_timers :: "int timed" where
  "ex_timers = \<lparr>p_world = 120, p_out = [],
     tmr_mem = \<lambda>a. if a = 1 then \<lparr>tmr_next = Some 2, tmr_exp_time = 120, tmr_func = 7, tmr_arg = 0\<rparr>
       else if a = 2 then \<lparr>tmr_next = None, tmr_exp_time = 150, tmr_func = 8, tmr_arg = 0\<rparr> else zero_timer,
     timers = Some 1, expiring = False\<rparr>"

definition ex_sched_os :: "int sched_os" where
  "ex_sched_os = \<lparr>tm_getticks = \<lambda>w. ((0, 100), w), tm_setalarm = \<lambda>time _ w. (0, time), tm_clock = \<lambda>t. t,
     sc_kernel_call = \<lambda>c m w. case c of SYS_SCHEDULE \<Rightarrow> (- 22, w) | SYS_SCHEDCTL \<Rightarrow> (0, w),
     sc_getinfo_hz = \<lambda>w. ((0, 60), w), sc_getmachine = \<lambda>w. ((0, \<lparr>processors_count = 1, bsp_id = 0\<rparr>), w),
     sc_receive = \<lambda>w. ((0, \<lparr>sm_source = 0, sm_type = 0, sm_w0 = 0, sm_w1 = 0, sm_w2 = 0, sm_w3 = 0\<rparr>, 0), w),
     sc_send = \<lambda>e m w. (0, w), CONFIG_SMP = False, CONFIG_MAX_CPUS = 1, DEFAULT_HZ = 60,
     sc_errno = \<lambda>e. case e of EBADEPT \<Rightarrow> 214 | EDEADEPT \<Rightarrow> 215 | EBADCPU \<Rightarrow> 216 | ENOSYS \<Rightarrow> 70\<rparr>"

text \<open>A scheduler with one process, in slot 3, at priority 12 while its own priority is 5.\<close>

definition ex_proc :: schedproc where
  "ex_proc = zero_proc\<lparr>sp_endpoint := 3, sp_flags := 1, sp_max_priority := 5, sp_priority := 12, sp_time_slice := 200\<rparr>"

definition ex_sched :: "'w \<Rightarrow> 'w sched" where
  "ex_sched w = \<lparr>p_world = w, p_out = [], tmr_mem = \<lambda>_. zero_timer, timers = None, expiring = False,
     schedprocs = (replicate 256 zero_proc)[3 := ex_proc], balance_timeout = 300, cpu_proc = [0], hz = 60,
     machine = \<lparr>processors_count = 1, bsp_id = 0\<rparr>\<rparr>"

definition ex_start :: sched_msg where
  "ex_start = \<lparr>sm_source = 2, sm_type = SCHEDULING_START, sm_w0 = 9, sm_w1 = 2, sm_w2 = 7, sm_w3 = 200\<rparr>"

lemma ex_clock_law: "clock_law ex_sched_os" "\<not> CONFIG_SMP ex_sched_os"
  by (simp_all add: clock_law_def ex_sched_os_def)

lemma ex_sched_ok: "procs_ok (ex_sched w)" "one_timer (ex_sched w)"
proof -
  have "slot_ok i ((replicate 256 zero_proc)[3 := ex_proc] ! i)" if "i < 256" for i
    using that by (cases "i = 3") (simp_all add: slot_ok_def ex_proc_def zero_proc_def endpoint_p_mod)
  then show "procs_ok (ex_sched w)" by (simp add: procs_ok_def ex_sched_def)
  show "one_timer (ex_sched w)"
    unfolding one_timer_def by (intro exI [of _ "[]"]) (simp add: chain_def tmr_cell_def ex_sched_def)
qed

lemma ex_timers_queue: "tmr_queue [1, 2] ex_timers" "in_order [1, 2] ex_timers"
  by (simp_all add: chain_def tmr_cell_def ex_timers_def in_order_def)

section \<open>Timers\<close>





text \<open>
  C26. The alarm of a process is never later than its first timer: it is in time after a timer was
  set, and after a timer was cancelled, if it was before. The kernel sets the alarm to the time it
  is told, and reading the clock leaves the alarm alone.
\<close>

theorem alarm_in_time:
  assumes "alarm_law os A" and "timers_ok A xs s" and "\<not> expiring s"
    and "tm_getticks os (p_world s) = ((OK, now), w')" and "0 < tm_clock os (now + sint ticks)"
  shows "wp (set_timer os tp ticks f arg) (\<lambda>_ t. \<exists>ys. set ys = insert tp (set xs) \<and> timers_ok A ys t) s
    \<and> wp (cancel_timer os tp) (\<lambda>_ t. timers_ok A (remove1 tp xs) t) s"
proof
  let ?ys = "tmr_insert (tmr_time s) tp (tm_clock os (now + sint ticks)) (remove1 tp xs)"
  have "distinct xs" using assms(2) chain_distinct by (auto simp: timers_ok_def)
  then have "set ?ys = insert tp (set xs)" by (auto simp: tmr_insert_set)
  then show "wp (set_timer os tp ticks f arg) (\<lambda>_ t. \<exists>ys. set ys = insert tp (set xs) \<and> timers_ok A ys t) s"
    by (intro wp_mono [OF set_timer_ok [OF assms]]) blast
  show "wp (cancel_timer os tp) (\<lambda>_ t. timers_ok A (remove1 tp xs) t) s" by (rule cancel_timer_ok [OF assms(1-3)])
qed

theorem alarm_in_time_witness:
  "wp (set_timer ex_sched_os 3 5 9 0) (\<lambda>_ t. \<exists>ys. set ys = {3, 1, 2} \<and> timers_ok (\<lambda>w. w) ys t) ex_timers
   \<and> wp (cancel_timer ex_sched_os 1) (\<lambda>_ t. timers_ok (\<lambda>w. w) [2] t) ex_timers"
proof -
  have law: "alarm_law ex_sched_os (\<lambda>w. w)" by (simp add: alarm_law_def ex_sched_os_def)
  have ok: "timers_ok (\<lambda>w. w) [1, 2] ex_timers"
    using ex_timers_queue by (simp add: timers_ok_def armed_def ex_timers_def head_time_def)
  have c: "\<not> expiring ex_timers" "tm_getticks ex_sched_os (p_world ex_timers) = ((OK, 100), p_world ex_timers)"
    "0 < tm_clock ex_sched_os (100 + sint (5 :: s32))"
    by (simp_all add: ex_timers_def ex_sched_os_def)
  show ?thesis using alarm_in_time [OF law ok c, of 3 9 0] alarm_in_time [OF law ok c, of 1 9 0] by simp
qed

section \<open>The scheduler\<close>

text \<open>
  C27. Between requests the table of the scheduler is valid: every slot in use holds a process
  whose endpoint belongs to this slot, with priorities that name one of the sixteen queues; and the
  timer of the server is set, with the function that balances the queues.
\<close>

theorem sched_table_between_requests:
  assumes "served (sched_start_up os) (sched_main_turn os) (\<lambda>_. True) s"
  shows "procs_ok s \<and> balancing s"
  using scheds.served_inv [OF assms] by (simp add: sched_inv_def)

theorem sched_table_between_requests_witness:
  "\<exists>t. served (sched_start_up ex_sched_os) (sched_main_turn ex_sched_os) (\<lambda>_. True) t \<and> procs_ok t \<and> balancing t"
proof -
  have set: "wp (set_timer ex_sched_os sched_timer k BALANCE_QUEUES 0) (\<lambda>_ _. True) t" if "timers t = None" for k and t :: "int sched"
  proof -
    have "one_timer t" unfolding one_timer_def using that by (intro exI [of _ "[]"]) (simp add: chain_def tmr_cell_def)
    from set_timer_returns [OF ex_clock_law(1) this] show ?thesis by (rule wp_mono) simp
  qed
  have "wp (sched_start_up ex_sched_os) (\<lambda>_ _. True) (ex_sched 0)"
    by (simp add: sched_start_up_def init_scheduling_def sys_hz_def ex_sched_os_def init_timer_def tmr_inittimer_def
        set_tmr_def sched_image_def wp_simps set [unfolded ex_sched_os_def, simplified])
  then obtain t where "sched_start_up ex_sched_os (ex_sched 0) = Some (Inr ((), t))" by (auto simp: wp_def)
  then have r: "served (sched_start_up ex_sched_os) (sched_main_turn ex_sched_os) (\<lambda>_. True) t" by (rule served.started)
  from r sched_table_between_requests [OF r] show ?thesis by blast
qed

text \<open>
  C28. A process that was put into a lower queue comes back: after the queues were balanced fifteen
  times, every scheduled process has its own priority again or a better one, whatever the kernel
  answered. Balancing always returns, given a clock that answers.
\<close>

theorem balancing_restores_priorities:
  assumes "\<not> CONFIG_SMP os" and "clock_law os" and "procs_ok s" and "one_timer s"
  shows "wp (repeat_m 15 (balance_queues os)) (\<lambda>_ t. \<forall>i < NR_PROCS. scheduled (schedprocs s ! i) \<longrightarrow>
    scheduled (schedprocs t ! i) \<and> sp_max_priority (schedprocs t ! i) = sp_max_priority (schedprocs s ! i)
    \<and> sp_priority (schedprocs t ! i) \<le> sp_max_priority (schedprocs t ! i)) s"
proof (rule wp_mono [OF repeat_balance_wp [OF assms]], intro allI impI)
  fix t :: "'a sched" and i
  assume t: "schedprocs t = map (raised ^^ 15) (schedprocs s) \<and> procs_ok t \<and> one_timer t" and i: "i < NR_PROCS"
    and sch: "scheduled (schedprocs s ! i)"
  have at: "schedprocs t ! i = (raised ^^ 15) (schedprocs s ! i)" using t i assms(3) by (simp add: procs_ok_def)
  have keep: "sp_flags ((raised ^^ n) p) = sp_flags p \<and> sp_max_priority ((raised ^^ n) p) = sp_max_priority p" for n p
    by (induction n) simp_all
  have "behind_max (schedprocs t ! i) = 0" unfolding at raised_times using behind_max_bound [OF assms(3) i] by simp
  moreover have st: "scheduled (schedprocs t ! i)" unfolding at using keep sch by simp
  ultimately have "sp_priority (schedprocs t ! i) \<le> sp_max_priority (schedprocs t ! i)"
    by (simp add: behind_max_def word_le_nat_alt)
  with st keep at show "scheduled (schedprocs t ! i) \<and> sp_max_priority (schedprocs t ! i) = sp_max_priority (schedprocs s ! i)
    \<and> sp_priority (schedprocs t ! i) \<le> sp_max_priority (schedprocs t ! i)" by simp
qed

theorem balancing_restores_priorities_witness:
  "sp_priority (schedprocs (ex_sched (0 :: int)) ! 3) = 12
   \<and> wp (repeat_m 15 (balance_queues ex_sched_os)) (\<lambda>_ t. sp_priority (schedprocs t ! 3) \<le> 5) (ex_sched 0)"
proof -
  have p: "schedprocs (ex_sched (0 :: int)) ! 3 = ex_proc" by (simp add: ex_sched_def)
  have "wp (repeat_m 15 (balance_queues ex_sched_os)) (\<lambda>_ t. sp_priority (schedprocs t ! 3) \<le> 5) (ex_sched 0)"
  proof (rule wp_mono [OF balancing_restores_priorities [OF ex_clock_law(2,1) ex_sched_ok]], goal_cases)
    case (1 x t)
    from 1 [rule_format, of 3] show ?case unfolding p by (auto simp: ex_proc_def)
  qed
  then show ?thesis using p by (simp add: ex_proc_def)
qed

text \<open>
  Only the process manager and the reincarnation server can start, stop or re-nice a process,
  and only the kernel can report a used quantum: a message of anyone else changes nothing but the
  console and is answered with an error.
\<close>

theorem strangers_change_nothing:
  assumes "\<not> accept_message m" and "\<not> is_ipc_notify status" and "\<not> from_kernel status"
  shows "wp (sched_dispatch os m status) (\<lambda>r t. \<exists>e. r = Some (e, m) \<and> e \<noteq> OK \<and> t = s\<lparr>p_out := p_out t\<rparr>) s"
  using assms by (rule stranger_wp)

theorem strangers_change_nothing_witness:
  "wp (sched_dispatch ex_sched_os (ex_start\<lparr>sm_source := 77, sm_type := SCHEDULING_STOP\<rparr>) 1)
     (\<lambda>r t. schedprocs t = schedprocs (ex_sched (0 :: int))) (ex_sched 0)"
proof -
  have "\<not> accept_message (ex_start\<lparr>sm_source := 77, sm_type := SCHEDULING_STOP\<rparr>)" "\<not> is_ipc_notify 1" "\<not> from_kernel 1"
    by (simp_all add: accept_message_def is_ipc_notify_def from_kernel_def)
  from strangers_change_nothing [OF this, of ex_sched_os "ex_sched 0"] show ?thesis
  proof (rule wp_mono, elim exE conjE)
    fix t :: "int sched"
    assume "t = (ex_sched 0)\<lparr>p_out := p_out t\<rparr>"
    then have "schedprocs t = schedprocs ((ex_sched (0 :: int))\<lparr>p_out := p_out t\<rparr>)" by (rule arg_cong [of t _ schedprocs])
    then show "schedprocs t = schedprocs (ex_sched (0 :: int))" by simp
  qed
qed

text \<open>
  C29. When the kernel refuses to schedule a new process, the request fails with the error of the
  kernel but the slot stays in use: the same request is refused from then on as a duplicate.
\<close>

theorem refused_start_blocks_slot:
  fixes s :: "'w sched"
  assumes "\<not> CONFIG_SMP os" and "length (schedprocs s) = NR_PROCS"
    and m: "accept_message m" "sm_type m = SCHEDULING_START" "sm_w2 m < 16"
    and slot: "sched_isemtyendpt os (schedprocs s) (sm_w0 m) = (OK, int i)"
    and "sys_schedctl (sc_kernel_call os) 0 (sm_w0 m) 0 0 0 (p_world s) = (OK, w1)"
    and "sys_schedule (sc_kernel_call os) (sm_w0 m) (sm_w2 m) (sm_w3 m) 0 w1 = (rv, w2)"
    and "rv \<noteq> err os EBADCPU"
  shows "wp (do_start_scheduling os m) (\<lambda>r t. fst r = rv \<and> schedprocs t = (schedprocs s)[i := started_proc m]
    \<and> do_start_scheduling os m t = Some (Inr ((err os EDEADEPT, m), t))) s"
proof (rule wp_mono [OF start_wp [OF assms]])
  fix r and t :: "'w sched"
  assume t: "fst r = rv \<and> schedprocs t = (schedprocs s)[i := started_proc m] \<and> p_world t = w2"
  note sl = isemtyendpt_slot [OF slot]
  have "nat (endpoint_p (sm_w0 m)) = i" "i < NR_PROCS" using sl by simp_all
  then have "scheduled (schedprocs t ! nat (endpoint_p (sm_w0 m)))" using t assms(2) by (simp add: started_proc_def)
  then have "sched_isemtyendpt os (schedprocs t) (sm_w0 m) = (err os EDEADEPT, endpoint_p (sm_w0 m))"
    using sl by (auto simp: sched_isemtyendpt_def Let_def)
  then have "do_start_scheduling os m t = Some (Inr ((err os EDEADEPT, m), t))"
    using m by (simp add: do_start_scheduling_def prog_defs)
  with t show "fst r = rv \<and> schedprocs t = (schedprocs s)[i := started_proc m]
    \<and> do_start_scheduling os m t = Some (Inr ((err os EDEADEPT, m), t))" by simp
qed

theorem refused_start_blocks_slot_witness:
  "wp (do_start_scheduling ex_sched_os ex_start) (\<lambda>r t. fst r = - 22
    \<and> do_start_scheduling ex_sched_os ex_start t = Some (Inr ((- 216, ex_start), t))) (ex_sched 0)"
proof -
  have e: "endpoint_p 9 = 9" by (simp add: endpoint_p_mod)
  have h: "length (schedprocs (ex_sched 0)) = NR_PROCS" "accept_message ex_start" "sm_type ex_start = SCHEDULING_START" "sm_w2 ex_start < 16"
    "sched_isemtyendpt ex_sched_os (schedprocs (ex_sched 0)) (sm_w0 ex_start) = (OK, int 9)"
    "sys_schedctl (sc_kernel_call ex_sched_os) 0 (sm_w0 ex_start) 0 0 0 (p_world (ex_sched 0)) = (OK, 0)"
    "sys_schedule (sc_kernel_call ex_sched_os) (sm_w0 ex_start) (sm_w2 ex_start) (sm_w3 ex_start) 0 0 = (- 22, 0)"
    "- 22 \<noteq> err ex_sched_os EBADCPU"
    by (simp_all add: ex_sched_def ex_start_def accept_message_def sched_isemtyendpt_def e zero_proc_def sys_schedctl_def
        sys_schedule_def ex_sched_os_def err_def)
  have "err ex_sched_os EDEADEPT = - 216" by (simp add: err_def ex_sched_os_def)
  with wp_mono [OF refused_start_blocks_slot [OF ex_clock_law(2) h]] show ?thesis by fastforce
qed

end
