(* ===== verification/Krn_Properties.thy ===== *)
theory Krn_Properties
  imports Sched_Properties
begin

text \<open>
  The properties of the run queues of the kernel and of the scheduler on top of them, each with an
  instance on a small example.
\<close>

section \<open>Examples\<close>

text \<open>
  A kernel with two processes: the current one in slot 10, runnable with priority 14, and one in
  slot 8, which has used up its quantum at priority 12 and belongs to the scheduler in slot 9.
\<close>

definition ex_krn_os :: "unit krn_os" where
  "ex_krn_os = \<lparr>kr_read_tsc = \<lambda>w. (5, w), kr_ms_2_cpu_time = \<lambda>ms. ucast ms, kr_cpu_time_2_ms = \<lambda>t. ucast t,
     kr_cpu_load = \<lambda>w. (0, w)\<rparr>"

definition ex_table :: "nat \<Rightarrow> kproc" where
  "ex_table x = (if x = 10 then zero_kproc\<lparr>kp_endpoint := 5, kp_priority := 14, kp_cpu_time_left := 9, kp_s_flags := 2\<rparr>
     else if x = 8 then zero_kproc\<lparr>kp_endpoint := 3, kp_rts_flags := 0x8000, kp_priority := 12, kp_scheduler := Some 9\<rparr>
     else zero_kproc\<lparr>kp_rts_flags := 1\<rparr>)"

definition ex_krn :: "unit krn" where
  "ex_krn = \<lparr>p_world = (), p_out = [], kprocs = ex_table, run_q_head = (\<lambda>_. None)(14 := Some 10),
     run_q_tail = (\<lambda>_. None)(14 := Some 10), proc_ptr = Some 10, bill_ptr = Some 10, monotonic = 600, system_hz = 60,
     kloadinfo = \<lparr>proc_load_history = replicate 150 0, proc_last_slot = 0, last_clock = 0\<rparr>\<rparr>"

definition ex_queues :: "nat \<Rightarrow> nat list" where
  "ex_queues = (\<lambda>_. [])(14 := [10])"

definition ex_link_os :: "unit krn sched_os" where
  "ex_link_os = \<lparr>tm_getticks = \<lambda>w. ((0, 100), w), tm_setalarm = \<lambda>time _ w. (0, w), tm_clock = \<lambda>t. t,
     sc_kernel_call = \<lambda>c m w. case (case c of SYS_SCHEDULE \<Rightarrow> do_schedule ex_krn_os 9 m w | SYS_SCHEDCTL \<Rightarrow> do_schedctl ex_krn_os 9 m w) of
       Some (Inr (r, v)) \<Rightarrow> (r, v) | _ \<Rightarrow> (0, w),
     sc_getinfo_hz = \<lambda>w. ((0, 60), w), sc_getmachine = \<lambda>w. ((0, \<lparr>processors_count = 1, bsp_id = 0\<rparr>), w),
     sc_receive = \<lambda>w. ((0, \<lparr>sm_source = 0, sm_type = 0, sm_w0 = 0, sm_w1 = 0, sm_w2 = 0, sm_w3 = 0\<rparr>, 0), w),
     sc_send = \<lambda>e m w. (0, w), CONFIG_SMP = False, CONFIG_MAX_CPUS = 1, DEFAULT_HZ = 60,
     sc_errno = \<lambda>e. case e of EBADEPT \<Rightarrow> 214 | EDEADEPT \<Rightarrow> 215 | EBADCPU \<Rightarrow> 216 | ENOSYS \<Rightarrow> 70\<rparr>"

lemma ex_table_at [simp]:
  "ex_table 10 = zero_kproc\<lparr>kp_endpoint := 5, kp_priority := 14, kp_cpu_time_left := 9, kp_s_flags := 2\<rparr>"
  "ex_table 8 = zero_kproc\<lparr>kp_endpoint := 3, kp_rts_flags := 0x8000, kp_priority := 12, kp_scheduler := Some 9\<rparr>"
  by (simp_all add: ex_table_def)

lemma ex_krn_runnable: "proc_is_runnable (ex_table x) \<longleftrightarrow> x = 10"
  by (simp add: ex_table_def proc_is_runnable_def zero_kproc_def)

lemma ex_krn_queue: "run_queue q (ex_queues q) ex_krn"
  by (cases "q = 14") (simp_all add: chain_def run_cell_def ex_krn_def ex_queues_def zero_kproc_def)

lemma ex_krn_ready: "ready ex_queues ex_krn"
proof -
  have k: "kprocs ex_krn = ex_table" by (simp add: ex_krn_def)
  have q: "queue_of (ex_table 10) = 14" by (simp add: queue_of_def)
  show ?thesis using ex_krn_queue q
    unfolding ready_but_def queues_def k ex_krn_runnable by (auto simp: ex_queues_def ex_krn_def last_of_def simp del: ex_table_at)
qed

section \<open>The run queues\<close>



text \<open>
  The kernel's check of its run queues always returns, and it returns one exactly when the
  queues hold the runnable processes as they should; apart from its marks and messages it changes
  nothing.
\<close>

theorem queue_check_is_exact:
  assumes "in_table s"
  shows "wp runqueues_ok_cpu (\<lambda>r t. r = (if \<exists>Q. ready Q s then 1 else 0) \<and> unmarked t = unmarked s) s"
  by (rule wp_mono [OF runqueues_ok_wp [OF assms]]) simp

theorem queue_check_is_exact_witness:
  "wp runqueues_ok_cpu (\<lambda>r t. r = 1) ex_krn"
proof -
  have "in_table ex_krn" by (simp add: in_table_def ex_krn_def ex_krn_runnable)
  from queue_check_is_exact [OF this] show ?thesis by (rule wp_mono) (use ex_krn_ready in auto)
qed

text \<open>
  C31. A process that wakes up and is more urgent than every runnable process gets the processor at
  the next switch, when the current process can be preempted; the current process goes to the head
  of its queue. This takes no interrupt: the choice ends at once.
\<close>

theorem urgent_process_runs:
  assumes "ready Q s" and "proc_ptr s = Some c" and "proc_is_runnable (kprocs s c)" and "kp_s_flags (kprocs s c) AND PREEMPTIBLE \<noteq> 0"
    and "kp_cpu_time_left (kprocs s c) \<noteq> 0"
    and "\<not> proc_is_runnable (kprocs s rp)" and "kp_rts_flags (kprocs s rp) AND NOT f = 0" and "in_range (kprocs s rp)"
    and "\<forall>x. proc_is_runnable (kprocs s x) \<longrightarrow> queue_of (kprocs s rp) < queue_of (kprocs s x)"
  shows "wp (andthen (RTS_UNSET os rp f) (pick_new os idle)) (\<lambda>p t. p = rp \<and> proc_ptr t = Some rp
    \<and> ready (put_first c (nat (queue_of (kprocs s c))) (drop_proc c (put_last rp (nat (queue_of (kprocs s rp))) Q))) t) s"
  using assms by (rule woken_runs)

theorem urgent_process_runs_witness:
  "wp (andthen (RTS_UNSET ex_krn_os 8 0x8000) (pick_new ex_krn_os (ret ()))) (\<lambda>p t. p = 8 \<and> proc_ptr t = Some 8) ex_krn"
proof -
  have k: "kprocs ex_krn = ex_table" by (simp add: ex_krn_def)
  have h: "proc_ptr ex_krn = Some 10" "proc_is_runnable (kprocs ex_krn 10)" "kp_s_flags (kprocs ex_krn 10) AND PREEMPTIBLE \<noteq> 0"
    "kp_cpu_time_left (kprocs ex_krn 10) \<noteq> 0" "\<not> proc_is_runnable (kprocs ex_krn 8)" "kp_rts_flags (kprocs ex_krn 8) AND NOT 0x8000 = 0"
    "in_range (kprocs ex_krn 8)" "\<forall>x. proc_is_runnable (kprocs ex_krn x) \<longrightarrow> queue_of (kprocs ex_krn 8) < queue_of (kprocs ex_krn x)"
    unfolding k by (simp_all add: ex_krn_runnable in_range_def queue_of_def del: ex_table_at) (simp_all add: ex_krn_def)
  from urgent_process_runs [OF ex_krn_ready h, of ex_krn_os "ret ()"] show ?thesis by (rule wp_mono) simp
qed

section \<open>Kernel calls\<close>

text \<open>
  C32. The range check of \<open>sched_proc\<close> lets the priority sixteen pass, one more than there are
  queues: scheduling a process with it that is runnable, or out of quantum only, accesses the
  arrays of queue heads behind their end.
\<close>

theorem priority_sixteen_out_of_bounds:
  assumes "ready Q s" and "kp_rts_flags (kprocs s p) AND NOT RTS_NO_QUANTUM = 0" and "1 \<le> sint quantum"
  shows "sched_proc os p 16 quantum cpu s = Some (Inl OutOfBounds)"
  using assms by (rule sched_proc_sixteen)

theorem priority_sixteen_out_of_bounds_witness:
  "sched_proc ex_krn_os 8 16 200 0 ex_krn = Some (Inl OutOfBounds)"
proof -
  have "kp_rts_flags (kprocs ex_krn 8) AND NOT RTS_NO_QUANTUM = 0" "1 \<le> sint (200 :: s32)" by (simp_all add: ex_krn_def)
  from priority_sixteen_out_of_bounds [OF ex_krn_ready this] show ?thesis .
qed

text \<open>
  When the kernel is to become the scheduler of a process and refuses the values, the call
  returns 1 instead of the error code, and nothing has changed: the result of the comparison is
  stored, not the result of \<open>sched_proc\<close>.
\<close>

theorem schedctl_hides_error:
  assumes "km_flags m = SCHEDCTL_FLAG_KERNEL" and "isokendpt (kprocs s) (km_endpoint m) = Some p"
    and "\<not> accepted (km_priority m) (km_quantum m)" and "km_priority m \<noteq> 16"
  shows "sched_proc os p (km_priority m) (km_quantum m) (km_cpu m) s = Some (Inr (EINVAL, s))
    \<and> do_schedctl os caller m s = Some (Inr (1, s))"
  using assms sched_proc_refuse [OF assms(3,4), of os p "km_cpu m"]
  by (simp add: do_schedctl_def isokendpt_f_def prog_defs)

definition ex_ctl :: kmsg where
  "ex_ctl = \<lparr>km_flags = 1, km_endpoint = 3, km_priority = 20, km_quantum = 200, km_cpu = - 1\<rparr>"

lemma ex_krn_endpoint: "isokendpt (kprocs ex_krn) 3 = Some 8"
  by (simp add: isokendpt_def ex_krn_def endpoint_p_mod isokprocn_def proc_addr_def isemptyp_def Let_def)

theorem schedctl_hides_error_witness:
  "do_schedctl ex_krn_os 9 ex_ctl ex_krn = Some (Inr (1, ex_krn))"
proof -
  have "km_flags ex_ctl = SCHEDCTL_FLAG_KERNEL" "isokendpt (kprocs ex_krn) (km_endpoint ex_ctl) = Some 8"
    "\<not> accepted (km_priority ex_ctl) (km_quantum ex_ctl)" "km_priority ex_ctl \<noteq> 16"
    by (simp_all add: ex_ctl_def ex_krn_endpoint accepted_def)
  from schedctl_hides_error [OF this, of ex_krn_os 9] show ?thesis by blast
qed

section \<open>Scheduler and kernel\<close>

text \<open>
  C33. A process that has used up its quantum: the scheduler, told by the kernel, lowers its
  priority by one, down to fifteen at most, and the kernel puts the process at the end of the queue
  of the new priority with its time slice renewed. The calls of the scheduler are those of the
  kernel, and it is the scheduler of the process.
\<close>

theorem used_quantum_lowers_queue:
  fixes s :: "'w krn sched"
  assumes "\<not> CONFIG_SMP os" and "kernel_link kos caller os" and "procs_ok s"
    and "sched_isokendpt os (schedprocs s) (sm_source m) = (OK, int i)"
    and "ready Q (p_world s)" and "proc_ptr (p_world s) = Some c" and "isokendpt (kprocs (p_world s)) (sm_source m) = Some p"
    and "kp_scheduler (kprocs (p_world s) p) = Some caller" and "kp_rts_flags (kprocs (p_world s) p) AND NOT RTS_NO_QUANTUM = 0"
    and "1 \<le> sint (sp_time_slice (schedprocs s ! i))"
  shows "let q = min 15 (unat (sp_priority (schedprocs s ! i)) + 1);
           tab = rescheduled kos p (of_nat q) (sp_time_slice (schedprocs s ! i)) (kcores (p_world s)) in
    wp (do_noquantum os m) (\<lambda>r t. r = OK \<and> unat (sp_priority (schedprocs t ! i)) = q
      \<and> ready (preempt_queues tab c p (put_last p q (drop_proc p Q))) (p_world t)
      \<and> kcores (p_world t) = preempt_procs tab c p) s"
  unfolding Let_def using assms by (rule quantum_wp)

theorem used_quantum_lowers_queue_witness:
  "wp (do_noquantum ex_link_os (ex_start\<lparr>sm_source := 3\<rparr>)) (\<lambda>r t. r = OK \<and> unat (sp_priority (schedprocs t ! 3)) = 13) (ex_sched ex_krn)"
proof -
  have link: "kernel_link ex_krn_os 9 ex_link_os" by (simp add: kernel_link_def ex_link_os_def)
  have p: "schedprocs (ex_sched ex_krn) ! 3 = ex_proc" and w: "p_world (ex_sched ex_krn) = ex_krn" by (simp_all add: ex_sched_def)
  have h: "\<not> CONFIG_SMP ex_link_os" "sched_isokendpt ex_link_os (schedprocs (ex_sched ex_krn)) (sm_source (ex_start\<lparr>sm_source := 3\<rparr>)) = (OK, int 3)"
    by (simp_all add: ex_link_os_def sched_isokendpt_def endpoint_p_mod p Let_def) (simp_all add: ex_proc_def)
  have k: "ready ex_queues (p_world (ex_sched ex_krn))" "proc_ptr (p_world (ex_sched ex_krn)) = Some 10"
    "isokendpt (kprocs (p_world (ex_sched ex_krn))) (sm_source (ex_start\<lparr>sm_source := 3\<rparr>)) = Some 8"
    "kp_scheduler (kprocs (p_world (ex_sched ex_krn)) 8) = Some 9"
    "kp_rts_flags (kprocs (p_world (ex_sched ex_krn)) 8) AND NOT RTS_NO_QUANTUM = 0"
    "1 \<le> sint (sp_time_slice (schedprocs (ex_sched ex_krn) ! 3))"
    unfolding w p using ex_krn_ready ex_krn_endpoint by (simp_all add: ex_krn_def ex_proc_def)
  have q: "min 15 (unat (sp_priority (schedprocs (ex_sched ex_krn) ! 3)) + 1) = 13" unfolding p by (simp add: ex_proc_def)
  show ?thesis
    by (rule wp_mono [OF used_quantum_lowers_queue [OF h(1) link ex_sched_ok(1) h(2) k, unfolded Let_def q]]) simp
qed

end
