(* ===== verification/Ipc_Base.thy ===== *)
theory Ipc_Base
  imports Krn_Run
begin

text \<open>
  Message passing in the kernel: the part of the process table and of the privilege structures that
  it works on (\<open>kernel/proc.h\<close>, \<open>kernel/priv.h\<close>), and the macros of \<open>kernel/ipc.h\<close> and
  \<open>kernel/const.h\<close>.

  An entry of the process table is split: what scheduling works on is the \<open>kproc\<close> of the kernel
  state, the rest is an \<open>iproc\<close> for the same slot. A pointer to a privilege structure is its index;
  \<open>s_id\<close> is that index (\<open>proc_init\<close> sets it once). The flags of a privilege structure are part of
  the \<open>kproc\<close> of its process. The diagnostics under \<open>DEBUG_ENABLE_IPC_WARNINGS\<close> and the hooks under
  \<open>DEBUG_IPC_HOOK\<close> write to the console only and are left out, except for the array that the
  deadlock check fills. The parts under \<open>CONFIG_SMP\<close> are left out.
\<close>

section \<open>State\<close>

type_synonym sigset = "128 word"

text \<open>A message: source, type and 56 bytes.\<close>

record ipc_msg =
  im_source :: endpoint
  im_type :: s32
  im_payload :: "byte list"

record asynmsg =
  am_flags :: u32
  am_dst :: endpoint
  am_result :: int
  am_msg :: ipc_msg

record iproc =
  ip_priv :: ptr
  ip_misc_flags :: u32
  ip_caller_q :: ptr
  ip_q_link :: ptr
  ip_getfrom_e :: endpoint
  ip_sendto_e :: endpoint
  ip_pending :: sigset
  ip_sendmsg :: ipc_msg
  ip_delivermsg :: ipc_msg
  ip_delivermsg_vir :: u32
  ip_status :: u32
  ip_retreg :: int
  ip_bx :: u32
  ip_defer :: "u32 \<times> u32 \<times> u32"
  ip_signal_received :: u64

record priv =
  s_proc_nr :: s32
  s_asyntab :: u32
  s_asynsize :: u32
  s_trap_mask :: u16
  s_ipc_to :: "u32 list"
  s_sig_mgr :: endpoint
  s_bak_sig_mgr :: endpoint
  s_notify_pending :: "u32 list"
  s_asyn_pending :: "u32 list"
  s_int_pending :: u32
  s_sig_pending :: sigset
  s_diag_sig :: bool

record 'w ikrn =
  core :: "'w krn"
  iprocs :: "nat \<Rightarrow> iproc"
  privs :: "nat \<Rightarrow> priv"
  kbill_ipc :: ptr
  minix_kerninfo_user :: u32

type_synonym ('w, 'a) iprog = "('w ikrn, 'a) prog"

text \<open>
  What message passing takes from the machine: copies between the kernel and the memory of
  processes. \<open>io_copy_msg\<close> copies a message from the address space of the current process; it says
  whether the copy was complete and what the buffer holds then. \<open>io_retrieve\<close> and \<open>io_insert\<close> copy an
  entry of a table of asynchronous messages.

  The numbers of errors and signals come from header files of the C library.
\<close>

datatype ipc_errno = EDEADSRCDST | ECALLDENIED | ETRAPDENIED | ENOTREADY | ELOCKED | EBADCALL | EDOM

datatype ksignal = SIGKSIG | SIGKSIGSM | SIGSNDELAY | SIGKMESS | SIGTRAP

record 'w ipc_os =
  io_krn :: "'w krn_os"
  io_copy_msg :: "ptr \<Rightarrow> u32 \<Rightarrow> ipc_msg \<Rightarrow> 'w \<Rightarrow> (bool \<times> ipc_msg) \<times> 'w"
  io_retrieve :: "endpoint \<Rightarrow> u32 \<Rightarrow> 'w \<Rightarrow> asynmsg option \<times> 'w"
  io_insert :: "endpoint \<Rightarrow> u32 \<Rightarrow> asynmsg \<Rightarrow> 'w \<Rightarrow> bool \<times> 'w"
  io_errno :: "ipc_errno \<Rightarrow> nat"
  io_signo :: "ksignal \<Rightarrow> nat"
  io_lethal :: "nat \<Rightarrow> bool"

definition ierr :: "'w ipc_os \<Rightarrow> ipc_errno \<Rightarrow> int" where
  "ierr os e = - 1 - int (io_errno os e)"

section \<open>Constants\<close>

definition ANY :: endpoint where [simp]: "ANY = of_int (ENDPOINT_GENERATION_SIZE - MAX_NR_TASKS - 1)"
definition SELF :: endpoint where [simp]: "SELF = of_int (ENDPOINT_GENERATION_SIZE - MAX_NR_TASKS - 3)"
definition ASYNCM :: int where [simp]: "ASYNCM = - 5"
definition SYSTEM :: int where [simp]: "SYSTEM = - 2"
definition HARDWARE :: int where [simp]: "HARDWARE = - 1"

definition RTS_SENDING :: u32 where [simp]: "RTS_SENDING = 0x04"
definition RTS_RECEIVING :: u32 where [simp]: "RTS_RECEIVING = 0x08"
definition RTS_SIGNALED :: u32 where [simp]: "RTS_SIGNALED = 0x10"
definition RTS_SIG_PENDING :: u32 where [simp]: "RTS_SIG_PENDING = 0x20"
definition RTS_NO_PRIV :: u32 where [simp]: "RTS_NO_PRIV = 0x80"
definition RTS_NO_ENDPOINT :: u32 where [simp]: "RTS_NO_ENDPOINT = 0x100"

definition MF_REPLY_PEND :: u32 where [simp]: "MF_REPLY_PEND = 0x001"
definition MF_DELIVERMSG :: u32 where [simp]: "MF_DELIVERMSG = 0x040"
definition MF_SIG_DELAY :: u32 where [simp]: "MF_SIG_DELAY = 0x080"
definition MF_SC_ACTIVE :: u32 where [simp]: "MF_SC_ACTIVE = 0x100"
definition MF_SC_DEFER :: u32 where [simp]: "MF_SC_DEFER = 0x200"
definition MF_SC_TRACE :: u32 where [simp]: "MF_SC_TRACE = 0x400"
definition MF_SENDING_FROM_KERNEL :: u32 where [simp]: "MF_SENDING_FROM_KERNEL = 0x2000"

definition SEND :: nat where [simp]: "SEND = 1"
definition RECEIVE :: nat where [simp]: "RECEIVE = 2"
definition SENDREC :: nat where [simp]: "SENDREC = 3"
definition NOTIFY :: nat where [simp]: "NOTIFY = 4"
definition SENDNB :: nat where [simp]: "SENDNB = 5"
definition MINIX_KERNINFO :: nat where [simp]: "MINIX_KERNINFO = 6"
definition SENDA :: nat where [simp]: "SENDA = 16"
definition IPCNO_HIGHEST :: nat where [simp]: "IPCNO_HIGHEST = SENDA"

definition NON_BLOCKING :: u32 where [simp]: "NON_BLOCKING = 0x0080"
definition IPC_FLG_MSG_FROM_KERNEL :: u32 where [simp]: "IPC_FLG_MSG_FROM_KERNEL = 1"
definition SYS_PROC :: u32 where [simp]: "SYS_PROC = 0x010"

definition AMF_VALID :: u32 where [simp]: "AMF_VALID = 1"
definition AMF_DONE :: u32 where [simp]: "AMF_DONE = 2"
definition AMF_NOTIFY :: u32 where [simp]: "AMF_NOTIFY = 4"
definition AMF_NOREPLY :: u32 where [simp]: "AMF_NOREPLY = 8"
definition AMF_NOTIFY_ERR :: u32 where [simp]: "AMF_NOTIFY_ERR = 16"

text \<open>The calls that have a name, as \<open>kmain\<close> sets them up.\<close>

definition ipc_call_names :: "nat \<Rightarrow> bool" where
  "ipc_call_names n \<longleftrightarrow> n \<in> set [SEND, RECEIVE, SENDREC, NOTIFY, SENDNB, SENDA]"

section \<open>Steps on parts of the state\<close>

text \<open>A step of the scheduling part of the kernel.\<close>

definition in_krn :: "('w, 'a) kprog \<Rightarrow> ('w, 'a) iprog" where
  "in_krn m = (\<lambda>s. case m (core s) of
      None \<Rightarrow> None
    | Some (Inl f) \<Rightarrow> Some (Inl f)
    | Some (Inr (x, k)) \<Rightarrow> Some (Inr (x, s\<lparr>core := k\<rparr>)))"

definition set_iproc :: "nat \<Rightarrow> (iproc \<Rightarrow> iproc) \<Rightarrow> ('w, unit) iprog" where
  "set_iproc i f = modify (\<lambda>s. s\<lparr>iprocs := (iprocs s)(i := f (iprocs s i))\<rparr>)"

definition set_priv :: "nat \<Rightarrow> (priv \<Rightarrow> priv) \<Rightarrow> ('w, unit) iprog" where
  "set_priv i f = modify (\<lambda>s. s\<lparr>privs := (privs s)(i := f (privs s i))\<rparr>)"

definition kproc_of :: "nat \<Rightarrow> ('w, kproc) iprog" where
  "kproc_of x = gets (\<lambda>s. kprocs (core s) x)"

definition iproc_of :: "nat \<Rightarrow> ('w, iproc) iprog" where
  "iproc_of x = gets (\<lambda>s. iprocs s x)"

definition priv_of :: "nat \<Rightarrow> ('w, nat) iprog" where
  "priv_of x = bnd (iproc_of x) (\<lambda>p. case ip_priv p of None \<Rightarrow> raise NullPointer | Some i \<Rightarrow> ret i)"

definition set_misc :: "nat \<Rightarrow> u32 \<Rightarrow> ('w, unit) iprog" where
  "set_misc x f = set_iproc x (\<lambda>p. p\<lparr>ip_misc_flags := ip_misc_flags p OR f\<rparr>)"

definition unset_misc :: "nat \<Rightarrow> u32 \<Rightarrow> ('w, unit) iprog" where
  "unset_misc x f = set_iproc x (\<lambda>p. p\<lparr>ip_misc_flags := ip_misc_flags p AND NOT f\<rparr>)"

text \<open>The queue of the processes that wait to send to \<open>d\<close>.\<close>

definition q_cell :: "nat \<Rightarrow> link \<Rightarrow> 'w ikrn \<Rightarrow> ptr" where
  "q_cell d l s = (case l of Head \<Rightarrow> ip_caller_q (iprocs s d) | Next x \<Rightarrow> ip_q_link (iprocs s x))"

definition set_q_cell :: "nat \<Rightarrow> link \<Rightarrow> ptr \<Rightarrow> 'w ikrn \<Rightarrow> 'w ikrn" where
  "set_q_cell d l p s = (case l of
      Head \<Rightarrow> s\<lparr>iprocs := (iprocs s)(d := (iprocs s d)\<lparr>ip_caller_q := p\<rparr>)\<rparr>
    | Next x \<Rightarrow> s\<lparr>iprocs := (iprocs s)(x := (iprocs s x)\<lparr>ip_q_link := p\<rparr>)\<rparr>)"

section \<open>Macros\<close>

definition P_BLOCKEDON :: "kproc \<Rightarrow> iproc \<Rightarrow> endpoint" where
  "P_BLOCKEDON k i =
     (if kp_rts_flags k AND RTS_SENDING \<noteq> 0 then ip_sendto_e i
      else if kp_rts_flags k AND RTS_RECEIVING \<noteq> 0 then ip_getfrom_e i
      else NONE)"

definition WILLRECEIVE :: "kproc \<Rightarrow> iproc \<Rightarrow> endpoint \<Rightarrow> bool" where
  "WILLRECEIVE k i source_ep \<longleftrightarrow>
     (RTS_ISSET k RTS_RECEIVING \<and> \<not> RTS_ISSET k RTS_SENDING) \<and> (ip_getfrom_e i = ANY \<or> ip_getfrom_e i = source_ep)"

definition IPC_STATUS_ADD :: "nat \<Rightarrow> u32 \<Rightarrow> ('w, unit) iprog" where
  "IPC_STATUS_ADD x m = set_iproc x (\<lambda>p.
     if ip_misc_flags p AND MF_REPLY_PEND = 0 then p\<lparr>ip_status := ip_status p OR m\<rparr> else p)"

definition IPC_STATUS_ADD_CALL :: "nat \<Rightarrow> nat \<Rightarrow> ('w, unit) iprog" where
  "IPC_STATUS_ADD_CALL x call = IPC_STATUS_ADD x (of_nat call AND 0x3F)"

definition IPC_STATUS_ADD_FLAGS :: "nat \<Rightarrow> u32 \<Rightarrow> ('w, unit) iprog" where
  "IPC_STATUS_ADD_FLAGS x flags = IPC_STATUS_ADD x (push_bit 16 flags)"

definition iskerneln :: "int \<Rightarrow> bool" where
  "iskerneln n \<longleftrightarrow> n < 0"

text \<open>\<open>may_send_to(rp, nr)\<close>, with the slot of \<open>nr\<close>.\<close>

definition may_send_to :: "nat \<Rightarrow> nat \<Rightarrow> ('w, bool) iprog" where
  "may_send_to x y = bnd (priv_of x) (\<lambda>i. bnd (priv_of y) (\<lambda>j. gets (\<lambda>s. GET_BIT (s_ipc_to (privs s i)) j)))"

definition okendpt :: "endpoint \<Rightarrow> ('w, nat) iprog" where
  "okendpt e = bnd (in_krn (isokendpt_f e True)) (\<lambda>r. case r of None \<Rightarrow> raise Panic | Some x \<Rightarrow> ret x)"

text \<open>The first \<open>n\<close> bytes of a number, as they lie in memory.\<close>

definition word_bytes :: "nat \<Rightarrow> 'a::len word \<Rightarrow> byte list" where
  "word_bytes n w = map (\<lambda>i. ucast (drop_bit (8 * i) w)) [0..<n]"

definition sigaddset :: "sigset \<Rightarrow> nat \<Rightarrow> sigset" where
  "sigaddset sigs n = sigs OR push_bit (n - 1) 1"

definition sigismember :: "sigset \<Rightarrow> nat \<Rightarrow> bool" where
  "sigismember sigs n \<longleftrightarrow> bit sigs (n - 1)"

text \<open>
  \<open>BuildNotifyMessage\<close>: the message with the time, and with the interrupts or signals of \<open>d\<close> that
  are pending, for a source among the kernel tasks.
\<close>

definition mess_notify :: "u32 \<Rightarrow> u32 \<Rightarrow> sigset \<Rightarrow> ipc_msg" where
  "mess_notify timestamp interrupts sigs = \<lparr>im_source = 0, im_type = of_int NOTIFY_MESSAGE,
     im_payload = word_bytes 8 (ucast timestamp :: u64) @ word_bytes 8 (ucast interrupts :: u64) @ word_bytes 16 sigs @ replicate 24 0\<rparr>"

definition BuildNotifyMessage :: "int \<Rightarrow> nat \<Rightarrow> ('w, ipc_msg) iprog" where
  "BuildNotifyMessage src d = bnd (gets (\<lambda>s. monotonic (core s))) (\<lambda>time.
     if src = HARDWARE then
       bnd (priv_of d) (\<lambda>i. bnd (gets (\<lambda>s. s_int_pending (privs s i))) (\<lambda>irqs.
       andthen (set_priv i (\<lambda>p. p\<lparr>s_int_pending := 0\<rparr>)) (ret (mess_notify time irqs 0))))
     else if src = SYSTEM then
       bnd (priv_of d) (\<lambda>i. bnd (gets (\<lambda>s. s_sig_pending (privs s i))) (\<lambda>sigs.
       andthen (set_priv i (\<lambda>p. p\<lparr>s_sig_pending := 0\<rparr>)) (ret (mess_notify time 0 sigs))))
     else ret (mess_notify time 0 0))"

text \<open>A message is put into the entry of its receiver, to be copied when the process runs again.\<close>

definition deliver :: "nat \<Rightarrow> endpoint \<Rightarrow> ('w, unit) iprog" where
  "deliver d source = andthen (set_iproc d (\<lambda>p. p\<lparr>ip_delivermsg := (ip_delivermsg p)\<lparr>im_source := source\<rparr>\<rparr>)) (set_misc d MF_DELIVERMSG)"

section \<open>Rules\<close>

lemma wp_in_krn [wp_simps]: "wp (in_krn m) Q = (\<lambda>s. wp m (\<lambda>x k. Q x (s\<lparr>core := k\<rparr>)) (core s))"
  by (rule ext) (auto simp: wp_def in_krn_def split: option.splits sum.splits)

lemma wlp_in_krn [wp_simps]: "wlp (in_krn m) Q = (\<lambda>s. wlp m (\<lambda>x k. Q x (s\<lparr>core := k\<rparr>)) (core s))"
  by (rule ext) (auto simp: wlp_def in_krn_def split: option.splits sum.splits)

end
