(* ===== verification/Ipc_Calls.thy ===== *)
theory Ipc_Calls
  imports Ipc_Base
begin

text \<open>
  Message passing in the kernel: \<open>mini_send\<close>, \<open>mini_receive\<close>, \<open>mini_notify\<close>, asynchronous messages
  and the entry points of \<open>kernel/proc.c\<close>, with the signals and the clean-up of \<open>kernel/system.c\<close>
  that they use. Output on the console is left out.
\<close>

section \<open>Deadlocks\<close>

text \<open>
  The loop variables are the size of the group and the endpoint to look at. The array \<open>processes\<close>
  has an entry for each process of the table; \<open>function\<close> is \<open>SEND\<close> or \<open>RECEIVE\<close>.
\<close>

definition deadlock_turn :: "nat \<Rightarrow> nat \<Rightarrow> nat \<times> endpoint \<Rightarrow> ('w, nat \<times> endpoint + nat) iprog" where
  "deadlock_turn function' cp v = (case v of (group_size, src_dst_e) \<Rightarrow>
     if src_dst_e = ANY then ret (Inr 0)
     else
       bnd (okendpt src_dst_e) (\<lambda>xp.
       bnd (kproc_of xp) (\<lambda>k.
       bnd (iproc_of xp) (\<lambda>i.
       andthen (check AssertFailed (\<not> RTS_ISSET k RTS_SLOT_FREE)) (
       andthen (check OutOfBounds (group_size < NR_PROCS + NR_TASKS)) (
       let group_size = group_size + 1; src_dst_e = P_BLOCKEDON k i in
       if src_dst_e = NONE then ret (Inr 0)
       else
         bnd (kproc_of cp) (\<lambda>c.
         if src_dst_e = kp_endpoint c then
           if group_size = 2 \<and> (kp_rts_flags k XOR push_bit 2 (of_nat function')) AND RTS_SENDING \<noteq> 0
           then ret (Inr 0) else ret (Inr group_size)
         else ret (Inl (group_size, src_dst_e)))))))))"

definition deadlock :: "nat \<Rightarrow> nat \<Rightarrow> endpoint \<Rightarrow> ('w, nat) iprog" where
  "deadlock function' cp src_dst_e = loop_m (deadlock_turn function' cp) (1, src_dst_e)"

section \<open>Pending messages\<close>

text \<open>
  The source is a slot, or \<open>None\<close> for any source; the result is the index of a privilege structure,
  \<open>None\<close> for \<open>NULL_PRIV_ID\<close>. The search for any source goes by chunks first, then by bits.
\<close>

definition has_pending :: "u32 list \<Rightarrow> nat option \<Rightarrow> ('w, nat option) iprog" where
  "has_pending map' src = (case src of
       Some x \<Rightarrow> bnd (priv_of x) (\<lambda>src_id. ret (if GET_BIT map' src_id then Some src_id else None))
     | None \<Rightarrow> ret (case first_slot (\<lambda>c. map' ! c \<noteq> 0) [0..<NR_SYS_PROCS div BITCHUNK_BITS] of
           None \<Rightarrow> None
         | Some c \<Rightarrow> map_option (\<lambda>k. BITCHUNK_BITS * c + k) (first_slot (GET_BIT map') [BITCHUNK_BITS * c..<NR_SYS_PROCS])))"

definition has_pending_notify :: "nat \<Rightarrow> nat option \<Rightarrow> ('w, nat option) iprog" where
  "has_pending_notify c src = bnd (priv_of c) (\<lambda>i. bnd (gets (\<lambda>s. s_notify_pending (privs s i))) (\<lambda>map'. has_pending map' src))"

definition has_pending_asend :: "nat \<Rightarrow> nat option \<Rightarrow> ('w, nat option) iprog" where
  "has_pending_asend c src = bnd (priv_of c) (\<lambda>i. bnd (gets (\<lambda>s. s_asyn_pending (privs s i))) (\<lambda>map'. has_pending map' src))"

definition unset_notify_pending :: "nat \<Rightarrow> nat \<Rightarrow> ('w, unit) iprog" where
  "unset_notify_pending c src_p = bnd (priv_of c) (\<lambda>i. set_priv i (\<lambda>p. p\<lparr>s_notify_pending := UNSET_BIT (s_notify_pending p) src_p\<rparr>))"

section \<open>Notifications\<close>

definition mini_notify :: "'w ipc_os \<Rightarrow> nat \<Rightarrow> endpoint \<Rightarrow> ('w, int) iprog" where
  "mini_notify os c dst_e = bnd (in_krn (isokendpt_f dst_e False)) (\<lambda>r. case r of
       None \<Rightarrow> ret (ierr os EDEADSRCDST)
     | Some d \<Rightarrow>
         bnd (kproc_of c) (\<lambda>ck. bnd (kproc_of d) (\<lambda>dk. bnd (iproc_of d) (\<lambda>di.
         if WILLRECEIVE dk di (kp_endpoint ck) \<and> ip_misc_flags di AND MF_REPLY_PEND = 0 then
           andthen (check AssertFailed (ip_misc_flags di AND MF_DELIVERMSG = 0)) (
           bnd (BuildNotifyMessage (p_nr c) d) (\<lambda>m.
           andthen (set_iproc d (\<lambda>p. p\<lparr>ip_delivermsg := m\<rparr>)) (
           andthen (deliver d (kp_endpoint ck)) (
           andthen (IPC_STATUS_ADD_CALL d NOTIFY) (
           andthen (in_krn (RTS_UNSET (io_krn os) d RTS_RECEIVING)) (ret OK))))))
         else
           bnd (priv_of c) (\<lambda>src_id. bnd (priv_of d) (\<lambda>i.
           andthen (set_priv i (\<lambda>p. p\<lparr>s_notify_pending := SET_BIT (s_notify_pending p) src_id\<rparr>)) (ret OK)))))))"

section \<open>Signals\<close>

definition increase_proc_signals :: "nat \<Rightarrow> ('w, unit) iprog" where
  "increase_proc_signals x = set_iproc x (\<lambda>p. p\<lparr>ip_signal_received := ip_signal_received p + 1\<rparr>)"

definition send_sig :: "'w ipc_os \<Rightarrow> endpoint \<Rightarrow> nat \<Rightarrow> ('w, int) iprog" where
  "send_sig os ep sig_nr = bnd (in_krn (isokendpt_f ep False)) (\<lambda>r. case r of
       None \<Rightarrow> ret EINVAL
     | Some x \<Rightarrow>
         bnd (iproc_of x) (\<lambda>p. case ip_priv p of
           None \<Rightarrow> ret ENOENT
         | Some i \<Rightarrow>
             andthen (set_priv i (\<lambda>p. p\<lparr>s_sig_pending := sigaddset (s_sig_pending p) sig_nr\<rparr>)) (
             andthen (increase_proc_signals x) (
             bnd (kproc_of x) (\<lambda>k.
             andthen (mini_notify os (proc_addr SYSTEM) (kp_endpoint k)) (ret OK))))))"

text \<open>
  The process \<open>x\<close> gets a signal; \<open>own_signal\<close> is the case that it is its own signal manager. That
  case tries again with the backup manager, so that \<open>cause_sig\<close> is a loop.
\<close>

definition own_signal :: "'w ipc_os \<Rightarrow> nat \<Rightarrow> nat \<Rightarrow> ('w, unit + unit) iprog" where
  "own_signal os x sig_nr = bnd (priv_of x) (\<lambda>i.
     if io_lethal os sig_nr then
       bnd (gets (\<lambda>s. s_bak_sig_mgr (privs s i))) (\<lambda>mgr.
       bnd (in_krn (isokendpt_f mgr False)) (\<lambda>r.
       if mgr = NONE then raise Panic
       else case r of
         None \<Rightarrow> raise Panic
       | Some y \<Rightarrow>
           andthen (set_priv i (\<lambda>p. p\<lparr>s_sig_mgr := mgr, s_bak_sig_mgr := NONE\<rparr>)) (
           andthen (in_krn (RTS_UNSET (io_krn os) y RTS_NO_PRIV)) (ret (Inl ())))))
     else
       andthen (set_priv i (\<lambda>p. p\<lparr>s_sig_pending := sigaddset (s_sig_pending p) sig_nr\<rparr>)) (
       bnd (kproc_of x) (\<lambda>k.
       bnd (send_sig os (kp_endpoint k) (io_signo os SIGKSIGSM)) (\<lambda>r.
       if OK \<noteq> r then raise Panic else ret (Inr ())))))"

definition other_signal :: "'w ipc_os \<Rightarrow> nat \<Rightarrow> nat \<Rightarrow> endpoint \<Rightarrow> ('w, unit) iprog" where
  "other_signal os x sig_nr sig_mgr = bnd (iproc_of x) (\<lambda>p.
     if \<not> sigismember (ip_pending p) sig_nr then
       andthen (set_iproc x (\<lambda>p. p\<lparr>ip_pending := sigaddset (ip_pending p) sig_nr\<rparr>)) (
       andthen (increase_proc_signals x) (
       bnd (kproc_of x) (\<lambda>k.
       if \<not> RTS_ISSET k RTS_SIGNALED then
         andthen (in_krn (RTS_SET (io_krn os) x (RTS_SIGNALED OR RTS_SIG_PENDING))) (
         bnd (send_sig os sig_mgr (io_signo os SIGKSIG)) (\<lambda>r.
         if OK \<noteq> r then raise Panic else ret ()))
       else ret ())))
     else ret ())"

definition cause_sig :: "'w ipc_os \<Rightarrow> nat \<Rightarrow> nat \<Rightarrow> ('w, unit) iprog" where
  "cause_sig os x sig_nr = loop_m (\<lambda>_. bnd (priv_of x) (\<lambda>i.
     bnd (gets (\<lambda>s. s_sig_mgr (privs s i))) (\<lambda>mgr.
     bnd (kproc_of x) (\<lambda>k.
     let sig_mgr = (if mgr = SELF then kp_endpoint k else mgr) in
     if kp_endpoint k = sig_mgr then own_signal os x sig_nr
     else andthen (other_signal os x sig_nr sig_mgr) (ret (Inr ())))))) ()"

definition sig_delay_done :: "'w ipc_os \<Rightarrow> nat \<Rightarrow> ('w, unit) iprog" where
  "sig_delay_done os x = andthen (unset_misc x MF_SIG_DELAY) (cause_sig os x (io_signo os SIGSNDELAY))"

definition send_diag_sig :: "'w ipc_os \<Rightarrow> ('w, unit) iprog" where
  "send_diag_sig os = for_m [0..<NR_SYS_PROCS] (\<lambda>i. bnd (gets (\<lambda>s. privs s i)) (\<lambda>p.
     if s_proc_nr p \<noteq> NONE \<and> s_diag_sig p then
       bnd (kproc_of (proc_addr (sint (s_proc_nr p)))) (\<lambda>k.
       andthen (send_sig os (kp_endpoint k) (io_signo os SIGKMESS)) (ret ()))
     else ret ()))"

section \<open>Sending\<close>

text \<open>
  A message is sent from a buffer of the calling process, or by the kernel on behalf of a process
  (\<open>FROM_KERNEL\<close>).
\<close>

datatype mbuf = From_User u32 | From_Kernel ipc_msg

definition copy_msg_from_user :: "'w ipc_os \<Rightarrow> u32 \<Rightarrow> ipc_msg \<Rightarrow> ('w, bool \<times> ipc_msg) iprog" where
  "copy_msg_from_user os buf old = bnd (gets (\<lambda>s. proc_ptr (core s))) (\<lambda>cur. in_krn (os_call (io_copy_msg os cur buf old)))"

definition fill_delivermsg :: "'w ipc_os \<Rightarrow> nat \<Rightarrow> mbuf \<Rightarrow> ('w, bool) iprog" where
  "fill_delivermsg os d m = (case m of
       From_User buf \<Rightarrow>
         bnd (iproc_of d) (\<lambda>p. bnd (copy_msg_from_user os buf (ip_delivermsg p)) (\<lambda>(ok, new).
         andthen (set_iproc d (\<lambda>p. p\<lparr>ip_delivermsg := new\<rparr>)) (ret ok)))
     | From_Kernel new \<Rightarrow>
         andthen (set_iproc d (\<lambda>p. p\<lparr>ip_delivermsg := new\<rparr>)) (
         andthen (IPC_STATUS_ADD_FLAGS d IPC_FLG_MSG_FROM_KERNEL) (ret True)))"

definition fill_sendmsg :: "'w ipc_os \<Rightarrow> nat \<Rightarrow> mbuf \<Rightarrow> ('w, bool) iprog" where
  "fill_sendmsg os c m = (case m of
       From_User buf \<Rightarrow>
         bnd (iproc_of c) (\<lambda>p. bnd (copy_msg_from_user os buf (ip_sendmsg p)) (\<lambda>(ok, new).
         andthen (set_iproc c (\<lambda>p. p\<lparr>ip_sendmsg := new\<rparr>)) (ret ok)))
     | From_Kernel new \<Rightarrow>
         andthen (set_iproc c (\<lambda>p. p\<lparr>ip_sendmsg := new\<rparr>)) (
         andthen (set_misc c MF_SENDING_FROM_KERNEL) (ret True)))"

definition send_direct :: "'w ipc_os \<Rightarrow> nat \<Rightarrow> nat \<Rightarrow> mbuf \<Rightarrow> u32 \<Rightarrow> ('w, int) iprog" where
  "send_direct os c d m flags = bnd (iproc_of d) (\<lambda>di.
     andthen (check AssertFailed (ip_misc_flags di AND MF_DELIVERMSG = 0)) (
     bnd (fill_delivermsg os d m) (\<lambda>ok.
     if \<not> ok then ret EFAULT
     else
       bnd (kproc_of c) (\<lambda>ck. bnd (iproc_of c) (\<lambda>ci.
       andthen (deliver d (kp_endpoint ck)) (
       andthen (IPC_STATUS_ADD_CALL d (if ip_misc_flags ci AND MF_REPLY_PEND \<noteq> 0 then SENDREC
         else if flags AND NON_BLOCKING \<noteq> 0 then SENDNB else SEND)) (
       andthen (unset_misc d MF_REPLY_PEND) (
       andthen (in_krn (RTS_UNSET (io_krn os) d RTS_RECEIVING)) (ret OK)))))))))"

text \<open>The caller is blocked and joins the end of the queue of the destination.\<close>

definition join_queue :: "nat \<Rightarrow> nat \<Rightarrow> ('w, unit) iprog" where
  "join_queue c d = bnd (iproc_of c) (\<lambda>ci.
     andthen (check AssertFailed (ip_q_link ci = None)) (
     bnd (walk (q_cell d) (\<lambda>_ _. False)) (\<lambda>l. modify (set_q_cell d l (Some c)))))"

definition send_blocked :: "'w ipc_os \<Rightarrow> nat \<Rightarrow> nat \<Rightarrow> endpoint \<Rightarrow> mbuf \<Rightarrow> u32 \<Rightarrow> ('w, int) iprog" where
  "send_blocked os c d dst_e m flags =
     (if flags AND NON_BLOCKING \<noteq> 0 then ret (ierr os ENOTREADY)
      else
        bnd (deadlock SEND c dst_e) (\<lambda>group.
        if group \<noteq> 0 then ret (ierr os ELOCKED)
        else
          bnd (fill_sendmsg os c m) (\<lambda>ok.
          if \<not> ok then ret EFAULT
          else
            andthen (in_krn (RTS_SET (io_krn os) c RTS_SENDING)) (
            andthen (set_iproc c (\<lambda>p. p\<lparr>ip_sendto_e := dst_e\<rparr>)) (
            andthen (join_queue c d) (ret OK))))))"

definition mini_send :: "'w ipc_os \<Rightarrow> nat \<Rightarrow> endpoint \<Rightarrow> mbuf \<Rightarrow> u32 \<Rightarrow> ('w, int) iprog" where
  "mini_send os c dst_e m flags =
     (let dst_p = endpoint_p dst_e; d = proc_addr dst_p in
      andthen (check OutOfBounds (isokprocn dst_p)) (
      bnd (kproc_of d) (\<lambda>dk.
      if RTS_ISSET dk RTS_NO_ENDPOINT then ret (ierr os EDEADSRCDST)
      else
        bnd (iproc_of d) (\<lambda>di. bnd (kproc_of c) (\<lambda>ck.
        if WILLRECEIVE dk di (kp_endpoint ck) then send_direct os c d m flags
        else send_blocked os c d dst_e m flags)))))"

section \<open>Asynchronous messages\<close>

definition sizeof_asynmsg :: u32 where [simp]: "sizeof_asynmsg = 80"

definition retrieve :: "'w ipc_os \<Rightarrow> nat \<Rightarrow> u32 \<Rightarrow> nat \<Rightarrow> ('w, asynmsg option) iprog" where
  "retrieve os c table_v i = bnd (kproc_of c) (\<lambda>k.
     in_krn (os_call (io_retrieve os (kp_endpoint k) (table_v + of_nat i * sizeof_asynmsg))))"

definition insert_result :: "'w ipc_os \<Rightarrow> nat \<Rightarrow> u32 \<Rightarrow> nat \<Rightarrow> asynmsg \<Rightarrow> ('w, bool) iprog" where
  "insert_result os c table_v i tabent = bnd (kproc_of c) (\<lambda>k.
     in_krn (os_call (io_insert os (kp_endpoint k) (table_v + of_nat i * sizeof_asynmsg) tabent)))"

definition valid_bits :: "u32 \<Rightarrow> bool" where
  "valid_bits flags \<longleftrightarrow> flags AND NOT (AMF_VALID OR AMF_DONE OR AMF_NOTIFY OR AMF_NOREPLY OR AMF_NOTIFY_ERR) = 0"

text \<open>The result of an entry, and whether the sender wants to be notified.\<close>

definition finished :: "asynmsg \<Rightarrow> int \<Rightarrow> asynmsg" where
  "finished tabent r = tabent\<lparr>am_result := r, am_flags := am_flags tabent OR AMF_DONE\<rparr>"

definition wants_notify :: "u32 \<Rightarrow> int \<Rightarrow> bool" where
  "wants_notify flags r \<longleftrightarrow> flags AND AMF_NOTIFY \<noteq> 0 \<or> r \<noteq> OK \<and> flags AND AMF_NOTIFY_ERR \<noteq> 0"

text \<open>The slot of the destination, or the reason why the message cannot be sent.\<close>

definition senda_target :: "'w ipc_os \<Rightarrow> nat \<Rightarrow> endpoint \<Rightarrow> ('w, int + nat) iprog" where
  "senda_target os c dst = bnd (in_krn (isokendpt_f dst False)) (\<lambda>r. case r of
       None \<Rightarrow> ret (Inl (ierr os EDEADSRCDST))
     | Some d \<Rightarrow>
         if iskerneln (p_nr d) then ret (Inl (ierr os ECALLDENIED))
         else
           bnd (may_send_to c d) (\<lambda>may.
           if \<not> may then ret (Inl (ierr os ECALLDENIED))
           else bnd (kproc_of d) (\<lambda>k. if RTS_ISSET k RTS_NO_ENDPOINT then ret (Inl (ierr os EDEADSRCDST)) else ret (Inr d))))"

text \<open>A message is handed over when the destination waits for it; the result says whether it was.\<close>

definition senda_deliver :: "'w ipc_os \<Rightarrow> nat \<Rightarrow> nat \<Rightarrow> asynmsg \<Rightarrow> ('w, bool) iprog" where
  "senda_deliver os c d tabent = bnd (kproc_of c) (\<lambda>ck. bnd (kproc_of d) (\<lambda>dk. bnd (iproc_of d) (\<lambda>di.
     if WILLRECEIVE dk di (kp_endpoint ck)
        \<and> (am_flags tabent AND AMF_NOREPLY = 0 \<or> ip_misc_flags di AND MF_REPLY_PEND = 0) then
       andthen (set_iproc d (\<lambda>p. p\<lparr>ip_delivermsg := am_msg tabent\<rparr>)) (
       andthen (deliver d (kp_endpoint ck)) (
       andthen (IPC_STATUS_ADD_CALL d SENDA) (
       andthen (in_krn (RTS_UNSET (io_krn os) d RTS_RECEIVING)) (ret True))))
     else
       bnd (priv_of d) (\<lambda>i. bnd (priv_of c) (\<lambda>src_id.
       andthen (set_priv i (\<lambda>p. p\<lparr>s_asyn_pending := SET_BIT (s_asyn_pending p) src_id\<rparr>)) (ret False))))))"

text \<open>One entry of the table; the variables are \<open>do_notify\<close> and \<open>done\<close>.\<close>

definition senda_result :: "'w ipc_os \<Rightarrow> nat \<Rightarrow> u32 \<Rightarrow> nat \<Rightarrow> asynmsg \<Rightarrow> int \<Rightarrow> bool \<times> bool \<Rightarrow> ('w, bool \<times> bool) iprog" where
  "senda_result os c table_v i tabent r v =
     andthen (insert_result os c table_v i (finished tabent r)) (ret (fst v \<or> wants_notify (am_flags tabent) r, snd v))"

definition senda_entry :: "'w ipc_os \<Rightarrow> nat \<Rightarrow> u32 \<Rightarrow> nat \<Rightarrow> bool \<times> bool \<Rightarrow> ('w, bool \<times> bool) iprog" where
  "senda_entry os c table_v i v = bnd (retrieve os c table_v i) (\<lambda>t. case t of
       None \<Rightarrow> ret v
     | Some tabent \<Rightarrow>
         let flags = am_flags tabent in
         if flags = 0 then ret v
         else if \<not> valid_bits flags then ret v
         else if flags AND AMF_VALID = 0 then ret v
         else if flags AND AMF_DONE \<noteq> 0 then ret v
         else
           bnd (senda_target os c (am_dst tabent)) (\<lambda>r. case r of
             Inl e \<Rightarrow> senda_result os c table_v i tabent e v
           | Inr d \<Rightarrow> bnd (senda_deliver os c d tabent) (\<lambda>given.
               if given then senda_result os c table_v i tabent OK v else ret (fst v, False))))"

primrec senda_entries :: "'w ipc_os \<Rightarrow> nat \<Rightarrow> u32 \<Rightarrow> nat list \<Rightarrow> bool \<times> bool \<Rightarrow> ('w, bool \<times> bool) iprog" where
  "senda_entries os c table_v [] v = ret v"
| "senda_entries os c table_v (i # is) v = bnd (senda_entry os c table_v i v) (senda_entries os c table_v is)"

definition try_deliver_senda :: "'w ipc_os \<Rightarrow> nat \<Rightarrow> u32 \<Rightarrow> u32 \<Rightarrow> ('w, int) iprog" where
  "try_deliver_senda os c table asynsize = bnd (priv_of c) (\<lambda>p.
     andthen (set_priv p (\<lambda>q. q\<lparr>s_asyntab := - 1, s_asynsize := 0\<rparr>)) (
     if asynsize = 0 then ret OK
     else if unat asynsize > 16 * (NR_TASKS + NR_PROCS) then ret (ierr os EDOM)
     else
       bnd (senda_entries os c table [0..<unat asynsize] (False, True)) (\<lambda>(do_notify, done).
       andthen (if do_notify then
           bnd (kproc_of c) (\<lambda>k. andthen (mini_notify os (proc_addr ASYNCM) (kp_endpoint k)) (ret ()))
         else ret ()) (
       andthen (if \<not> done then set_priv p (\<lambda>q. q\<lparr>s_asyntab := table, s_asynsize := asynsize\<rparr>) else ret ()) (ret OK)))))"

definition mini_senda :: "'w ipc_os \<Rightarrow> nat \<Rightarrow> u32 \<Rightarrow> u32 \<Rightarrow> ('w, int) iprog" where
  "mini_senda os c table asynsize = bnd (kproc_of c) (\<lambda>k.
     if kp_s_flags k AND SYS_PROC = 0 then ret EPERM else try_deliver_senda os c table asynsize)"

text \<open>
  One entry of the table of \<open>src\<close>, for the receiver \<open>d\<close>; the loop variables are the index and
  \<open>done\<close>. The result is \<open>None\<close> after a failed copy, otherwise \<open>r\<close>, \<open>do_notify\<close> and \<open>done\<close>.
\<close>

definition try_one_turn :: "'w ipc_os \<Rightarrow> nat \<Rightarrow> nat \<Rightarrow> u32 \<Rightarrow> u32 \<Rightarrow> nat \<times> bool \<Rightarrow> ('w, nat \<times> bool + (int \<times> bool \<times> bool) option) iprog" where
  "try_one_turn os src d table_v asynsize v = (case v of (i, done) \<Rightarrow>
     if i \<ge> unat asynsize then ret (Inr (Some (EAGAIN, False, done)))
     else
       bnd (retrieve os src table_v i) (\<lambda>t. case t of
         None \<Rightarrow> ret (Inr None)
       | Some tabent \<Rightarrow>
           let flags = am_flags tabent; bad = (\<not> valid_bits flags \<or> flags AND AMF_VALID = 0) in
           if flags = 0 then ret (Inl (i + 1, done))
           else if \<not> bad \<and> flags AND AMF_DONE \<noteq> 0 then ret (Inl (i + 1, done))
           else
             bnd (kproc_of src) (\<lambda>sk. bnd (kproc_of d) (\<lambda>dk. bnd (iproc_of d) (\<lambda>di.
             if \<not> bad \<and> am_dst tabent \<noteq> kp_endpoint dk then ret (Inl (i + 1, False))
             else if \<not> bad \<and> flags AND AMF_NOREPLY \<noteq> 0 \<and> ip_misc_flags di AND MF_REPLY_PEND \<noteq> 0 then ret (Inl (i + 1, False))
             else
               let r = (if bad then EINVAL else OK) in
               andthen (if bad then ret ()
                 else andthen (set_iproc d (\<lambda>p. p\<lparr>ip_delivermsg := am_msg tabent\<rparr>)) (deliver d (kp_endpoint sk))) (
               bnd (insert_result os src table_v i (finished tabent r)) (\<lambda>ok.
               ret (Inr (if ok then Some (r, wants_notify flags r, False) else None)))))))))"

definition try_one_end :: "'w ipc_os \<Rightarrow> nat \<Rightarrow> nat \<Rightarrow> nat \<Rightarrow> bool \<Rightarrow> bool \<Rightarrow> ('w, unit) iprog" where
  "try_one_end os src d p do_notify done =
     andthen (if do_notify then
         bnd (kproc_of src) (\<lambda>k. andthen (mini_notify os (proc_addr ASYNCM) (kp_endpoint k)) (ret ()))
       else ret ()) (
     if done then set_priv p (\<lambda>q. q\<lparr>s_asyntab := - 1, s_asynsize := 0\<rparr>)
     else bnd (priv_of d) (\<lambda>i. set_priv i (\<lambda>q. q\<lparr>s_asyn_pending := SET_BIT (s_asyn_pending q) p\<rparr>)))"

definition try_one :: "'w ipc_os \<Rightarrow> nat \<Rightarrow> nat \<Rightarrow> ('w, int) iprog" where
  "try_one os src d = bnd (priv_of src) (\<lambda>p. bnd (kproc_of src) (\<lambda>sk.
     if kp_s_flags sk AND SYS_PROC = 0 then ret EPERM
     else
       bnd (gets (\<lambda>s. s_asynsize (privs s p))) (\<lambda>asynsize.
       bnd (gets (\<lambda>s. s_asyntab (privs s p))) (\<lambda>table_v.
       bnd (priv_of d) (\<lambda>i.
       andthen (set_priv i (\<lambda>q. q\<lparr>s_asyn_pending := UNSET_BIT (s_asyn_pending q) p\<rparr>)) (
       if asynsize = 0 then ret EAGAIN
       else
         bnd (may_send_to src d) (\<lambda>may.
         if \<not> may then ret (ierr os ECALLDENIED)
         else
           bnd (loop_m (try_one_turn os src d table_v asynsize) (0, True)) (\<lambda>x. case x of
             None \<Rightarrow> ret EFAULT
           | Some (r, do_notify, done) \<Rightarrow> andthen (try_one_end os src d p do_notify done) (ret r)))))))))"

text \<open>All privilege structures in turn, until a message was received.\<close>

primrec try_async_from :: "'w ipc_os \<Rightarrow> nat \<Rightarrow> nat list \<Rightarrow> ('w, int) iprog" where
  "try_async_from os c [] = ret ESRCH"
| "try_async_from os c (p # ps) = bnd (gets (\<lambda>s. s_proc_nr (privs s p))) (\<lambda>nr.
     if nr = NONE then try_async_from os c ps
     else
       bnd (priv_of c) (\<lambda>i. bnd (gets (\<lambda>s. GET_BIT (s_asyn_pending (privs s i)) p)) (\<lambda>pending.
       if \<not> pending then try_async_from os c ps
       else
         bnd (iproc_of c) (\<lambda>ci.
         andthen (check AssertFailed (ip_misc_flags ci AND MF_DELIVERMSG = 0)) (
         bnd (try_one os (proc_addr (sint nr)) c) (\<lambda>r.
         if r = OK then ret r else try_async_from os c ps))))))"

definition try_async :: "'w ipc_os \<Rightarrow> nat \<Rightarrow> ('w, int) iprog" where
  "try_async os c = try_async_from os c [0..<NR_SYS_PROCS]"

definition cancel_turn :: "'w ipc_os \<Rightarrow> nat \<Rightarrow> nat \<Rightarrow> u32 \<Rightarrow> u32 \<Rightarrow> nat \<times> bool \<times> bool \<Rightarrow> ('w, nat \<times> bool \<times> bool + (bool \<times> bool) option) iprog" where
  "cancel_turn os src d table_v asynsize v = (case v of (i, do_notify, done) \<Rightarrow>
     if i \<ge> unat asynsize then ret (Inr (Some (do_notify, done)))
     else
       bnd (retrieve os src table_v i) (\<lambda>t. case t of
         None \<Rightarrow> ret (Inr None)
       | Some tabent \<Rightarrow>
           let flags = am_flags tabent; bad = (\<not> valid_bits flags \<or> flags AND AMF_VALID = 0) in
           if flags = 0 then ret (Inl (i + 1, do_notify, done))
           else if \<not> bad \<and> flags AND AMF_DONE \<noteq> 0 then ret (Inl (i + 1, do_notify, done))
           else
             bnd (kproc_of d) (\<lambda>dk.
             if am_dst tabent \<noteq> kp_endpoint dk then ret (Inl (i + 1, do_notify, False))
             else
               let r = (if bad then EINVAL else ierr os EDEADSRCDST) in
               bnd (insert_result os src table_v i (finished tabent r)) (\<lambda>ok.
               ret (if ok then Inl (i + 1, do_notify \<or> wants_notify flags r, done) else Inr None)))))"

definition cancel_async :: "'w ipc_os \<Rightarrow> nat \<Rightarrow> nat \<Rightarrow> ('w, int) iprog" where
  "cancel_async os src d = bnd (priv_of src) (\<lambda>p. bnd (kproc_of src) (\<lambda>sk.
     if kp_s_flags sk AND SYS_PROC = 0 then ret EPERM
     else
       bnd (gets (\<lambda>s. s_asynsize (privs s p))) (\<lambda>asynsize.
       bnd (gets (\<lambda>s. s_asyntab (privs s p))) (\<lambda>table_v.
       bnd (priv_of d) (\<lambda>i.
       andthen (set_priv p (\<lambda>q. q\<lparr>s_asyntab := - 1, s_asynsize := 0\<rparr>)) (
       andthen (set_priv i (\<lambda>q. q\<lparr>s_asyn_pending := UNSET_BIT (s_asyn_pending q) p\<rparr>)) (
       if asynsize = 0 then ret EAGAIN
       else
         bnd (may_send_to src d) (\<lambda>may.
         if \<not> may then ret (ierr os ECALLDENIED)
         else
           bnd (loop_m (cancel_turn os src d table_v asynsize) (0, False, True)) (\<lambda>x. case x of
             None \<Rightarrow> ret OK
           | Some (do_notify, done) \<Rightarrow>
               andthen (if do_notify then
                   bnd (kproc_of src) (\<lambda>k. andthen (mini_notify os (proc_addr ASYNCM) (kp_endpoint k)) (ret ()))
                 else ret ()) (
               andthen (if \<not> done then set_priv p (\<lambda>q. q\<lparr>s_asyntab := table_v, s_asynsize := asynsize\<rparr>) else ret ())
                 (ret OK)))))))))))"

section \<open>Receiving\<close>

text \<open>The three kinds of messages that may be waiting; the result says whether one was received.\<close>

definition receive_notify :: "'w ipc_os \<Rightarrow> nat \<Rightarrow> endpoint \<Rightarrow> nat option \<Rightarrow> ('w, bool) iprog" where
  "receive_notify os c src_e src = bnd (has_pending_notify c src) (\<lambda>r. case r of
       None \<Rightarrow> ret False
     | Some src_id \<Rightarrow>
         bnd (gets (\<lambda>s. s_proc_nr (privs s src_id))) (\<lambda>nr.
         andthen (check AssertFailed (nr \<noteq> NONE)) (
         andthen (unset_notify_pending c src_id) (
         bnd (kproc_of (proc_addr (sint nr))) (\<lambda>k. bnd (iproc_of c) (\<lambda>ci.
         andthen (check AssertFailed (ip_misc_flags ci AND MF_DELIVERMSG = 0)) (
         andthen (check AssertFailed (src_e = ANY \<or> kp_endpoint k = src_e)) (
         bnd (BuildNotifyMessage (sint nr) c) (\<lambda>m.
         andthen (set_iproc c (\<lambda>p. p\<lparr>ip_delivermsg := m\<rparr>)) (
         andthen (deliver c (kp_endpoint k)) (
         andthen (IPC_STATUS_ADD_CALL c NOTIFY) (ret True))))))))))))"

definition receive_async :: "'w ipc_os \<Rightarrow> nat \<Rightarrow> nat option \<Rightarrow> ('w, bool) iprog" where
  "receive_async os c src = bnd (has_pending_asend c src) (\<lambda>r. case r of
       None \<Rightarrow> ret False
     | Some _ \<Rightarrow>
         bnd (case src of Some x \<Rightarrow> try_one os x c | None \<Rightarrow> try_async os c) (\<lambda>r.
         if r = OK then andthen (IPC_STATUS_ADD_CALL c SENDA) (ret True) else ret False))"

definition take_queued :: "'w ipc_os \<Rightarrow> nat \<Rightarrow> nat \<Rightarrow> ('w, unit) iprog" where
  "take_queued os c sender = bnd (kproc_of sender) (\<lambda>sk. bnd (iproc_of sender) (\<lambda>si. bnd (iproc_of c) (\<lambda>ci.
     andthen (check AssertFailed (\<not> RTS_ISSET sk RTS_SLOT_FREE)) (
     andthen (check AssertFailed (\<not> RTS_ISSET sk RTS_NO_ENDPOINT)) (
     andthen (check AssertFailed (ip_misc_flags ci AND MF_DELIVERMSG = 0)) (
     andthen (set_iproc c (\<lambda>p. p\<lparr>ip_delivermsg := ip_sendmsg si\<rparr>)) (
     andthen (deliver c (kp_endpoint sk)) (
     andthen (in_krn (RTS_UNSET (io_krn os) sender RTS_SENDING)) (
     andthen (IPC_STATUS_ADD_CALL c (if ip_misc_flags si AND MF_REPLY_PEND \<noteq> 0 then SENDREC else SEND)) (
     andthen (if ip_misc_flags si AND MF_SENDING_FROM_KERNEL \<noteq> 0 then
         andthen (IPC_STATUS_ADD_FLAGS c IPC_FLG_MSG_FROM_KERNEL) (unset_misc sender MF_SENDING_FROM_KERNEL)
       else ret ())
     (if ip_misc_flags si AND MF_SIG_DELAY \<noteq> 0 then sig_delay_done os sender else ret ())))))))))))"

definition receive_queued :: "'w ipc_os \<Rightarrow> nat \<Rightarrow> nat option \<Rightarrow> ('w, bool) iprog" where
  "receive_queued os c src = bnd (walk (q_cell c) (\<lambda>x _. src = None \<or> src = Some x)) (\<lambda>l.
     bnd (gets (q_cell c l)) (\<lambda>x. case x of
       None \<Rightarrow> ret False
     | Some sender \<Rightarrow>
         andthen (take_queued os c sender) (
         andthen (modify (\<lambda>s. set_q_cell c l (ip_q_link (iprocs s sender)) s)) (
         andthen (set_iproc sender (\<lambda>p. p\<lparr>ip_q_link := None\<rparr>)) (ret True)))))"

definition receive_message :: "'w ipc_os \<Rightarrow> nat \<Rightarrow> endpoint \<Rightarrow> nat option \<Rightarrow> ('w, bool) iprog" where
  "receive_message os c src_e src = bnd (iproc_of c) (\<lambda>ci.
     bnd (if ip_misc_flags ci AND MF_REPLY_PEND = 0 then receive_notify os c src_e src else ret False) (\<lambda>got.
     if got then ret True
     else
       bnd (receive_async os c src) (\<lambda>got.
       if got then ret True else receive_queued os c src)))"

text \<open>No message has come: the caller is blocked, unless the flags tell otherwise.\<close>

definition receive_block :: "'w ipc_os \<Rightarrow> nat \<Rightarrow> endpoint \<Rightarrow> u32 \<Rightarrow> ('w, int) iprog" where
  "receive_block os c src_e flags =
     (if flags AND NON_BLOCKING = 0 then
        bnd (deadlock RECEIVE c src_e) (\<lambda>group.
        if group \<noteq> 0 then ret (ierr os ELOCKED)
        else
          andthen (set_iproc c (\<lambda>p. p\<lparr>ip_getfrom_e := src_e\<rparr>)) (
          andthen (in_krn (RTS_SET (io_krn os) c RTS_RECEIVING)) (ret OK)))
      else ret (ierr os ENOTREADY))"

definition receive_from :: "'w ipc_os \<Rightarrow> nat \<Rightarrow> endpoint \<Rightarrow> nat option \<Rightarrow> u32 \<Rightarrow> ('w, int) iprog" where
  "receive_from os c src_e src flags = bnd (kproc_of c) (\<lambda>ck.
     bnd (if RTS_ISSET ck RTS_SENDING then ret False else receive_message os c src_e src) (\<lambda>got.
     if got then andthen (unset_misc c MF_REPLY_PEND) (ret OK)
     else receive_block os c src_e flags))"

definition mini_receive :: "'w ipc_os \<Rightarrow> nat \<Rightarrow> endpoint \<Rightarrow> u32 \<Rightarrow> u32 \<Rightarrow> ('w, int) iprog" where
  "mini_receive os c src_e buf flags = bnd (iproc_of c) (\<lambda>ci.
     andthen (check AssertFailed (ip_misc_flags ci AND MF_DELIVERMSG = 0)) (
     andthen (set_iproc c (\<lambda>p. p\<lparr>ip_delivermsg_vir := buf\<rparr>)) (
     if src_e = ANY then receive_from os c src_e None flags
     else
       bnd (okendpt src_e) (\<lambda>x. bnd (kproc_of x) (\<lambda>k.
       if RTS_ISSET k RTS_NO_ENDPOINT then ret (ierr os EDEADSRCDST)
       else receive_from os c src_e (Some x) flags)))))"

section \<open>Entry points\<close>

text \<open>The checks on the source or destination, with the slot found, \<open>None\<close> for any.\<close>

definition sync_target :: "'w ipc_os \<Rightarrow> nat \<Rightarrow> nat \<Rightarrow> endpoint \<Rightarrow> ('w, int + nat option) iprog" where
  "sync_target os c call_nr e =
     (if e = ANY then ret (if call_nr \<noteq> RECEIVE then Inl EINVAL else Inr None)
      else
        bnd (in_krn (isokendpt_f e False)) (\<lambda>r. case r of
          None \<Rightarrow> ret (Inl (ierr os EDEADSRCDST))
        | Some x \<Rightarrow>
            if call_nr \<noteq> RECEIVE then
              bnd (may_send_to c x) (\<lambda>may. ret (if \<not> may then Inl (ierr os ECALLDENIED) else Inr (Some x)))
            else ret (Inr (Some x))))"

definition sync_call :: "'w ipc_os \<Rightarrow> nat \<Rightarrow> nat \<Rightarrow> endpoint \<Rightarrow> u32 \<Rightarrow> ('w, int) iprog" where
  "sync_call os c call_nr e buf =
     (if call_nr = SENDREC then
        andthen (set_misc c MF_REPLY_PEND) (
        bnd (mini_send os c e (From_User buf) 0) (\<lambda>result.
        if result \<noteq> OK then ret result else mini_receive os c e buf 0))
      else if call_nr = SEND then mini_send os c e (From_User buf) 0
      else if call_nr = RECEIVE then
        andthen (set_iproc c (\<lambda>p. p\<lparr>ip_misc_flags := ip_misc_flags p AND NOT MF_REPLY_PEND, ip_status := 0\<rparr>))
          (mini_receive os c e buf 0)
      else if call_nr = NOTIFY then mini_notify os c e
      else if call_nr = SENDNB then mini_send os c e (From_User buf) NON_BLOCKING
      else ret (ierr os EBADCALL))"

definition do_sync_ipc :: "'w ipc_os \<Rightarrow> nat \<Rightarrow> nat \<Rightarrow> endpoint \<Rightarrow> u32 \<Rightarrow> ('w, int) iprog" where
  "do_sync_ipc os c call_nr e buf = andthen (check AssertFailed (call_nr \<noteq> SENDA)) (
     if call_nr > IPCNO_HIGHEST \<or> \<not> ipc_call_names call_nr then ret (ierr os ETRAPDENIED)
     else
       bnd (sync_target os c call_nr e) (\<lambda>r. case r of
         Inl result \<Rightarrow> ret result
       | Inr target \<Rightarrow>
           bnd (priv_of c) (\<lambda>i. bnd (gets (\<lambda>s. s_trap_mask (privs s i))) (\<lambda>mask'.
           if \<not> bit mask' call_nr then ret (ierr os ETRAPDENIED)
           else if call_nr \<noteq> SENDREC \<and> call_nr \<noteq> RECEIVE \<and> (case target of None \<Rightarrow> False | Some x \<Rightarrow> iskerneln (p_nr x))
           then ret (ierr os ETRAPDENIED)
           else sync_call os c call_nr e buf))))"

text \<open>The first entry into a traced call stops the process; the flag is read again for the second.\<close>

definition trace_call :: "'w ipc_os \<Rightarrow> nat \<Rightarrow> u32 \<times> u32 \<times> u32 \<Rightarrow> ('w, bool) iprog" where
  "trace_call os c args = bnd (iproc_of c) (\<lambda>ci.
     let traced = ip_misc_flags ci AND (MF_SC_TRACE OR MF_SC_DEFER) in
     if traced = 0 then ret False
     else if traced = MF_SC_TRACE then
       andthen (set_iproc c (\<lambda>p. p\<lparr>ip_misc_flags := ip_misc_flags p AND NOT MF_SC_TRACE OR MF_SC_DEFER, ip_defer := args\<rparr>)) (
       andthen (cause_sig os c (io_signo os SIGTRAP)) (ret True))
     else
       andthen (unset_misc c MF_SC_DEFER) (
       andthen (check AssertFailed (ip_misc_flags ci AND MF_SC_ACTIVE = 0)) (
       andthen (set_misc c MF_SC_ACTIVE) (ret False))))"

definition ipc_switch :: "'w ipc_os \<Rightarrow> nat \<Rightarrow> nat \<Rightarrow> u32 \<Rightarrow> u32 \<Rightarrow> ('w, int) iprog" where
  "ipc_switch os c call_nr r2 r3 =
     (if call_nr \<in> set [SENDREC, SEND, RECEIVE, NOTIFY, SENDNB] then
        andthen (in_krn (set_kproc c (\<lambda>p. p\<lparr>kp_ipc_sync := kp_ipc_sync p + 1\<rparr>))) (do_sync_ipc os c call_nr r2 r3)
      else if call_nr = SENDA then
        andthen (in_krn (set_kproc c (\<lambda>p. p\<lparr>kp_ipc_async := kp_ipc_async p + 1\<rparr>))) (
        if unat r2 > 16 * (NR_TASKS + NR_PROCS) then ret (ierr os EDOM) else mini_senda os c r3 r2)
      else if call_nr = MINIX_KERNINFO then
        bnd (gets minix_kerninfo_user) (\<lambda>info.
        if info = 0 then ret (ierr os EBADCALL) else andthen (set_iproc c (\<lambda>p. p\<lparr>ip_bx := info\<rparr>)) (ret OK))
      else ret (ierr os EBADCALL))"

definition do_ipc :: "'w ipc_os \<Rightarrow> u32 \<Rightarrow> u32 \<Rightarrow> u32 \<Rightarrow> ('w, int) iprog" where
  "do_ipc os r1 r2 r3 = bnd (gets (\<lambda>s. proc_ptr (core s))) (\<lambda>cur. case cur of
       None \<Rightarrow> raise NullPointer
     | Some c \<Rightarrow>
         bnd (kproc_of c) (\<lambda>ck.
         andthen (check AssertFailed (\<not> RTS_ISSET ck RTS_SLOT_FREE)) (
         andthen (modify (\<lambda>s. s\<lparr>kbill_ipc := Some c\<rparr>)) (
         bnd (trace_call os c (r1, r2, r3)) (\<lambda>stopped.
         bnd (iproc_of c) (\<lambda>ci.
         if stopped then ret (ip_retreg ci)
         else
           andthen (check Panic (ip_misc_flags ci AND MF_DELIVERMSG = 0)) (ipc_switch os c (unat r1) r2 r3)))))))"

section \<open>Clean-up\<close>

text \<open>A process that waits to send leaves the queue; its own link is not cleared.\<close>

definition leave_queue :: "nat \<Rightarrow> nat \<Rightarrow> ('w, unit) iprog" where
  "leave_queue rc d = bnd (walk (q_cell d) (\<lambda>x _. x = rc)) (\<lambda>l.
     bnd (gets (q_cell d l)) (\<lambda>x. case x of
       None \<Rightarrow> ret ()
     | Some _ \<Rightarrow> modify (\<lambda>s. set_q_cell d l (ip_q_link (iprocs s rc)) s)))"

definition clear_ipc :: "'w ipc_os \<Rightarrow> nat \<Rightarrow> ('w, unit) iprog" where
  "clear_ipc os rc = bnd (kproc_of rc) (\<lambda>k. bnd (iproc_of rc) (\<lambda>i.
     andthen (if RTS_ISSET k RTS_SENDING then
         bnd (okendpt (ip_sendto_e i)) (\<lambda>d.
         andthen (leave_queue rc d) (in_krn (RTS_UNSET (io_krn os) rc RTS_SENDING)))
       else ret ())
     (in_krn (RTS_UNSET (io_krn os) rc RTS_RECEIVING))))"

definition clear_ref :: "'w ipc_os \<Rightarrow> nat \<Rightarrow> int \<Rightarrow> nat \<Rightarrow> ('w, unit) iprog" where
  "clear_ref os rc caller_ret rp = bnd (kproc_of rp) (\<lambda>k.
     if isemptyp k then ret ()
     else
       bnd (priv_of rp) (\<lambda>i. bnd (priv_of rc) (\<lambda>src_id.
       andthen (set_priv i (\<lambda>p. p\<lparr>s_notify_pending := UNSET_BIT (s_notify_pending p) src_id,
         s_asyn_pending := UNSET_BIT (s_asyn_pending p) src_id\<rparr>)) (
       bnd (iproc_of rp) (\<lambda>p. bnd (kproc_of rc) (\<lambda>c.
       if P_BLOCKEDON k p = kp_endpoint c then
         andthen (set_iproc rp (\<lambda>p. p\<lparr>ip_retreg := caller_ret\<rparr>)) (clear_ipc os rp)
       else ret ()))))))"

definition clear_ipc_refs :: "'w ipc_os \<Rightarrow> nat \<Rightarrow> int \<Rightarrow> ('w, unit) iprog" where
  "clear_ipc_refs os rc caller_ret =
     andthen (loop_m (\<lambda>_. bnd (has_pending_asend rc None) (\<lambda>r. case r of
         None \<Rightarrow> ret (Inr ())
       | Some src_id \<Rightarrow>
           bnd (gets (\<lambda>s. s_proc_nr (privs s src_id))) (\<lambda>nr.
           andthen (cancel_async os (proc_addr (sint nr)) rc) (ret (Inl ()))))) ()) (
     for_m [0..<NR_TASKS + NR_PROCS] (clear_ref os rc caller_ret))"

definition clear_endpoint :: "'w ipc_os \<Rightarrow> nat \<Rightarrow> ('w, unit) iprog" where
  "clear_endpoint os rc = bnd (kproc_of rc) (\<lambda>k.
     andthen (check Panic (\<not> isemptyp k)) (
     andthen (in_krn (RTS_SET (io_krn os) rc RTS_NO_ENDPOINT)) (
     bnd (priv_of rc) (\<lambda>i.
     andthen (if kp_s_flags k AND SYS_PROC \<noteq> 0 then set_priv i (\<lambda>p. p\<lparr>s_asynsize := 0\<rparr>) else ret ()) (
     andthen (clear_ipc os rc) (clear_ipc_refs os rc (ierr os EDEADSRCDST)))))))"

section \<open>Rights to send\<close>

definition set_sendto_bit :: "nat \<Rightarrow> nat \<Rightarrow> ('w, unit) iprog" where
  "set_sendto_bit rp j = bnd (priv_of rp) (\<lambda>i. bnd (gets (\<lambda>s. privs s j)) (\<lambda>q.
     if s_proc_nr q = NONE \<or> i = j then set_priv i (\<lambda>p. p\<lparr>s_ipc_to := UNSET_BIT (s_ipc_to p) j\<rparr>)
     else
       andthen (set_priv i (\<lambda>p. p\<lparr>s_ipc_to := SET_BIT (s_ipc_to p) j\<rparr>)) (
       if s_trap_mask q AND NOT (push_bit RECEIVE 1) \<noteq> 0 then set_priv j (\<lambda>p. p\<lparr>s_ipc_to := SET_BIT (s_ipc_to p) i\<rparr>)
       else ret ())))"

definition unset_sendto_bit :: "nat \<Rightarrow> nat \<Rightarrow> ('w, unit) iprog" where
  "unset_sendto_bit rp j = bnd (priv_of rp) (\<lambda>i.
     andthen (set_priv i (\<lambda>p. p\<lparr>s_ipc_to := UNSET_BIT (s_ipc_to p) j\<rparr>))
       (set_priv j (\<lambda>p. p\<lparr>s_ipc_to := UNSET_BIT (s_ipc_to p) i\<rparr>)))"

definition fill_sendto_mask :: "nat \<Rightarrow> u32 list \<Rightarrow> ('w, unit) iprog" where
  "fill_sendto_mask rp map' = for_m [0..<NR_SYS_PROCS] (\<lambda>i. if GET_BIT map' i then set_sendto_bit rp i else unset_sendto_bit rp i)"

end
