(* ===== verification/Ipc_State.thy ===== *)
theory Ipc_State
  imports Ipc_Calls
begin

text \<open>
  What message passing needs to know of the scheduling part of the kernel: endpoints and the flags
  for blocked processes, and how the steps of scheduling change them.
\<close>

section \<open>Endpoints and flags\<close>

text \<open>The bits of \<open>RTS_SLOT_FREE\<close>, \<open>RTS_SENDING\<close>, \<open>RTS_RECEIVING\<close> and \<open>RTS_NO_ENDPOINT\<close>.\<close>

definition ipc_bits :: "u32 \<Rightarrow> u32" where
  "ipc_bits f = f AND 0x10D"

definition kview :: "'w krn \<Rightarrow> nat \<Rightarrow> endpoint \<times> u32" where
  "kview k x = (kp_endpoint (kprocs k x), ipc_bits (kp_rts_flags (kprocs k x)))"

definition free_slot :: "'w krn \<Rightarrow> nat \<Rightarrow> bool" where
  "free_slot k x \<longleftrightarrow> kp_rts_flags (kprocs k x) AND RTS_SLOT_FREE \<noteq> 0"

abbreviation in_use :: "'w krn \<Rightarrow> nat \<Rightarrow> bool" where
  "in_use k x \<equiv> x < NR_TASKS + NR_PROCS \<and> \<not> free_slot k x"

text \<open>
  Besides the invariant of the run queues: free slots have no other flag, the current process is
  not free, and the endpoint of a process belongs to its slot.
\<close>

definition core_ok :: "'w krn \<Rightarrow> bool" where
  "core_ok k \<longleftrightarrow> krn_inv k \<and> (\<forall>x. free_slot k x \<longrightarrow> kp_rts_flags (kprocs k x) = RTS_SLOT_FREE)
     \<and> (\<forall>c. proc_ptr k = Some c \<longrightarrow> \<not> free_slot k c)
     \<and> (\<forall>x. in_use k x \<longrightarrow> endpoint_p (kp_endpoint (kprocs k x)) = p_nr x)"

lemma core_okD:
  assumes "core_ok k"
  shows "krn_inv k" "free_slot k x \<Longrightarrow> kp_rts_flags (kprocs k x) = RTS_SLOT_FREE" "proc_ptr k = Some c \<Longrightarrow> \<not> free_slot k c"
    "in_use k x \<Longrightarrow> endpoint_p (kp_endpoint (kprocs k x)) = p_nr x"
  using assms by (simp_all add: core_ok_def)

lemma proc_addr_p_nr [simp]: "proc_addr (p_nr x) = x"
  by (simp add: proc_addr_def p_nr_def)

lemma isokprocn_p_nr [simp]: "isokprocn (p_nr x) \<longleftrightarrow> x < NR_TASKS + NR_PROCS"
  by (simp add: isokprocn_def p_nr_def)

text \<open>An endpoint that is accepted is the endpoint of a process in use.\<close>

lemma isokendpt_iff:
  assumes "core_ok k"
  shows "isokendpt (kprocs k) e = Some x \<longleftrightarrow> in_use k x \<and> kp_endpoint (kprocs k x) = e"
proof
  assume a: "isokendpt (kprocs k) e = Some x"
  then have x: "isokprocn (endpoint_p e)" "x = proc_addr (endpoint_p e)" "kp_rts_flags (kprocs k x) \<noteq> RTS_SLOT_FREE"
    "kp_endpoint (kprocs k x) = e"
    by (auto simp: isokendpt_def Let_def isemptyp_def split: if_splits)
  then have "\<not> free_slot k x" using core_okD(2) [OF assms] by blast
  moreover have "x < NR_TASKS + NR_PROCS" using x(1,2) by (auto simp: isokprocn_def proc_addr_def)
  ultimately show "in_use k x \<and> kp_endpoint (kprocs k x) = e" using x(4) by blast
next
  assume a: "in_use k x \<and> kp_endpoint (kprocs k x) = e"
  then have "endpoint_p e = p_nr x" using core_okD(4) [OF assms, of x] by blast
  moreover have "kp_rts_flags (kprocs k x) \<noteq> RTS_SLOT_FREE" using a by (auto simp: free_slot_def)
  ultimately show "isokendpt (kprocs k) e = Some x" using a by (simp add: isokendpt_def isemptyp_def del: NR_TASKS_def NR_PROCS_def)
qed

lemma endpoint_not_any:
  assumes "endpoint_p e = p_nr x" and "x < NR_TASKS + NR_PROCS"
  shows "e \<noteq> ANY" "e \<noteq> NONE"
  using assms by (auto simp: endpoint_p_mod p_nr_def)

section \<open>Steps of scheduling\<close>

lemma and_not_swap: "(a AND NOT b) AND c = (a AND c) AND NOT b" for a b c :: "'a::len word"
  by (rule bit_word_eqI) (auto simp: bit_simps)

lemma ipc_bits_or: "ipc_bits (a OR b) = ipc_bits a OR ipc_bits b"
  unfolding ipc_bits_def by (rule bit.conj_disj_distrib2)

lemma ipc_bits_not: "ipc_bits (a AND NOT b) = ipc_bits a AND NOT b"
  unfolding ipc_bits_def by (rule and_not_swap)

lemma ipc_bits_free: "f AND RTS_SLOT_FREE = ipc_bits f AND RTS_SLOT_FREE"
  by (simp add: ipc_bits_def and.assoc)

lemma kview_free: "kview t x = kview s x \<Longrightarrow> free_slot t x = free_slot s x"
  unfolding free_slot_def kview_def using ipc_bits_free by (metis prod.inject)

lemma kview_cong: "kcores t x = kcores s x \<Longrightarrow> kview t x = kview s x"
  unfolding kview_def kcores_def by (metis kcore_simps(1,7))

lemma kcores_fields:
  assumes "kcores t y = p"
  shows "kp_endpoint (kprocs t y) = kp_endpoint p" "kp_rts_flags (kprocs t y) = kp_rts_flags p"
  using assms by (auto simp: kcores_def)

lemma core_ok_step:
  assumes "core_ok s" and "krn_inv t" and "kvars t = kvars s"
    and "\<And>y. kp_endpoint (kprocs t y) = kp_endpoint (kprocs s y)" and "\<And>y. free_slot t y = free_slot s y"
    and "\<And>y. free_slot s y \<Longrightarrow> kp_rts_flags (kprocs t y) = kp_rts_flags (kprocs s y)"
  shows "core_ok t"
  using assms kvars_proc [OF assms(3)] by (auto simp: core_ok_def)

text \<open>What happens to the flags of a process when one of them is set or cleared.\<close>

definition with_flags :: "nat \<Rightarrow> (u32 \<Rightarrow> u32) \<Rightarrow> (nat \<Rightarrow> endpoint \<times> u32) \<Rightarrow> nat \<Rightarrow> endpoint \<times> u32" where
  "with_flags x g v = v(x := (fst (v x), g (snd (v x))))"

lemma RTS_SET_view:
  fixes s :: "'w krn"
  assumes ok: "core_ok s" and x: "\<not> free_slot s x" and f: "f \<noteq> 0" "f AND RTS_SLOT_FREE = 0"
  shows "wp (RTS_SET os x f) (\<lambda>_ t. core_ok t \<and> kview t = with_flags x (\<lambda>g. g OR ipc_bits f) (kview s) \<and> kvars t = kvars s) s"
proof -
  from core_okD(1) [OF ok] obtain Q c where r: "ready Q s" by (rule krn_invE)
  have "wp (RTS_SET os x f) (\<lambda>_ t. krn_inv t \<and> ready (drop_proc x Q) t
    \<and> kcores t = (kcores s)(x := Krn_Ready.set_flag f (kcores s x)) \<and> kvars t = kvars s) s"
    by (rule wp_conj_wlp [OF RTS_SET_inv [OF core_okD(1) [OF ok] f(1)] wp_wlp [OF RTS_SET_wp [OF r f(1)]]]) simp
  then show ?thesis
  proof (rule wp_mono, elim conjE)
    fix t :: "'w krn"
    assume t: "krn_inv t" "kcores t = (kcores s)(x := Krn_Ready.set_flag f (kcores s x))" "kvars t = kvars s"
    have e: "kp_endpoint (kprocs t y) = kp_endpoint (kprocs s y)"
      and g: "kp_rts_flags (kprocs t y) = (if y = x then kp_rts_flags (kprocs s x) OR f else kp_rts_flags (kprocs s y))" for y
      using kcores_fields [of t y "kcores t y"] t(2) by (auto simp: kcores_def)
    have fr: "free_slot t y = free_slot s y" for y
      using x f(2) by (auto simp: free_slot_def g bit.conj_disj_distrib2 simp del: RTS_SLOT_FREE_def)
    have "core_ok t" by (rule core_ok_step [OF ok t(1,3) e fr]) (use x g in auto)
    moreover have "kview t = with_flags x (\<lambda>g. g OR ipc_bits f) (kview s)"
      by (auto simp: fun_eq_iff kview_def with_flags_def e g ipc_bits_or)
    ultimately show "core_ok t \<and> kview t = with_flags x (\<lambda>g. g OR ipc_bits f) (kview s) \<and> kvars t = kvars s" using t(3) by blast
  qed
qed

lemma RTS_UNSET_cores:
  fixes s :: "'w krn"
  assumes i: "krn_inv s" and x: "x < NR_TASKS + NR_PROCS"
  shows "wp (RTS_UNSET os x f) (\<lambda>_ t. krn_inv t \<and> kvars t = kvars s \<and> (\<exists>c. proc_ptr s = Some c
    \<and> (kcores t = (kcores s)(x := clear_flag f (kcores s x))
      \<or> kcores t = (let tab = (kcores s)(x := clear_flag f (kcores s x)) in tab(c := Krn_Ready.set_flag RTS_PREEMPTED (tab c)))))) s"
proof -
  from i obtain Q c where r: "ready Q s" "\<forall>x. fine x (kcores s x)" "proc_ptr s = Some c" by (rule krn_invE)
  let ?tab = "(kcores s)(x := clear_flag f (kcores s x))"
  have "wp (RTS_UNSET os x f) (\<lambda>_ t. (kcores t = ?tab \<or> kcores t = ?tab(c := Krn_Ready.set_flag RTS_PREEMPTED (?tab c))) \<and> kvars t = kvars s) s"
  proof (cases "proc_is_runnable (kprocs s x)")
    case True
    then have "kp_rts_flags (kprocs s x) = 0" by (simp add: proc_is_runnable_def)
    then show ?thesis unfolding RTS_UNSET_def wp_bnd wp_andthen wp_gets
      by (intro wp_mono [OF clear_flag_wp [OF readyD(1) [OF r(1)]]]) (simp add: wp_simps)
  next
    case False
    show ?thesis
      by (rule wp_mono [OF RTS_UNSET_wp [OF r(1) False r(3)]])
        (use r(2) fine_range [of x "kcores s x"] in \<open>auto simp: wake_procs_def preempt_procs_def split: if_splits\<close>)
  qed
  from wp_conj_wlp [OF RTS_UNSET_inv [OF i x] wp_wlp [OF this]] show ?thesis
    by (rule wp_mono) (use r(3) in \<open>auto simp: Let_def\<close>)
qed

lemma RTS_UNSET_view:
  fixes s :: "'w krn"
  assumes ok: "core_ok s" and x: "in_use s x"
  shows "wp (RTS_UNSET os x f) (\<lambda>_ t. core_ok t \<and> kview t = with_flags x (\<lambda>g. g AND NOT f) (kview s) \<and> kvars t = kvars s) s"
proof -
  have i: "krn_inv s" and lt: "x < NR_TASKS + NR_PROCS" using core_okD(1) [OF ok] x by auto
  show ?thesis
  proof (rule wp_mono [OF RTS_UNSET_cores [OF i lt]], elim conjE exE)
    fix t :: "'w krn" and c
    let ?tab = "(kcores s)(x := clear_flag f (kcores s x))"
    assume t: "krn_inv t" "kvars t = kvars s" and c: "proc_ptr s = Some c"
      and tab: "kcores t = ?tab \<or> kcores t = (let tab = ?tab in tab(c := Krn_Ready.set_flag RTS_PREEMPTED (tab c)))"
    let ?w = "\<lambda>y. if y = x then kp_rts_flags (kprocs s x) AND NOT f else kp_rts_flags (kprocs s y)"
    have at: "kcores t y = ?tab y \<or> y = c \<and> kcores t y = Krn_Ready.set_flag RTS_PREEMPTED (?tab y)" for y
      using tab unfolding Let_def by (elim disjE) (cases "y = c"; simp)+
    have tabs: "kp_endpoint (?tab y) = kp_endpoint (kprocs s y)" "kp_rts_flags (?tab y) = ?w y" for y by (simp_all add: kcores_def)
    have e: "kp_endpoint (kprocs t y) = kp_endpoint (kprocs s y)" for y
      using at [of y] kcores_fields(1) [of t y] tabs(1) [of y] by auto
    have g: "kp_rts_flags (kprocs t y) = ?w y \<or> y = c \<and> kp_rts_flags (kprocs t y) = ?w y OR RTS_PREEMPTED" for y
      using at [of y] kcores_fields(2) [of t y] tabs(2) [of y] by auto
    have pre: "(w OR RTS_PREEMPTED) AND RTS_SLOT_FREE = w AND RTS_SLOT_FREE" "ipc_bits (w OR RTS_PREEMPTED) = ipc_bits w" for w
      by (simp_all add: ipc_bits_def bit.conj_disj_distrib2)
    have not: "(w AND NOT f) AND RTS_SLOT_FREE = 0" if "w AND RTS_SLOT_FREE = 0" for w
      unfolding and_not_swap that by simp
    have fr: "free_slot t y = free_slot s y" for y
      using g [of y] x not [of "kp_rts_flags (kprocs s x)"] pre(1)
      by (cases "y = x") (auto simp: free_slot_def simp del: RTS_SLOT_FREE_def RTS_PREEMPTED_def)
    have "core_ok t"
    proof (rule core_ok_step [OF ok t e fr])
      show "kp_rts_flags (kprocs t y) = kp_rts_flags (kprocs s y)" if "free_slot s y" for y
        using g [of y] that x core_okD(3) [OF ok c] by auto
    qed
    moreover have "kview t y = with_flags x (\<lambda>g. g AND NOT f) (kview s) y" for y
      using g [of y] by (auto simp: kview_def with_flags_def e ipc_bits_not pre simp del: RTS_PREEMPTED_def)
    ultimately show "core_ok t \<and> kview t = with_flags x (\<lambda>g. g AND NOT f) (kview s) \<and> kvars t = kvars s" using t(2) by (simp add: fun_eq_iff)
  qed
qed

text \<open>Reading and the calls of the machine change nothing here.\<close>

lemma core_ok_world: "core_ok (k\<lparr>p_world := w\<rparr>) = core_ok k"
proof -
  have "run_cell q l (k\<lparr>p_world := w\<rparr>) = run_cell q l k" for q l by (cases l) (simp_all add: run_cell_def)
  then have "ready Q (k\<lparr>p_world := w\<rparr>) = ready Q k" for Q by (simp add: ready_but_def queues_def)
  then show ?thesis by (simp add: core_ok_def krn_inv_def free_slot_def)
qed

lemma kview_world [simp]: "kview (k\<lparr>p_world := w\<rparr>) = kview k"
  by (simp add: kview_def fun_eq_iff)

end
