(* ===== verification/Ipc_View.thy ===== *)
theory Ipc_View
  imports Ipc_State
begin

text \<open>
  Who waits for whom: an abstract view of the state of message passing, with the invariant of the
  queues of senders and of the wait-for relation, and the steps that block and wake processes.
\<close>

section \<open>The view\<close>

record iview =
  v_end :: "nat \<Rightarrow> endpoint"
  v_bits :: "nat \<Rightarrow> u32"
  v_head :: "nat \<Rightarrow> ptr"
  v_link :: "nat \<Rightarrow> ptr"
  v_from :: "nat \<Rightarrow> endpoint"
  v_to :: "nat \<Rightarrow> endpoint"

definition view :: "'w ikrn \<Rightarrow> iview" where
  "view s = \<lparr>v_end = \<lambda>x. fst (kview (core s) x), v_bits = \<lambda>x. snd (kview (core s) x),
     v_head = \<lambda>x. ip_caller_q (iprocs s x), v_link = \<lambda>x. ip_q_link (iprocs s x),
     v_from = \<lambda>x. ip_getfrom_e (iprocs s x), v_to = \<lambda>x. ip_sendto_e (iprocs s x)\<rparr>"

definition sending :: "iview \<Rightarrow> nat \<Rightarrow> bool" where
  "sending v x \<longleftrightarrow> v_bits v x AND RTS_SENDING \<noteq> 0"

definition receiving :: "iview \<Rightarrow> nat \<Rightarrow> bool" where
  "receiving v x \<longleftrightarrow> v_bits v x AND RTS_RECEIVING \<noteq> 0"

definition used :: "iview \<Rightarrow> nat \<Rightarrow> bool" where
  "used v x \<longleftrightarrow> x < NR_TASKS + NR_PROCS \<and> v_bits v x AND RTS_SLOT_FREE = 0"

text \<open>The endpoint \<open>e\<close> is that of the process \<open>x\<close>.\<close>

definition names :: "iview \<Rightarrow> endpoint \<Rightarrow> nat \<Rightarrow> bool" where
  "names v e x \<longleftrightarrow> used v x \<and> v_end v x = e"

definition blocked_on :: "iview \<Rightarrow> nat \<Rightarrow> endpoint" where
  "blocked_on v x = (if sending v x then v_to v x else if receiving v x then v_from v x else NONE)"

definition waits :: "iview \<Rightarrow> (nat \<times> nat) set" where
  "waits v = {(x, y). names v (blocked_on v x) y}"

text \<open>The cells of the queue of \<open>d\<close>; \<open>P\<close> has the processes that are being taken from a queue.\<close>

definition vcell :: "iview \<Rightarrow> nat \<Rightarrow> link \<Rightarrow> ptr" where
  "vcell v d l = (case l of Head \<Rightarrow> v_head v d | Next x \<Rightarrow> v_link v x)"

definition callers :: "(nat \<times> nat) set \<Rightarrow> (nat \<Rightarrow> nat list) \<Rightarrow> iview \<Rightarrow> bool" where
  "callers P C v \<longleftrightarrow> (\<forall>d. chain (vcell v d) (C d))
     \<and> (\<forall>x d. x \<in> set (C d) \<longleftrightarrow> sending v x \<and> names v (v_to v x) d \<or> (x, d) \<in> P)
     \<and> (\<forall>x. \<not> sending v x \<and> x \<notin> fst ` P \<longrightarrow> v_link v x = None)"

definition ends_ok :: "iview \<Rightarrow> bool" where
  "ends_ok v \<longleftrightarrow> (\<forall>x. used v x \<longrightarrow> endpoint_p (v_end v x) = p_nr x)"

definition blocked_ok :: "iview \<Rightarrow> bool" where
  "blocked_ok v \<longleftrightarrow> (\<forall>x. sending v x \<longrightarrow> used v x \<and> (\<exists>y. names v (v_to v x) y))
     \<and> (\<forall>x. receiving v x \<longrightarrow> used v x \<and> (v_from v x = ANY \<or> (\<exists>y. names v (v_from v x) y)))
     \<and> (\<forall>x. sending v x \<and> receiving v x \<longrightarrow> v_from v x = v_to v x)"

definition ipc_ok_but :: "(nat \<times> nat) set \<Rightarrow> iview \<Rightarrow> bool" where
  "ipc_ok_but P v \<longleftrightarrow> ends_ok v \<and> blocked_ok v \<and> (\<exists>C. callers P C v) \<and> acyclic (waits v)"

abbreviation ipc_ok :: "iview \<Rightarrow> bool" where
  "ipc_ok \<equiv> ipc_ok_but {}"

lemma ipc_ok_butE:
  assumes "ipc_ok_but P v"
  obtains C where "ends_ok v" "blocked_ok v" "callers P C v" "acyclic (waits v)"
  using assms by (auto simp: ipc_ok_but_def)

section \<open>Names\<close>

lemma names_slot: "ends_ok v \<Longrightarrow> names v e x \<Longrightarrow> x = proc_addr (endpoint_p e) \<and> x < NR_TASKS + NR_PROCS \<and> endpoint_p e = p_nr x"
  by (auto simp: names_def ends_ok_def used_def)

lemma names_unique: "ends_ok v \<Longrightarrow> names v e x \<Longrightarrow> names v e y \<Longrightarrow> x = y"
  using names_slot by blast

lemma names_none: "ends_ok v \<Longrightarrow> \<not> names v NONE x" "ends_ok v \<Longrightarrow> \<not> names v ANY x"
  using names_slot [of v NONE x] names_slot [of v ANY x] endpoint_not_any by blast+

lemma waits_next:
  assumes "ends_ok v" and "names v (blocked_on v x) y"
  shows "(x, z) \<in> waits v \<longleftrightarrow> z = y"
  using names_unique [OF assms(1)] assms(2) by (auto simp: waits_def)

lemma waits_blocked: "blocked_ok v \<Longrightarrow> ends_ok v \<Longrightarrow> (x, y) \<in> waits v \<Longrightarrow> used v x \<and> used v y \<and> (sending v x \<or> receiving v x)"
  using names_none(1) [of v y] by (auto simp: waits_def blocked_on_def blocked_ok_def names_def split: if_splits)

lemma blocked_on_ok: "blocked_ok v \<Longrightarrow> sending v x \<or> receiving v x \<Longrightarrow> blocked_on v x = ANY \<or> (\<exists>y. names v (blocked_on v x) y)"
  unfolding blocked_ok_def blocked_on_def by metis

lemma waits_finite:
  assumes "blocked_ok v" and "ends_ok v"
  shows "finite (waits v)"
proof (rule finite_subset)
  show "waits v \<subseteq> {..<NR_TASKS + NR_PROCS} \<times> {..<NR_TASKS + NR_PROCS}"
    using waits_blocked [OF assms] by (auto simp: used_def)
qed simp

lemma waits_wf: "ipc_ok_but P v \<Longrightarrow> wf ((waits v)\<inverse>)"
  by (metis ipc_ok_butE waits_finite finite_acyclic_wf_converse)

section \<open>Steps\<close>

text \<open>Only the names and the flags of sending and receiving matter.\<close>

lemma view_mono:
  assumes "ipc_ok_but P v" and same: "v_end w = v_end v" "v_from w = v_from v" "v_to w = v_to v" "v_head w = v_head v" "v_link w = v_link v"
    and u: "\<And>x. used w x = used v x"
    and s: "\<And>x. sending w x \<Longrightarrow> sending v x" and r: "\<And>x. receiving w x \<Longrightarrow> receiving v x"
    and P': "R = P \<union> {(x, d). sending v x \<and> \<not> sending w x \<and> names v (v_to v x) d}"
  shows "ipc_ok_but R w"
proof -
  from assms(1) obtain C where ok: "ends_ok v" "blocked_ok v" "callers P C v" "acyclic (waits v)" by (rule ipc_ok_butE)
  have n: "names w e x = names v e x" for e x by (simp add: names_def same u)
  have "ends_ok w" using ok(1) by (simp add: ends_ok_def same u)
  moreover have "blocked_ok w" using ok(2) s r by (auto simp: blocked_ok_def same u n)
  moreover have "callers R C w"
    unfolding callers_def
  proof (intro conjI allI impI)
    show "chain (vcell w d) (C d)" for d using ok(3) by (simp add: callers_def vcell_def [abs_def] same)
    show "x \<in> set (C d) \<longleftrightarrow> sending w x \<and> names w (v_to w x) d \<or> (x, d) \<in> R" for x d
      using ok(3) s by (auto simp: callers_def same n P')
    show "v_link w x = None" if x: "\<not> sending w x \<and> x \<notin> fst ` R" for x
    proof -
      have "\<not> sending v x"
      proof
        assume "sending v x"
        then obtain y where "names v (v_to v x) y" using ok(2) by (auto simp: blocked_ok_def)
        with x \<open>sending v x\<close> have "(x, y) \<in> R" by (simp add: P')
        then show False using x by force
      qed
      moreover have "x \<notin> fst ` P" using x P' by (auto simp: image_def)
      ultimately show ?thesis using ok(3) by (auto simp: callers_def same)
    qed
  qed
  moreover have "acyclic (waits w)"
  proof (rule acyclic_subset [OF ok(4)])
    show "waits w \<subseteq> waits v"
    proof
      fix p assume "p \<in> waits w"
      then obtain x y where p: "p = (x, y)" and y: "names w (blocked_on w x) y" by (auto simp: waits_def)
      have b: "sending w x \<or> receiving w x" using y names_none(1) [OF ok(1), of y] by (auto simp: blocked_on_def n split: if_splits)
      have "blocked_on w x = blocked_on v x"
        using b s [of x] r [of x] ok(2) by (auto simp: blocked_on_def blocked_ok_def same)
      with y show "p \<in> waits v" by (simp add: p waits_def n)
    qed
  qed
  ultimately show ?thesis by (auto simp: ipc_ok_but_def)
qed

lemma view_same:
  assumes "ipc_ok_but P v" and "v_end w = v_end v" "v_from w = v_from v" "v_to w = v_to v" "v_head w = v_head v" "v_link w = v_link v"
    and "\<And>x. used w x = used v x" and "\<And>x. sending w x = sending v x" and "\<And>x. receiving w x \<Longrightarrow> receiving v x"
  shows "ipc_ok_but P w"
  by (rule view_mono [OF assms(1-7)]) (use assms(8,9) in auto)

section \<open>Queues\<close>

definition set_vcell :: "nat \<Rightarrow> link \<Rightarrow> ptr \<Rightarrow> iview \<Rightarrow> iview" where
  "set_vcell d l p v = (case l of Head \<Rightarrow> v\<lparr>v_head := (v_head v)(d := p)\<rparr> | Next x \<Rightarrow> v\<lparr>v_link := (v_link v)(x := p)\<rparr>)"

interpretation vq: linked_list "\<lambda>l v. vcell v d l" "set_vcell d" for d
  by unfold_locales (simp add: vcell_def set_vcell_def split: link.split)

lemma set_vcell_keeps [simp]:
  "v_end (set_vcell d l p v) = v_end v" "v_bits (set_vcell d l p v) = v_bits v" "v_from (set_vcell d l p v) = v_from v"
  "v_to (set_vcell d l p v) = v_to v" "sending (set_vcell d l p v) = sending v" "receiving (set_vcell d l p v) = receiving v"
  "used (set_vcell d l p v) = used v" "names (set_vcell d l p v) = names v"
  by (simp_all add: set_vcell_def sending_def receiving_def used_def names_def fun_eq_iff split: link.split)

lemma set_vcell_other:
  assumes "k \<noteq> d" and "\<And>x. l = Next x \<Longrightarrow> x \<notin> set xs"
  shows "chain (vcell (set_vcell d l p v) k) xs = chain (vcell v k) xs"
  by (rule chain_cong) (use assms in \<open>auto simp: vcell_def set_vcell_def split: link.split\<close>)

lemma set_vcell_free: "x \<notin> set xs \<Longrightarrow> chain (vcell (set_vcell d (Next x) p v) k) xs = chain (vcell v k) xs"
  by (rule chain_cong) (auto simp: vcell_def set_vcell_def split: link.split)

lemma callersD:
  assumes "callers P C v"
  shows "chain (vcell v d) (C d)" "x \<in> set (C d) \<longleftrightarrow> sending v x \<and> names v (v_to v x) d \<or> (x, d) \<in> P"
    "\<not> sending v x \<Longrightarrow> x \<notin> fst ` P \<Longrightarrow> v_link v x = None"
  using assms by (simp_all add: callers_def)

text \<open>A process that has been served leaves its queue.\<close>

lemma callers_leave:
  assumes c: "callers {(x, d)} C v" and e: "ends_ok v" and n: "\<not> sending v x" and q: "C d = ys @ x # zs"
  shows "callers {} (C(d := ys @ zs)) (set_vcell d (Next x) None (set_vcell d (link_at ys) (v_link v x) v))"
  unfolding callers_def
proof (intro conjI allI impI)
  let ?u = "set_vcell d (link_at ys) (v_link v x) v"
  let ?w = "set_vcell d (Next x) None ?u"
  have ch: "chain (vcell v d) (ys @ x # zs)" using callersD(1) [OF c, of d] by (simp add: q)
  have ux: "x \<notin> set (ys @ zs)" using chain_distinct [OF ch] by auto
  have only: "k = d" if "y \<in> set (C k)" "y \<in> set (C d)" for y k
    using that callersD(2) [OF c] n names_unique [OF e] by auto
  have xk: "x \<notin> set (C k)" if "k \<noteq> d" for k using only [of x k] that by (auto simp: q)
  fix k
  show "chain (vcell ?w k) ((C(d := ys @ zs)) k)"
  proof (cases "k = d")
    case True
    have "v_link v x = vcell v d (Next x)" by (simp add: vcell_def)
    with vq.stored_remove [OF ch] have "chain (vcell ?u d) (ys @ zs)" by simp
    then show ?thesis using True set_vcell_free [OF ux] by simp
  next
    case False
    have "chain (vcell ?u k) (C k)"
      using callersD(1) [OF c, of k] by (subst set_vcell_other) (use False only in \<open>auto simp: link_at_def q split: if_splits\<close>)
    then show ?thesis using False set_vcell_free [OF xk [OF False]] by simp
  qed
  fix y
  show "y \<in> set ((C(d := ys @ zs)) k) \<longleftrightarrow> sending ?w y \<and> names ?w (v_to ?w y) k \<or> (y, k) \<in> {}"
    using callersD(2) [OF c, of y k] n ux q by auto
  assume y: "\<not> sending ?w y \<and> y \<notin> fst ` {}"
  show "v_link ?w y = None"
  proof (cases "y = x")
    case False
    have l: "link_at ys \<noteq> Next y"
    proof
      assume "link_at ys = Next y"
      then have "y \<in> set (C d)" by (auto simp: link_at_def q split: if_splits)
      then show False using y False callersD(2) [OF c, of y d] by auto
    qed
    have "v_link v y = None" by (rule callersD(3) [OF c]) (use y False in auto)
    with False l show ?thesis by (simp add: set_vcell_def split: link.split)
  qed (simp add: set_vcell_def split: link.split)
qed

text \<open>A new sender joins the end of the queue.\<close>

lemma callers_join:
  assumes c: "callers {} C v" and e: "ends_ok v" and n: "\<not> sending v x" and d: "names v e' d"
    and w: "v_head w = v_head (set_vcell d (link_at (C d)) (Some x) v)" "v_link w = v_link (set_vcell d (link_at (C d)) (Some x) v)"
    and same: "\<And>y. sending w y \<longleftrightarrow> sending v y \<or> y = x" "names w = names v" "v_to w = (v_to v)(x := e')"
  shows "callers {} (C(d := C d @ [x])) w"
  unfolding callers_def
proof (intro conjI allI impI)
  let ?u = "set_vcell d (link_at (C d)) (Some x) v"
  have cell: "vcell w = vcell ?u" by (simp add: vcell_def [abs_def] w)
  have lx: "v_link v x = None" using callersD(3) [OF c n] by simp
  have nx: "x \<notin> set (C k)" for k using callersD(2) [OF c, of x k] n by simp
  have end': "vcell v d (link_at (C d)) = None" using chainD [of "vcell v d" "C d" "[]"] callersD(1) [OF c, of d] by simp
  fix k
  show "chain (vcell w k) ((C(d := C d @ [x])) k)"
  proof (cases "k = d")
    case True
    have "chain (vcell v d) (C d @ [])" using callersD(1) [OF c, of d] by simp
    from vq.stored_insert [OF this] nx have "chain (vcell (set_vcell d (link_at (C d)) (Some x) (set_vcell d (Next x) None v)) d) (C d @ [x])"
      by (simp add: end')
    moreover have "set_vcell d (Next x) None v = v" using lx by (simp add: set_vcell_def fun_upd_idem)
    ultimately show ?thesis by (simp add: True cell)
  next
    case False
    have "y \<notin> set (C k)" if "link_at (C d) = Next y" for y
    proof -
      have "y \<in> set (C d)" using that by (auto simp: link_at_def split: if_splits)
      then show ?thesis using callersD(2) [OF c] names_unique [OF e] False by auto
    qed
    then show ?thesis using False callersD(1) [OF c, of k] by (simp add: cell set_vcell_other)
  qed
  fix y
  show "y \<in> set ((C(d := C d @ [x])) k) \<longleftrightarrow> sending w y \<and> names w (v_to w y) k \<or> (y, k) \<in> {}"
    using callersD(2) [OF c, of y k] nx n d names_unique [OF e] same by auto
  assume y: "\<not> sending w y \<and> y \<notin> fst ` {}"
  have "link_at (C d) \<noteq> Next y"
  proof
    assume "link_at (C d) = Next y"
    then have "y \<in> set (C d)" by (auto simp: link_at_def split: if_splits)
    then show False using y same callersD(2) [OF c, of y d] by auto
  qed
  then show "v_link w y = None" using callersD(3) [OF c, of y] y same by (auto simp: w set_vcell_def split: link.split)
qed

section \<open>Blocking\<close>

lemma acyclic_new: "acyclic r \<Longrightarrow> (y, x) \<notin> r\<^sup>* \<Longrightarrow> acyclic (insert (x, y) r)"
  by (simp add: acyclic_insert)

lemma view_send:
  assumes ok: "ends_ok v" "blocked_ok v" "callers {} C v" "acyclic (waits v)"
    and x: "\<not> sending v x" "\<not> receiving v x" "used v x" and d: "names v e d" "(d, x) \<notin> (waits v)\<^sup>*"
    and w: "v_head w = v_head (set_vcell d (link_at (C d)) (Some x) v)" "v_link w = v_link (set_vcell d (link_at (C d)) (Some x) v)"
      "v_end w = v_end v" "v_from w = v_from v" "v_to w = (v_to v)(x := e)"
    and same: "\<And>y. sending w y \<longleftrightarrow> sending v y \<or> y = x" "\<And>y. receiving w y = receiving v y" "\<And>y. used w y = used v y"
  shows "ipc_ok w"
proof -
  have n: "names w = names v" by (simp add: names_def fun_eq_iff w same)
  have "ends_ok w" using ok(1) by (simp add: ends_ok_def w same)
  moreover have "blocked_ok w" using ok(2) x d(1) by (auto simp: blocked_ok_def w same n)
  moreover have "callers {} (C(d := C d @ [x])) w" by (rule callers_join [OF ok(3,1) x(1) d(1) w(1,2) same(1) n w(5)])
  moreover have "waits w = insert (x, d) (waits v)"
  proof -
    have "blocked_on w y = (if y = x then e else blocked_on v y)" for y by (simp add: blocked_on_def same w)
    moreover have "\<not> names v (blocked_on v x) y" for y using x names_none [OF ok(1)] by (simp add: blocked_on_def)
    ultimately show ?thesis using d(1) names_unique [OF ok(1)] by (auto simp: waits_def n split: if_splits)
  qed
  then have "acyclic (waits w)" using acyclic_new [OF ok(4) d(2)] by simp
  ultimately show ?thesis by (auto simp: ipc_ok_but_def)
qed

lemma view_receive:
  assumes ok: "ipc_ok v"
    and x: "used v x" "\<not> receiving v x" "sending v x \<Longrightarrow> v_to v x = e" and e: "e = ANY \<or> (\<exists>y. names v e y \<and> (sending v x \<or> (y, x) \<notin> (waits v)\<^sup>*))"
    and w: "v_head w = v_head v" "v_link w = v_link v" "v_end w = v_end v" "v_from w = (v_from v)(x := e)" "v_to w = v_to v"
    and same: "\<And>y. sending w y = sending v y" "\<And>y. receiving w y \<longleftrightarrow> receiving v y \<or> y = x" "\<And>y. used w y = used v y"
  shows "ipc_ok w"
proof -
  from ok obtain C where ok: "ends_ok v" "blocked_ok v" "callers {} C v" "acyclic (waits v)" by (rule ipc_ok_butE)
  have n: "names w = names v" by (simp add: names_def fun_eq_iff w same)
  have "ends_ok w" using ok(1) by (simp add: ends_ok_def w same)
  moreover have "blocked_ok w" using ok(2) x e by (auto simp: blocked_ok_def w same n)
  moreover have "callers {} C w" using ok(3) by (simp add: callers_def vcell_def [abs_def] w same n)
  moreover have "acyclic (waits w)"
  proof (cases "sending v x \<or> e = ANY")
    case True
    have "names w (blocked_on w y) z = names v (blocked_on v y) z" for y z
      using True x(2,3) names_none [OF ok(1)] by (auto simp: blocked_on_def same w n)
    then show ?thesis using ok(4) by (simp add: waits_def)
  next
    case False
    with e obtain y where y: "names v e y" "(y, x) \<notin> (waits v)\<^sup>*" by blast
    have "blocked_on w z = (if z = x then e else blocked_on v z)" for z using False by (simp add: blocked_on_def same w)
    moreover have "\<not> names v (blocked_on v x) z" for z using x False names_none [OF ok(1)] by (simp add: blocked_on_def)
    ultimately have "waits w = insert (x, y) (waits v)" using y(1) names_unique [OF ok(1)] by (auto simp: waits_def n split: if_splits)
    then show ?thesis using acyclic_new [OF ok(4) y(2)] by simp
  qed
  ultimately show ?thesis by (auto simp: ipc_ok_but_def)
qed

end
