(* ===== verification/Ipc_Wait.thy ===== *)
theory Ipc_Wait
  imports Ipc_View
begin

text \<open>
  The deadlock check of the kernel: it ends on every state without a cycle of waiting processes,
  and it finds out whether the process that is going to wait would close one.
\<close>

section \<open>Reading the view\<close>

lemma ipc_bits_and: "ipc_bits f AND RTS_SENDING = f AND RTS_SENDING" "ipc_bits f AND RTS_RECEIVING = f AND RTS_RECEIVING"
  "ipc_bits f AND RTS_SLOT_FREE = f AND RTS_SLOT_FREE"
  by (simp_all add: ipc_bits_def and.assoc)

lemma view_flags:
  "sending (view s) x \<longleftrightarrow> kp_rts_flags (kprocs (core s) x) AND RTS_SENDING \<noteq> 0"
  "receiving (view s) x \<longleftrightarrow> kp_rts_flags (kprocs (core s) x) AND RTS_RECEIVING \<noteq> 0"
  "used (view s) x \<longleftrightarrow> in_use (core s) x"
  "v_end (view s) x = kp_endpoint (kprocs (core s) x)"
  unfolding sending_def receiving_def used_def free_slot_def view_def iview.simps kview_def snd_conv fst_conv ipc_bits_and by simp_all

lemma view_fields [simp]:
  "v_head (view s) x = ip_caller_q (iprocs s x)" "v_link (view s) x = ip_q_link (iprocs s x)"
  "v_from (view s) x = ip_getfrom_e (iprocs s x)" "v_to (view s) x = ip_sendto_e (iprocs s x)"
  by (simp_all add: view_def)

lemma blocked_on_view: "blocked_on (view s) x = P_BLOCKEDON (kprocs (core s) x) (iprocs s x)"
  unfolding blocked_on_def P_BLOCKEDON_def view_flags by simp

lemma view_ends: "core_ok (core s) \<Longrightarrow> ends_ok (view s)"
  unfolding ends_ok_def view_flags by (auto dest: core_okD(4))

lemma view_names: "core_ok (core s) \<Longrightarrow> isokendpt (kprocs (core s)) e = Some x \<longleftrightarrow> names (view s) e x"
  unfolding names_def view_flags by (rule isokendpt_iff)

lemma RTS_ISSET_bit: "n < 32 \<Longrightarrow> kp_rts_flags k AND push_bit n 1 = push_bit n 1 \<longleftrightarrow> kp_rts_flags k AND push_bit n 1 \<noteq> 0"
proof -
  assume n: "n < 32"
  have "w AND push_bit n 1 = (if bit w n then push_bit n 1 else 0)" for w :: u32
    by (rule bit_word_eqI) (auto simp: bit_simps)
  moreover have "push_bit n (1 :: u32) \<noteq> 0" using n by (simp add: push_bit_eq_mult)
  ultimately show ?thesis by simp
qed

lemma RTS_ISSET_flags:
  "RTS_ISSET k RTS_SENDING \<longleftrightarrow> kp_rts_flags k AND RTS_SENDING \<noteq> 0" "RTS_ISSET k RTS_RECEIVING \<longleftrightarrow> kp_rts_flags k AND RTS_RECEIVING \<noteq> 0"
  "RTS_ISSET k RTS_SLOT_FREE \<longleftrightarrow> kp_rts_flags k AND RTS_SLOT_FREE \<noteq> 0"
  using RTS_ISSET_bit [of 2 k] RTS_ISSET_bit [of 3 k] RTS_ISSET_bit [of 0 k] by (simp_all add: RTS_ISSET_def)

lemma wp_okendpt: "wp (okendpt e) Q s = (\<exists>x. isokendpt (kprocs (core s)) e = Some x \<and> Q x s)"
  by (cases "isokendpt (kprocs (core s)) e") (simp_all add: okendpt_def isokendpt_f_def wp_simps)

lemma wlp_okendpt: "wlp (okendpt e) Q s = (\<forall>x. isokendpt (kprocs (core s)) e = Some x \<longrightarrow> Q x s)"
  by (cases "isokendpt (kprocs (core s)) e") (simp_all add: okendpt_def isokendpt_f_def wp_simps)

lemma wp_kproc_of [wp_simps]: "wp (kproc_of x) Q = (\<lambda>s. Q (kprocs (core s) x) s)" "wlp (kproc_of x) Q = (\<lambda>s. Q (kprocs (core s) x) s)"
  by (simp_all add: kproc_of_def wp_simps)

lemma wp_iproc_of [wp_simps]: "wp (iproc_of x) Q = (\<lambda>s. Q (iprocs s x) s)" "wlp (iproc_of x) Q = (\<lambda>s. Q (iprocs s x) s)"
  by (simp_all add: iproc_of_def wp_simps)

section \<open>The check\<close>

text \<open>
  The case that the check lets pass: two processes, of which one sends to the other and the other
  receives from it.
\<close>

definition matching :: "nat \<Rightarrow> iview \<Rightarrow> nat \<Rightarrow> bool" where
  "matching function' v y \<longleftrightarrow> (if function' = SEND then \<not> sending v y else sending v y)"

lemma matching_flags:
  assumes "function' = SEND \<or> function' = RECEIVE"
  shows "(kp_rts_flags (kprocs (core s) y) XOR push_bit 2 (of_nat function')) AND RTS_SENDING \<noteq> 0 \<longleftrightarrow> matching function' (view s) y"
proof -
  have w: "(w XOR 4) AND 4 \<noteq> 0 \<longleftrightarrow> w AND 4 = 0" "(w XOR 8) AND 4 \<noteq> 0 \<longleftrightarrow> w AND 4 \<noteq> 0" for w :: u32
    using and_exp_eq_0_iff_not_bit [of w 2] and_exp_eq_0_iff_not_bit [of "w XOR 4" 2] and_exp_eq_0_iff_not_bit [of "w XOR 8" 2]
    by (simp_all add: bit_simps)
  have p: "push_bit 2 (of_nat SEND) = (4 :: u32)" "push_bit 2 (of_nat RECEIVE) = (8 :: u32)" by simp_all
  have "(RECEIVE = SEND) = False" by simp
  with assms show ?thesis
    unfolding matching_def view_flags RTS_SENDING_def by (elim disjE) (simp_all only: p w if_False if_True simp_thms)
qed

text \<open>\<open>V\<close> are the processes that were visited, the one that calls among them.\<close>

lemma deadlock_loop:
  fixes s :: "'w ikrn"
  assumes core: "core_ok (core s)" and ok: "ipc_ok (view s)" and f: "function' = SEND \<or> function' = RECEIVE"
    and V: "V \<subseteq> {..<NR_TASKS + NR_PROCS}" "card V = g" "c \<in> V" and g: "0 < g" and c: "used (view s) c"
    and x: "names (view s) e x" "x \<notin> V" "\<And>v. v \<in> V \<Longrightarrow> v \<noteq> c \<Longrightarrow> (v, x) \<in> (waits (view s))\<^sup>+"
  shows "wp (loop_m (deadlock_turn function' c) (g, e)) (\<lambda>r t. t = s
    \<and> (r \<noteq> 0 \<longleftrightarrow> (x, c) \<in> (waits (view s))\<^sup>+ \<and> \<not> (g = 1 \<and> (x, c) \<in> waits (view s) \<and> matching function' (view s) x))) s"
  using waits_wf [OF ok] V g x
proof (induction x arbitrary: V g e rule: wf_induct_rule)
  case (less x)
  let ?v = "view s"
  from ok have e: "ends_ok ?v" and b: "blocked_ok ?v" and a: "acyclic (waits ?v)" by (auto simp: ipc_ok_but_def)
  have xs: "isokendpt (kprocs (core s)) e = Some x" using view_names [OF core] less.prems(5) by simp
  have ux: "used ?v x" using less.prems(5) by (simp add: names_def)
  have nf: "\<not> RTS_ISSET (kprocs (core s) x) RTS_SLOT_FREE" using ux unfolding view_flags RTS_ISSET_flags free_slot_def by blast
  have any: "e \<noteq> ANY" using names_none(2) [OF e] less.prems(5) by auto
  have bound: "g < NR_PROCS + NR_TASKS"
  proof -
    have "insert x V \<subseteq> {..<NR_TASKS + NR_PROCS}" using less.prems(1) ux unfolding view_flags by auto
    then have "card (insert x V) \<le> card {..<NR_TASKS + NR_PROCS}" by (rule card_mono [rotated]) simp
    moreover have "card (insert x V) = Suc g" using less.prems(1,2,6) by (simp add: finite_subset)
    ultimately show ?thesis by simp
  qed
  let ?b = "P_BLOCKEDON (kprocs (core s) x) (iprocs s x)"
  have bx: "blocked_on ?v x = ?b" by (rule blocked_on_view)
  have cx: "x \<noteq> c" using less.prems(3,6) by auto
  consider (none) "?b = NONE" | (any) "?b = ANY" | (cycle) "?b = kp_endpoint (kprocs (core s) c)" "names ?v ?b c"
    | (more) y where "names ?v ?b y" "y \<noteq> c" "?b \<noteq> NONE" "?b \<noteq> ANY" "?b \<noteq> kp_endpoint (kprocs (core s) c)"
  proof (cases "sending ?v x \<or> receiving ?v x")
    case True
    have "?b = ANY \<or> (\<exists>y. names ?v ?b y)" using blocked_on_ok [OF b True] unfolding bx .
    moreover have "\<exists>y. names ?v ?b y \<Longrightarrow> ?b \<noteq> NONE \<and> ?b \<noteq> ANY" using names_none [OF e] by metis
    moreover have "names ?v ?b c \<Longrightarrow> ?b = kp_endpoint (kprocs (core s) c)" "?b = kp_endpoint (kprocs (core s) c) \<Longrightarrow> names ?v ?b c"
      using c by (simp_all add: names_def view_flags(4))
    ultimately show ?thesis using that by metis
  next
    case False
    then show ?thesis using that(1) bx by (simp add: blocked_on_def)
  qed
  then show ?case
  proof cases
    case none
    then have "(x, c) \<notin> (waits ?v)\<^sup>+" using names_none(1) [OF e] bx by (auto simp: waits_def dest: tranclD)
    then show ?thesis using any nf bound none
      by (subst wp_loop_unfold) (simp add: deadlock_turn_def wp_simps wp_okendpt xs del: NONE_def ANY_def RTS_SLOT_FREE_def)
  next
    case any': any
    have n: "?b \<noteq> NONE" using any' by simp
    have "(x, c) \<notin> (waits ?v)\<^sup>+" using names_none(2) [OF e] bx any' by (auto simp: waits_def dest: tranclD)
    moreover have "kp_endpoint (kprocs (core s) c) \<noteq> ANY" using names_none(2) [OF e, of c] c by (simp add: names_def view_flags(4) del: ANY_def)
    moreover have "wp (loop_m (deadlock_turn function' c) (Suc g, ANY)) (\<lambda>r t. t = s \<and> r = 0) s"
      by (subst wp_loop_unfold) (simp add: deadlock_turn_def wp_simps del: ANY_def)
    ultimately show ?thesis using any nf bound n any'
      by (subst wp_loop_unfold) (simp add: deadlock_turn_def wp_simps wp_okendpt xs Let_def del: NONE_def ANY_def RTS_SLOT_FREE_def)
  next
    case cycle
    have n: "?b \<noteq> NONE" using cycle(2) names_none(1) [OF e] by metis
    have w: "(x, c) \<in> waits ?v" using cycle(2) by (simp add: waits_def bx)
    show ?thesis using any nf bound n cycle(1) w matching_flags [OF f, of s x] less.prems(4)
      by (subst wp_loop_unfold)
        (auto simp: deadlock_turn_def wp_simps wp_okendpt xs Let_def r_into_trancl' simp del: NONE_def ANY_def RTS_SLOT_FREE_def RTS_SENDING_def)
  next
    case (more y)
    have w: "(x, y) \<in> waits ?v" using more(1) by (simp add: waits_def bx)
    have onward: "(x, c) \<in> (waits ?v)\<^sup>+ \<longleftrightarrow> (y, c) \<in> (waits ?v)\<^sup>+"
    proof
      assume "(x, c) \<in> (waits ?v)\<^sup>+"
      then obtain z where z: "(x, z) \<in> waits ?v" "(z, c) \<in> (waits ?v)\<^sup>*" by (auto dest: tranclD)
      then have "z = y" using waits_next [OF e, of x y] more(1) bx by simp
      with z(2) more(2) show "(y, c) \<in> (waits ?v)\<^sup>+" by (simp add: rtrancl_eq_or_trancl)
    qed (use w in \<open>rule trancl_into_trancl2\<close>)
    have xc: "(x, c) \<notin> waits ?v" using waits_next [OF e, of x y] more(1,2) bx by simp
    have "wp (loop_m (deadlock_turn function' c) (Suc g, ?b)) (\<lambda>r t. t = s
      \<and> (r \<noteq> 0 \<longleftrightarrow> (y, c) \<in> (waits ?v)\<^sup>+ \<and> \<not> (Suc g = 1 \<and> (y, c) \<in> waits ?v \<and> matching function' ?v y))) s"
    proof (rule less.IH [where V = "insert x V"])
      show "(y, x) \<in> (waits ?v)\<inverse>" using w by simp
      show "insert x V \<subseteq> {..<NR_TASKS + NR_PROCS}" using less.prems(1) ux unfolding view_flags by auto
      show "card (insert x V) = Suc g" using less.prems(1,2,6) by (simp add: finite_subset)
      have "(y, y) \<notin> (waits ?v)\<^sup>+" "(x, x) \<notin> (waits ?v)\<^sup>+" using a by (simp_all add: acyclic_def)
      then show "y \<notin> insert x V"
        using w more(2) less.prems(7) [of y] by (auto intro: trancl_into_trancl)
      show "(u, y) \<in> (waits ?v)\<^sup>+" if "u \<in> insert x V" "u \<noteq> c" for u
        using that w less.prems(7) [of u] by (auto intro: trancl_into_trancl)
    qed (use less.prems(3,4) more(1) in auto)
    then show ?thesis using any nf bound more(3-5) onward xc less.prems(4)
      by (subst wp_loop_unfold) (simp add: deadlock_turn_def wp_simps wp_okendpt xs Let_def del: NONE_def ANY_def RTS_SLOT_FREE_def)
  qed
qed

text \<open>The result is not zero exactly when waiting for \<open>y\<close> would close a cycle.\<close>

lemma deadlock_wp:
  fixes s :: "'w ikrn"
  assumes "core_ok (core s)" and "ipc_ok (view s)" and "function' = SEND \<or> function' = RECEIVE" and "used (view s) c"
    and "names (view s) e y" and "y \<noteq> c"
  shows "wp (deadlock function' c e) (\<lambda>r t. t = s
    \<and> (r \<noteq> 0 \<longleftrightarrow> (y, c) \<in> (waits (view s))\<^sup>* \<and> \<not> ((y, c) \<in> waits (view s) \<and> matching function' (view s) y))) s"
proof -
  have "{c} \<subseteq> {..<NR_TASKS + NR_PROCS}" using assms(4) unfolding view_flags by auto
  from deadlock_loop [OF assms(1-3) this _ _ _ assms(4,5), of 1] assms(6) show ?thesis
    unfolding deadlock_def by (auto elim!: wp_mono simp: rtrancl_eq_or_trancl)
qed

lemma deadlock_any: "wp (deadlock function' c ANY) (\<lambda>r t. t = s \<and> r = 0) s"
  unfolding deadlock_def by (subst wp_loop_unfold) (simp add: deadlock_turn_def wp_simps del: ANY_def)

end
