(* ===== verification/Ipc_Calm.thy ===== *)
theory Ipc_Calm
  imports Ipc_Wait
begin

text \<open>
  The steps of message passing that block nobody and leave the queues of senders alone: reading,
  copying, notifications, signals and asynchronous messages. They may only wake processes that wait
  to receive.
\<close>

section \<open>Calm steps\<close>

definition calm :: "iview \<Rightarrow> iview \<Rightarrow> bool" where
  "calm v w \<longleftrightarrow> v_end w = v_end v \<and> v_from w = v_from v \<and> v_to w = v_to v \<and> v_head w = v_head v \<and> v_link w = v_link v
     \<and> used w = used v \<and> sending w = sending v \<and> (\<forall>x. receiving w x \<longrightarrow> receiving v x)"

text \<open>\<open>U\<close> are processes that are known to be in use.\<close>

definition calmly :: "nat set \<Rightarrow> ('w, 'a) iprog \<Rightarrow> bool" where
  "calmly U m \<longleftrightarrow> (\<forall>s. core_ok (core s) \<and> (\<forall>x \<in> U. used (view s) x) \<longrightarrow>
     wlp m (\<lambda>_ t. core_ok (core t) \<and> calm (view s) (view t)) s)"

named_theorems calm_intros

lemma calm_refl [simp]: "calm v v"
  by (simp add: calm_def)

lemma calm_trans: "calm u v \<Longrightarrow> calm v w \<Longrightarrow> calm u w"
  by (auto simp: calm_def)

lemma calm_names: "calm v w \<Longrightarrow> names w = names v"
  by (simp add: calm_def names_def fun_eq_iff)

lemma calm_ok:
  assumes "calm v w" and "ipc_ok_but P v"
  shows "ipc_ok_but P w"
  by (rule view_same [OF assms(2)]) (use assms(1) in \<open>auto simp: calm_def\<close>)

lemma calmlyI: "(\<And>s. core_ok (core s) \<Longrightarrow> \<forall>x \<in> U. used (view s) x \<Longrightarrow> wlp m (\<lambda>_ t. core_ok (core t) \<and> calm (view s) (view t)) s) \<Longrightarrow> calmly U m"
  by (simp add: calmly_def)

lemma calmlyD: "calmly U m \<Longrightarrow> core_ok (core s) \<Longrightarrow> (\<And>x. x \<in> U \<Longrightarrow> used (view s) x) \<Longrightarrow> wlp m (\<lambda>_ t. core_ok (core t) \<and> calm (view s) (view t)) s"
  by (simp add: calmly_def)

lemma calmly_weaken: "calmly V m \<Longrightarrow> V \<subseteq> U \<Longrightarrow> calmly U m"
  by (auto simp: calmly_def)

lemma calmly_bnd [calm_intros]:
  fixes m :: "('w, 'a) iprog"
  assumes "calmly U m" and "\<And>x. calmly U (k x)"
  shows "calmly U (bnd m k)"
proof (rule calmlyI)
  fix s :: "'w ikrn"
  assume s: "core_ok (core s)" "\<forall>x \<in> U. used (view s) x"
  show "wlp (bnd m k) (\<lambda>_ t. core_ok (core t) \<and> calm (view s) (view t)) s"
    unfolding wlp_bnd
  proof (rule wlp_mono [OF calmlyD [OF assms(1) s(1)]])
    fix x and t :: "'w ikrn" assume t: "core_ok (core t) \<and> calm (view s) (view t)"
    then have u: "\<And>x. x \<in> U \<Longrightarrow> used (view t) x" using s(2) by (simp add: calm_def)
    show "wlp (k x) (\<lambda>_ u. core_ok (core u) \<and> calm (view s) (view u)) t"
      by (rule wlp_mono [OF calmlyD [OF assms(2) _ u]]) (use t calm_trans in auto)
  qed (use s in simp)
qed

lemma calmly_andthen [calm_intros]: "calmly U m \<Longrightarrow> calmly U n \<Longrightarrow> calmly U (andthen m n)"
  unfolding andthen_def by (rule calmly_bnd)

lemma calmly_if [calm_intros]: "(b \<Longrightarrow> calmly U m) \<Longrightarrow> (\<not> b \<Longrightarrow> calmly U n) \<Longrightarrow> calmly U (if b then m else n)"
  by simp

lemma calmly_option [calm_intros]: "calmly U m \<Longrightarrow> (\<And>x. calmly U (k x)) \<Longrightarrow> calmly U (case v of None \<Rightarrow> m | Some x \<Rightarrow> k x)"
  by (cases v) simp_all

lemma calmly_sum [calm_intros]: "(\<And>x. calmly U (j x)) \<Longrightarrow> (\<And>x. calmly U (k x)) \<Longrightarrow> calmly U (case v of Inl x \<Rightarrow> j x | Inr x \<Rightarrow> k x)"
  by (cases v) simp_all

lemma calmly_prod [calm_intros]: "(\<And>x y. calmly U (k x y)) \<Longrightarrow> calmly U (case v of (x, y) \<Rightarrow> k x y)"
  by (cases v) simp

lemma calmly_let [calm_intros]: "calmly U (k v) \<Longrightarrow> calmly U (let x = v in k x)"
  by (simp add: Let_def)

lemma calmly_mbuf [calm_intros]: "(\<And>x. calmly U (j x)) \<Longrightarrow> (\<And>x. calmly U (k x)) \<Longrightarrow> calmly U (case v of From_User x \<Rightarrow> j x | From_Kernel x \<Rightarrow> k x)"
  by (cases v) simp_all

lemma calmly_loop [calm_intros]:
  fixes b :: "'a \<Rightarrow> ('w, 'a + 'b) iprog"
  assumes "\<And>x. calmly U (b x)"
  shows "calmly U (loop_m b x)"
proof (rule calmlyI)
  fix s :: "'w ikrn"
  assume s: "core_ok (core s)" "\<forall>x \<in> U. used (view s) x"
  show "wlp (loop_m b x) (\<lambda>_ t. core_ok (core t) \<and> calm (view s) (view t)) s"
  proof (rule wlp_loop [where I = "\<lambda>_ t. core_ok (core t) \<and> calm (view s) (view t)"])
    fix y and t :: "'w ikrn" assume t: "core_ok (core t) \<and> calm (view s) (view t)"
    then have u: "\<And>x. x \<in> U \<Longrightarrow> used (view t) x" using s(2) by (simp add: calm_def)
    show "wlp (b y) (\<lambda>r u. case r of Inl _ \<Rightarrow> core_ok (core u) \<and> calm (view s) (view u) | Inr _ \<Rightarrow> core_ok (core u) \<and> calm (view s) (view u)) t"
      by (rule wlp_mono [OF calmlyD [OF assms _ u]]) (use t calm_trans in \<open>auto split: sum.split\<close>)
  qed (use s in simp)
qed

lemma calmly_for [calm_intros]: "(\<And>i. calmly U (f i)) \<Longrightarrow> calmly U (for_m is f)"
proof (induction "is")
  case Nil
  show ?case by (auto simp: calmly_def wp_simps)
next
  case (Cons i "is")
  then show ?case by (simp add: calmly_andthen)
qed

section \<open>Basic steps\<close>

lemma calmly_read [calm_intros]: "calmly U (ret x)" "calmly U (raise f)" "calmly U (gets g)" "calmly U (check f b)"
  "calmly U (kproc_of y)" "calmly U (iproc_of y)" "calmly U (in_krn (isokendpt_f e b))"
  by (auto simp: calmly_def wp_simps isokendpt_f_def)

lemma view_iprocs:
  assumes "\<And>x. ip_caller_q (f x) = ip_caller_q (iprocs s x)" "\<And>x. ip_q_link (f x) = ip_q_link (iprocs s x)"
    "\<And>x. ip_getfrom_e (f x) = ip_getfrom_e (iprocs s x)" "\<And>x. ip_sendto_e (f x) = ip_sendto_e (iprocs s x)"
  shows "view (s\<lparr>iprocs := f\<rparr>) = view s"
  using assms by (simp add: view_def)

lemma calmly_set_iproc:
  assumes "\<And>p. ip_caller_q (f p) = ip_caller_q p" "\<And>p. ip_q_link (f p) = ip_q_link p"
    "\<And>p. ip_getfrom_e (f p) = ip_getfrom_e p" "\<And>p. ip_sendto_e (f p) = ip_sendto_e p"
  shows "calmly U (set_iproc x f)"
  using assms by (auto simp: calmly_def set_iproc_def wp_simps view_iprocs)

lemma view_privs [simp]: "view (s\<lparr>privs := p\<rparr>) = view s" "view (s\<lparr>kbill_ipc := b\<rparr>) = view s"
  by (simp_all add: view_def)

lemma calmly_set_priv [calm_intros]: "calmly U (set_priv i f)"
  by (auto simp: calmly_def set_priv_def wp_simps)

lemma view_world [simp]: "view (s\<lparr>core := (core s)\<lparr>p_world := w\<rparr>\<rparr>) = view s"
  by (simp add: view_def)

lemma calmly_os_call [calm_intros]: "calmly U (in_krn (os_call f))"
  by (auto simp: calmly_def wp_simps core_ok_world)

lemma calmly_priv_of [calm_intros]: "calmly U (priv_of x)"
  unfolding priv_of_def by (intro calm_intros)

lemma calmly_small [calm_intros]:
  "calmly U (set_misc x f)" "calmly U (unset_misc x f)" "calmly U (IPC_STATUS_ADD_CALL x n)" "calmly U (IPC_STATUS_ADD_FLAGS x f)"
  "calmly U (deliver x e)" "calmly U (set_iproc x (\<lambda>p. p\<lparr>ip_delivermsg := m\<rparr>))" "calmly U (set_iproc x (\<lambda>p. p\<lparr>ip_sendmsg := m\<rparr>))"
  "calmly U (increase_proc_signals x)"
  unfolding set_misc_def unset_misc_def IPC_STATUS_ADD_CALL_def IPC_STATUS_ADD_FLAGS_def IPC_STATUS_ADD_def deliver_def increase_proc_signals_def
  by (auto intro!: calm_intros calmly_set_iproc)

lemma calmly_parts [calm_intros]:
  "calmly U (BuildNotifyMessage n x)" "calmly U (may_send_to x y)" "calmly U (copy_msg_from_user os b m)"
  "calmly U (fill_delivermsg os x mb)" "calmly U (fill_sendmsg os x mb)" "calmly U (has_pending w src)"
  "calmly U (has_pending_notify x src)" "calmly U (has_pending_asend x src)" "calmly U (unset_notify_pending x i)"
  "calmly U (retrieve os x a i)" "calmly U (insert_result os x a i t)"
  unfolding BuildNotifyMessage_def may_send_to_def copy_msg_from_user_def fill_delivermsg_def fill_sendmsg_def has_pending_def
    has_pending_notify_def has_pending_asend_def unset_notify_pending_def retrieve_def insert_result_def
  by (intro calm_intros)+

section \<open>Waking receivers\<close>

lemma view_with_flags:
  assumes "kview t = with_flags x g (kview (core s))"
  shows "v_end (view (s\<lparr>core := t\<rparr>)) = v_end (view s)" "v_bits (view (s\<lparr>core := t\<rparr>)) = (v_bits (view s))(x := g (v_bits (view s) x))"
    "v_head (view (s\<lparr>core := t\<rparr>)) = v_head (view s)" "v_link (view (s\<lparr>core := t\<rparr>)) = v_link (view s)"
    "v_from (view (s\<lparr>core := t\<rparr>)) = v_from (view s)" "v_to (view (s\<lparr>core := t\<rparr>)) = v_to (view s)"
  using assms by (simp_all add: view_def with_flags_def fun_eq_iff)

lemma calm_flags:
  assumes "kview t = with_flags x g (kview (core s))"
    and "g (v_bits (view s) x) AND RTS_SENDING = v_bits (view s) x AND RTS_SENDING"
    and "g (v_bits (view s) x) AND RTS_SLOT_FREE = v_bits (view s) x AND RTS_SLOT_FREE"
    and "g (v_bits (view s) x) AND RTS_RECEIVING \<noteq> 0 \<Longrightarrow> v_bits (view s) x AND RTS_RECEIVING \<noteq> 0"
  shows "calm (view s) (view (s\<lparr>core := t\<rparr>))"
  unfolding calm_def view_with_flags [OF assms(1)] used_def sending_def receiving_def using assms(2-4)
  by (auto simp: fun_eq_iff)

lemma calmly_unset:
  fixes os :: "'w krn_os"
  assumes "x \<in> U" and other: "\<And>w. (w AND NOT f) AND RTS_SENDING = w AND RTS_SENDING" "\<And>w. (w AND NOT f) AND RTS_SLOT_FREE = w AND RTS_SLOT_FREE"
  shows "calmly U (in_krn (RTS_UNSET os x f))"
proof (rule calmlyI)
  fix s :: "'w ikrn"
  assume s: "core_ok (core s)" "\<forall>x \<in> U. used (view s) x"
  have use: "in_use (core s) x" using s(2) assms(1) unfolding view_flags by blast
  show "wlp (in_krn (RTS_UNSET os x f)) (\<lambda>_ t. core_ok (core t) \<and> calm (view s) (view t)) s"
    unfolding wlp_in_krn
  proof (rule wp_wlp [OF wp_mono [OF RTS_UNSET_view [OF s(1) use]]], elim conjE)
    fix t :: "'w krn" assume t: "core_ok t" "kview t = with_flags x (\<lambda>g. g AND NOT f) (kview (core s))"
    have "(w AND NOT f) AND RTS_RECEIVING \<noteq> 0 \<Longrightarrow> w AND RTS_RECEIVING \<noteq> 0" for w :: u32
      using and_not_swap [of w f RTS_RECEIVING] by (auto simp del: RTS_RECEIVING_def)
    then have "calm (view s) (view (s\<lparr>core := t\<rparr>))" by (rule calm_flags [OF t(2) other])
    with t(1) show "core_ok (core (s\<lparr>core := t\<rparr>)) \<and> calm (view s) (view (s\<lparr>core := t\<rparr>))" by simp
  qed
qed

lemma calmly_wake [calm_intros]: "x \<in> U \<Longrightarrow> calmly U (in_krn (RTS_UNSET os x RTS_RECEIVING))"
  "x \<in> U \<Longrightarrow> calmly U (in_krn (RTS_UNSET os x RTS_NO_PRIV))"
  by (rule calmly_unset; simp add: and_not_swap and.assoc)+

lemma calmly_signaled [calm_intros]:
  fixes os :: "'w krn_os"
  assumes "x \<in> U"
  shows "calmly U (in_krn (RTS_SET os x (RTS_SIGNALED OR RTS_SIG_PENDING)))"
proof (rule calmlyI)
  fix s :: "'w ikrn"
  let ?f = "RTS_SIGNALED OR RTS_SIG_PENDING"
  assume s: "core_ok (core s)" "\<forall>x \<in> U. used (view s) x"
  have use: "\<not> free_slot (core s) x" using s(2) assms unfolding view_flags by blast
  have f: "?f \<noteq> 0" "?f AND RTS_SLOT_FREE = 0" and z: "ipc_bits ?f = 0" by (simp_all add: ipc_bits_def)
  show "wlp (in_krn (RTS_SET os x ?f)) (\<lambda>_ t. core_ok (core t) \<and> calm (view s) (view t)) s"
    unfolding wlp_in_krn
  proof (rule wp_wlp [OF wp_mono [OF RTS_SET_view [OF s(1) use f]]], elim conjE)
    fix t :: "'w krn" assume t: "core_ok t" "kview t = with_flags x (\<lambda>g. g OR ipc_bits ?f) (kview (core s))"
    have "calm (view s) (view (s\<lparr>core := t\<rparr>))" by (rule calm_flags [OF t(2)]) (simp_all only: z or.right_neutral simp_thms)
    with t(1) show "core_ok (core (s\<lparr>core := t\<rparr>)) \<and> calm (view s) (view (s\<lparr>core := t\<rparr>))" by simp
  qed
qed

text \<open>A process that an endpoint names is in use.\<close>

lemma calmly_bnd_use:
  fixes m :: "('w, 'a) iprog"
  assumes "calmly U m" and "\<And>s. core_ok (core s) \<Longrightarrow> wlp m (\<lambda>r _. \<forall>x \<in> F r. used (view s) x) s" and "\<And>r. calmly (F r \<union> U) (k r)"
  shows "calmly U (bnd m k)"
proof (rule calmlyI)
  fix s :: "'w ikrn"
  assume s: "core_ok (core s)" "\<forall>x \<in> U. used (view s) x"
  have "wlp m (\<lambda>r t. (core_ok (core t) \<and> calm (view s) (view t)) \<and> (\<forall>x \<in> F r. used (view s) x)) s"
    using calmlyD [OF assms(1) s(1)] assms(2) [OF s(1)] s(2) by (simp add: wlp_conj)
  then show "wlp (bnd m k) (\<lambda>_ t. core_ok (core t) \<and> calm (view s) (view t)) s"
    unfolding wlp_bnd
  proof (rule wlp_mono)
    fix r and t :: "'w ikrn" assume t: "(core_ok (core t) \<and> calm (view s) (view t)) \<and> (\<forall>x \<in> F r. used (view s) x)"
    then have u: "\<And>x. x \<in> F r \<union> U \<Longrightarrow> used (view t) x" using s(2) by (auto simp: calm_def)
    show "wlp (k r) (\<lambda>_ u. core_ok (core u) \<and> calm (view s) (view u)) t"
      by (rule wlp_mono [OF calmlyD [OF assms(3) _ u]]) (use t calm_trans in auto)
  qed
qed

lemma endpt_used: "core_ok (core s) \<Longrightarrow> wlp (in_krn (isokendpt_f e False)) (\<lambda>r _. \<forall>x \<in> set_option r. used (view s) x) s"
  using view_names [of s e] by (auto simp: isokendpt_f_def wp_simps names_def)

lemma calmly_endpt:
  assumes "calmly U (k None)" and "\<And>x. calmly (insert x U) (k (Some x))"
  shows "calmly U (bnd (in_krn (isokendpt_f e False)) k)"
proof (rule calmly_bnd_use [OF calmly_read(7) endpt_used])
  fix r show "calmly (set_option r \<union> U) (k r)" using assms by (cases r) simp_all
qed

section \<open>Notifications, signals and asynchronous messages\<close>

lemma calmly_notify [calm_intros]: "calmly U (mini_notify os c e)"
  unfolding mini_notify_def by (intro calmly_endpt) (auto intro!: calm_intros)

lemma calmly_send_sig [calm_intros]: "calmly U (send_sig os e n)"
  unfolding send_sig_def by (intro calmly_endpt) (auto intro!: calm_intros)

lemma calmly_cause_sig [calm_intros]: "x \<in> U \<Longrightarrow> calmly U (cause_sig os x n)" "x \<in> U \<Longrightarrow> calmly U (sig_delay_done os x)"
proof -
  assume x: "x \<in> U"
  have own: "calmly U (own_signal os x n)" for n
    unfolding own_signal_def
    by (rule calmly_bnd [OF calmly_priv_of], rule calmly_if, rule calmly_bnd [OF calmly_read(3)], rule calmly_endpt)
      (auto intro!: calm_intros simp del: RTS_NO_PRIV_def)
  have other: "calmly U (other_signal os x n mgr)" for n mgr
    unfolding other_signal_def by (intro calm_intros calmly_set_iproc x) simp_all
  show c: "calmly U (cause_sig os x n)" for n
    unfolding cause_sig_def by (intro calm_intros own other)
  show "calmly U (sig_delay_done os x)"
    unfolding sig_delay_done_def by (intro calm_intros c)
qed

lemma calmly_send_diag_sig: "calmly U (send_diag_sig os)"
  unfolding send_diag_sig_def by (intro calm_intros)

lemma calmly_senda_target: "calmly U (senda_target os c e)"
  unfolding senda_target_def by (intro calm_intros)

lemma senda_target_used:
  assumes "core_ok (core s)"
  shows "wlp (senda_target os c e) (\<lambda>r _. \<forall>d \<in> {d. r = Inr d}. used (view s) d) s"
proof (cases "isokendpt (kprocs (core s)) e")
  case (Some d)
  then have "used (view s) d" using view_names [OF assms] by (simp add: names_def)
  with Some show ?thesis
    by (simp add: senda_target_def isokendpt_f_def may_send_to_def priv_of_def wp_simps split: option.split)
qed (simp add: senda_target_def isokendpt_f_def wp_simps)

lemma calmly_senda [calm_intros]: "calmly U (try_deliver_senda os c a n)" "calmly U (mini_senda os c a n)"
proof -
  have give: "calmly (insert d U) (senda_deliver os c d t)" for d t
    unfolding senda_deliver_def by (intro calm_intros) simp_all
  have result: "calmly V (senda_result os c a i t r v)" for V i t r v
    unfolding senda_result_def by (intro calm_intros)
  have rest: "calmly ({d. r = Inr d} \<union> U) (case r of Inl e \<Rightarrow> senda_result os c a i t e v
    | Inr d \<Rightarrow> bnd (senda_deliver os c d t) (\<lambda>given. if given then senda_result os c a i t OK v else ret (fst v, False)))" for r i t v
    using give by (cases r) (auto intro!: calm_intros result)
  have entry: "calmly U (senda_entry os c a i v)" for i v
    unfolding senda_entry_def Let_def
    by (rule calmly_bnd, rule calm_intros, rule calmly_option, rule calm_intros, intro calmly_if calmly_read(1)
        calmly_bnd_use [OF calmly_senda_target senda_target_used rest])
  have "calmly U (senda_entries os c a is v)" for "is" v
    by (induction "is" arbitrary: v) (auto intro!: calm_intros entry)
  then show "calmly U (try_deliver_senda os c a n)"
    unfolding try_deliver_senda_def by (intro calm_intros)
  then show "calmly U (mini_senda os c a n)"
    unfolding mini_senda_def by (intro calm_intros)
qed

lemma calmly_try_one [calm_intros]: "calmly U (try_one os x d)" "calmly U (try_async os d)"
proof -
  have turn: "calmly U (try_one_turn os x d a n v)" for x a n v
    unfolding try_one_turn_def by (intro calm_intros)
  have end': "calmly U (try_one_end os x d p b b')" for x p b b'
    unfolding try_one_end_def by (intro calm_intros)
  show one: "calmly U (try_one os x d)" for x
    unfolding try_one_def by (intro calm_intros turn end')
  have "calmly U (try_async_from os d ps)" for ps
    by (induction ps) (auto intro!: calm_intros one)
  then show "calmly U (try_async os d)" unfolding try_async_def .
qed

lemma calmly_cancel [calm_intros]: "calmly U (cancel_async os x d)"
  unfolding cancel_async_def cancel_turn_def by (intro calm_intros)

end
