(* ===== verification/Ipc_Inv.thy ===== *)
theory Ipc_Inv
  imports Ipc_Calm
begin

text \<open>
  Sending and receiving keep the invariant: the queues of senders hold the processes that wait to
  send, and nobody waits in a cycle.
\<close>

definition ipc_inv :: "'w ikrn \<Rightarrow> bool" where
  "ipc_inv s \<longleftrightarrow> core_ok (core s) \<and> ipc_ok (view s)"

interpretation callq: linked_list "q_cell d" "set_q_cell d" for d
  by unfold_locales (simp add: q_cell_def set_q_cell_def split: link.split)

lemma q_cell_view: "q_cell d l s = vcell (view s) d l"
  by (simp add: q_cell_def vcell_def split: link.split)

lemma view_set_q_cell: "view (set_q_cell d l p s) = set_vcell d l p (view s)"
  by (auto simp: view_def set_q_cell_def set_vcell_def fun_eq_iff split: link.split)

lemma core_set_q_cell [simp]: "core (set_q_cell d l p s) = core s"
  by (simp add: set_q_cell_def split: link.split)

lemma calm_inv: "calm (view s) (view t) \<Longrightarrow> core_ok (core t) \<Longrightarrow> ipc_inv s \<Longrightarrow> ipc_inv t"
  using calm_ok [of "view s" "view t" "{}"] by (simp add: ipc_inv_def)

section \<open>Sending\<close>

text \<open>A process that is neither sending nor receiving may call.\<close>

definition able :: "iview \<Rightarrow> nat \<Rightarrow> bool" where
  "able v c \<longleftrightarrow> used v c \<and> \<not> sending v c \<and> \<not> receiving v c"

lemma calm_able: "calm v w \<Longrightarrow> able v c \<Longrightarrow> able w c"
  by (auto simp: calm_def able_def)

lemma calmly_send_direct: "calmly {d} (send_direct os c d m flags)"
  unfolding send_direct_def by (intro calm_intros) simp

lemma fill_sendmsg_view: "core_ok (core s) \<Longrightarrow> wlp (fill_sendmsg os c m) (\<lambda>_ t. core_ok (core t) \<and> view t = view s) s"
proof -
  assume "core_ok (core s)"
  moreover have "view (u\<lparr>iprocs := (iprocs u)(c := (iprocs u c)\<lparr>ip_sendmsg := n\<rparr>)\<rparr>) = view u"
    "view (u\<lparr>iprocs := (iprocs u)(c := (iprocs u c)\<lparr>ip_sendmsg := n, ip_misc_flags := f\<rparr>)\<rparr>) = view u" for u :: "'a ikrn" and n f
    by (auto intro!: view_iprocs)
  ultimately show ?thesis
    by (cases m) (auto simp: fill_sendmsg_def copy_msg_from_user_def set_iproc_def set_misc_def wp_simps core_ok_world case_prod_unfold)
qed

text \<open>A process that waits for the caller would have been given the message.\<close>

lemma not_willreceive:
  assumes "core_ok (core s)" and "\<not> WILLRECEIVE (kprocs (core s) d) (iprocs s d) (kp_endpoint (kprocs (core s) c))"
  shows "\<not> ((d, c) \<in> waits (view s) \<and> \<not> sending (view s) d)"
proof
  assume w: "(d, c) \<in> waits (view s) \<and> \<not> sending (view s) d"
  then have "receiving (view s) d" "names (view s) (ip_getfrom_e (iprocs s d)) c"
    using names_none(1) [OF view_ends [OF assms(1)], of c] by (auto simp: waits_def blocked_on_def split: if_splits)
  with w assms(2) show False unfolding WILLRECEIVE_def RTS_ISSET_flags view_flags names_def by auto
qed

lemma join_queue_wlp:
  assumes "chain (vcell (view s) d) xs"
  shows "wlp (join_queue c d) (\<lambda>_ t. t = set_q_cell d (link_at xs) (Some c) s) s"
proof -
  have st: "callq.stored d xs s" using assms by (simp add: q_cell_view)
  have tw: "takeWhile (\<lambda>x. \<not> False) xs = xs" by (simp add: takeWhile_eq_all_conv)
  have "wlp (walk (q_cell d) (\<lambda>_ _. False)) (\<lambda>l t. t = s \<and> l = link_at xs) s"
    using wp_wlp [OF callq.walk_wp [OF st, where stop = "\<lambda>_ _. False"]] unfolding tw .
  then have "wlp (walk (q_cell d) (\<lambda>_ _. False)) (\<lambda>l. wlp (modify (set_q_cell d l (Some c))) (\<lambda>_ t. t = set_q_cell d (link_at xs) (Some c) s)) s"
    by (rule wlp_mono) (simp add: wp_simps)
  then show ?thesis by (simp add: join_queue_def wp_simps)
qed

lemma bits_or:
  "(w OR ipc_bits RTS_SENDING) AND RTS_SENDING \<noteq> 0" "(w OR ipc_bits RTS_SENDING) AND RTS_RECEIVING = w AND RTS_RECEIVING"
  "(w OR ipc_bits RTS_SENDING) AND RTS_SLOT_FREE = w AND RTS_SLOT_FREE"
  "(w OR ipc_bits RTS_RECEIVING) AND RTS_RECEIVING \<noteq> 0" "(w OR ipc_bits RTS_RECEIVING) AND RTS_SENDING = w AND RTS_SENDING"
  "(w OR ipc_bits RTS_RECEIVING) AND RTS_SLOT_FREE = w AND RTS_SLOT_FREE"
  by (simp_all add: ipc_bits_def bit.conj_disj_distrib2 or_eq_0_iff)

lemma send_blocked_inv:
  fixes s :: "'w ikrn"
  assumes i: "ipc_inv s" and c: "able (view s) c" and d: "names (view s) e d" "d \<noteq> c"
    and n: "\<not> WILLRECEIVE (kprocs (core s) d) (iprocs s d) (kp_endpoint (kprocs (core s) c))"
  shows "wlp (send_blocked os c d e m flags) (\<lambda>_ t. ipc_inv t \<and> used (view t) = used (view s) \<and> v_end (view t) = v_end (view s)
    \<and> \<not> receiving (view t) c \<and> (sending (view t) c \<longrightarrow> v_to (view t) c = e)) s"
    (is "wlp _ ?Q s")
proof -
  let ?v = "view s"
  from i have core: "core_ok (core s)" and ok: "ipc_ok ?v" by (simp_all add: ipc_inv_def)
  from ok obtain C where C: "ends_ok ?v" "blocked_ok ?v" "callers {} C ?v" "acyclic (waits ?v)" by (rule ipc_ok_butE)
  have stay: "?Q x s" for x using i c by (simp add: able_def)
  let ?B = "bnd (fill_sendmsg os c m) (\<lambda>ok. if \<not> ok then ret EFAULT else
      andthen (in_krn (RTS_SET (io_krn os) c RTS_SENDING)) (
      andthen (set_iproc c (\<lambda>p. p\<lparr>ip_sendto_e := e\<rparr>)) (andthen (join_queue c d) (ret OK))))"
  have block: "wlp ?B ?Q s"
    if acyc: "(d, c) \<notin> (waits ?v)\<^sup>*"
    unfolding wlp_bnd
  proof (rule wlp_mono [OF fill_sendmsg_view [OF core]], elim conjE)
    fix ok and u :: "'w ikrn"
    assume u: "core_ok (core u)" "view u = ?v"
    have free: "\<not> free_slot (core u) c" using c u(2) unfolding able_def view_flags [symmetric] by (metis view_flags(3))
    have fl: "RTS_SENDING \<noteq> 0" "RTS_SENDING AND RTS_SLOT_FREE = 0" by simp_all
    have "wlp (in_krn (RTS_SET (io_krn os) c RTS_SENDING)) (\<lambda>_. wlp (andthen (set_iproc c (\<lambda>p. p\<lparr>ip_sendto_e := e\<rparr>)) (andthen (join_queue c d) (ret OK))) ?Q) u"
      unfolding wlp_in_krn
    proof (rule wp_wlp [OF wp_mono [OF RTS_SET_view [OF u(1) free fl]]], elim conjE)
      fix t :: "'w krn"
      assume t: "core_ok t" "kview t = with_flags c (\<lambda>g. g OR ipc_bits RTS_SENDING) (kview (core u))"
      let ?u = "u\<lparr>core := t\<rparr>"
      define w where "w = ?u\<lparr>iprocs := (iprocs ?u)(c := (iprocs ?u c)\<lparr>ip_sendto_e := e\<rparr>)\<rparr>"
      let ?t = "set_q_cell d (link_at (C d)) (Some c) w"
      note uf = view_with_flags [OF t(2)]
      have vw: "v_head (view w) = v_head ?v" "v_link (view w) = v_link ?v" "v_end (view w) = v_end ?v" "v_from (view w) = v_from ?v"
        "v_to (view w) = (v_to ?v)(c := e)" "v_bits (view w) = (v_bits ?v)(c := v_bits ?v c OR ipc_bits RTS_SENDING)"
        using uf u(2) by (auto simp: view_def w_def fun_eq_iff)
      have cell: "vcell (view w) d = vcell ?v d" by (rule ext) (simp only: vcell_def vw)
      have f: "sending (view w) y \<longleftrightarrow> sending ?v y \<or> y = c" "receiving (view w) y = receiving ?v y" "used (view w) y = used ?v y" for y
        unfolding sending_def receiving_def used_def vw by (auto simp: bits_or simp del: RTS_SENDING_def RTS_RECEIVING_def RTS_SLOT_FREE_def)
      have "ipc_ok (view ?t)"
        by (rule view_send [OF C _ _ _ d(1) acyc])
          (use c f vw in \<open>simp_all add: able_def view_set_q_cell del: view_fields, simp_all add: set_vcell_def split: link.split\<close>)
      moreover have "core w = t" by (simp add: w_def)
      ultimately have "?Q x ?t" for x using t(1) f vw c by (simp add: ipc_inv_def view_set_q_cell able_def fun_eq_iff del: view_fields)
      then show "wlp (andthen (set_iproc c (\<lambda>p. p\<lparr>ip_sendto_e := e\<rparr>)) (andthen (join_queue c d) (ret OK))) ?Q ?u"
        unfolding wlp_andthen set_iproc_def wlp_modify wlp_ret w_def [symmetric]
        by (intro wlp_mono [OF join_queue_wlp [of w d "C d"]]) (use callersD(1) [OF C(3), of d] cell in simp_all)
    qed
    then show "wlp (if \<not> ok then ret EFAULT else andthen (in_krn (RTS_SET (io_krn os) c RTS_SENDING)) (
      andthen (set_iproc c (\<lambda>p. p\<lparr>ip_sendto_e := e\<rparr>)) (andthen (join_queue c d) (ret OK)))) ?Q u"
      using stay u c by (simp add: wp_simps ipc_inv_def able_def)
  qed
  have "wp (deadlock SEND c e) (\<lambda>r t. t = s
    \<and> (r \<noteq> 0 \<longleftrightarrow> (d, c) \<in> (waits ?v)\<^sup>* \<and> \<not> ((d, c) \<in> waits ?v \<and> matching SEND ?v d))) s"
    by (rule deadlock_wp [OF core ok _ _ d]) (use c in \<open>auto simp: able_def\<close>)
  then have "wlp (deadlock SEND c e) (\<lambda>r t. t = s \<and> (r = 0 \<longrightarrow> (d, c) \<notin> (waits ?v)\<^sup>*)) s"
    by (rule wp_wlp [OF wp_mono]) (use not_willreceive [OF core n] in \<open>auto simp: matching_def\<close>)
  then have "wlp (deadlock SEND c e) (\<lambda>r. wlp (if r \<noteq> 0 then ret (ierr os ELOCKED) else ?B) ?Q) s"
  proof (rule wlp_mono, elim conjE)
    fix r and t :: "'w ikrn"
    assume t: "t = s" "r = 0 \<longrightarrow> (d, c) \<notin> (waits ?v)\<^sup>*"
    show "wlp (if r \<noteq> 0 then ret (ierr os ELOCKED) else ?B) ?Q t"
    proof (cases "r = 0")
      case True
      then show ?thesis using t block by (simp only: simp_thms if_False)
    next
      case False
      then show ?thesis unfolding if_P [OF False] wlp_ret t(1) using stay by blast
    qed
  qed
  then have "wlp (bnd (deadlock SEND c e) (\<lambda>group. if group \<noteq> 0 then ret (ierr os ELOCKED) else ?B)) ?Q s"
    unfolding wlp_bnd .
  with stay show ?thesis
    unfolding send_blocked_def by (cases "flags AND NON_BLOCKING \<noteq> 0") (simp_all only: if_True if_False simp_thms wlp_ret, blast)
qed

text \<open>What the caller may rely on after sending.\<close>

definition sent :: "nat \<Rightarrow> endpoint \<Rightarrow> iview \<Rightarrow> iview \<Rightarrow> bool" where
  "sent c e v w \<longleftrightarrow> used w = used v \<and> v_end w = v_end v \<and> \<not> receiving w c \<and> (sending w c \<longrightarrow> v_to w c = e)"

lemma calm_sent: "calm v w \<Longrightarrow> able v c \<Longrightarrow> sent c e v w"
  by (auto simp: calm_def able_def sent_def)

lemma mini_send_inv:
  fixes s :: "'w ikrn"
  assumes i: "ipc_inv s" and c: "able (view s) c" and d: "names (view s) e d" "d \<noteq> c"
  shows "wlp (mini_send os c e m flags) (\<lambda>_ t. ipc_inv t \<and> sent c e (view s) (view t)) s"
    (is "wlp _ ?Q s")
proof -
  have core: "core_ok (core s)" using i by (simp add: ipc_inv_def)
  have slot: "proc_addr (endpoint_p e) = d" using names_slot [OF view_ends [OF core] d(1)] by blast
  have stay: "?Q x s" for x using i calm_sent [OF calm_refl c] by blast
  have direct: "wlp (send_direct os c d m flags) ?Q s"
  proof (rule wlp_mono [OF calmlyD [OF calmly_send_direct core]])
    fix x and t :: "'w ikrn"
    assume "core_ok (core t) \<and> calm (view s) (view t)"
    then show "ipc_inv t \<and> sent c e (view s) (view t)" using calm_inv [OF _ _ i] calm_sent [OF _ c] by blast
  qed (use d(1) in \<open>simp add: names_def\<close>)
  have "wlp (if WILLRECEIVE (kprocs (core s) d) (iprocs s d) (kp_endpoint (kprocs (core s) c))
      then send_direct os c d m flags else send_blocked os c d e m flags) ?Q s"
    using direct send_blocked_inv [OF i c d] by (simp add: sent_def)
  then show ?thesis
    using stay unfolding mini_send_def Let_def slot wp_simps
    by (cases "RTS_ISSET (kprocs (core s) d) RTS_NO_ENDPOINT") (simp_all only: if_True if_False simp_thms, blast)
qed

end
