(* ===== verification/Ipc_Recv.thy ===== *)
theory Ipc_Recv
  imports Ipc_Inv
begin

text \<open>Receiving keeps the invariant of message passing, and so do the calls as a whole.\<close>

section \<open>Taking a message from the queue\<close>

text \<open>The sender \<open>x\<close> is woken and is still in the queue.\<close>

definition served_one :: "nat \<Rightarrow> iview \<Rightarrow> iview \<Rightarrow> bool" where
  "served_one x v w \<longleftrightarrow> v_end w = v_end v \<and> v_from w = v_from v \<and> v_to w = v_to v \<and> v_head w = v_head v \<and> v_link w = v_link v
     \<and> used w = used v \<and> sending w = (sending v)(x := False) \<and> (\<forall>y. receiving w y \<longrightarrow> receiving v y)"

lemma calm_served: "calm u v \<Longrightarrow> served_one x v w \<Longrightarrow> served_one x u w" "served_one x u v \<Longrightarrow> calm v w \<Longrightarrow> served_one x u w"
  by (auto simp: calm_def served_one_def)

lemma unset_sending:
  fixes s :: "'w ikrn"
  assumes core: "core_ok (core s)" and x: "used (view s) x"
  shows "wlp (in_krn (RTS_UNSET os x RTS_SENDING)) (\<lambda>_ t. core_ok (core t) \<and> served_one x (view s) (view t)) s"
  unfolding wlp_in_krn
proof (rule wp_wlp [OF wp_mono [OF RTS_UNSET_view [OF core]]], use x in \<open>simp add: view_flags(3)\<close>, elim conjE)
  fix t :: "'w krn" assume t: "core_ok t" "kview t = with_flags x (\<lambda>g. g AND NOT RTS_SENDING) (kview (core s))"
  have b: "(w AND NOT RTS_SENDING) AND RTS_SENDING = 0" "(w AND NOT RTS_SENDING) AND RTS_RECEIVING = w AND RTS_RECEIVING"
    "(w AND NOT RTS_SENDING) AND RTS_SLOT_FREE = w AND RTS_SLOT_FREE" for w
    by (simp_all add: and_not_swap and.assoc)
  have "served_one x (view s) (view (s\<lparr>core := t\<rparr>))"
    unfolding served_one_def view_with_flags [OF t(2)] used_def sending_def receiving_def
    by (auto simp: fun_eq_iff b simp del: RTS_SENDING_def RTS_RECEIVING_def RTS_SLOT_FREE_def)
  with t(1) show "core_ok (core (s\<lparr>core := t\<rparr>)) \<and> served_one x (view s) (view (s\<lparr>core := t\<rparr>))" by simp
qed

lemma take_queued_wlp:
  fixes s :: "'w ikrn"
  assumes core: "core_ok (core s)" and x: "used (view s) x"
  shows "wlp (take_queued os c x) (\<lambda>_ t. core_ok (core t) \<and> served_one x (view s) (view t)) s"
proof -
  have before: "calmly {x} (set_iproc c (\<lambda>p. p\<lparr>ip_delivermsg := m\<rparr>))" "calmly {x} (deliver c e)" for m e by (intro calm_intros)+
  have after: "calmly {x} (andthen (IPC_STATUS_ADD_CALL c n) (andthen (if b then
      andthen (IPC_STATUS_ADD_FLAGS c IPC_FLG_MSG_FROM_KERNEL) (unset_misc x MF_SENDING_FROM_KERNEL) else ret ())
      (if b' then sig_delay_done os x else ret ())))" for n b b'
    by (intro calm_intros) simp
  have use: "\<And>y. y \<in> {x} \<Longrightarrow> used (view t) y" if "calm (view s) (view t)" for t using that x by (simp add: calm_def)
  have "wlp (andthen (set_iproc c (\<lambda>p. p\<lparr>ip_delivermsg := m\<rparr>)) (andthen (deliver c e) (andthen (in_krn (RTS_UNSET (io_krn os) x RTS_SENDING))
      (andthen (IPC_STATUS_ADD_CALL c n) (andthen (if b then
      andthen (IPC_STATUS_ADD_FLAGS c IPC_FLG_MSG_FROM_KERNEL) (unset_misc x MF_SENDING_FROM_KERNEL) else ret ())
      (if b' then sig_delay_done os x else ret ()))))))
    (\<lambda>_ t. core_ok (core t) \<and> served_one x (view s) (view t)) s" for m e n b b'
    unfolding wlp_andthen [of "set_iproc c _"] wlp_andthen [of "deliver c e"] wlp_andthen [of "in_krn _"]
  proof (rule wlp_mono [OF calmlyD [OF before(1) core use [OF calm_refl]]], assumption, rule wlp_mono [OF calmlyD [OF before(2)]],
      blast, rule use, blast, assumption, elim conjE)
    fix t u :: "'w ikrn"
    assume t: "calm (view s) (view t)" and u: "core_ok (core u)" "calm (view t) (view u)"
    have su: "calm (view s) (view u)" using t u(2) by (rule calm_trans)
    show "wlp (in_krn (RTS_UNSET (io_krn os) x RTS_SENDING)) (\<lambda>_. wlp (andthen (IPC_STATUS_ADD_CALL c n) (andthen (if b then
      andthen (IPC_STATUS_ADD_FLAGS c IPC_FLG_MSG_FROM_KERNEL) (unset_misc x MF_SENDING_FROM_KERNEL) else ret ())
      (if b' then sig_delay_done os x else ret ()))) (\<lambda>_ t. core_ok (core t) \<and> served_one x (view s) (view t))) u"
    proof (rule wlp_mono [OF unset_sending [OF u(1)]], use use [OF su] in simp, elim conjE)
      fix w :: "'w ikrn" assume w: "core_ok (core w)" "served_one x (view u) (view w)"
      have sw: "served_one x (view s) (view w)" using su w(2) by (rule calm_served(1))
      show "wlp (andthen (IPC_STATUS_ADD_CALL c n) (andthen (if b then
        andthen (IPC_STATUS_ADD_FLAGS c IPC_FLG_MSG_FROM_KERNEL) (unset_misc x MF_SENDING_FROM_KERNEL) else ret ())
        (if b' then sig_delay_done os x else ret ()))) (\<lambda>_ t. core_ok (core t) \<and> served_one x (view s) (view t)) w"
        by (rule wlp_mono [OF calmlyD [OF after w(1)]]) (use sw x calm_served(2) [OF sw] in \<open>auto simp: served_one_def [of x "view s" "view w"]\<close>)
    qed
  qed
  then show ?thesis unfolding take_queued_def wp_simps by blast
qed

lemma set_vcell_ok [simp]: "ends_ok (set_vcell d l p v) = ends_ok v" "blocked_ok (set_vcell d l p v) = blocked_ok v"
  "waits (set_vcell d l p v) = waits v"
  by (simp_all only: ends_ok_def blocked_ok_def waits_def blocked_on_def set_vcell_keeps)

text \<open>The first sender \<open>x\<close> of the queue of \<open>c\<close> that is acceptable leaves it.\<close>

lemma leave_inv:
  assumes v: "ipc_ok v" "callers {} C v" "C c = ys @ x # zs" and w: "served_one x v w"
  shows "ipc_ok (set_vcell c (Next x) None (set_vcell c (link_at ys) (v_link w x) w))"
proof -
  have e: "ends_ok v" using v(1) by (simp add: ipc_ok_but_def)
  have x: "sending v x" "names v (v_to v x) c" using callersD(2) [OF v(2), of x c] v(3) by auto
  have "ipc_ok_but {(x, c)} w"
    by (rule view_mono [OF v(1)]) (use w x names_unique [OF e] in \<open>auto simp: served_one_def split: if_splits\<close>)
  then obtain C' where w': "ends_ok w" "blocked_ok w" "callers {(x, c)} C' w" "acyclic (waits w)" by (rule ipc_ok_butE)
  have "vcell w c = vcell v c" using w by (simp add: vcell_def [abs_def] served_one_def)
  then have "C' c = ys @ x # zs"
    using chain_unique [OF callersD(1) [OF w'(3), of c]] callersD(1) [OF v(2), of c] v(3) by simp
  moreover have "\<not> sending w x" using w by (simp add: served_one_def)
  ultimately have "callers {} (C'(c := ys @ zs)) (set_vcell c (Next x) None (set_vcell c (link_at ys) (v_link w x) w))"
    using callers_leave [OF w'(3,1)] by blast
  then show ?thesis using w' by (auto simp: ipc_ok_but_def)
qed

text \<open>Nobody who waits to send to \<open>c\<close> is acceptable.\<close>

definition no_sender :: "nat option \<Rightarrow> nat \<Rightarrow> iview \<Rightarrow> bool" where
  "no_sender src c v \<longleftrightarrow> (\<forall>x. sending v x \<and> names v (v_to v x) c \<longrightarrow> src \<noteq> None \<and> src \<noteq> Some x)"

definition same_procs :: "iview \<Rightarrow> iview \<Rightarrow> bool" where
  "same_procs v w \<longleftrightarrow> used w = used v \<and> v_end w = v_end v"

lemma receive_queued_inv:
  fixes s :: "'w ikrn"
  assumes i: "ipc_inv s" and c: "able (view s) c"
  shows "wlp (receive_queued os c src) (\<lambda>got t. ipc_inv t \<and> same_procs (view s) (view t) \<and> able (view t) c
    \<and> (got \<or> no_sender src c (view t))) s"
    (is "wlp _ ?Q s")
proof -
  let ?v = "view s" and ?stop = "\<lambda>x. src = None \<or> src = Some x"
  from i have core: "core_ok (core s)" and ok: "ipc_ok ?v" by (simp_all add: ipc_inv_def)
  from ok obtain C where C: "callers {} C ?v" by (rule ipc_ok_butE)
  let ?l = "link_at (takeWhile (\<lambda>x. \<not> ?stop x) (C c))"
  have st: "callq.stored c (C c) s" using callersD(1) [OF C, of c] by (simp add: q_cell_view)
  have walked: "wlp (walk (q_cell c) (\<lambda>x _. ?stop x)) (\<lambda>l t. t = s \<and> l = ?l) s"
    by (rule wp_wlp [OF callq.walk_wp [OF st]])
  have rest: "wlp (case q_cell c ?l s of None \<Rightarrow> ret False | Some x \<Rightarrow>
      andthen (take_queued os c x) (
      andthen (modify (\<lambda>s. set_q_cell c ?l (ip_q_link (iprocs s x)) s)) (
      andthen (set_iproc x (\<lambda>p. p\<lparr>ip_q_link := None\<rparr>)) (ret True)))) ?Q s"
  proof (cases "dropWhile (\<lambda>x. \<not> ?stop x) (C c)")
    case Nil
    then have all: "\<forall>x \<in> set (C c). \<not> ?stop x" by (simp add: dropWhile_eq_Nil_conv)
    then have tw: "takeWhile (\<lambda>x. \<not> ?stop x) (C c) = C c" by (simp add: takeWhile_eq_all_conv)
    have "q_cell c (link_at (C c)) s = None" using chainD [of "vcell ?v c" "C c" "[]"] callersD(1) [OF C, of c] by (simp add: q_cell_view)
    moreover have "no_sender src c ?v" using all callersD(2) [OF C] by (auto simp: no_sender_def)
    ultimately show ?thesis using i c unfolding tw by (simp add: wlp_ret same_procs_def)
  next
    case (Cons x zs)
    define ys where "ys = takeWhile (\<lambda>x. \<not> ?stop x) (C c)"
    have q: "C c = ys @ x # zs" using takeWhile_dropWhile_id [of "\<lambda>x. \<not> ?stop x" "C c"] unfolding Cons ys_def [symmetric] by (rule sym)
    have cell: "q_cell c (link_at ys) s = Some x" using chainD [of "vcell ?v c" ys "x # zs"] callersD(1) [OF C, of c] q by (simp add: q_cell_view)
    have ux: "used ?v x" using callersD(2) [OF C, of x c] q ok by (auto simp: ipc_ok_but_def blocked_ok_def)
    have "wlp (take_queued os c x) (\<lambda>_. wlp (
      andthen (modify (\<lambda>s. set_q_cell c (link_at ys) (ip_q_link (iprocs s x)) s)) (
      andthen (set_iproc x (\<lambda>p. p\<lparr>ip_q_link := None\<rparr>)) (ret True))) ?Q) s"
    proof (rule wlp_mono [OF take_queued_wlp [OF core ux]], elim conjE)
      fix t :: "'w ikrn" assume t: "core_ok (core t)" "served_one x ?v (view t)"
      let ?u = "set_q_cell c (Next x) None (set_q_cell c (link_at ys) (ip_q_link (iprocs t x)) t)"
      have view: "view ?u = set_vcell c (Next x) None (set_vcell c (link_at ys) (v_link (view t) x) (view t))"
        by (simp add: view_set_q_cell)
      have "ipc_inv ?u" using leave_inv [OF ok C q t(2)] t(1) by (simp add: ipc_inv_def view)
      moreover have "same_procs ?v (view ?u)" "able (view ?u) c"
        using t(2) c by (auto simp: view same_procs_def able_def served_one_def)
      ultimately have "?Q True ?u" by blast
      then show "wlp (andthen (modify (\<lambda>s. set_q_cell c (link_at ys) (ip_q_link (iprocs s x)) s)) (
        andthen (set_iproc x (\<lambda>p. p\<lparr>ip_q_link := None\<rparr>)) (ret True))) ?Q t"
        by (simp add: wp_simps set_iproc_def set_q_cell_def)
    qed
    then show ?thesis unfolding ys_def [symmetric] cell by (simp add: wlp_andthen)
  qed
  show ?thesis unfolding receive_queued_def wlp_bnd
  proof (rule wlp_mono [OF walked], elim conjE)
    fix l and t :: "'w ikrn" assume "t = s" "l = ?l"
    with rest show "wlp (gets (q_cell c l)) (\<lambda>x. wlp (case x of None \<Rightarrow> ret False | Some x \<Rightarrow>
      andthen (take_queued os c x) (
      andthen (modify (\<lambda>s. set_q_cell c l (ip_q_link (iprocs s x)) s)) (
      andthen (set_iproc x (\<lambda>p. p\<lparr>ip_q_link := None\<rparr>)) (ret True)))) ?Q) t"
      by (simp only: wlp_gets)
  qed
qed

section \<open>Receiving\<close>

lemma same_procs_names: "same_procs v w \<Longrightarrow> names w = names v"
  by (simp add: same_procs_def names_def fun_eq_iff)

lemma same_procs_trans: "same_procs u v \<Longrightarrow> same_procs v w \<Longrightarrow> same_procs u w"
  by (simp add: same_procs_def)

lemma calm_same: "calm v w \<Longrightarrow> same_procs v w"
  by (simp add: calm_def same_procs_def)

lemma calm_step:
  assumes "calmly {} m" and "ipc_inv s" and "able (view s) c"
  shows "wlp m (\<lambda>_ t. ipc_inv t \<and> same_procs (view s) (view t) \<and> able (view t) c) s"
proof (rule wlp_mono [OF calmlyD [OF assms(1)]])
  fix x t assume "core_ok (core t) \<and> calm (view s) (view t)"
  then show "ipc_inv t \<and> same_procs (view s) (view t) \<and> able (view t) c"
    using calm_inv [OF _ _ assms(2)] calm_same calm_able [OF _ assms(3)] by blast
qed (use assms(2) in \<open>simp_all add: ipc_inv_def\<close>)

text \<open>One attempt after another, as long as none had a message.\<close>

lemma attempt_inv:
  fixes m n :: "('w, bool) iprog"
  assumes m: "calmly {} m" and i: "ipc_inv s" and c: "able (view s) c"
    and n: "\<And>t. ipc_inv t \<Longrightarrow> able (view t) c \<Longrightarrow> wlp n (\<lambda>got u. ipc_inv u \<and> same_procs (view t) (view u) \<and> able (view u) c
      \<and> (got \<or> no_sender src c (view u))) t"
  shows "wlp (bnd m (\<lambda>got. if got then ret True else n)) (\<lambda>got t. ipc_inv t \<and> same_procs (view s) (view t) \<and> able (view t) c
    \<and> (got \<or> no_sender src c (view t))) s"
    (is "wlp _ ?Q s")
  unfolding wlp_bnd
proof (rule wlp_mono [OF calm_step [OF m i c]])
  fix got and t :: "'w ikrn"
  assume t: "ipc_inv t \<and> same_procs (view s) (view t) \<and> able (view t) c"
  show "wlp (if got then ret True else n) ?Q t"
  proof (cases got)
    case True
    with t show ?thesis by (simp add: wlp_ret)
  next
    case False
    have "wlp n ?Q t" by (rule wlp_mono [OF n]) (use t same_procs_trans in blast)+
    with False show ?thesis by simp
  qed
qed

lemma receive_message_inv:
  fixes s :: "'w ikrn"
  assumes i: "ipc_inv s" and c: "able (view s) c"
  shows "wlp (receive_message os c e src) (\<lambda>got t. ipc_inv t \<and> same_procs (view s) (view t) \<and> able (view t) c
    \<and> (got \<or> no_sender src c (view t))) s"
proof -
  have notify: "calmly {} (if b then receive_notify os c e src else ret False)" for b
    unfolding receive_notify_def by (intro calm_intros)
  have async: "calmly {} (receive_async os c src)"
    unfolding receive_async_def by (intro calm_intros)
  show ?thesis unfolding receive_message_def wlp_bnd [of "iproc_of c"] wp_iproc_of
    by (rule attempt_inv [OF notify i c], rule attempt_inv [OF async], assumption+, rule receive_queued_inv)
qed

lemma receive_block_inv:
  fixes s :: "'w ikrn"
  assumes i: "ipc_inv s" and c: "used (view s) c" "\<not> receiving (view s) c" "sending (view s) c \<Longrightarrow> v_to (view s) c = e"
    and e: "e = ANY \<or> (\<exists>y. names (view s) e y \<and> y \<noteq> c \<and> (sending (view s) c \<or> no_sender (Some y) c (view s)))"
  shows "wlp (receive_block os c e flags) (\<lambda>_. ipc_inv) s"
proof -
  let ?v = "view s"
  from i have core: "core_ok (core s)" and ok: "ipc_ok ?v" by (simp_all add: ipc_inv_def)
  let ?free = "e = ANY \<or> (\<exists>y. names ?v e y \<and> (sending ?v c \<or> (y, c) \<notin> (waits ?v)\<^sup>*))"
  have check: "wlp (deadlock RECEIVE c e) (\<lambda>r t. t = s \<and> (r = 0 \<longrightarrow> ?free)) s"
  proof (cases "e = ANY")
    case True
    then show ?thesis using wp_wlp [OF wp_mono [OF deadlock_any [of RECEIVE c s]]] by simp
  next
    case False
    with e obtain y where y: "names ?v e y" "y \<noteq> c" "sending ?v c \<or> no_sender (Some y) c ?v" by blast
    have "\<not> ((y, c) \<in> waits ?v \<and> sending ?v y)" if "no_sender (Some y) c ?v"
      using that by (auto simp: no_sender_def waits_def blocked_on_def)
    with y show ?thesis
      by (intro wp_wlp [OF wp_mono [OF deadlock_wp [OF core ok _ c(1) y(1,2)]]]) (auto simp: matching_def)
  qed
  have block: "wlp (andthen (set_iproc c (\<lambda>p. p\<lparr>ip_getfrom_e := e\<rparr>)) (andthen (in_krn (RTS_SET (io_krn os) c RTS_RECEIVING)) (ret OK))) (\<lambda>_. ipc_inv) s"
    if free: ?free
  proof -
    define u where "u = s\<lparr>iprocs := (iprocs s)(c := (iprocs s c)\<lparr>ip_getfrom_e := e\<rparr>)\<rparr>"
    have cu: "core u = core s" by (simp add: u_def)
    have fl: "RTS_RECEIVING \<noteq> 0" "RTS_RECEIVING AND RTS_SLOT_FREE = 0" by simp_all
    have nf: "\<not> free_slot (core s) c" using c(1) unfolding view_flags by blast
    have "wlp (in_krn (RTS_SET (io_krn os) c RTS_RECEIVING)) (\<lambda>_. ipc_inv) u"
      unfolding wlp_in_krn cu
    proof (rule wp_wlp [OF wp_mono [OF RTS_SET_view [OF core nf fl]]], elim conjE)
      fix t :: "'w krn"
      assume t: "core_ok t" "kview t = with_flags c (\<lambda>g. g OR ipc_bits RTS_RECEIVING) (kview (core s))"
      define w where "w = view (u\<lparr>core := t\<rparr>)"
      have vw: "v_head w = v_head ?v" "v_link w = v_link ?v" "v_end w = v_end ?v" "v_from w = (v_from ?v)(c := e)"
        "v_to w = v_to ?v" "v_bits w = (v_bits ?v)(c := v_bits ?v c OR ipc_bits RTS_RECEIVING)"
        using view_with_flags [OF t(2)] by (auto simp: w_def u_def view_def fun_eq_iff)
      have f: "sending w y = sending ?v y" "receiving w y \<longleftrightarrow> receiving ?v y \<or> y = c" "used w y = used ?v y" for y
        unfolding sending_def receiving_def used_def vw by (auto simp: bits_or simp del: RTS_SENDING_def RTS_RECEIVING_def RTS_SLOT_FREE_def)
      have "ipc_ok w" by (rule view_receive [OF ok c free vw(1-5) f])
      with t(1) show "ipc_inv (u\<lparr>core := t\<rparr>)" by (simp add: ipc_inv_def w_def)
    qed
    then show ?thesis unfolding wlp_andthen set_iproc_def wlp_modify wlp_ret u_def .
  qed
  have "wlp (bnd (deadlock RECEIVE c e) (\<lambda>group. if group \<noteq> 0 then ret (ierr os ELOCKED) else
    andthen (set_iproc c (\<lambda>p. p\<lparr>ip_getfrom_e := e\<rparr>)) (andthen (in_krn (RTS_SET (io_krn os) c RTS_RECEIVING)) (ret OK)))) (\<lambda>_. ipc_inv) s"
    unfolding wlp_bnd
  proof (rule wlp_mono [OF check], elim conjE)
    fix r and t :: "'w ikrn" assume t: "t = s" "r = 0 \<longrightarrow> ?free"
    show "wlp (if r \<noteq> 0 then ret (ierr os ELOCKED) else
      andthen (set_iproc c (\<lambda>p. p\<lparr>ip_getfrom_e := e\<rparr>)) (andthen (in_krn (RTS_SET (io_krn os) c RTS_RECEIVING)) (ret OK))) (\<lambda>_. ipc_inv) t"
      using t block i by (cases "r = 0") (simp_all only: wlp_ret simp_thms if_True if_False)
  qed
  with i show ?thesis
    unfolding receive_block_def by (cases "flags AND NON_BLOCKING = 0") (simp_all only: if_True if_False simp_thms wlp_ret)
qed

lemma mini_receive_inv:
  fixes s :: "'w ikrn"
  assumes i: "ipc_inv s" and c: "used (view s) c" "\<not> receiving (view s) c" "sending (view s) c \<Longrightarrow> v_to (view s) c = e"
    and e: "e = ANY \<or> (\<exists>y. names (view s) e y \<and> y \<noteq> c)"
  shows "wlp (mini_receive os c e buf flags) (\<lambda>_. ipc_inv) s"
proof -
  define u where "u = s\<lparr>iprocs := (iprocs s)(c := (iprocs s c)\<lparr>ip_delivermsg_vir := buf\<rparr>)\<rparr>"
  have vu: "view u = view s" unfolding u_def by (rule view_iprocs) auto
  have cu: "core u = core s" by (simp add: u_def)
  have iu: "ipc_inv u" using i vu cu by (simp add: ipc_inv_def)
  have core: "core_ok (core s)" using i by (simp add: ipc_inv_def)
  have from': "wlp (receive_from os c e src flags) (\<lambda>_. ipc_inv) u"
    if src: "(e = ANY \<and> src = None) \<or> (\<exists>y. names (view s) e y \<and> y \<noteq> c \<and> src = Some y)" for src
  proof (cases "RTS_ISSET (kprocs (core u) c) RTS_SENDING")
    case True
    then have "sending (view s) c" unfolding cu RTS_ISSET_flags view_flags .
    then have "wlp (receive_block os c e flags) (\<lambda>_. ipc_inv) u"
      by (intro receive_block_inv [OF iu]) (use c src vu in auto)
    with True show ?thesis unfolding receive_from_def wp_simps by simp
  next
    case False
    then have a: "able (view u) c" using c(1,2) unfolding vu able_def cu RTS_ISSET_flags view_flags by blast
    have "wlp (receive_message os c e src) (\<lambda>got. wlp (if got then andthen (unset_misc c MF_REPLY_PEND) (ret OK)
      else receive_block os c e flags) (\<lambda>_. ipc_inv)) u"
    proof (rule wlp_mono [OF receive_message_inv [OF iu a]], elim conjE)
      fix got and t :: "'w ikrn"
      assume t: "ipc_inv t" "same_procs (view u) (view t)" "able (view t) c" "got \<or> no_sender src c (view t)"
      have done': "wlp (andthen (unset_misc c MF_REPLY_PEND) (ret OK)) (\<lambda>_. ipc_inv) t"
        by (rule wlp_mono [OF calm_step [OF _ t(1,3)]]) (intro calm_intros, blast)
      have "wlp (receive_block os c e flags) (\<lambda>_. ipc_inv) t" if "no_sender src c (view t)"
        by (rule receive_block_inv [OF t(1)])
          (use t(3) that src same_procs_names [OF t(2)] vu in \<open>auto simp: able_def\<close>)
      with done' t(4) show "wlp (if got then andthen (unset_misc c MF_REPLY_PEND) (ret OK) else receive_block os c e flags) (\<lambda>_. ipc_inv) t"
        by (cases got) simp_all
    qed
    with False show ?thesis unfolding receive_from_def wlp_bnd wp_kproc_of by simp
  qed
  have any: "\<not> names (view s) ANY y" for y using names_none(2) [OF view_ends [OF core]] by blast
  have "wlp (if e = ANY then receive_from os c e None flags else bnd (okendpt e) (\<lambda>x. bnd (kproc_of x) (\<lambda>k.
      if RTS_ISSET k RTS_NO_ENDPOINT then ret (ierr os EDEADSRCDST) else receive_from os c e (Some x) flags))) (\<lambda>_. ipc_inv) u"
  proof (cases "e = ANY")
    case True
    then show ?thesis using from' [of None] by simp
  next
    case False
    have "wlp (receive_from os c e (Some x) flags) (\<lambda>_. ipc_inv) u" if "isokendpt (kprocs (core u)) e = Some x" for x
      using from' [of "Some x"] that view_names [OF core, of e x] cu e False names_unique [OF view_ends [OF core]] by auto
    with False iu show ?thesis by (simp add: wlp_bnd wlp_okendpt wp_simps)
  qed
  then show ?thesis
    unfolding mini_receive_def wlp_bnd [of "iproc_of c"] wp_iproc_of wlp_andthen wlp_check set_iproc_def wlp_modify u_def by blast
qed

end
