(* ===== verification/Ipc_Run.thy ===== *)
theory Ipc_Run
  imports Ipc_Recv
begin

text \<open>
  The calls of message passing as a whole, and the runs of the kernel that they make up: in every
  state of a run the queues of senders are in order and nobody waits in a cycle.
\<close>

section \<open>Calls\<close>

text \<open>The process that is named by \<open>e\<close> is not the caller.\<close>

definition other :: "iview \<Rightarrow> nat \<Rightarrow> endpoint \<Rightarrow> bool" where
  "other v c e \<longleftrightarrow> (\<exists>y. names v e y \<and> y \<noteq> c)"

lemma other_same: "same_procs v w \<Longrightarrow> other w c e = other v c e"
  by (simp add: other_def same_procs_names)

lemma sendrec_inv:
  fixes s :: "'w ikrn"
  assumes i: "ipc_inv s" and c: "able (view s) c" and e: "other (view s) c e"
  shows "wlp (bnd (mini_send os c e m 0) (\<lambda>result. if result \<noteq> OK then ret result else mini_receive os c e buf 0)) (\<lambda>_. ipc_inv) s"
proof -
  from e obtain y where y: "names (view s) e y" "y \<noteq> c" by (auto simp: other_def)
  show ?thesis unfolding wlp_bnd
  proof (rule wlp_mono [OF mini_send_inv [OF i c y]])
    fix result and t :: "'w ikrn"
    assume t: "ipc_inv t \<and> sent c e (view s) (view t)"
    have "wlp (mini_receive os c e buf 0) (\<lambda>_. ipc_inv) t"
      by (rule mini_receive_inv) (use t c y in \<open>auto simp: sent_def able_def names_def\<close>)
    with t show "wlp (if result \<noteq> OK then ret result else mini_receive os c e buf 0) (\<lambda>_. ipc_inv) t"
      by (simp add: wlp_ret)
  qed
qed

lemma sync_call_inv:
  fixes s :: "'w ikrn"
  assumes i: "ipc_inv s" and c: "able (view s) c" and e: "call_nr = RECEIVE \<and> e = ANY \<or> other (view s) c e"
  shows "wlp (sync_call os c call_nr e buf) (\<lambda>_. ipc_inv) s"
proof -
  have core: "core_ok (core s)" using i by (simp add: ipc_inv_def)
  consider (sendrec) "call_nr = SENDREC" | (send) "call_nr = SEND" | (receive) "call_nr = RECEIVE" | (notify) "call_nr = NOTIFY"
    | (sendnb) "call_nr = SENDNB" | (bad) "call_nr \<notin> {SENDREC, SEND, RECEIVE, NOTIFY, SENDNB}" by blast
  then show ?thesis
  proof cases
    case sendrec
    then have o: "other (view s) c e" using e by simp
    have "wlp (set_misc c MF_REPLY_PEND) (\<lambda>_. wlp (bnd (mini_send os c e (From_User buf) 0) (\<lambda>result.
      if result \<noteq> OK then ret result else mini_receive os c e buf 0)) (\<lambda>_. ipc_inv)) s"
      by (rule wlp_mono [OF calm_step [OF _ i c]], intro calm_intros, rule sendrec_inv) (use o other_same in blast)+
    with sendrec show ?thesis unfolding sync_call_def by (simp only: if_True simp_thms wlp_andthen)
  next
    case send
    then obtain y where y: "names (view s) e y" "y \<noteq> c" using e by (auto simp: other_def)
    have "wlp (mini_send os c e (From_User buf) 0) (\<lambda>_. ipc_inv) s" by (rule wlp_mono [OF mini_send_inv [OF i c y]]) blast
    with send show ?thesis by (simp add: sync_call_def)
  next
    case sendnb
    then obtain y where y: "names (view s) e y" "y \<noteq> c" using e by (auto simp: other_def)
    have "wlp (mini_send os c e (From_User buf) NON_BLOCKING) (\<lambda>_. ipc_inv) s" by (rule wlp_mono [OF mini_send_inv [OF i c y]]) blast
    with sendnb show ?thesis by (simp add: sync_call_def)
  next
    case receive
    have calm: "calmly {} (set_iproc c (\<lambda>p. p\<lparr>ip_misc_flags := ip_misc_flags p AND NOT MF_REPLY_PEND, ip_status := 0\<rparr>))"
      by (rule calmly_set_iproc) simp_all
    have "wlp (mini_receive os c e buf 0) (\<lambda>_. ipc_inv) t" if t: "ipc_inv t" "same_procs (view s) (view t)" "able (view t) c" for t
      by (rule mini_receive_inv [OF t(1)]) (use t(3) e other_same [OF t(2)] in \<open>auto simp: able_def other_def\<close>)
    then have "wlp (set_iproc c (\<lambda>p. p\<lparr>ip_misc_flags := ip_misc_flags p AND NOT MF_REPLY_PEND, ip_status := 0\<rparr>))
      (\<lambda>_. wlp (mini_receive os c e buf 0) (\<lambda>_. ipc_inv)) s"
      by (intro wlp_mono [OF calm_step [OF calm i c]]) blast
    with receive show ?thesis by (simp add: sync_call_def wlp_andthen)
  next
    case notify
    have "wlp (mini_notify os c e) (\<lambda>_. ipc_inv) s" by (rule wlp_mono [OF calm_step [OF calmly_notify i c]]) blast
    with notify show ?thesis by (simp add: sync_call_def)
  next
    case bad
    with i show ?thesis by (simp add: sync_call_def wlp_ret)
  qed
qed

text \<open>A source or destination that passes the checks is any process, for receiving, or one that exists.\<close>

lemma sync_target_wlp:
  assumes core: "core_ok (core s)"
  shows "wlp (sync_target os c call_nr e) (\<lambda>r t. t = s \<and> (\<forall>target. r = Inr target \<longrightarrow> call_nr = RECEIVE \<and> e = ANY \<or> (\<exists>y. names (view s) e y))) s"
proof (cases "isokendpt (kprocs (core s)) e")
  case None
  then show ?thesis by (simp add: sync_target_def isokendpt_f_def wp_simps)
next
  case (Some x)
  then have "\<exists>y. names (view s) e y" using view_names [OF core, of e x] by auto
  with Some show ?thesis
    by (auto simp: sync_target_def isokendpt_f_def may_send_to_def priv_of_def wp_simps split: option.split)
qed

lemma do_sync_ipc_inv:
  fixes s :: "'w ikrn"
  assumes i: "ipc_inv s" and c: "able (view s) c" and e: "e \<noteq> v_end (view s) c"
  shows "wlp (do_sync_ipc os c call_nr e buf) (\<lambda>_. ipc_inv) s"
proof -
  have core: "core_ok (core s)" using i by (simp add: ipc_inv_def)
  have call: "wlp (sync_call os c call_nr e buf) (\<lambda>_. ipc_inv) s" if "call_nr = RECEIVE \<and> e = ANY \<or> (\<exists>y. names (view s) e y)"
    by (rule sync_call_inv [OF i c]) (use that e in \<open>auto simp: other_def names_def\<close>)
  let ?K = "\<lambda>r. case r of Inl result \<Rightarrow> ret result | Inr target \<Rightarrow>
      bnd (priv_of c) (\<lambda>i. bnd (gets (\<lambda>s. s_trap_mask (privs s i))) (\<lambda>mask'.
      if \<not> bit mask' call_nr then ret (ierr os ETRAPDENIED)
      else if call_nr \<noteq> SENDREC \<and> call_nr \<noteq> RECEIVE \<and> (case target of None \<Rightarrow> False | Some x \<Rightarrow> iskerneln (p_nr x))
      then ret (ierr os ETRAPDENIED) else sync_call os c call_nr e buf))"
  have "wlp (sync_target os c call_nr e) (\<lambda>r. wlp (?K r) (\<lambda>_. ipc_inv)) s"
  proof (rule wlp_mono [OF sync_target_wlp [OF core]], elim conjE)
    fix r :: "int + nat option" and t :: "'w ikrn"
    assume t: "t = s" "\<forall>target. r = Inr target \<longrightarrow> call_nr = RECEIVE \<and> e = ANY \<or> (\<exists>y. names (view s) e y)"
    show "wlp (?K r) (\<lambda>_. ipc_inv) t"
    proof (cases r)
      case (Inl a)
      then show ?thesis using i t(1) by (simp add: wlp_ret)
    next
      case (Inr target)
      then have "wlp (sync_call os c call_nr e buf) (\<lambda>_. ipc_inv) s" using t(2) call by blast
      then show ?thesis unfolding Inr t(1) using i by (auto simp: priv_of_def wp_simps split: option.split)
    qed
  qed
  then show ?thesis unfolding do_sync_ipc_def using i
    by (cases "call_nr > IPCNO_HIGHEST \<or> \<not> ipc_call_names call_nr")
      (simp_all only: wlp_andthen wlp_check wlp_bnd [of "sync_target os c call_nr e"] wlp_ret if_True if_False simp_thms)
qed

section \<open>Traps\<close>

lemma krn_inv_account:
  assumes "krn_inv k" and "\<And>p. kp_rts_flags (f p) = kp_rts_flags p" "\<And>p. kp_priority (f p) = kp_priority p" "\<And>p. kp_nextready (f p) = kp_nextready p"
  shows "krn_inv (k\<lparr>kprocs := (kprocs k)(c := f (kprocs k c))\<rparr>)"
proof -
  let ?t = "k\<lparr>kprocs := (kprocs k)(c := f (kprocs k c))\<rparr>"
  from assms(1) obtain Q x where r: "ready Q k" "\<forall>x. fine x (kcores k x)" "proc_ptr k = Some x" by (rule krn_invE)
  have "run_cell q l ?t = run_cell q l k" for q l by (cases l) (simp_all add: run_cell_def assms)
  then have "ready Q ?t" using r(1) by (simp add: ready_but_def queues_def queue_of_def proc_is_runnable_def assms)
  moreover have "fine x (kcores ?t x)" for x
    using r(2) unfolding fine_kcore by (simp add: fine_def stopped_def in_range_def queue_of_def assms)
  ultimately show ?thesis using r(3) by (auto intro: krn_invI)
qed

lemma calmly_account:
  fixes f :: "kproc \<Rightarrow> kproc"
  assumes f: "\<And>p. kp_rts_flags (f p) = kp_rts_flags p" "\<And>p. kp_priority (f p) = kp_priority p" "\<And>p. kp_nextready (f p) = kp_nextready p"
    "\<And>p. kp_endpoint (f p) = kp_endpoint p"
  shows "calmly U (in_krn (set_kproc c f))"
proof (rule calmlyI)
  fix s :: "'w ikrn"
  assume s: "core_ok (core s)"
  let ?k = "(core s)\<lparr>kprocs := (kprocs (core s))(c := f (kprocs (core s) c))\<rparr>"
  have "core_ok ?k"
    by (rule core_ok_step [OF s krn_inv_account [OF core_okD(1) [OF s] f(1-3)]]) (auto simp: kvars_def free_slot_def f)
  moreover have "kview ?k = kview (core s)" by (simp add: kview_def fun_eq_iff f)
  then have "view (s\<lparr>core := ?k\<rparr>) = view s" by (simp add: view_def)
  ultimately show "wlp (in_krn (set_kproc c f)) (\<lambda>_ t. core_ok (core t) \<and> calm (view s) (view t)) s"
    by (simp add: wp_simps set_kproc_def)
qed

lemma calm_step_used:
  assumes "calmly {c} m" and "ipc_inv s" and "able (view s) c"
  shows "wlp m (\<lambda>_ t. ipc_inv t \<and> same_procs (view s) (view t) \<and> able (view t) c) s"
proof (rule wlp_mono [OF calmlyD [OF assms(1)]])
  fix x t assume "core_ok (core t) \<and> calm (view s) (view t)"
  then show "ipc_inv t \<and> same_procs (view s) (view t) \<and> able (view t) c"
    using calm_inv [OF _ _ assms(2)] calm_same calm_able [OF _ assms(3)] by blast
qed (use assms(2,3) in \<open>simp_all add: ipc_inv_def able_def\<close>)

lemma calmly_trace: "calmly {c} (trace_call os c args)"
  unfolding trace_call_def by (intro calm_intros calmly_set_iproc) simp_all

lemma ipc_switch_inv:
  fixes s :: "'w ikrn"
  assumes i: "ipc_inv s" and c: "able (view s) c" and e: "r2 \<noteq> v_end (view s) c"
  shows "wlp (ipc_switch os c call_nr r2 r3) (\<lambda>_. ipc_inv) s"
proof -
  have sync: "calmly {} (in_krn (set_kproc c (\<lambda>p. p\<lparr>kp_ipc_sync := kp_ipc_sync p + 1\<rparr>)))" by (rule calmly_account) simp_all
  have async: "calmly {} (in_krn (set_kproc c (\<lambda>p. p\<lparr>kp_ipc_async := kp_ipc_async p + 1\<rparr>)))" by (rule calmly_account) simp_all
  have "calmly {} (andthen (in_krn (set_kproc c (\<lambda>p. p\<lparr>kp_ipc_async := kp_ipc_async p + 1\<rparr>))) (
    if unat r2 > 16 * (NR_TASKS + NR_PROCS) then ret (ierr os EDOM) else mini_senda os c r3 r2))" (is "calmly {} ?S")
    by (intro calm_intros async)
  from calm_step [OF this i c] have senda: "wlp ?S (\<lambda>_. ipc_inv) s" by (rule wlp_mono) blast
  have "calmly {} (bnd (gets minix_kerninfo_user) (\<lambda>info. if info = 0 then ret (ierr os EBADCALL)
    else andthen (set_iproc c (\<lambda>p. p\<lparr>ip_bx := info\<rparr>)) (ret OK)))" (is "calmly {} ?I")
    by (intro calm_intros calmly_set_iproc) simp_all
  from calm_step [OF this i c] have info: "wlp ?I (\<lambda>_. ipc_inv) s" by (rule wlp_mono) blast
  have "wlp (in_krn (set_kproc c (\<lambda>p. p\<lparr>kp_ipc_sync := kp_ipc_sync p + 1\<rparr>))) (\<lambda>_. wlp (do_sync_ipc os c call_nr r2 r3) (\<lambda>_. ipc_inv)) s"
    by (rule wlp_mono [OF calm_step [OF sync i c]]) (rule do_sync_ipc_inv, use e in \<open>auto simp: same_procs_def\<close>)
  then have "wlp (andthen (in_krn (set_kproc c (\<lambda>p. p\<lparr>kp_ipc_sync := kp_ipc_sync p + 1\<rparr>))) (do_sync_ipc os c call_nr r2 r3)) (\<lambda>_. ipc_inv) s"
    unfolding wlp_andthen .
  with senda info i show ?thesis unfolding ipc_switch_def
    by (cases "call_nr \<in> set [SENDREC, SEND, RECEIVE, NOTIFY, SENDNB]"; cases "call_nr = SENDA"; cases "call_nr = MINIX_KERNINFO")
      (simp_all only: if_True if_False simp_thms wlp_ret)
qed

lemma runnable_able:
  assumes "ipc_inv s" and "proc_is_runnable (kprocs (core s) c)"
  shows "able (view s) c"
proof -
  have "krn_inv (core s)" using assms(1) by (simp add: ipc_inv_def core_ok_def)
  from krn_inv_in_table [OF this] have "c < NR_TASKS + NR_PROCS" using assms(2) by (auto simp: in_table_def)
  with assms(2) show ?thesis unfolding able_def view_flags free_slot_def by (simp add: proc_is_runnable_def)
qed

lemma do_ipc_inv:
  fixes s :: "'w ikrn"
  assumes i: "ipc_inv s" and c: "proc_ptr (core s) = Some c" "proc_is_runnable (kprocs (core s) c)" and e: "r2 \<noteq> kp_endpoint (kprocs (core s) c)"
  shows "wlp (do_ipc os r1 r2 r3) (\<lambda>_. ipc_inv) s"
proof -
  define u where "u = s\<lparr>kbill_ipc := Some c\<rparr>"
  have u: "view u = view s" "core u = core s" "ipc_inv u" using i by (simp_all add: u_def ipc_inv_def)
  have a: "able (view u) c" using runnable_able [OF i c(2)] u(1) by simp
  have "wlp (trace_call os c (r1, r2, r3)) (\<lambda>stopped. wlp (bnd (iproc_of c) (\<lambda>ci. if stopped then ret (ip_retreg ci)
      else andthen (check Panic (ip_misc_flags ci AND MF_DELIVERMSG = 0)) (ipc_switch os c (unat r1) r2 r3))) (\<lambda>_. ipc_inv)) u"
  proof (rule wlp_mono [OF calm_step_used [OF calmly_trace u(3) a]])
    fix stopped and t :: "'w ikrn" assume t: "ipc_inv t \<and> same_procs (view u) (view t) \<and> able (view t) c"
    have "v_end (view t) c = kp_endpoint (kprocs (core s) c)" using t u(1) view_flags(4) [of s c] by (simp add: same_procs_def)
    then have "wlp (ipc_switch os c (unat r1) r2 r3) (\<lambda>_. ipc_inv) t" by (intro ipc_switch_inv) (use t e in auto)
    then show "wlp (bnd (iproc_of c) (\<lambda>ci. if stopped then ret (ip_retreg ci)
      else andthen (check Panic (ip_misc_flags ci AND MF_DELIVERMSG = 0)) (ipc_switch os c (unat r1) r2 r3))) (\<lambda>_. ipc_inv) t"
      using t by (cases stopped) (simp_all add: wp_simps)
  qed
  then show ?thesis using c(1) by (simp add: do_ipc_def wp_simps u_def)
qed

section \<open>Runs\<close>

text \<open>
  At the start nobody waits. Then processes trap into the kernel, each while it is the current
  process and runnable, and never to itself; kernel tasks send notifications; signals are caused.
  The rest of the kernel sets and clears the other flags, gives the processor to a runnable process
  and copies delivered messages.
\<close>

definition quiet :: "'w ikrn \<Rightarrow> bool" where
  "quiet s \<longleftrightarrow> core_ok (core s)
     \<and> (\<forall>x. kp_rts_flags (kprocs (core s) x) AND (RTS_SENDING OR RTS_RECEIVING) = 0 \<and> ip_caller_q (iprocs s x) = None \<and> ip_q_link (iprocs s x) = None)"

definition other_flags :: "u32 \<Rightarrow> bool" where
  "other_flags f \<longleftrightarrow> f \<noteq> 0 \<and> f AND (RTS_SLOT_FREE OR RTS_SENDING OR RTS_RECEIVING) = 0"

inductive ipc_run :: "'w ipc_os \<Rightarrow> 'w ikrn \<Rightarrow> bool" for os where
  start: "quiet s \<Longrightarrow> ipc_run os s"
| trap: "ipc_run os s \<Longrightarrow> proc_ptr (core s) = Some c \<Longrightarrow> proc_is_runnable (kprocs (core s) c) \<Longrightarrow> r2 \<noteq> kp_endpoint (kprocs (core s) c) \<Longrightarrow>
    do_ipc os r1 r2 r3 s = Some (Inr (r, t)) \<Longrightarrow> ipc_run os t"
| notify: "ipc_run os s \<Longrightarrow> mini_notify os x e s = Some (Inr (r, t)) \<Longrightarrow> ipc_run os t"
| signal: "ipc_run os s \<Longrightarrow> in_use (core s) x \<Longrightarrow> cause_sig os x n s = Some (Inr (r, t)) \<Longrightarrow> ipc_run os t"
| block: "ipc_run os s \<Longrightarrow> in_use (core s) x \<Longrightarrow> other_flags f \<Longrightarrow> in_krn (RTS_SET (io_krn os) x f) s = Some (Inr (r, t)) \<Longrightarrow> ipc_run os t"
| wake: "ipc_run os s \<Longrightarrow> in_use (core s) x \<Longrightarrow> other_flags f \<Longrightarrow> in_krn (RTS_UNSET (io_krn os) x f) s = Some (Inr (r, t)) \<Longrightarrow> ipc_run os t"
| switch: "ipc_run os s \<Longrightarrow> proc_is_runnable (kprocs (core s) x) \<Longrightarrow> ipc_run os (s\<lparr>core := (core s)\<lparr>proc_ptr := Some x\<rparr>\<rparr>)"
| copied: "ipc_run os s \<Longrightarrow> unset_misc x MF_DELIVERMSG s = Some (Inr (r, t)) \<Longrightarrow> ipc_run os t"

lemma quiet_inv: "quiet s \<Longrightarrow> ipc_inv s"
proof -
  assume q: "quiet s"
  have b: "w AND (RTS_SENDING OR RTS_RECEIVING) = 0 \<longleftrightarrow> w AND RTS_SENDING = 0 \<and> w AND RTS_RECEIVING = 0" for w
    by (simp only: bit.conj_disj_distrib or_eq_0_iff)
  have n: "\<not> sending (view s) x" "\<not> receiving (view s) x" for x using q unfolding quiet_def b view_flags by auto
  have core: "core_ok (core s)" using q by (simp add: quiet_def)
  have "waits (view s) = {}" using n names_none(1) [OF view_ends [OF core]] by (simp add: waits_def blocked_on_def)
  moreover have "callers {} (\<lambda>_. []) (view s)" using q n by (simp add: callers_def chain_def vcell_def quiet_def)
  moreover have "blocked_ok (view s)" using n by (simp add: blocked_ok_def)
  ultimately have "ipc_ok (view s)" using view_ends [OF core] by (auto simp: ipc_ok_but_def acyclic_def)
  with core show "ipc_inv s" by (simp add: ipc_inv_def)
qed

lemma other_flags_bits:
  assumes "other_flags f"
  shows "f \<noteq> 0" "f AND RTS_SLOT_FREE = 0" "f AND RTS_SENDING = 0" "f AND RTS_RECEIVING = 0"
  using assms unfolding other_flags_def bit.conj_disj_distrib or_eq_0_iff by blast+

lemma calmly_other:
  fixes os :: "'w krn_os"
  assumes x: "x \<in> U" and f: "other_flags f"
  shows "calmly U (in_krn (RTS_SET os x f))" "calmly U (in_krn (RTS_UNSET os x f))"
proof -
  note b = other_flags_bits [OF f]
  have off: "(w OR ipc_bits f) AND g = w AND g" "(w AND NOT f) AND g = w AND g" if "f AND g = 0" for w g :: u32
  proof -
    have "ipc_bits f AND g = (f AND g) AND 0x10D" by (simp add: ipc_bits_def ac_simps)
    with that show "(w OR ipc_bits f) AND g = w AND g" by (simp add: bit.conj_disj_distrib2)
    have "w AND g = ((w AND NOT f) AND g) OR (w AND (f AND g))" by (rule bit_word_eqI) (auto simp: bit_simps)
    with that show "(w AND NOT f) AND g = w AND g" by simp
  qed
  show "calmly U (in_krn (RTS_UNSET os x f))" by (rule calmly_unset [OF x]) (rule off(2) [OF b(3)], rule off(2) [OF b(2)])
  show "calmly U (in_krn (RTS_SET os x f))"
  proof (rule calmlyI)
    fix s :: "'w ikrn"
    assume s: "core_ok (core s)" "\<forall>x \<in> U. used (view s) x"
    have nf: "\<not> free_slot (core s) x" using s(2) x unfolding view_flags by blast
    show "wlp (in_krn (RTS_SET os x f)) (\<lambda>_ t. core_ok (core t) \<and> calm (view s) (view t)) s"
      unfolding wlp_in_krn
    proof (rule wp_wlp [OF wp_mono [OF RTS_SET_view [OF s(1) nf b(1,2)]]], elim conjE)
      fix t :: "'w krn" assume t: "core_ok t" "kview t = with_flags x (\<lambda>g. g OR ipc_bits f) (kview (core s))"
      have "calm (view s) (view (s\<lparr>core := t\<rparr>))" by (rule calm_flags [OF t(2)]) (simp_all only: off(1) [OF b(2)] off(1) [OF b(3)] off(1) [OF b(4)] simp_thms)
      with t(1) show "core_ok (core (s\<lparr>core := t\<rparr>)) \<and> calm (view s) (view (s\<lparr>core := t\<rparr>))" by simp
    qed
  qed
qed

lemma calm_run:
  assumes "calmly U m" and "ipc_inv s" and "\<And>x. x \<in> U \<Longrightarrow> in_use (core s) x" and "m s = Some (Inr (r, t))"
  shows "ipc_inv t"
proof -
  have "wlp m (\<lambda>_ t. core_ok (core t) \<and> calm (view s) (view t)) s"
    by (rule calmlyD [OF assms(1)]) (use assms(2,3) view_flags(3) in \<open>auto simp: ipc_inv_def\<close>)
  from wlpD [OF this assms(4)] show ?thesis using calm_inv [OF _ _ assms(2)] by blast
qed

lemma switch_inv:
  assumes "ipc_inv s" and "proc_is_runnable (kprocs (core s) x)"
  shows "ipc_inv (s\<lparr>core := (core s)\<lparr>proc_ptr := Some x\<rparr>\<rparr>)"
proof -
  let ?k = "(core s)\<lparr>proc_ptr := Some x\<rparr>"
  have core: "core_ok (core s)" using assms(1) by (simp add: ipc_inv_def)
  have "free_slot ?k y = free_slot (core s) y" for y by (simp add: free_slot_def)
  moreover have "\<not> free_slot (core s) x" using assms(2) by (simp add: free_slot_def proc_is_runnable_def)
  ultimately have "core_ok ?k" using core krn_inv_next(2) [OF core_okD(1) [OF core], of x] by (auto simp: core_ok_def)
  moreover have "view (s\<lparr>core := ?k\<rparr>) = view s" by (simp add: view_def kview_def)
  ultimately show ?thesis using assms(1) by (simp add: ipc_inv_def)
qed

lemma ipc_run_inv: "ipc_run os s \<Longrightarrow> ipc_inv s"
proof (induction rule: ipc_run.induct)
  case (start s)
  then show ?case by (rule quiet_inv)
next
  case (trap s c r2 r1 r3 r t)
  show ?case by (rule wlpD [OF do_ipc_inv [OF trap.IH trap.hyps(2-4)] trap.hyps(5)])
next
  case (notify s x e r t)
  show ?case by (rule calm_run [OF calmly_notify [of "{}"] notify.IH _ notify.hyps(2)]) simp
next
  case (signal s x n r t)
  show ?case by (rule calm_run [OF calmly_cause_sig(1) [of x "{x}"] signal.IH _ signal.hyps(3)]) (use signal.hyps(2) in auto)
next
  case (block s x f r t)
  show ?case by (rule calm_run [OF calmly_other(1) [of x "{x}", OF _ block.hyps(3)] block.IH _ block.hyps(4)]) (use block.hyps(2) in auto)
next
  case (wake s x f r t)
  show ?case by (rule calm_run [OF calmly_other(2) [of x "{x}", OF _ wake.hyps(3)] wake.IH _ wake.hyps(4)]) (use wake.hyps(2) in auto)
next
  case (switch s x)
  then show ?case by (intro switch_inv)
next
  case (copied s x r t)
  show ?case by (rule calm_run [OF calmly_small(2) [of "{}"] copied.IH _ copied.hyps(2)]) simp
qed

end
