(* ===== verification/Ipc_Transfer.thy ===== *)
theory Ipc_Transfer
  imports Ipc_Run
begin

text \<open>
  What sending and receiving do with messages: a receiver that waits gets the message at once, a
  sender that has to wait leaves it in its own entry and joins the end of the queue, and a receiver
  takes the message of the first acceptable sender of its queue.
\<close>

section \<open>Waking\<close>

lemma unset_wakes:
  fixes k :: "'w krn"
  assumes ok: "core_ok k" and x: "in_use k x"
  shows "wp (RTS_UNSET os x f) (\<lambda>_ t. core_ok t \<and> kview t = with_flags x (\<lambda>g. g AND NOT f) (kview k)
    \<and> (kp_rts_flags (kprocs k x) = f \<and> proc_ptr k \<noteq> Some x \<longrightarrow> proc_is_runnable (kprocs t x))) k"
proof -
  have i: "krn_inv k" and lt: "x < NR_TASKS + NR_PROCS" using core_okD(1) [OF ok] x by auto
  have "wlp (RTS_UNSET os x f) (\<lambda>_ t. kp_rts_flags (kprocs k x) = f \<and> proc_ptr k \<noteq> Some x \<longrightarrow> proc_is_runnable (kprocs t x)) k"
  proof (rule wp_wlp [OF wp_mono [OF RTS_UNSET_cores [OF i lt]]], elim conjE exE, intro impI, elim conjE)
    fix t :: "'w krn" and c
    assume t: "proc_ptr k = Some c" "kcores t = (kcores k)(x := clear_flag f (kcores k x))
      \<or> kcores t = (let tab = (kcores k)(x := clear_flag f (kcores k x)) in tab(c := Krn_Ready.set_flag RTS_PREEMPTED (tab c)))"
      and f: "kp_rts_flags (kprocs k x) = f" "proc_ptr k \<noteq> Some x"
    then have "kcores t x = clear_flag f (kcores k x)" by (auto simp: Let_def)
    then show "proc_is_runnable (kprocs t x)"
      using kcores_fields(2) [of t x] f(1) by (simp add: proc_is_runnable_def kcores_def)
  qed
  from wp_conj_wlp [OF RTS_UNSET_view [OF ok x] this] show ?thesis by (rule wp_mono) blast
qed

lemma unset_bits: "(w AND NOT RTS_RECEIVING) AND RTS_RECEIVING = 0" "(w AND NOT RTS_SENDING) AND RTS_SENDING = 0"
  by (simp_all add: and_not_swap and.assoc)

text \<open>The view after a flag of \<open>x\<close> was cleared, with any change of the entries.\<close>

lemma cleared:
  assumes "kview k = with_flags x (\<lambda>g. g AND NOT f) (kview (core s))"
  shows "f = RTS_RECEIVING \<Longrightarrow> \<not> receiving (view (u\<lparr>core := k\<rparr>)) x" "f = RTS_SENDING \<Longrightarrow> \<not> sending (view (u\<lparr>core := k\<rparr>)) x"
  using assms unset_bits by (simp_all add: receiving_def sending_def view_def with_flags_def del: RTS_RECEIVING_def RTS_SENDING_def)

section \<open>A receiver that waits\<close>

text \<open>The process \<open>d\<close> was handed the message \<open>m\<close> from the endpoint \<open>e\<close>.\<close>

definition handed :: "ipc_msg \<Rightarrow> endpoint \<Rightarrow> iproc \<Rightarrow> bool" where
  "handed m e p \<longleftrightarrow> ip_delivermsg p = m\<lparr>im_source := e\<rparr> \<and> ip_misc_flags p AND MF_DELIVERMSG \<noteq> 0"

lemma deliver_flag: "(w OR MF_DELIVERMSG) AND MF_DELIVERMSG \<noteq> 0" "((w OR MF_DELIVERMSG) AND NOT MF_REPLY_PEND) AND MF_DELIVERMSG \<noteq> 0"
proof -
  have "(w OR g) AND g = g" for g :: u32 by (rule bit_word_eqI) (auto simp: bit_simps)
  then show "(w OR MF_DELIVERMSG) AND MF_DELIVERMSG \<noteq> 0" "((w OR MF_DELIVERMSG) AND NOT MF_REPLY_PEND) AND MF_DELIVERMSG \<noteq> 0"
    by (simp_all only: and_not_swap) simp_all
qed

lemma send_direct_wp:
  fixes s :: "'w ikrn"
  assumes core: "core_ok (core s)" and d: "in_use (core s) d" "d \<noteq> c" and empty: "ip_misc_flags (iprocs s d) AND MF_DELIVERMSG = 0"
    and copy: "io_copy_msg os (proc_ptr (core s)) buf (ip_delivermsg (iprocs s d)) (p_world (core s)) = ((True, m), w)"
  shows "wp (send_direct os c d (From_User buf) flags) (\<lambda>r t. r = OK
    \<and> handed m (kp_endpoint (kprocs (core s) c)) (iprocs t d) \<and> (\<forall>y. y \<noteq> d \<longrightarrow> iprocs t y = iprocs s y) \<and> \<not> receiving (view t) d
    \<and> (kp_rts_flags (kprocs (core s) d) = RTS_RECEIVING \<and> proc_ptr (core s) \<noteq> Some d \<longrightarrow> proc_is_runnable (kprocs (core t) d))) s"
proof -
  let ?k = "(core s)\<lparr>p_world := w\<rparr>"
  have k: "core_ok ?k" "in_use ?k d" using core d(1) by (simp_all add: core_ok_world free_slot_def)
  have "wp (RTS_UNSET (io_krn os) d RTS_RECEIVING) (\<lambda>_ k. core_ok k \<and> \<not> receiving (view (u\<lparr>core := k\<rparr>)) d
    \<and> (kp_rts_flags (kprocs (core s) d) = RTS_RECEIVING \<and> proc_ptr (core s) \<noteq> Some d \<longrightarrow> proc_is_runnable (kprocs k d))) ?k" for u
    by (rule wp_mono [OF unset_wakes [OF k]]) (use cleared(1) [of _ d RTS_RECEIVING "s\<lparr>core := ?k\<rparr>" u] in simp)
  then have unset: "wp (RTS_UNSET (io_krn os) d RTS_RECEIVING) (\<lambda>_ k. \<not> receiving (view (u\<lparr>core := k\<rparr>)) d
    \<and> (kp_rts_flags (kprocs (core s) d) = RTS_RECEIVING \<and> proc_ptr (core s) \<noteq> Some d \<longrightarrow> proc_is_runnable (kprocs k d))) ?k" for u
    by (rule wp_mono) blast
  show ?thesis
    using empty d(2) unset
    by (simp add: send_direct_def fill_delivermsg_def copy_msg_from_user_def copy deliver_def set_misc_def unset_misc_def set_iproc_def
        IPC_STATUS_ADD_CALL_def IPC_STATUS_ADD_def wp_simps handed_def deliver_flag del: MF_DELIVERMSG_def MF_REPLY_PEND_def RTS_RECEIVING_def)
qed

lemma mini_send_direct:
  fixes s :: "'w ikrn"
  assumes i: "ipc_inv s" and c: "able (view s) c" and d: "names (view s) e d" "\<not> RTS_ISSET (kprocs (core s) d) RTS_NO_ENDPOINT"
    and will: "WILLRECEIVE (kprocs (core s) d) (iprocs s d) (kp_endpoint (kprocs (core s) c))"
    and empty: "ip_misc_flags (iprocs s d) AND MF_DELIVERMSG = 0"
    and copy: "io_copy_msg os (proc_ptr (core s)) buf (ip_delivermsg (iprocs s d)) (p_world (core s)) = ((True, m), w)"
  shows "wp (mini_send os c e (From_User buf) flags) (\<lambda>r t. ipc_inv t \<and> r = OK
    \<and> handed m (kp_endpoint (kprocs (core s) c)) (iprocs t d) \<and> (\<forall>y. y \<noteq> d \<longrightarrow> iprocs t y = iprocs s y) \<and> \<not> receiving (view t) d
    \<and> (kp_rts_flags (kprocs (core s) d) = RTS_RECEIVING \<and> proc_ptr (core s) \<noteq> Some d \<longrightarrow> proc_is_runnable (kprocs (core t) d))) s"
proof -
  have core: "core_ok (core s)" using i by (simp add: ipc_inv_def)
  have slot: "proc_addr (endpoint_p e) = d" "isokprocn (endpoint_p e)" using names_slot [OF view_ends [OF core] d(1)] isokprocn_p_nr [of d] by metis+
  have use: "in_use (core s) d" using d(1) unfolding names_def view_flags by blast
  have "receiving (view s) d" using will unfolding WILLRECEIVE_def RTS_ISSET_flags view_flags by blast
  then have ne: "d \<noteq> c" using c by (auto simp: able_def)
  have "wp (mini_send os c e (From_User buf) flags) (\<lambda>r t. r = OK
    \<and> handed m (kp_endpoint (kprocs (core s) c)) (iprocs t d) \<and> (\<forall>y. y \<noteq> d \<longrightarrow> iprocs t y = iprocs s y) \<and> \<not> receiving (view t) d
    \<and> (kp_rts_flags (kprocs (core s) d) = RTS_RECEIVING \<and> proc_ptr (core s) \<noteq> Some d \<longrightarrow> proc_is_runnable (kprocs (core t) d))) s"
    unfolding mini_send_def Let_def slot(1) wp_simps using slot(2) d(2) will send_direct_wp [OF core use ne empty copy] by simp
  from wp_conj_wlp [OF this mini_send_inv [OF i c d(1) ne]] show ?thesis by (rule wp_mono) blast
qed

section \<open>A sender that has to wait\<close>

lemma join_queue_wp:
  assumes "chain (vcell (view s) d) xs" and "ip_q_link (iprocs s c) = None"
  shows "wp (join_queue c d) (\<lambda>_ t. t = set_q_cell d (link_at xs) (Some c) s) s"
proof -
  have st: "callq.stored d xs s" using assms by (simp add: q_cell_view)
  have tw: "takeWhile (\<lambda>x. \<not> False) xs = xs" by (simp add: takeWhile_eq_all_conv)
  have "wp (walk (q_cell d) (\<lambda>_ _. False)) (\<lambda>l t. t = s \<and> l = link_at xs) s"
    using callq.walk_wp [OF st, where stop = "\<lambda>_ _. False"] unfolding tw .
  then have "wp (walk (q_cell d) (\<lambda>_ _. False)) (\<lambda>l. wp (modify (set_q_cell d l (Some c))) (\<lambda>_ t. t = set_q_cell d (link_at xs) (Some c) s)) s"
    by (rule wp_mono) (simp add: wp_simps)
  then show ?thesis using assms(2) by (simp add: join_queue_def wp_simps)
qed

lemma iprocs_set_q_cell [simp]: "ip_sendmsg (iprocs (set_q_cell d l p s) x) = ip_sendmsg (iprocs s x)"
  "ip_sendto_e (iprocs (set_q_cell d l p s) x) = ip_sendto_e (iprocs s x)"
  by (simp_all add: set_q_cell_def split: link.split)

text \<open>The caller is blocked and last in the queue, with the message in its own entry.\<close>

definition queued :: "nat \<Rightarrow> endpoint \<Rightarrow> nat \<Rightarrow> ipc_msg \<Rightarrow> (nat \<Rightarrow> nat list) \<Rightarrow> 'w ikrn \<Rightarrow> bool" where
  "queued c e d m C t \<longleftrightarrow> sending (view t) c \<and> ip_sendto_e (iprocs t c) = e \<and> ip_sendmsg (iprocs t c) = m
     \<and> callers {} (C(d := C d @ [c])) (view t)"

lemma block_wp:
  fixes s :: "'w ikrn"
  assumes core: "core_ok (core s)" and C: "ends_ok (view s)" "callers {} C (view s)" and c: "able (view s) c" and d: "names (view s) e d"
  shows "wp (andthen (in_krn (RTS_SET (io_krn os) c RTS_SENDING)) (
      andthen (set_iproc c (\<lambda>p. p\<lparr>ip_sendto_e := e\<rparr>)) (andthen (join_queue c d) (ret OK))))
    (\<lambda>r t. r = OK \<and> queued c e d (ip_sendmsg (iprocs s c)) C t) s"
    (is "wp _ ?Q s")
proof -
  let ?v = "view s"
  have free: "\<not> free_slot (core s) c" using c unfolding able_def view_flags by blast
  have fl: "RTS_SENDING \<noteq> 0" "RTS_SENDING AND RTS_SLOT_FREE = 0" by simp_all
  have "wp (in_krn (RTS_SET (io_krn os) c RTS_SENDING)) (\<lambda>_. wp (andthen (set_iproc c (\<lambda>p. p\<lparr>ip_sendto_e := e\<rparr>)) (andthen (join_queue c d) (ret OK))) ?Q) s"
    unfolding wp_in_krn
  proof (rule wp_mono [OF RTS_SET_view [OF core free fl]], elim conjE)
    fix t :: "'w krn"
    assume t: "kview t = with_flags c (\<lambda>g. g OR ipc_bits RTS_SENDING) (kview (core s))"
    let ?u = "s\<lparr>core := t\<rparr>"
    define w where "w = ?u\<lparr>iprocs := (iprocs ?u)(c := (iprocs ?u c)\<lparr>ip_sendto_e := e\<rparr>)\<rparr>"
    let ?t = "set_q_cell d (link_at (C d)) (Some c) w"
    note uf = view_with_flags [OF t]
    have vw: "v_head (view w) = v_head ?v" "v_link (view w) = v_link ?v" "v_end (view w) = v_end ?v" "v_from (view w) = v_from ?v"
      "v_to (view w) = (v_to ?v)(c := e)" "v_bits (view w) = (v_bits ?v)(c := v_bits ?v c OR ipc_bits RTS_SENDING)"
      using uf by (auto simp: view_def w_def fun_eq_iff)
    have cell: "vcell (view w) d = vcell ?v d" by (rule ext) (simp only: vcell_def vw)
    have f: "sending (view w) y \<longleftrightarrow> sending ?v y \<or> y = c" "used (view w) y = used ?v y" for y
      unfolding sending_def used_def vw by (auto simp: bits_or simp del: RTS_SENDING_def RTS_SLOT_FREE_def)
    have link: "ip_q_link (iprocs w c) = None" using callersD(3) [OF C(2), of c] c by (simp add: able_def w_def)
    have "callers {} (C(d := C d @ [c])) (view ?t)"
      by (rule callers_join [OF C(2,1) _ d])
        (use c f vw in \<open>simp_all add: able_def names_def fun_eq_iff view_set_q_cell del: view_fields, simp_all add: set_vcell_def split: link.split\<close>)
    moreover have "sending (view ?t) c" using f by (simp add: view_set_q_cell del: view_fields)
    moreover have "ip_sendmsg (iprocs w c) = ip_sendmsg (iprocs s c)" "ip_sendto_e (iprocs w c) = e" by (simp_all add: w_def)
    ultimately have "?Q OK ?t" by (simp add: queued_def)
    then show "wp (andthen (set_iproc c (\<lambda>p. p\<lparr>ip_sendto_e := e\<rparr>)) (andthen (join_queue c d) (ret OK))) ?Q ?u"
      unfolding wp_andthen set_iproc_def wp_modify wp_ret w_def [symmetric]
      by (intro wp_mono [OF join_queue_wp [of w d "C d"]]) (use callersD(1) [OF C(2), of d] cell link in simp_all)
  qed
  then show ?thesis unfolding wp_andthen [of "in_krn _"] .
qed

lemma fill_sendmsg_wp:
  assumes "io_copy_msg os (proc_ptr (core s)) buf (ip_sendmsg (iprocs s c)) (p_world (core s)) = ((True, m), w)"
  shows "wp (fill_sendmsg os c (From_User buf)) (\<lambda>ok t. ok \<and> view t = view s \<and> core t = (core s)\<lparr>p_world := w\<rparr> \<and> ip_sendmsg (iprocs t c) = m) s"
proof -
  have "view (s\<lparr>core := (core s)\<lparr>p_world := w\<rparr>, iprocs := (iprocs s)(c := (iprocs s c)\<lparr>ip_sendmsg := m\<rparr>)\<rparr>) = view s"
    by (auto simp: view_def fun_eq_iff)
  with assms show ?thesis by (simp add: fill_sendmsg_def copy_msg_from_user_def set_iproc_def wp_simps)
qed

lemma send_blocked_wp:
  fixes s :: "'w ikrn"
  assumes i: "ipc_inv s" and C: "callers {} C (view s)" and c: "able (view s) c" and d: "names (view s) e d" "d \<noteq> c"
    and n: "\<not> WILLRECEIVE (kprocs (core s) d) (iprocs s d) (kp_endpoint (kprocs (core s) c))" and f: "flags AND NON_BLOCKING = 0"
    and copy: "io_copy_msg os (proc_ptr (core s)) buf (ip_sendmsg (iprocs s c)) (p_world (core s)) = ((True, m), w)"
  shows "wp (send_blocked os c d e (From_User buf) flags)
    (\<lambda>r t. if (d, c) \<in> (waits (view s))\<^sup>* then r = ierr os ELOCKED \<and> t = s else r = OK \<and> queued c e d m C t) s"
    (is "wp _ ?Q s")
proof -
  let ?v = "view s"
  from i have core: "core_ok (core s)" and ok: "ipc_ok ?v" by (simp_all add: ipc_inv_def)
  have e: "ends_ok ?v" using view_ends [OF core] .
  let ?B = "andthen (in_krn (RTS_SET (io_krn os) c RTS_SENDING)) (
      andthen (set_iproc c (\<lambda>p. p\<lparr>ip_sendto_e := e\<rparr>)) (andthen (join_queue c d) (ret OK)))"
  have block: "wp (bnd (fill_sendmsg os c (From_User buf)) (\<lambda>ok. if \<not> ok then ret EFAULT else ?B)) (\<lambda>r t. r = OK \<and> queued c e d m C t) s"
    unfolding wp_bnd
  proof (rule wp_mono [OF fill_sendmsg_wp [OF copy]], elim conjE)
    fix ok and t :: "'w ikrn"
    assume t: "ok" "view t = ?v" "core t = (core s)\<lparr>p_world := w\<rparr>" "ip_sendmsg (iprocs t c) = m"
    have "wp ?B (\<lambda>r u. r = OK \<and> queued c e d (ip_sendmsg (iprocs t c)) C u) t"
      by (rule block_wp) (use t(2,3) core e C c d(1) in \<open>simp_all only: core_ok_world\<close>)
    with t(1,4) show "wp (if \<not> ok then ret EFAULT else ?B) (\<lambda>r t. r = OK \<and> queued c e d m C t) t" by simp
  qed
  have "wp (deadlock SEND c e) (\<lambda>r t. t = s \<and> (r \<noteq> 0 \<longleftrightarrow> (d, c) \<in> (waits ?v)\<^sup>*)) s"
    by (rule wp_mono [OF deadlock_wp [OF core ok _ _ d]]) (use c not_willreceive [OF core n] in \<open>auto simp: able_def matching_def\<close>)
  then have "wp (deadlock SEND c e) (\<lambda>r. wp (if r \<noteq> 0 then ret (ierr os ELOCKED) else
      bnd (fill_sendmsg os c (From_User buf)) (\<lambda>ok. if \<not> ok then ret EFAULT else ?B)) ?Q) s"
  proof (rule wp_mono, elim conjE)
    fix r and t :: "'w ikrn"
    assume t: "t = s" "r \<noteq> 0 \<longleftrightarrow> (d, c) \<in> (waits ?v)\<^sup>*"
    show "wp (if r \<noteq> 0 then ret (ierr os ELOCKED) else
      bnd (fill_sendmsg os c (From_User buf)) (\<lambda>ok. if \<not> ok then ret EFAULT else ?B)) ?Q t"
    proof (cases "r = 0")
      case True
      then show ?thesis using t block by (simp only: simp_thms if_False)
    next
      case False
      then show ?thesis using t unfolding if_P [OF False] wp_ret by (simp only: simp_thms if_True)
    qed
  qed
  then show ?thesis unfolding send_blocked_def if_not_P [OF iffD2 [OF not_not f]] wp_bnd .
qed

lemma mini_send_blocked:
  fixes s :: "'w ikrn"
  assumes i: "ipc_inv s" and C: "callers {} C (view s)" and c: "able (view s) c" and d: "names (view s) e d" "d \<noteq> c"
    and ne: "\<not> RTS_ISSET (kprocs (core s) d) RTS_NO_ENDPOINT"
    and n: "\<not> WILLRECEIVE (kprocs (core s) d) (iprocs s d) (kp_endpoint (kprocs (core s) c))" and f: "flags AND NON_BLOCKING = 0"
    and copy: "io_copy_msg os (proc_ptr (core s)) buf (ip_sendmsg (iprocs s c)) (p_world (core s)) = ((True, m), w)"
  shows "wp (mini_send os c e (From_User buf) flags)
    (\<lambda>r t. ipc_inv t \<and> (if (d, c) \<in> (waits (view s))\<^sup>* then r = ierr os ELOCKED \<and> t = s else r = OK \<and> queued c e d m C t)) s"
    (is "wp _ ?Q s")
proof -
  have core: "core_ok (core s)" using i by (simp add: ipc_inv_def)
  have slot: "proc_addr (endpoint_p e) = d" "isokprocn (endpoint_p e)"
    using names_slot [OF view_ends [OF core] d(1)] isokprocn_p_nr [of d] by metis+
  have "wp (mini_send os c e (From_User buf) flags)
    (\<lambda>r t. if (d, c) \<in> (waits (view s))\<^sup>* then r = ierr os ELOCKED \<and> t = s else r = OK \<and> queued c e d m C t) s"
    unfolding mini_send_def Let_def slot(1) wp_simps if_not_P [OF ne] if_not_P [OF n]
    using slot(2) send_blocked_wp [OF i C c d n f copy] by blast
  from wp_conj_wlp [OF this mini_send_inv [OF i c d]] show ?thesis by (rule wp_mono) blast
qed

section \<open>A receiver with senders in its queue\<close>

text \<open>No notification and no asynchronous message waits for \<open>c\<close>, from \<open>src\<close> or from anyone.\<close>

definition nothing_pending :: "nat \<Rightarrow> nat option \<Rightarrow> 'w ikrn \<Rightarrow> bool" where
  "nothing_pending c src s \<longleftrightarrow> (case ip_priv (iprocs s c) of
       None \<Rightarrow> False
     | Some i \<Rightarrow>
         let clear = (\<lambda>k. \<not> GET_BIT (s_notify_pending (privs s i)) k \<and> \<not> GET_BIT (s_asyn_pending (privs s i)) k) in
         case src of
           None \<Rightarrow> \<forall>k \<in> {..<NR_SYS_PROCS}. clear k
         | Some x \<Rightarrow> (case ip_priv (iprocs s x) of None \<Rightarrow> False | Some j \<Rightarrow> clear j))"

lemma has_pending_none:
  fixes s :: "'w ikrn"
  assumes "nothing_pending c src s"
  shows "wp (has_pending_notify c src) Q s = Q None s" "wp (has_pending_asend c src) Q s = Q None s"
proof -
  from assms obtain i where i: "ip_priv (iprocs s c) = Some i" by (auto simp: nothing_pending_def split: option.splits)
  have none: "has_pending m None = (ret None :: ('w, nat option) iprog)" if "\<And>k. k < NR_SYS_PROCS \<Longrightarrow> \<not> GET_BIT m k" for m
  proof -
    have "first_slot (GET_BIT m) [BITCHUNK_BITS * x..<NR_SYS_PROCS] = None" for x
      unfolding first_slot_None using that by (auto simp del: NR_SYS_PROCS_def)
    then show ?thesis by (simp add: has_pending_def split: option.split del: NR_SYS_PROCS_def BITCHUNK_BITS_def)
  qed
  have "wp (has_pending (s_notify_pending (privs s i)) src) Q s = Q None s \<and> wp (has_pending (s_asyn_pending (privs s i)) src) Q s = Q None s"
  proof (cases src)
    case None
    have "\<not> GET_BIT (s_notify_pending (privs s i)) k \<and> \<not> GET_BIT (s_asyn_pending (privs s i)) k" if "k < NR_SYS_PROCS" for k
      using assms i None that by (simp add: nothing_pending_def del: NR_SYS_PROCS_def)
    then have "has_pending (s_notify_pending (privs s i)) None = (ret None :: ('w, nat option) iprog)"
      "has_pending (s_asyn_pending (privs s i)) None = (ret None :: ('w, nat option) iprog)"
      by (blast intro: none)+
    then show ?thesis unfolding None by (simp only: wp_ret simp_thms)
  next
    case (Some x)
    from assms i Some obtain j where "ip_priv (iprocs s x) = Some j" "\<not> GET_BIT (s_notify_pending (privs s i)) j" "\<not> GET_BIT (s_asyn_pending (privs s i)) j"
      by (cases "ip_priv (iprocs s x)") (simp_all add: nothing_pending_def)
    then show ?thesis unfolding Some by (simp add: has_pending_def priv_of_def wp_simps)
  qed
  then show "wp (has_pending_notify c src) Q s = Q None s" "wp (has_pending_asend c src) Q s = Q None s"
    by (simp_all add: has_pending_notify_def has_pending_asend_def priv_of_def i wp_simps)
qed

lemma take_queued_wp:
  fixes s :: "'w ikrn"
  assumes core: "core_ok (core s)" and x: "used (view s) x" "x \<noteq> c" "\<not> RTS_ISSET (kprocs (core s) x) RTS_NO_ENDPOINT"
    and empty: "ip_misc_flags (iprocs s c) AND MF_DELIVERMSG = 0" and delay: "ip_misc_flags (iprocs s x) AND MF_SIG_DELAY = 0"
  shows "wp (take_queued os c x) (\<lambda>_ t. core_ok (core t) \<and> served_one x (view s) (view t)
    \<and> handed (ip_sendmsg (iprocs s x)) (kp_endpoint (kprocs (core s) x)) (iprocs t c)
    \<and> (kp_rts_flags (kprocs (core s) x) = RTS_SENDING \<and> proc_ptr (core s) \<noteq> Some x \<longrightarrow> proc_is_runnable (kprocs (core t) x))) s"
proof -
  have use: "in_use (core s) x" using x(1) unfolding view_flags .
  have nf: "\<not> RTS_ISSET (kprocs (core s) x) RTS_SLOT_FREE" using use unfolding RTS_ISSET_flags free_slot_def by blast
  have unset: "wp (RTS_UNSET (io_krn os) x RTS_SENDING) (\<lambda>_ k.
    kp_rts_flags (kprocs (core s) x) = RTS_SENDING \<and> proc_ptr (core s) \<noteq> Some x \<longrightarrow> proc_is_runnable (kprocs k x)) (core s)"
    by (rule wp_mono [OF unset_wakes [OF core use]]) blast
  have "wp (take_queued os c x) (\<lambda>_ t. handed (ip_sendmsg (iprocs s x)) (kp_endpoint (kprocs (core s) x)) (iprocs t c)
    \<and> (kp_rts_flags (kprocs (core s) x) = RTS_SENDING \<and> proc_ptr (core s) \<noteq> Some x \<longrightarrow> proc_is_runnable (kprocs (core t) x))) s"
    using x(2,3) nf empty delay unset deliver_flag(1) [of 0]
    by (cases "ip_misc_flags (iprocs s x) AND MF_SENDING_FROM_KERNEL = 0"; cases "ip_misc_flags (iprocs s x) AND MF_REPLY_PEND = 0";
        simp add: take_queued_def deliver_def set_misc_def unset_misc_def set_iproc_def IPC_STATUS_ADD_FLAGS_def
        IPC_STATUS_ADD_CALL_def IPC_STATUS_ADD_def wp_simps handed_def deliver_flag
        del: MF_DELIVERMSG_def MF_REPLY_PEND_def MF_SENDING_FROM_KERNEL_def MF_SIG_DELAY_def RTS_SENDING_def RTS_SLOT_FREE_def RTS_NO_ENDPOINT_def)
  from wp_conj_wlp [OF this take_queued_wlp [OF core x(1)]] show ?thesis by (rule wp_mono) blast
qed

lemma callers_served:
  assumes "callers {} C v" and "ends_ok v" and "served_one x v w" and "x \<in> set (C c)"
  shows "callers {(x, c)} C w"
proof -
  have x: "sending v x" "names v (v_to v x) c" using callersD(2) [OF assms(1), of x c] assms(4) by auto
  have n: "names w = names v" using assms(3) by (simp add: served_one_def names_def fun_eq_iff)
  have w: "v_to w = v_to v" "v_link w = v_link v" "v_head w = v_head v" "sending w = (sending v)(x := False)"
    using assms(3) by (simp_all add: served_one_def)
  show ?thesis
    unfolding callers_def n w vcell_def [abs_def]
    using assms(1) x names_unique [OF assms(2)] by (auto simp: callers_def vcell_def [abs_def])
qed

lemma receive_queued_wp:
  fixes s :: "'w ikrn"
  assumes i: "ipc_inv s" and C: "callers {} C (view s)" "C c = ys @ x # zs"
    and ys: "\<forall>y \<in> set ys. src \<noteq> None \<and> src \<noteq> Some y" and src: "src = None \<or> src = Some x"
    and x: "x \<noteq> c" "\<not> RTS_ISSET (kprocs (core s) x) RTS_NO_ENDPOINT"
    and empty: "ip_misc_flags (iprocs s c) AND MF_DELIVERMSG = 0" and delay: "ip_misc_flags (iprocs s x) AND MF_SIG_DELAY = 0"
  shows "wp (receive_queued os c src) (\<lambda>got t. got \<and> callers {} (C(c := ys @ zs)) (view t) \<and> \<not> sending (view t) x
    \<and> handed (ip_sendmsg (iprocs s x)) (kp_endpoint (kprocs (core s) x)) (iprocs t c)
    \<and> (kp_rts_flags (kprocs (core s) x) = RTS_SENDING \<and> proc_ptr (core s) \<noteq> Some x \<longrightarrow> proc_is_runnable (kprocs (core t) x))) s"
    (is "wp _ ?Q s")
proof -
  let ?v = "view s" and ?stop = "\<lambda>x. src = None \<or> src = Some x"
  from i have core: "core_ok (core s)" and ok: "ipc_ok ?v" by (simp_all add: ipc_inv_def)
  have e: "ends_ok ?v" using view_ends [OF core] .
  have st: "callq.stored c (C c) s" using callersD(1) [OF C(1), of c] by (simp add: q_cell_view)
  have tw: "takeWhile (\<lambda>x. \<not> ?stop x) (C c) = ys" unfolding C(2) using ys src by (subst takeWhile_append2) auto
  have walked: "wp (walk (q_cell c) (\<lambda>x _. ?stop x)) (\<lambda>l t. t = s \<and> l = link_at ys) s"
    using callq.walk_wp [OF st, where stop = "\<lambda>x _. ?stop x"] unfolding tw .
  have cell: "q_cell c (link_at ys) s = Some x" using chainD [of "vcell ?v c" ys "x # zs"] callersD(1) [OF C(1), of c] C(2) by (simp add: q_cell_view)
  have ux: "used ?v x" using callersD(2) [OF C(1), of x c] C(2) ok by (auto simp: ipc_ok_but_def blocked_ok_def)
  have rest: "wp (take_queued os c x) (\<lambda>_. wp (
      andthen (modify (\<lambda>s. set_q_cell c (link_at ys) (ip_q_link (iprocs s x)) s)) (
      andthen (set_iproc x (\<lambda>p. p\<lparr>ip_q_link := None\<rparr>)) (ret True))) ?Q) s"
  proof (rule wp_mono [OF take_queued_wp [OF core ux x empty delay]], elim conjE)
    fix t :: "'w ikrn" assume t: "served_one x ?v (view t)" "handed (ip_sendmsg (iprocs s x)) (kp_endpoint (kprocs (core s) x)) (iprocs t c)"
      "kp_rts_flags (kprocs (core s) x) = RTS_SENDING \<and> proc_ptr (core s) \<noteq> Some x \<longrightarrow> proc_is_runnable (kprocs (core t) x)"
    let ?u = "set_q_cell c (Next x) None (set_q_cell c (link_at ys) (ip_q_link (iprocs t x)) t)"
    have view: "view ?u = set_vcell c (Next x) None (set_vcell c (link_at ys) (v_link (view t) x) (view t))"
      by (simp add: view_set_q_cell)
    have n: "\<not> sending (view t) x" "ends_ok (view t)" using t(1) e by (simp_all add: served_one_def ends_ok_def)
    have served: "callers {(x, c)} C (view t)" by (rule callers_served [OF C(1) e t(1)]) (simp add: C(2))
    have "callers {} (C(c := ys @ zs)) (view ?u)" unfolding view by (rule callers_leave [OF served n(2,1) C(2)])
    moreover have "\<not> sending (view ?u) x" using n(1) by (simp add: view)
    moreover have "handed m f (iprocs ?u c) = handed m f (iprocs t c)" for m f by (simp add: handed_def set_q_cell_def split: link.split)
    ultimately have "?Q True ?u" using t(2,3) by simp
    then show "wp (andthen (modify (\<lambda>s. set_q_cell c (link_at ys) (ip_q_link (iprocs s x)) s)) (
      andthen (set_iproc x (\<lambda>p. p\<lparr>ip_q_link := None\<rparr>)) (ret True))) ?Q t"
      by (simp add: wp_simps set_iproc_def set_q_cell_def)
  qed
  show ?thesis unfolding receive_queued_def wp_bnd
  proof (rule wp_mono [OF walked], elim conjE)
    fix l and t :: "'w ikrn" assume "t = s" "l = link_at ys"
    with rest show "wp (gets (q_cell c l)) (\<lambda>x. wp (case x of None \<Rightarrow> ret False | Some x \<Rightarrow>
      andthen (take_queued os c x) (
      andthen (modify (\<lambda>s. set_q_cell c l (ip_q_link (iprocs s x)) s)) (
      andthen (set_iproc x (\<lambda>p. p\<lparr>ip_q_link := None\<rparr>)) (ret True)))) ?Q) t"
      by (simp only: wp_gets cell option.case wp_andthen)
  qed
qed

text \<open>The source a receiver names: any, or the process of an endpoint.\<close>

definition source_ok :: "nat \<Rightarrow> endpoint \<Rightarrow> nat option \<Rightarrow> 'w ikrn \<Rightarrow> bool" where
  "source_ok c e src s \<longleftrightarrow> (case src of
       None \<Rightarrow> e = ANY
     | Some y \<Rightarrow> names (view s) e y \<and> y \<noteq> c \<and> \<not> RTS_ISSET (kprocs (core s) y) RTS_NO_ENDPOINT)"

lemma mini_receive_queued:
  fixes s :: "'w ikrn"
  assumes i: "ipc_inv s" and c: "able (view s) c" and e: "source_ok c e src s" and idle: "nothing_pending c src s"
    and C: "callers {} C (view s)" "C c = ys @ x # zs"
    and ys: "\<forall>y \<in> set ys. src \<noteq> None \<and> src \<noteq> Some y" and src: "src = None \<or> src = Some x"
    and x: "x \<noteq> c" "\<not> RTS_ISSET (kprocs (core s) x) RTS_NO_ENDPOINT"
    and empty: "ip_misc_flags (iprocs s c) AND MF_DELIVERMSG = 0" and delay: "ip_misc_flags (iprocs s x) AND MF_SIG_DELAY = 0"
  shows "wp (mini_receive os c e buf flags) (\<lambda>r t. ipc_inv t \<and> r = OK \<and> callers {} (C(c := ys @ zs)) (view t) \<and> \<not> sending (view t) x
    \<and> handed (ip_sendmsg (iprocs s x)) (kp_endpoint (kprocs (core s) x)) (iprocs t c)
    \<and> (kp_rts_flags (kprocs (core s) x) = RTS_SENDING \<and> proc_ptr (core s) \<noteq> Some x \<longrightarrow> proc_is_runnable (kprocs (core t) x))) s"
    (is "wp _ (\<lambda>r t. ipc_inv t \<and> ?Q r t) s")
proof -
  define u where "u = s\<lparr>iprocs := (iprocs s)(c := (iprocs s c)\<lparr>ip_delivermsg_vir := buf\<rparr>)\<rparr>"
  have vu: "view u = view s" unfolding u_def by (rule view_iprocs) auto
  have u: "core u = core s" "ip_misc_flags (iprocs u y) = ip_misc_flags (iprocs s y)" "ip_sendmsg (iprocs u y) = ip_sendmsg (iprocs s y)" for y
    by (simp_all add: u_def)
  have iu: "ipc_inv u" using i vu u(1) by (simp add: ipc_inv_def)
  have core: "core_ok (core s)" using i by (simp add: ipc_inv_def)
  have idle': "nothing_pending c src u"
  proof -
    have "ip_priv (iprocs u y) = ip_priv (iprocs s y)" "privs u = privs s" for y by (simp_all add: u_def)
    with idle show ?thesis by (simp only: nothing_pending_def)
  qed
  have "handed m f (p\<lparr>ip_misc_flags := ip_misc_flags p AND NOT MF_REPLY_PEND\<rparr>) = handed m f p" for m f p
    by (simp add: handed_def and_not_swap and.assoc)
  then have fin: "wp (andthen (unset_misc c MF_REPLY_PEND) (ret OK)) ?Q t" if "?Q OK t" for t
    using that view_iprocs [of "(iprocs t)(c := (iprocs t c)\<lparr>ip_misc_flags := ip_misc_flags (iprocs t c) AND NOT MF_REPLY_PEND\<rparr>)" t]
    by (simp add: unset_misc_def set_iproc_def wp_simps del: MF_REPLY_PEND_def)
  have "wp (receive_queued os c src) (\<lambda>got t. got \<and> ?Q OK t) u"
    by (rule wp_mono [OF receive_queued_wp [OF iu C [folded vu] ys src]]) (use x empty delay u in simp_all)
  then have "wp (receive_message os c e src) (\<lambda>got t. got \<and> ?Q OK t) u"
    unfolding receive_message_def receive_async_def receive_notify_def
    by (simp add: wp_simps has_pending_none [OF idle'])
  then have msg: "wp (receive_message os c e src) (\<lambda>got. wp (if got then andthen (unset_misc c MF_REPLY_PEND) (ret OK) else receive_block os c e flags) ?Q) u"
    by (rule wp_mono) (use fin in simp)
  have ns: "\<not> RTS_ISSET (kprocs (core u) c) RTS_SENDING" using c unfolding able_def u(1) RTS_ISSET_flags view_flags by blast
  have from': "wp (receive_from os c e src flags) ?Q u"
    using msg ns unfolding receive_from_def wp_bnd wp_kproc_of by simp
  have "wp (if e = ANY then receive_from os c e None flags else bnd (okendpt e) (\<lambda>x. bnd (kproc_of x) (\<lambda>k.
      if RTS_ISSET k RTS_NO_ENDPOINT then ret (ierr os EDEADSRCDST) else receive_from os c e (Some x) flags))) ?Q u"
  proof (cases src)
    case None
    then show ?thesis using from' e by (simp add: source_ok_def)
  next
    case (Some y)
    then have y: "names (view s) e y" "\<not> RTS_ISSET (kprocs (core s) y) RTS_NO_ENDPOINT" using e by (simp_all add: source_ok_def)
    then have "isokendpt (kprocs (core u)) e = Some y" "e \<noteq> ANY"
      using view_names [OF core, of e y] names_none(2) [OF view_ends [OF core], of y] u(1) by auto
    then show ?thesis using from' Some y(2) u(1) by (simp add: wp_bnd wp_okendpt wp_kproc_of)
  qed
  then have "wp (mini_receive os c e buf flags) ?Q s"
    unfolding mini_receive_def wp_bnd [of "iproc_of c"] wp_iproc_of wp_andthen wp_check set_iproc_def wp_modify u_def using empty by blast
  moreover have "wlp (mini_receive os c e buf flags) (\<lambda>_. ipc_inv) s"
    by (rule mini_receive_inv [OF i]) (use c e in \<open>auto simp: able_def source_ok_def split: option.splits\<close>)
  ultimately show ?thesis by (rule wp_mono [OF wp_conj_wlp]) blast
qed

end
