(* ===== verification/Ipc_Faults.thy ===== *)
theory Ipc_Faults
  imports Ipc_Transfer
begin

text \<open>
  Two cases that the code does not provide for: a process that receives from itself, and a sender
  that is taken out of the middle of a queue.
\<close>

section \<open>Receiving from oneself\<close>

lemma deadlock_self_turn:
  assumes "isokendpt (kprocs (core s)) e = Some x" and "\<not> RTS_ISSET (kprocs (core s) x) RTS_SLOT_FREE"
    and "P_BLOCKEDON (kprocs (core s) x) (iprocs s x) = e" and "e \<noteq> NONE" and "e \<noteq> ANY" and "kp_endpoint (kprocs (core s) c) \<noteq> e"
  shows "deadlock_turn f c (g, e) s = (if g < NR_PROCS + NR_TASKS then Some (Inr (Inl (Suc g, e), s)) else Some (Inl OutOfBounds))"
  using assms by (simp add: deadlock_turn_def okendpt_def isokendpt_f_def in_krn_def kproc_of_def iproc_of_def prog_defs
      del: NONE_def ANY_def NR_PROCS_def NR_TASKS_def RTS_SLOT_FREE_def)

text \<open>The check goes round until its array is full.\<close>

lemma deadlock_self_loop:
  assumes "isokendpt (kprocs (core s)) e = Some x" and "\<not> RTS_ISSET (kprocs (core s) x) RTS_SLOT_FREE"
    and "P_BLOCKEDON (kprocs (core s) x) (iprocs s x) = e" and "e \<noteq> NONE" and "e \<noteq> ANY" and "kp_endpoint (kprocs (core s) c) \<noteq> e"
  shows "loop_m (deadlock_turn f c) (g, e) s = Some (Inl OutOfBounds)"
proof (induction "NR_PROCS + NR_TASKS - g" arbitrary: g rule: less_induct)
  case less
  note turn = deadlock_self_turn [OF assms, of f g]
  show ?case
  proof (cases "g < NR_PROCS + NR_TASKS")
    case True
    then have "loop_m (deadlock_turn f c) (Suc g, e) s = Some (Inl OutOfBounds)"
      by (intro less) (simp del: NR_PROCS_def NR_TASKS_def)
    then show ?thesis using turn True by (subst loop_m.simps) (simp del: NR_PROCS_def NR_TASKS_def)
  next
    case False
    then show ?thesis using turn by (subst loop_m.simps) (simp del: NR_PROCS_def NR_TASKS_def)
  qed
qed

lemma deadlock_self:
  fixes s :: "'w ikrn"
  assumes core: "core_ok (core s)" and x: "names (view s) e x" "blocked_on (view s) x = e" and c: "used (view s) c" "c \<noteq> x"
  shows "deadlock f c e s = Some (Inl OutOfBounds)"
  unfolding deadlock_def
proof (rule deadlock_self_loop)
  note e = view_ends [OF core]
  show "isokendpt (kprocs (core s)) e = Some x" using view_names [OF core] x(1) by blast
  show "\<not> RTS_ISSET (kprocs (core s) x) RTS_SLOT_FREE" using x(1) unfolding names_def view_flags RTS_ISSET_flags free_slot_def by blast
  show "P_BLOCKEDON (kprocs (core s) x) (iprocs s x) = e" using x(2) by (simp only: blocked_on_view)
  show "e \<noteq> NONE" "e \<noteq> ANY" using names_none [OF e] x(1) by metis+
  show "kp_endpoint (kprocs (core s) c) \<noteq> e"
    using names_unique [OF e x(1), of c] c unfolding names_def view_flags by metis
qed

text \<open>The process is blocked on itself, without an error.\<close>

lemma receive_block_self:
  fixes s :: "'w ikrn"
  assumes core: "core_ok (core s)" and x: "able (view s) x" "names (view s) e x" and f: "flags AND NON_BLOCKING = 0"
  shows "wp (receive_block os x e flags) (\<lambda>r t. r = OK \<and> core_ok (core t) \<and> same_procs (view s) (view t) \<and> blocked_on (view t) x = e) s"
    (is "wp _ ?Q s")
proof -
  note e = view_ends [OF core]
  have b: "P_BLOCKEDON (kprocs (core s) x) (iprocs s x) = NONE" using x(1) unfolding blocked_on_view [symmetric] by (simp add: able_def blocked_on_def)
  have ok: "isokendpt (kprocs (core s)) e = Some x" "e \<noteq> ANY" using view_names [OF core] x(2) names_none(2) [OF e] by metis+
  have nf: "\<not> RTS_ISSET (kprocs (core s) x) RTS_SLOT_FREE" using x(2) unfolding names_def view_flags RTS_ISSET_flags free_slot_def by blast
  have check: "wp (deadlock RECEIVE x e) (\<lambda>r t. t = s \<and> r = 0) s"
    unfolding deadlock_def by (subst wp_loop_unfold)
      (use b ok nf in \<open>simp add: deadlock_turn_def wp_simps wp_okendpt del: NONE_def ANY_def RTS_SLOT_FREE_def\<close>)
  define u where "u = s\<lparr>iprocs := (iprocs s)(x := (iprocs s x)\<lparr>ip_getfrom_e := e\<rparr>)\<rparr>"
  have cu: "core u = core s" by (simp add: u_def)
  have fl: "RTS_RECEIVING \<noteq> 0" "RTS_RECEIVING AND RTS_SLOT_FREE = 0" by simp_all
  have fr: "\<not> free_slot (core s) x" using x(1) unfolding able_def view_flags by blast
  have "wp (in_krn (RTS_SET (io_krn os) x RTS_RECEIVING)) (\<lambda>_. ?Q OK) u"
    unfolding wp_in_krn cu
  proof (rule wp_mono [OF RTS_SET_view [OF core fr fl]], elim conjE)
    fix t :: "'w krn"
    assume t: "core_ok t" "kview t = with_flags x (\<lambda>g. g OR ipc_bits RTS_RECEIVING) (kview (core s))"
    define w where "w = view (u\<lparr>core := t\<rparr>)"
    have vw: "v_end w = v_end (view s)" "v_from w x = e" "v_bits w = (v_bits (view s))(x := v_bits (view s) x OR ipc_bits RTS_RECEIVING)"
      using view_with_flags [OF t(2)] by (auto simp: w_def u_def view_def fun_eq_iff)
    have f: "sending w y = sending (view s) y" "receiving w y \<longleftrightarrow> receiving (view s) y \<or> y = x" "used w y = used (view s) y" for y
      unfolding sending_def receiving_def used_def vw by (auto simp: bits_or simp del: RTS_SENDING_def RTS_RECEIVING_def RTS_SLOT_FREE_def)
    have "same_procs (view s) w" "blocked_on w x = e" using f vw x(1) by (simp_all add: same_procs_def blocked_on_def able_def fun_eq_iff)
    with t(1) show "?Q OK (u\<lparr>core := t\<rparr>)" by (simp add: w_def)
  qed
  then have "wp (andthen (set_iproc x (\<lambda>p. p\<lparr>ip_getfrom_e := e\<rparr>)) (andthen (in_krn (RTS_SET (io_krn os) x RTS_RECEIVING)) (ret OK))) ?Q s"
    unfolding wp_andthen set_iproc_def wp_modify wp_ret u_def .
  then show ?thesis using check unfolding receive_block_def if_P [OF f] wp_bnd
    by (elim wp_mono) (simp only: if_False simp_thms)
qed

lemma receive_queued_none:
  fixes s :: "'w ikrn"
  assumes C: "callers {} C (view s)" and n: "\<forall>y \<in> set (C c). src \<noteq> None \<and> src \<noteq> Some y"
  shows "wp (receive_queued os c src) (\<lambda>got t. \<not> got \<and> t = s) s"
proof -
  let ?stop = "\<lambda>x. src = None \<or> src = Some x"
  have st: "callq.stored c (C c) s" using callersD(1) [OF C, of c] by (simp add: q_cell_view)
  have tw: "takeWhile (\<lambda>x. \<not> ?stop x) (C c) = C c" using n by (simp add: takeWhile_eq_all_conv)
  have walked: "wp (walk (q_cell c) (\<lambda>x _. ?stop x)) (\<lambda>l t. t = s \<and> l = link_at (C c)) s"
    using callq.walk_wp [OF st, where stop = "\<lambda>x _. ?stop x"] unfolding tw .
  have "q_cell c (link_at (C c)) s = None" using chainD [of "vcell (view s) c" "C c" "[]"] callersD(1) [OF C, of c] by (simp add: q_cell_view)
  then show ?thesis unfolding receive_queued_def wp_bnd
    by (intro wp_mono [OF walked]) (simp add: wp_simps)
qed

lemma mini_receive_self:
  fixes s :: "'w ikrn"
  assumes i: "ipc_inv s" and x: "able (view s) x" "names (view s) e x" "\<not> RTS_ISSET (kprocs (core s) x) RTS_NO_ENDPOINT"
    and idle: "nothing_pending x (Some x) s" and empty: "ip_misc_flags (iprocs s x) AND MF_DELIVERMSG = 0" and f: "flags AND NON_BLOCKING = 0"
    and c: "used (view s) c" "c \<noteq> x"
  shows "wp (mini_receive os x e buf flags) (\<lambda>r t. r = OK \<and> deadlock SEND c e t = Some (Inl OutOfBounds)) s"
    (is "wp _ ?Q s")
proof -
  define u where "u = s\<lparr>iprocs := (iprocs s)(x := (iprocs s x)\<lparr>ip_delivermsg_vir := buf\<rparr>)\<rparr>"
  have vu: "view u = view s" unfolding u_def by (rule view_iprocs) auto
  have cu: "core u = core s" by (simp add: u_def)
  have core: "core_ok (core s)" and "ipc_ok (view s)" using i by (simp_all add: ipc_inv_def)
  then obtain C where C: "callers {} C (view s)" by (elim ipc_ok_butE)
  have idle': "nothing_pending x (Some x) u"
  proof -
    have "ip_priv (iprocs u y) = ip_priv (iprocs s y)" "privs u = privs s" for y by (simp_all add: u_def)
    with idle show ?thesis by (simp only: nothing_pending_def)
  qed
  have none: "wp (receive_queued os x (Some x)) (\<lambda>got t. \<not> got \<and> t = u) u"
    by (rule receive_queued_none [OF C [folded vu]]) (use callersD(2) [OF C, of x x] x(1) in \<open>auto simp: able_def\<close>)
  have "wp (receive_block os x e flags) ?Q u"
  proof (rule wp_mono [OF receive_block_self [of u x e]])
    fix r and t :: "'w ikrn"
    assume t: "r = OK \<and> core_ok (core t) \<and> same_procs (view u) (view t) \<and> blocked_on (view t) x = e"
    have "deadlock SEND c e t = Some (Inl OutOfBounds)"
      by (rule deadlock_self [of t e x]) (use t x(2) c same_procs_names [of "view u" "view t"] vu in \<open>auto simp: same_procs_def\<close>)
    with t show "?Q r t" by blast
  qed (use core cu vu x f in simp_all)
  then have "wp (receive_queued os x (Some x)) (\<lambda>got. wp (if got then andthen (unset_misc x MF_REPLY_PEND) (ret OK) else receive_block os x e flags) ?Q) u"
    by (intro wp_mono [OF none]) (auto simp only: if_False)
  then have msg: "wp (receive_message os x e (Some x)) (\<lambda>got. wp (if got then andthen (unset_misc x MF_REPLY_PEND) (ret OK) else receive_block os x e flags) ?Q) u"
    unfolding receive_message_def receive_async_def receive_notify_def by (simp add: wp_simps has_pending_none [OF idle'])
  have ns: "\<not> RTS_ISSET (kprocs (core u) x) RTS_SENDING" using x(1) unfolding able_def cu RTS_ISSET_flags view_flags by blast
  have "wp (receive_from os x e (Some x) flags) ?Q u"
    using msg ns unfolding receive_from_def wp_bnd wp_kproc_of by simp
  moreover have "isokendpt (kprocs (core u)) e = Some x" "e \<noteq> ANY"
    using view_names [OF core, of e x] names_none(2) [OF view_ends [OF core], of x] x(2) cu by auto
  ultimately have "wp (if e = ANY then receive_from os x e None flags else bnd (okendpt e) (\<lambda>x'. bnd (kproc_of x') (\<lambda>k.
      if RTS_ISSET k RTS_NO_ENDPOINT then ret (ierr os EDEADSRCDST) else receive_from os x e (Some x') flags))) ?Q u"
    using x(3) cu by (simp add: wp_bnd wp_okendpt wp_kproc_of)
  then show ?thesis
    unfolding mini_receive_def wp_bnd [of "iproc_of x"] wp_iproc_of wp_andthen wp_check set_iproc_def wp_modify u_def using empty by blast
qed

section \<open>A sender that is cancelled\<close>

text \<open>
  The process \<open>x\<close> was not the last of the queue. It keeps its link to the next one, so that it cannot
  join a queue again.
\<close>

lemma clear_ipc_stale:
  fixes s :: "'w ikrn"
  assumes i: "ipc_inv s" and C: "callers {} C (view s)" "C d = ys @ x # z # zs"
  shows "wp (clear_ipc os x) (\<lambda>_ t. \<not> sending (view t) x \<and> (\<forall>d'. join_queue x d' t = Some (Inl AssertFailed))) s"
    (is "wp _ ?Q s")
proof -
  have core: "core_ok (core s)" and ok: "ipc_ok (view s)" using i by (simp_all add: ipc_inv_def)
  have x: "sending (view s) x" "names (view s) (ip_sendto_e (iprocs s x)) d" using callersD(2) [OF C(1), of x d] C(2) by auto
  have use: "in_use (core s) x" using x(1) ok view_flags(3) [of s x] by (simp add: ipc_ok_but_def blocked_ok_def)
  have d: "isokendpt (kprocs (core s)) (ip_sendto_e (iprocs s x)) = Some d" using view_names [OF core] x(2) by blast
  have snd: "RTS_ISSET (kprocs (core s) x) RTS_SENDING" using x(1) unfolding RTS_ISSET_flags view_flags .
  have st: "callq.stored d (C d) s" using callersD(1) [OF C(1), of d] by (simp add: q_cell_view)
  have dist: "distinct (C d)" using st by (rule chain_distinct)
  have tw: "takeWhile (\<lambda>y. \<not> y = x) (C d) = ys" using dist unfolding C(2) by (subst takeWhile_append2) auto
  have cell: "q_cell d (link_at ys) s = Some x" "ip_q_link (iprocs s x) = Some z"
    using chainD [of "vcell (view s) d" ys "x # z # zs"] chainD [of "vcell (view s) d" "ys @ [x]" "z # zs"] callersD(1) [OF C(1), of d] C(2)
    by (simp_all add: q_cell_view vcell_def)
  let ?t = "set_q_cell d (link_at ys) (Some z) s"
  have leave: "wp (leave_queue x d) (\<lambda>_ t. t = ?t) s"
    unfolding leave_queue_def wp_bnd
    by (rule wp_mono [OF callq.walk_wp [OF st, where stop = "\<lambda>y _. y = x"]]) (simp add: tw cell wp_simps)
  have "x \<notin> set ys" using dist unfolding C(2) by simp
  then have "link_at ys \<noteq> Next x" by (auto simp: link_at_def)
  then have link: "ip_q_link (iprocs ?t x) = Some z" using cell(2) by (cases "link_at ys") (auto simp: set_q_cell_def)
  have stale: "join_queue x d' (?t\<lparr>core := k\<rparr>) = Some (Inl AssertFailed)" for d' k
    using link by (simp add: join_queue_def iproc_of_def prog_defs)
  have "wp (RTS_UNSET (io_krn os) x RTS_SENDING) (\<lambda>_. wp (RTS_UNSET (io_krn os) x RTS_RECEIVING) (\<lambda>_ k. ?Q () (?t\<lparr>core := k\<rparr>))) (core s)"
  proof (rule wp_mono [OF RTS_UNSET_view [OF core use]], elim conjE)
    fix k :: "'w krn"
    assume k: "core_ok k" "kview k = with_flags x (\<lambda>g. g AND NOT RTS_SENDING) (kview (core s))"
    have "snd (kview k x) AND RTS_SENDING = 0" "snd (kview k x) AND RTS_SLOT_FREE = snd (kview (core s) x) AND RTS_SLOT_FREE"
      unfolding k(2) with_flags_def by (simp_all add: and_not_swap and.assoc)
    then have b: "snd (kview k x) AND RTS_SENDING = 0" "in_use k x"
      using use unfolding free_slot_def kview_def snd_conv ipc_bits_and by simp_all
    show "wp (RTS_UNSET (io_krn os) x RTS_RECEIVING) (\<lambda>_ k. ?Q () (?t\<lparr>core := k\<rparr>)) k"
    proof (rule wp_mono [OF RTS_UNSET_view [OF k(1) b(2)]], elim conjE)
      fix k' :: "'w krn"
      assume k': "kview k' = with_flags x (\<lambda>g. g AND NOT RTS_RECEIVING) (kview k)"
      have "\<not> sending (view (?t\<lparr>core := k'\<rparr>)) x"
        unfolding sending_def view_def by (simp add: k' with_flags_def and_not_swap b(1) del: RTS_SENDING_def RTS_RECEIVING_def)
      with stale show "?Q () (?t\<lparr>core := k'\<rparr>)" by blast
    qed
  qed
  then have "wp (in_krn (RTS_UNSET (io_krn os) x RTS_SENDING)) (\<lambda>_. wp (in_krn (RTS_UNSET (io_krn os) x RTS_RECEIVING)) ?Q) ?t"
    by (simp add: wp_in_krn)
  then have "wp (leave_queue x d) (\<lambda>_. wp (in_krn (RTS_UNSET (io_krn os) x RTS_SENDING)) (\<lambda>_. wp (in_krn (RTS_UNSET (io_krn os) x RTS_RECEIVING)) ?Q)) s"
    by (intro wp_mono [OF leave]) simp
  then show ?thesis using snd d unfolding clear_ipc_def by (simp add: wp_bnd wp_andthen wp_kproc_of wp_iproc_of wp_okendpt del: RTS_SENDING_def RTS_RECEIVING_def)
qed

end
