(* ===== verification/Ipc_Properties.thy ===== *)
theory Ipc_Properties
  imports Krn_Properties Ipc_Faults
begin

text \<open>
  The properties of message passing in the kernel, each with an instance on a small example.
\<close>

section \<open>Examples\<close>

text \<open>
  Three processes: the current one in slot 10 with endpoint 5, and those in slots 8 and 9 with
  endpoints 3 and 4. The parameters are the flags of the latter two, and the first sender in the
  queue of slot 10 with its link. Every message copied from a process is \<open>ex_ipc_msg\<close>.
\<close>

definition ex_ipc_msg :: ipc_msg where
  "ex_ipc_msg = \<lparr>im_source = 0, im_type = 7, im_payload = replicate 56 1\<rparr>"

definition ex_ipc_os :: "unit ipc_os" where
  "ex_ipc_os = \<lparr>io_krn = ex_krn_os, io_copy_msg = \<lambda>cur buf old w. ((True, ex_ipc_msg), w), io_retrieve = \<lambda>e a w. (None, w),
     io_insert = \<lambda>e a m w. (False, w), io_errno = \<lambda>e. 200, io_signo = \<lambda>n. 1, io_lethal = \<lambda>n. False\<rparr>"

definition ex_ipc_table :: "u32 \<Rightarrow> u32 \<Rightarrow> nat \<Rightarrow> kproc" where
  "ex_ipc_table f8 f9 x =
     (if x = 10 then zero_kproc\<lparr>kp_endpoint := 5, kp_priority := 14, kp_cpu_time_left := 9, kp_s_flags := 2\<rparr>
      else if x = 8 then zero_kproc\<lparr>kp_endpoint := 3, kp_rts_flags := f8, kp_priority := 12\<rparr>
      else if x = 9 then zero_kproc\<lparr>kp_endpoint := 4, kp_rts_flags := f9, kp_priority := 12\<rparr>
      else zero_kproc\<lparr>kp_rts_flags := 1\<rparr>)"

definition ex_iproc :: iproc where
  "ex_iproc = \<lparr>ip_priv = Some 0, ip_misc_flags = 0, ip_caller_q = None, ip_q_link = None, ip_getfrom_e = ANY, ip_sendto_e = 5,
     ip_pending = 0, ip_sendmsg = ex_ipc_msg\<lparr>im_type := 8\<rparr>, ip_delivermsg = ex_ipc_msg, ip_delivermsg_vir = 0, ip_status = 0,
     ip_retreg = 0, ip_bx = 0, ip_defer = (0, 0, 0), ip_signal_received = 0\<rparr>"

definition ex_priv :: priv where
  "ex_priv = \<lparr>s_proc_nr = 5, s_asyntab = 0, s_asynsize = 0, s_trap_mask = 0xFFFF, s_ipc_to = [0xFF, 0], s_sig_mgr = 0,
     s_bak_sig_mgr = 0, s_notify_pending = [0, 0], s_asyn_pending = [0, 0], s_int_pending = 0, s_sig_pending = 0, s_diag_sig = False\<rparr>"

definition ex_ipc :: "u32 \<Rightarrow> u32 \<Rightarrow> ptr \<Rightarrow> ptr \<Rightarrow> unit ikrn" where
  "ex_ipc f8 f9 q l = \<lparr>core = ex_krn\<lparr>kprocs := ex_ipc_table f8 f9\<rparr>,
     iprocs = \<lambda>x. if x = 10 then ex_iproc\<lparr>ip_caller_q := q\<rparr> else if x = 8 then ex_iproc\<lparr>ip_q_link := l\<rparr> else ex_iproc,
     privs = \<lambda>_. ex_priv, kbill_ipc = None, minix_kerninfo_user = 0\<rparr>"

lemma ex_ipc_fields [simp]:
  "kprocs (core (ex_ipc f8 f9 q l)) = ex_ipc_table f8 f9" "proc_ptr (core (ex_ipc f8 f9 q l)) = Some 10" "p_world (core (ex_ipc f8 f9 q l)) = ()"
  "privs (ex_ipc f8 f9 q l) = (\<lambda>_. ex_priv)"
  "iprocs (ex_ipc f8 f9 q l) = (\<lambda>x. if x = 10 then ex_iproc\<lparr>ip_caller_q := q\<rparr> else if x = 8 then ex_iproc\<lparr>ip_q_link := l\<rparr> else ex_iproc)"
  by (simp_all add: ex_ipc_def ex_krn_def)

lemma ex_ipc_at [simp]:
  "ex_ipc_table f8 f9 10 = zero_kproc\<lparr>kp_endpoint := 5, kp_priority := 14, kp_cpu_time_left := 9, kp_s_flags := 2\<rparr>"
  "ex_ipc_table f8 f9 8 = zero_kproc\<lparr>kp_endpoint := 3, kp_rts_flags := f8, kp_priority := 12\<rparr>"
  "ex_ipc_table f8 f9 9 = zero_kproc\<lparr>kp_endpoint := 4, kp_rts_flags := f9, kp_priority := 12\<rparr>"
  by (simp_all add: ex_ipc_table_def)

lemma ex_ipc_flags: "kp_rts_flags (ex_ipc_table f8 f9 x) = (if x = 10 then 0 else if x = 8 then f8 else if x = 9 then f9 else 1)"
  "kp_endpoint (ex_ipc_table f8 f9 x) = (if x = 10 then 5 else if x = 8 then 3 else if x = 9 then 4 else 0)"
  by (simp_all add: ex_ipc_table_def zero_kproc_def)

text \<open>The flags of the two processes that the examples use.\<close>

definition ex_flags :: "u32 set" where
  "ex_flags = {0x8000, RTS_SENDING, RTS_RECEIVING}"

lemma ex_flagsD: "f \<in> ex_flags \<Longrightarrow> f \<noteq> 0" "f \<in> ex_flags \<Longrightarrow> f AND RTS_SLOT_FREE = 0" "f \<in> ex_flags \<Longrightarrow> f \<noteq> RTS_SLOT_FREE"
  by (auto simp: ex_flags_def)

lemma ex_ipc_core:
  assumes "f8 \<in> ex_flags" and "f9 \<in> ex_flags"
  shows "core_ok (core (ex_ipc f8 f9 q l))"
proof -
  let ?k = "core (ex_ipc f8 f9 q l)"
  have run: "proc_is_runnable (ex_ipc_table f8 f9 x) \<longleftrightarrow> x = 10" for x
    using ex_flagsD(1) assms by (auto simp: proc_is_runnable_def ex_ipc_flags)
  have "run_queue n (ex_queues n) ?k" for n
    by (cases "n = 14") (simp_all add: chain_def run_cell_def ex_ipc_def ex_krn_def ex_queues_def zero_kproc_def ex_ipc_table_def)
  then have "ready ex_queues ?k"
    unfolding ready_but_def queues_def by (auto simp: run ex_queues_def ex_ipc_def ex_krn_def last_of_def queue_of_def, simp add: proc_is_runnable_def zero_kproc_def)
  moreover have "fine x (kcores ?k x)" for x
    unfolding fine_kcore by (auto simp: fine_def in_range_def queue_of_def stopped_def ex_ipc_table_def zero_kproc_def)
  ultimately have "krn_inv ?k" by (intro krn_invI [where c = 10]) auto
  moreover have free: "free_slot ?k x \<longleftrightarrow> x \<notin> {8, 9, 10}" for x
    using ex_flagsD(2) assms by (auto simp: free_slot_def ex_ipc_flags)
  moreover have "endpoint_p (kp_endpoint (kprocs ?k x)) = p_nr x" if "x \<in> {8, 9, 10}" for x
    using that by (auto simp: endpoint_p_mod p_nr_def ex_ipc_flags)
  ultimately show ?thesis by (auto simp: core_ok_def ex_ipc_flags)
qed

lemma ex_ipc_view:
  fixes q l :: ptr
  assumes "f8 \<in> ex_flags" and "f9 \<in> ex_flags"
  defines "v \<equiv> view (ex_ipc f8 f9 q l)"
  shows "used v x \<longleftrightarrow> x \<in> {8, 9, 10}"
    "sending v x \<longleftrightarrow> x = 8 \<and> f8 = RTS_SENDING \<or> x = 9 \<and> f9 = RTS_SENDING"
    "receiving v x \<longleftrightarrow> x = 8 \<and> f8 = RTS_RECEIVING \<or> x = 9 \<and> f9 = RTS_RECEIVING"
    "v_end v x = (if x = 10 then 5 else if x = 8 then 3 else if x = 9 then 4 else 0)" "v_to v x = 5" "v_from v x = ANY"
  using assms(1,2) unfolding v_def view_flags free_slot_def
  by (auto simp: ex_ipc_flags ex_flags_def ex_iproc_def)

lemma ex_names:
  assumes "f8 \<in> ex_flags" and "f9 \<in> ex_flags"
  shows "names (view (ex_ipc f8 f9 q l)) 5 10" "names (view (ex_ipc f8 f9 q l)) 3 8"
  unfolding names_def by (simp_all add: ex_ipc_view [OF assms])

lemma ex_ipc_inv:
  assumes f: "f8 \<in> ex_flags" "f9 \<in> ex_flags" and C: "callers {} C (view (ex_ipc f8 f9 q l))"
  shows "ipc_inv (ex_ipc f8 f9 q l)"
proof -
  let ?v = "view (ex_ipc f8 f9 q l)"
  note v = ex_ipc_view [OF f, of q l]
  have e: "ends_ok ?v" using view_ends [OF ex_ipc_core [OF f]] .
  have "blocked_ok ?v" using ex_names(1) [OF f, of q l] unfolding blocked_ok_def v by auto
  moreover have "waits ?v \<subseteq> {8, 9} \<times> {10}"
  proof (intro subrelI)
    fix x y assume "(x, y) \<in> waits ?v"
    then have n: "names ?v (blocked_on ?v x) y" by (simp add: waits_def)
    then have s: "sending ?v x" using names_none [OF e, of y] unfolding blocked_on_def v(6) by (auto split: if_splits simp del: ANY_def NONE_def)
    then have "y = 10" using n names_unique [OF e ex_names(1) [OF f, of q l]] unfolding blocked_on_def v(5) by simp
    with s show "(x, y) \<in> {8, 9} \<times> {10}" unfolding v by auto
  qed
  then have "waits ?v \<subseteq> measure (\<lambda>x. x)" by (rule subset_trans) auto
  then have "wf (waits ?v)" using wf_subset [OF wf_measure] by blast
  then have "acyclic (waits ?v)" by (rule wf_acyclic)
  ultimately show ?thesis using e C ex_ipc_core [OF f] by (auto simp: ipc_inv_def ipc_ok_but_def)
qed

text \<open>Nobody sends; and both send to the process in slot 10.\<close>

definition ex_queue :: "nat \<Rightarrow> nat list" where
  "ex_queue = (\<lambda>_. [])(10 := [8, 9])"

lemma ex_callers:
  "f8 \<in> {0x8000, RTS_RECEIVING} \<Longrightarrow> callers {} (\<lambda>_. []) (view (ex_ipc f8 0x8000 None None))"
  "callers {} ex_queue (view (ex_ipc RTS_SENDING RTS_SENDING (Some 8) (Some 9)))"
proof -
  have f: "0x8000 \<in> ex_flags" "RTS_SENDING \<in> ex_flags" by (simp_all add: ex_flags_def)
  have "f8 \<in> ex_flags \<and> f8 \<noteq> RTS_SENDING" if "f8 \<in> {0x8000, RTS_RECEIVING}" using that by (auto simp: ex_flags_def)
  then show "callers {} (\<lambda>_. []) (view (ex_ipc f8 0x8000 None None))" if "f8 \<in> {0x8000, RTS_RECEIVING}"
    using that f(1) unfolding callers_def by (auto simp: ex_ipc_view chain_def vcell_def ex_iproc_def)
  have v: "names (view (ex_ipc RTS_SENDING RTS_SENDING (Some 8) (Some 9))) 5 d \<longleftrightarrow> d = 10" for d
    using ex_names(1) [OF f(2,2)] names_unique [OF view_ends [OF ex_ipc_core [OF f(2,2)]]] by blast
  show "callers {} ex_queue (view (ex_ipc RTS_SENDING RTS_SENDING (Some 8) (Some 9)))"
    unfolding callers_def ex_ipc_view [OF f(2,2)] v by (auto simp: chain_def vcell_def ex_iproc_def ex_queue_def)
qed

lemma ex_ipc_trap:
  "(case do_ipc ex_ipc_os 2 ANY 0 (ex_ipc 0x8000 0x8000 None None) of
      Some (Inr (r, t)) \<Rightarrow> r = OK \<and> kp_rts_flags (kprocs (core t) 10) = 8 | _ \<Rightarrow> False)"
  by code_simp

lemmas ex_rest = ex_ipc_inv [OF _ _ ex_callers(1)]
lemmas ex_busy = ex_ipc_inv [OF _ _ ex_callers(2)]

lemma ex_able: "f8 \<in> ex_flags \<Longrightarrow> f9 \<in> ex_flags \<Longrightarrow> able (view (ex_ipc f8 f9 q l)) 10"
  unfolding able_def by (simp add: ex_ipc_view)

section \<open>Waiting\<close>

text \<open>
  C34. However processes send, receive and notify, whatever signals they get and whenever they are
  stopped, resumed and switched to: the processes that wait for each other never form a cycle, and
  from every waiting process the way leads to one that waits for nobody in particular. The queue of
  each process holds exactly those that wait to send to it, each once, and the run queues hold
  exactly the runnable processes. No process is taken to name itself in a call, and no process ends.
\<close>

theorem no_deadlock_in_every_run:
  assumes "ipc_run os s"
  shows "acyclic (waits (view s)) \<and> (\<forall>x. \<exists>y. (x, y) \<in> (waits (view s))\<^sup>* \<and> blocked_on (view s) y \<in> {NONE, ANY})
    \<and> (\<exists>C. callers {} C (view s)) \<and> (\<exists>Q. ready Q (core s))"
proof -
  have "ipc_inv s" using assms by (rule ipc_run_inv)
  then have ok: "ipc_ok (view s)" and r: "\<exists>Q. ready Q (core s)" by (simp_all add: ipc_inv_def core_ok_def krn_inv_def)
  then have b: "blocked_ok (view s)" "acyclic (waits (view s))" "\<exists>C. callers {} C (view s)" by (auto simp: ipc_ok_but_def)
  have "\<exists>y. (x, y) \<in> (waits (view s))\<^sup>* \<and> blocked_on (view s) y \<in> {NONE, ANY}" for x
    using waits_wf [OF ok]
  proof (induction x rule: wf_induct_rule)
    case (less x)
    show ?case
    proof (cases "blocked_on (view s) x \<in> {NONE, ANY}")
      case False
      then have "sending (view s) x \<or> receiving (view s) x" by (auto simp: blocked_on_def split: if_splits)
      with blocked_on_ok [OF b(1)] False obtain y where "(x, y) \<in> waits (view s)" by (auto simp: waits_def)
      with less show ?thesis by (meson converse_rtrancl_into_rtrancl converseI)
    qed blast
  qed
  with b r show ?thesis by blast
qed

theorem no_deadlock_in_every_run_witness:
  "\<exists>t. ipc_run ex_ipc_os t \<and> receiving (view t) 10 \<and> acyclic (waits (view t))"
proof -
  let ?s = "ex_ipc 0x8000 0x8000 None None"
  have f: "0x8000 \<in> ex_flags" by (simp add: ex_flags_def)
  have "quiet ?s" using ex_ipc_core [OF f f] by (auto simp: quiet_def ex_ipc_flags ex_iproc_def)
  then have r: "ipc_run ex_ipc_os ?s" by (rule ipc_run.start)
  obtain r t where t: "do_ipc ex_ipc_os 2 ANY 0 ?s = Some (Inr (r, t))" "kp_rts_flags (kprocs (core t) 10) = 8"
    using ex_ipc_trap by (auto split: option.splits sum.splits)
  have "ipc_run ex_ipc_os t"
    by (rule ipc_run.trap [OF r _ _ _ t(1)]) (simp_all add: proc_is_runnable_def ex_ipc_flags)
  moreover have "receiving (view t) 10" unfolding view_flags t(2) by simp
  ultimately show ?thesis using no_deadlock_in_every_run by blast
qed

text \<open>
  C35. The check for deadlocks always returns and changes nothing. In a state without a cycle of
  waiting processes, its result is not zero exactly when the process that calls would close a cycle
  by waiting for \<open>y\<close>, apart from a pair of which one sends to the other and the other receives
  from it.
\<close>

theorem deadlock_check_is_exact:
  assumes "ipc_inv s" and "function' = SEND \<or> function' = RECEIVE" and "used (view s) c" and "names (view s) e y" and "y \<noteq> c"
  shows "wp (deadlock function' c e) (\<lambda>r t. t = s
    \<and> (r \<noteq> 0 \<longleftrightarrow> (y, c) \<in> (waits (view s))\<^sup>* \<and> \<not> ((y, c) \<in> waits (view s) \<and> matching function' (view s) y))) s"
  using deadlock_wp [OF _ _ assms(2-5)] assms(1) unfolding ipc_inv_def by blast

text \<open>The process in slot 8 waits to send to the caller: to send to it as well would be a deadlock.\<close>

theorem deadlock_check_is_exact_witness:
  "wp (deadlock SEND 10 3) (\<lambda>r _. r \<noteq> 0) (ex_ipc RTS_SENDING RTS_SENDING (Some 8) (Some 9))"
proof -
  let ?s = "ex_ipc RTS_SENDING RTS_SENDING (Some 8) (Some 9)"
  have f: "RTS_SENDING \<in> ex_flags" by (simp add: ex_flags_def)
  note v = ex_ipc_view [OF f f, of "Some 8" "Some 9"]
  have h: "SEND = SEND \<or> SEND = RECEIVE" "used (view ?s) 10" "(8 :: nat) \<noteq> 10" unfolding v by simp_all
  have "sending (view ?s) 8" unfolding v by simp
  then have "(8, 10) \<in> waits (view ?s)" "\<not> matching SEND (view ?s) 8"
    using ex_names(1) [OF f f, of "Some 8" "Some 9"] unfolding waits_def blocked_on_def matching_def v(5) by simp_all
  then show ?thesis
    by (intro wp_mono [OF deadlock_check_is_exact [OF ex_busy [OF f f] h(1,2) ex_names(2) [OF f f] h(3)]]) blast
qed

section \<open>Messages\<close>



text \<open>
  C37. A message to a process that does not wait for it: when the destination waits for the sender,
  directly or through others, the call fails with \<open>ELOCKED\<close> and nothing has changed; otherwise the
  sender is blocked on the destination with the message in its own entry, at the end of the queue
  of the destination, and all other queues are as before.
\<close>

theorem blocked_sender_joins_queue:
  assumes "ipc_inv s" and "callers {} C (view s)" and "able (view s) c" and "names (view s) e d" and "d \<noteq> c"
    and "\<not> RTS_ISSET (kprocs (core s) d) RTS_NO_ENDPOINT"
    and "\<not> WILLRECEIVE (kprocs (core s) d) (iprocs s d) (kp_endpoint (kprocs (core s) c))" and "flags AND NON_BLOCKING = 0"
    and "io_copy_msg os (proc_ptr (core s)) buf (ip_sendmsg (iprocs s c)) (p_world (core s)) = ((True, m), w)"
  shows "wp (mini_send os c e (From_User buf) flags)
    (\<lambda>r t. ipc_inv t \<and> (if (d, c) \<in> (waits (view s))\<^sup>* then r = ierr os ELOCKED \<and> t = s else r = OK \<and> queued c e d m C t)) s"
  using assms by (rule mini_send_blocked)

theorem blocked_sender_joins_queue_witness:
  "wp (mini_send ex_ipc_os 10 3 (From_User 0) 0) (\<lambda>r t. r = OK \<and> sending (view t) 10 \<and> ip_caller_q (iprocs t 8) = Some 10
     \<and> ip_sendmsg (iprocs t 10) = ex_ipc_msg) (ex_ipc 0x8000 0x8000 None None)"
proof -
  let ?s = "ex_ipc 0x8000 0x8000 None None"
  have f: "0x8000 \<in> ex_flags" and f': "0x8000 \<in> {0x8000, RTS_RECEIVING}" by (simp_all add: ex_flags_def)
  have h: "(8 :: nat) \<noteq> 10" "\<not> RTS_ISSET (kprocs (core ?s) 8) RTS_NO_ENDPOINT"
    "\<not> WILLRECEIVE (kprocs (core ?s) 8) (iprocs ?s 8) (kp_endpoint (kprocs (core ?s) 10))" "0 AND NON_BLOCKING = 0"
    "io_copy_msg ex_ipc_os (proc_ptr (core ?s)) 0 (ip_sendmsg (iprocs ?s 10)) (p_world (core ?s)) = ((True, ex_ipc_msg), ())"
    by (simp_all add: RTS_ISSET_def WILLRECEIVE_def ex_ipc_flags ex_ipc_os_def)
  have "(8, 10) \<notin> (waits (view ?s))\<^sup>*"
  proof
    assume "(8, 10) \<in> (waits (view ?s))\<^sup>*"
    then obtain y where "(8, y) \<in> waits (view ?s)" by (cases rule: converse_rtranclE) auto
    then show False using names_none(1) [OF view_ends [OF ex_ipc_core [OF f f]]]
      unfolding waits_def blocked_on_def ex_ipc_view [OF f f] by simp
  qed
  moreover have "ip_caller_q (iprocs t 8) = Some 10" if "callers {} ((\<lambda>_. [])(8 := [] @ [10])) (view t)" for t :: "unit ikrn"
    using callersD(1) [OF that, of 8] by (simp add: chain_def vcell_def)
  ultimately show ?thesis
    by (intro wp_mono [OF blocked_sender_joins_queue [OF ex_rest [OF f f f'] ex_callers(1) [OF f'] ex_able [OF f f] ex_names(2) [OF f f] h]])
      (simp add: queued_def)
qed

text \<open>
  C38. A process that receives while others wait to send to it, and no notification and no
  asynchronous message is pending: it gets the message of the first sender in its queue that it
  accepts, marked with the endpoint of that sender; the sender leaves the queue, the order of the
  others stays, and the sender no longer waits and is runnable again when it waited for nothing
  else.
\<close>

theorem receiver_takes_first_sender:
  assumes "ipc_inv s" and "able (view s) c" and "source_ok c e src s" and "nothing_pending c src s"
    and "callers {} C (view s)" and "C c = ys @ x # zs"
    and "\<forall>y \<in> set ys. src \<noteq> None \<and> src \<noteq> Some y" and "src = None \<or> src = Some x"
    and "x \<noteq> c" and "\<not> RTS_ISSET (kprocs (core s) x) RTS_NO_ENDPOINT"
    and "ip_misc_flags (iprocs s c) AND MF_DELIVERMSG = 0" and "ip_misc_flags (iprocs s x) AND MF_SIG_DELAY = 0"
  shows "wp (mini_receive os c e buf flags) (\<lambda>r t. ipc_inv t \<and> r = OK \<and> callers {} (C(c := ys @ zs)) (view t) \<and> \<not> sending (view t) x
    \<and> handed (ip_sendmsg (iprocs s x)) (kp_endpoint (kprocs (core s) x)) (iprocs t c)
    \<and> (kp_rts_flags (kprocs (core s) x) = RTS_SENDING \<and> proc_ptr (core s) \<noteq> Some x \<longrightarrow> proc_is_runnable (kprocs (core t) x))) s"
  using assms by (rule mini_receive_queued)

theorem receiver_takes_first_sender_witness:
  "wp (mini_receive ex_ipc_os 10 ANY 0 0) (\<lambda>r t. r = OK \<and> ip_delivermsg (iprocs t 10) = ex_ipc_msg\<lparr>im_source := 3, im_type := 8\<rparr>
     \<and> proc_is_runnable (kprocs (core t) 8) \<and> ip_caller_q (iprocs t 10) = Some 9) (ex_ipc RTS_SENDING RTS_SENDING (Some 8) (Some 9))"
proof -
  let ?s = "ex_ipc RTS_SENDING RTS_SENDING (Some 8) (Some 9)"
  have f: "RTS_SENDING \<in> ex_flags" by (simp add: ex_flags_def)
  have bits: "\<not> GET_BIT [0, 0] k" if "k < 64" for k
  proof -
    have "k div 32 = 0 \<or> k div 32 = 1" using that by auto
    then show ?thesis by (auto simp: GET_BIT_def)
  qed
  have h: "source_ok 10 ANY None ?s" "nothing_pending 10 None ?s" "ex_queue 10 = [] @ 8 # [9]"
    "\<forall>y \<in> set []. None \<noteq> None \<and> None \<noteq> Some (y :: nat)" "None = None \<or> None = Some (8 :: nat)" "(8 :: nat) \<noteq> 10"
    "\<not> RTS_ISSET (kprocs (core ?s) 8) RTS_NO_ENDPOINT"
    "ip_misc_flags (iprocs ?s 10) AND MF_DELIVERMSG = 0" "ip_misc_flags (iprocs ?s 8) AND MF_SIG_DELAY = 0"
    by (simp_all add: source_ok_def nothing_pending_def ex_queue_def RTS_ISSET_def ex_ipc_flags ex_iproc_def ex_priv_def bits)
  have "ip_caller_q (iprocs t 10) = Some 9" if "callers {} (ex_queue(10 := [] @ [9])) (view t)" for t :: "unit ikrn"
    using callersD(1) [OF that, of 10] by (simp add: chain_def vcell_def)
  then show ?thesis
    by (intro wp_mono [OF receiver_takes_first_sender [OF ex_busy [OF f f] ex_able [OF f f] h(1,2) ex_callers(2) h(3-9)]])
      (simp add: handed_def ex_ipc_flags ex_iproc_def)
qed

section \<open>Faults\<close>

text \<open>
  C39. A process may receive from itself; the kernel accepts the call and blocks it without an
  error. From then on, the check for deadlocks of any other process that is about to send to it
  goes round in a circle and writes behind the end of its array.
\<close>

theorem self_receive_breaks_deadlock_check:
  assumes "ipc_inv s" and "able (view s) x" and "names (view s) e x" and "\<not> RTS_ISSET (kprocs (core s) x) RTS_NO_ENDPOINT"
    and "nothing_pending x (Some x) s" and "ip_misc_flags (iprocs s x) AND MF_DELIVERMSG = 0" and "flags AND NON_BLOCKING = 0"
    and "used (view s) c" and "c \<noteq> x"
  shows "wp (mini_receive os x e buf flags) (\<lambda>r t. r = OK \<and> deadlock SEND c e t = Some (Inl OutOfBounds)) s"
  using assms by (rule mini_receive_self)

theorem self_receive_breaks_deadlock_check_witness:
  "wp (mini_receive ex_ipc_os 10 5 0 0) (\<lambda>r t. r = OK \<and> deadlock SEND 8 5 t = Some (Inl OutOfBounds)) (ex_ipc 0x8000 0x8000 None None)"
proof -
  let ?s = "ex_ipc 0x8000 0x8000 None None"
  have f: "0x8000 \<in> ex_flags" and f': "0x8000 \<in> {0x8000, RTS_RECEIVING}" by (simp_all add: ex_flags_def)
  have h: "\<not> RTS_ISSET (kprocs (core ?s) 10) RTS_NO_ENDPOINT" "nothing_pending 10 (Some 10) ?s"
    "ip_misc_flags (iprocs ?s 10) AND MF_DELIVERMSG = 0" "0 AND NON_BLOCKING = 0"
    by (simp_all add: nothing_pending_def RTS_ISSET_def zero_kproc_def ex_iproc_def ex_priv_def GET_BIT_def)
  have c: "used (view ?s) 8" "(8 :: nat) \<noteq> 10" unfolding ex_ipc_view [OF f f] by simp_all
  show ?thesis by (rule self_receive_breaks_deadlock_check [OF ex_rest [OF f f f'] ex_able [OF f f] ex_names(1) [OF f f] h c])
qed

text \<open>
  C40. A sender that is taken out of a queue by \<open>clear_ipc\<close> while another one is behind it keeps
  the link to that one: it no longer sends, but the next time it has to wait for a destination the
  kernel stops at the assertion that its link is empty.
\<close>

theorem cancelled_sender_keeps_link:
  assumes "ipc_inv s" and "callers {} C (view s)" and "C d = ys @ x # z # zs"
  shows "wp (clear_ipc os x) (\<lambda>_ t. \<not> sending (view t) x \<and> (\<forall>d'. join_queue x d' t = Some (Inl AssertFailed))) s"
  using assms by (rule clear_ipc_stale)

theorem cancelled_sender_keeps_link_witness:
  "wp (clear_ipc ex_ipc_os 8) (\<lambda>_ t. \<not> sending (view t) 8 \<and> join_queue 8 9 t = Some (Inl AssertFailed))
     (ex_ipc RTS_SENDING RTS_SENDING (Some 8) (Some 9))"
proof -
  have f: "RTS_SENDING \<in> ex_flags" by (simp add: ex_flags_def)
  have "ex_queue 10 = [] @ 8 # 9 # []" by (simp add: ex_queue_def)
  from cancelled_sender_keeps_link [OF ex_busy [OF f f] ex_callers(2) this] show ?thesis by (rule wp_mono) blast
qed

end
