(* ===== verification/Spec2Isabelle.thy ===== *)
theory Spec2Isabelle
  imports Fat32_Properties Ds_Properties Ipc_Properties
begin

text \<open>
  The repository is MINIX 3.3 with a server for FAT32 volumes. MINIX is a microkernel: the kernel
  schedules processes and passes messages, and everything else is a process that receives requests
  in a loop and answers them. This development models these parts of it and how they fit together.
  All paths below are relative to \<open>src/usr/src/minix\<close>.

  \<^item> The FAT32 server (\<open>servers/fat32s\<close>) mounts a volume and answers cd, ls, pwd, cat and stat; its
    client stubs are in \<open>lib/libsys/fat32s.c\<close>.
  \<^item> The data store (\<open>servers/ds\<close>) keeps published values, labels and subscriptions of system
    processes; its client stubs are in \<open>lib/libsys/ds.c\<close>.
  \<^item> The scheduler (\<open>servers/sched\<close>) decides on priorities and time slices, with the timers of
    \<open>lib/libtimers\<close> and \<open>lib/libsys/timers.c\<close>, and tells the kernel by kernel calls.
  \<^item> The kernel (\<open>kernel\<close>) keeps the queues of runnable processes, obeys the kernel calls of the
    scheduler and chooses who runs. It passes the messages: synchronous ones, for which sender and
    receiver wait for each other, notifications and asynchronous ones.

  \<^bold>\<open>Language.\<close> \<^verbatim>\<open>C_Prelude\<close> has the monad in which all C code is written. A program maps a state to
  nothing (it does not return), to a fault (division by zero, access out of bounds, null or
  uninitialised pointer, failed assertion, panic), or to a result and a new state. Loops are one
  combinator that is defined without fuel, as a \<open>partial_function\<close> in the option type, so a loop
  that does not end has the value \<open>None\<close>. \<open>wp\<close> is total correctness: the program returns, without a
  fault, and the result satisfies the postcondition. \<open>wlp\<close> is partial correctness and is used for
  invariants only. Machine integers are words of their width. \<^verbatim>\<open>C_Lib\<close> has strings, byte order and
  \<open>printf\<close> conversions, \<^verbatim>\<open>Minix_Base\<close> error numbers, console and heap, \<^verbatim>\<open>C_Chain\<close> singly linked
  lists with pointers to links (locale \<open>linked_list\<close>, for the timers, the run queues and
  the queues of senders), and \<^verbatim>\<open>C_Service\<close> the loop of a server (locale \<open>service\<close>, for the three servers): start, then turns
  that receive, handle and answer.

  \<^bold>\<open>FAT32 server.\<close> \<^verbatim>\<open>Fat32_Glo\<close> has the structures of \<open>glo.h\<close> with the decoders of the packed
  ones, \<^verbatim>\<open>Fat32_Util\<close> \<open>util.c\<close> (sector cache, FAT access, names), \<^verbatim>\<open>Fat32_Tree\<close> \<open>tree.c\<close> (moving in
  directories), \<^verbatim>\<open>Fat32_Print\<close> \<open>print.c\<close>, \<^verbatim>\<open>Fat32_Read\<close> \<open>read.c\<close> (the commands), \<^verbatim>\<open>Fat32_Mount\<close>
  \<open>mount.c\<close>, and \<^verbatim>\<open>Fat32_Server\<close> \<open>fat32.c\<close>, \<open>main.c\<close> and the stubs. \<^verbatim>\<open>Fat32_Disk\<close>, \<^verbatim>\<open>Fat32_Dir\<close> and
  \<^verbatim>\<open>Fat32_Path\<close> specify an image as a tree of directories, the children of a directory with their
  long names, and the resolution of a path; the lemmas there and in \<^verbatim>\<open>Fat32_Frame\<close>,
  \<^verbatim>\<open>Fat32_Position\<close>, \<^verbatim>\<open>Fat32_Pwd\<close>, \<^verbatim>\<open>Fat32_Requests\<close>, \<^verbatim>\<open>Fat32_Service\<close> and \<^verbatim>\<open>Fat32_Session\<close> show
  that the code implements them. \<^verbatim>\<open>Fat32_Properties\<close> (C1 to C13): the commands print what the image
  holds and come back, the lookups terminate on valid images, the cache is coherent, the active
  directory is at the start of a cluster between requests; and what goes wrong in failed mounts, in
  \<open>_pwd\<close> and in \<open>fat_set\<close>. Instances run on the image of \<^verbatim>\<open>Fat32_Example\<close>. System calls (device,
  copies, grants) are parameters.

  \<^bold>\<open>Data store.\<close> \<^verbatim>\<open>Ds_Store\<close> has the tables and handlers of \<open>store.c\<close>, \<^verbatim>\<open>Ds_Server\<close> the loop of
  \<open>main.c\<close>, \<^verbatim>\<open>Ds_Client\<close> the stubs. \<^verbatim>\<open>Ds_Map\<close> and \<^verbatim>\<open>Ds_Spec\<close> give the abstract store, a map from types
  and keys to owners, flags and values; \<^verbatim>\<open>Ds_Access\<close>, \<^verbatim>\<open>Ds_Notify\<close> and \<^verbatim>\<open>Ds_Label\<close> treat access
  rights, subscriptions and labels, \<^verbatim>\<open>Ds_Inv\<close> and \<^verbatim>\<open>Ds_Service\<close> the invariant of the tables, and
  \<^verbatim>\<open>Ds_Link\<close> puts clients, grants and the server together. \<^verbatim>\<open>Ds_Properties\<close> (C14 to C23): the tables
  stay valid, the handlers implement the abstract store, a number published by one process is what
  another one retrieves; and dangling buffers and a write past the end in error paths. Regular
  expressions, the heap and message transfer are parameters.

  \<^bold>\<open>Timers and scheduler.\<close> \<^verbatim>\<open>Tmr_Lib\<close> has the timer lists and the timers of a process on an explicit
  store of timers, \<^verbatim>\<open>Tmr_Queue\<close> their specification as ordered lists. \<^verbatim>\<open>Sched_Base\<close> has constants and
  kernel stubs, \<^verbatim>\<open>Sched_Server\<close> \<open>schedule.c\<close>, \<open>utility.c\<close> and \<open>main.c\<close>, \<^verbatim>\<open>Sched_Inv\<close> the invariant of
  the table, \<^verbatim>\<open>Sched_Policy\<close> what the handlers do to priorities. \<^verbatim>\<open>Sched_Properties\<close> (C24 to C29):
  timers run in order and the alarm is never late, the table stays valid, balancing brings back
  priorities, strangers change nothing; and a refused start blocks its slot.

  \<^bold>\<open>Kernel.\<close> \<^verbatim>\<open>Krn_Queue\<close> has the part of \<open>proc.c\<close> that keeps the run queues and picks a process,
  with \<open>sched_proc\<close> of \<open>system.c\<close> and the kernel calls \<open>do_schedule\<close> and \<open>do_schedctl\<close>;
  \<^verbatim>\<open>Krn_Check\<close> the queue check of \<open>debug.c\<close> and the load average of \<open>clock.c\<close>. \<^verbatim>\<open>Krn_Ready\<close> says what
  valid queues are: each list holds the runnable processes of its priority. \<^verbatim>\<open>Krn_Enqueue\<close>,
  \<^verbatim>\<open>Krn_Calls\<close> and \<^verbatim>\<open>Krn_Resched\<close> show what each operation does to these lists, \<^verbatim>\<open>Krn_Sane\<close> that the
  queue check decides their validity, and \<^verbatim>\<open>Krn_Run\<close> has the runs of the kernel as an inductive
  relation over events. \<^verbatim>\<open>Sched_Kernel\<close> replaces the kernel calls of the scheduler by those of the
  kernel model. \<^verbatim>\<open>Krn_Properties\<close> (C30 to C33): the queues are valid in every run, an urgent
  process runs, a used quantum lowers the queue; and the priority sixteen. It also shows that the
  queue check is exact, and the lost error code of \<open>do_schedctl\<close>. The kernel is configured for one processor.

  \<^bold>\<open>Message passing.\<close> \<^verbatim>\<open>Ipc_Base\<close> has the part of \<open>struct proc\<close> and \<open>struct priv\<close> that messages need,
  beside the kernel state of scheduling, and the macros of \<open>ipc.h\<close>, \<open>priv.h\<close> and \<open>proc.h\<close>.
  \<^verbatim>\<open>Ipc_Calls\<close> has the rest of \<open>proc.c\<close> (\<open>do_ipc\<close>, \<open>do_sync_ipc\<close>, \<open>deadlock\<close>, \<open>mini_send\<close>,
  \<open>mini_receive\<close>, \<open>mini_notify\<close>, \<open>mini_senda\<close> with \<open>try_one\<close> and \<open>cancel_async\<close>) and the signals,
  clean-up and send masks of \<open>system.c\<close>. \<^verbatim>\<open>Ipc_State\<close> says what scheduling does to the flags of a
  process; \<^verbatim>\<open>Ipc_View\<close> is the abstract view: who sends to and receives from whom, the relation of
  processes that wait for each other, and the queues of senders as lists. \<^verbatim>\<open>Ipc_Wait\<close> treats the
  deadlock check, \<^verbatim>\<open>Ipc_Calm\<close> the operations that can only wake processes, \<^verbatim>\<open>Ipc_Inv\<close> and
  \<^verbatim>\<open>Ipc_Recv\<close> the invariant of sending and receiving, and \<^verbatim>\<open>Ipc_Run\<close> the runs of the kernel as an
  inductive relation: traps of the current process, notifications, signals, other reasons to stop
  and resume a process, switches. \<^verbatim>\<open>Ipc_Transfer\<close> shows where messages go, \<^verbatim>\<open>Ipc_Faults\<close> two cases
  that the code does not provide for. \<^verbatim>\<open>Ipc_Properties\<close> (C34 to C40): no run has a cycle of waiting
  processes, the deadlock check is exact, messages reach a receiver that waits, and wait in order
  for one that does not; and a process that receives from itself, and a sender that was cancelled.
  The runs are those in which no process names itself in a call and no process ends: the last two
  properties show what happens otherwise. Copies between address spaces are parameters.

  \<^bold>\<open>Bounds.\<close> No definition has fuel. Loops return where a \<open>wp\<close> statement says so: directory scans on
  images whose chains end, list walks on chains (which are finite and without repetition), loops
  over tables by their size. Table sizes are those of the sources (256 process slots and 5 kernel
  tasks, 16 queues, the sizes of \<open>store.h\<close>). A process table of the kernel is a function from
  numbers of slots, of which the code uses those below the size of the table and one for the idle
  process.

  \<^bold>\<open>Not modelled.\<close> All kernel calls but the two of scheduling, the allocation of privilege
  structures, the way back to user mode, interrupt handling, virtual memory and the architecture
  code, which are assembly or work on page tables and devices; multiprocessor configurations of the kernel; the start-up
  library of servers (\<open>sef_local_startup\<close> only registers callbacks); the other servers, drivers,
  file systems, the network and the commands. The modelled servers see them only through messages
  and system calls, which are parameters with the laws that a statement needs as hypotheses.
\<close>

end
